(* ===== verification/Prelude.thy ===== *)
theory Prelude
  imports Main "HOL-Library.Word" "HOL-Library.Monad_Syntax"
begin

text \<open>
  Shared vocabulary of the development: the machine types of the C sources, the
  convention for undefined behaviour, and the generic facts on options, maps, lists
  and words that the component theories use.

  An operation of type \<open>'s \<Rightarrow> 's option\<close> returns \<open>None\<close> where the C code has
  undefined behaviour or does not return: a read through a null or dangling pointer,
  a read outside an array, a pointer loop that never reaches \<open>NULL\<close>. A theorem that an
  operation yields \<open>Some\<close> is therefore a memory-safety and termination statement.
\<close>

unbundle bit_operations_syntax

type_synonym u8 = "8 word"
type_synonym u16 = "16 word"
type_synonym u32 = "32 word"
type_synonym u64 = "64 word"

text \<open>Host pointers are numbers; \<open>0\<close> is \<open>NULL\<close>.\<close>

type_synonym addr = nat

abbreviation (input) NULL :: addr where "NULL \<equiv> 0"

named_theorems heap_simps \<open>reads and writes of the explicit object stores\<close>
named_theorems flag_simps \<open>evaluation of bit flags\<close>

subsection \<open>Options and maps\<close>

lemma bind_Some_iff: "Option.bind m f = Some r \<longleftrightarrow> (\<exists>x. m = Some x \<and> f x = Some r)"
  by (cases m) auto

lemma map_option_upd [heap_simps]:
  "(\<lambda>a. map_option f ((h(k \<mapsto> v)) a)) = (\<lambda>a. map_option f (h a))(k \<mapsto> f v)"
  by auto

subsection \<open>Lists\<close>

lemma list_update_id_same: "i < length xs \<Longrightarrow> xs ! i = x \<Longrightarrow> xs[i := x] = xs"
  by auto

lemma takeWhile_notin: "x \<notin> set xs \<Longrightarrow> takeWhile (\<lambda>y. y \<noteq> x) xs = xs"
  by (induction xs) auto

lemma split_at_first:
  assumes "x \<in> set xs"
  obtains ys zs where "xs = ys @ x # zs" "x \<notin> set ys"
  using assms by (meson split_list_first)

lemma takeWhile_split: "x \<notin> set ys \<Longrightarrow> takeWhile (\<lambda>y. y \<noteq> x) (ys @ x # zs) = ys"
  by (induction ys) auto

subsection \<open>Words\<close>

lemma word_and_not_or_same:
  fixes x :: "'a::len word"
  shows "((x AND NOT m) OR v) AND m = v AND m"
  by (rule bit_word_eqI) (auto simp: bit_and_iff bit_or_iff bit_not_iff)

subsection \<open>Byte strings\<close>

text \<open>A C string as its bytes, without the terminating zero.\<close>

definition bytes :: "string \<Rightarrow> u8 list" where
  "bytes cs = map of_char cs"

definition c_str :: "u8 list \<Rightarrow> u8 list" where
  "c_str bs = takeWhile (\<lambda>b. b \<noteq> 0) bs"

lemma c_str_terminated: "0 \<notin> set xs \<Longrightarrow> c_str (xs @ 0 # ys) = xs"
  unfolding c_str_def by (rule takeWhile_split)

text \<open>A 32-bit field in memory, least significant byte first.\<close>

definition le32 :: "u32 \<Rightarrow> u8 list" where
  "le32 v = [ucast v, ucast (drop_bit 8 v), ucast (drop_bit 16 v), ucast (drop_bit 24 v)]"

definition get_le32 :: "u8 list \<Rightarrow> nat \<Rightarrow> u32" where
  "get_le32 bs i =
     ucast (bs ! i) OR push_bit 8 (ucast (bs ! (i + 1))) OR
     push_bit 16 (ucast (bs ! (i + 2))) OR push_bit 24 (ucast (bs ! (i + 3)))"

lemma get_le32_le32: "get_le32 (pre @ le32 v @ post) (length pre) = v"
proof -
  have "bit (get_le32 (pre @ le32 v @ post) (length pre)) n = bit v n" if "n < 32" for n
  proof -
    consider "n < 8" | "8 \<le> n" "n < 16" | "16 \<le> n" "n < 24" | "24 \<le> n" by linarith
    then show ?thesis using that by cases (auto simp: get_le32_def le32_def bit_simps nth_append)
  qed
  then show ?thesis by (intro bit_word_eqI) simp
qed

lemma length_le32 [simp]: "length (le32 v) = 4"
  by (simp add: le32_def)

text \<open>\<open>memcpy\<close> into the middle of an array.\<close>

definition overwrite :: "'a list \<Rightarrow> nat \<Rightarrow> 'a list \<Rightarrow> 'a list" where
  "overwrite buf pos data = take pos buf @ data @ drop (pos + length data) buf"

lemma length_overwrite [simp]: "pos + length data \<le> length buf \<Longrightarrow> length (overwrite buf pos data) = length buf"
  by (simp add: overwrite_def)

lemma take_overwrite [simp]:
  "pos \<le> length buf \<Longrightarrow> take (pos + length data) (overwrite buf pos data) = take pos buf @ data"
  by (simp add: overwrite_def)

end
