(* ===== verification/LinkedList.thy ===== *)
theory LinkedList
  imports Prelude
begin

text \<open>
  Intrusive singly linked lists, as \<open>pipe.c\<close>, \<open>looper-generic.c\<close> and
  \<open>looper-qemu.c\<close> build them: objects live in a store \<open>addr \<rightharpoonup> 'n\<close>, one of their
  fields is the next pointer, and the code walks a list with a pointer to the link it
  is about to follow (\<open>Pipe **pnode\<close>). A \<open>slot\<close> is such a pointer to a link: the
  list head or the next field of a node. The traversal is the C loop itself; it is
  \<open>None\<close> where the C loop reads a freed node or does not end. The locale
  \<open>intrusive_list\<close> relates the store to the list of nodes it represents and is
  interpreted once for each link field of the program.
\<close>

datatype slot = SHead | SNext addr

definition slot_read :: "('n \<Rightarrow> addr) \<Rightarrow> (addr \<rightharpoonup> 'n) \<Rightarrow> addr \<Rightarrow> slot \<Rightarrow> addr option" where
  "slot_read g h hp s = (case s of SHead \<Rightarrow> Some hp | SNext a \<Rightarrow> map_option g (h a))"

definition slot_write ::
  "(addr \<Rightarrow> 'n \<Rightarrow> 'n) \<Rightarrow> slot \<Rightarrow> addr \<Rightarrow> (addr \<rightharpoonup> 'n) \<Rightarrow> addr \<Rightarrow> ((addr \<rightharpoonup> 'n) \<times> addr) option" where
  "slot_write u s v h hp =
     (case s of
        SHead \<Rightarrow> Some (h, v)
      | SNext a \<Rightarrow> (case h a of None \<Rightarrow> None | Some n \<Rightarrow> Some (h(a \<mapsto> u v n), hp)))"

text \<open>The loop \<open>for (;;) { node = *pnode; if (node == NULL || P(node)) break; pnode = &node->next; }\<close>.\<close>

partial_function (option) findp ::
  "('n \<Rightarrow> addr) \<Rightarrow> (addr \<rightharpoonup> bool) \<Rightarrow> (addr \<rightharpoonup> 'n) \<Rightarrow> addr \<Rightarrow> slot \<Rightarrow> slot option" where
  "findp g P h hp s =
     do { node \<leftarrow> slot_read g h hp s;
          if node = NULL then Some s
          else do { found \<leftarrow> P node;
                    if found then Some s else findp g P h hp (SNext node) } }"

declare findp.simps [code]

fun is_list :: "('n \<Rightarrow> addr) \<Rightarrow> (addr \<rightharpoonup> 'n) \<Rightarrow> addr \<Rightarrow> addr list \<Rightarrow> bool" where
  "is_list g h p [] = (p = NULL)"
| "is_list g h p (x # xs) =
     (p = x \<and> x \<noteq> NULL \<and> h x \<noteq> None \<and> is_list g h (g (the (h x))) xs)"

fun end_slot :: "slot \<Rightarrow> addr list \<Rightarrow> slot" where
  "end_slot s [] = s"
| "end_slot s (x # xs) = end_slot (SNext x) xs"

lemma slot_read_simps [simp]:
  "slot_read g h hp SHead = Some hp"
  "slot_read g h hp (SNext a) = map_option g (h a)"
  by (simp_all add: slot_read_def)

lemma slot_write_simps [simp]:
  "slot_write u SHead v h hp = Some (h, v)"
  "h a = Some n \<Longrightarrow> slot_write u (SNext a) v h hp = Some (h(a \<mapsto> u v n), hp)"
  by (simp_all add: slot_write_def)

lemma end_slot_snoc [simp]: "end_slot s (xs @ [x]) = SNext x"
  by (induction xs arbitrary: s) auto

subsection \<open>Represented lists\<close>

lemma is_list_unique: "is_list g h p xs \<Longrightarrow> is_list g h p ys \<Longrightarrow> xs = ys"
proof (induction xs arbitrary: p ys)
  case Nil
  then show ?case by (cases ys) auto
next
  case (Cons x xs)
  then show ?case by (cases ys) (auto split: option.splits)
qed

lemma is_list_nonnull: "is_list g h p xs \<Longrightarrow> x \<in> set xs \<Longrightarrow> x \<noteq> NULL \<and> h x \<noteq> None"
  by (induction xs arbitrary: p) (auto split: option.splits)

lemma is_list_live: "is_list g h p xs \<Longrightarrow> x \<in> set xs \<Longrightarrow> \<exists>n. h x = Some n"
  using is_list_nonnull by fastforce

lemma is_list_NULL_iff: "is_list g h p xs \<Longrightarrow> p = NULL \<longleftrightarrow> xs = []"
  by (cases xs) auto

lemma is_list_start: "is_list g h p xs \<Longrightarrow> is_list g' h' q xs \<Longrightarrow> p = q"
  by (cases xs) auto

lemma is_list_suffix: "is_list g h p (xs @ ys) \<Longrightarrow> \<exists>q. is_list g h q ys"
  by (induction xs arbitrary: p) (auto split: option.splits)

lemma is_list_distinct: "is_list g h p xs \<Longrightarrow> distinct xs"
proof (induction xs arbitrary: p)
  case (Cons x xs)
  then obtain n where n: "h x = Some n" "is_list g h (g n) xs" "x \<noteq> NULL"
    by (auto split: option.splits)
  have "x \<notin> set xs"
  proof
    assume "x \<in> set xs"
    then obtain ys zs where "xs = ys @ x # zs" by (auto dest: split_list)
    with n(2) obtain q where q: "is_list g h q (x # zs)" using is_list_suffix by blast
    from q n have "is_list g h x (x # zs)" "is_list g h x (x # xs)" by auto
    then have "x # zs = x # xs" by (rule is_list_unique)
    with \<open>xs = ys @ x # zs\<close> show False by simp
  qed
  with n Cons.IH show ?case by auto
qed simp

lemma is_list_frame:
  "is_list g h p xs \<Longrightarrow> (\<And>x. x \<in> set xs \<Longrightarrow> map_option g (h' x) = map_option g (h x)) \<Longrightarrow>
   is_list g h' p xs"
proof (induction xs arbitrary: p)
  case (Cons x xs)
  then obtain n where n: "h x = Some n" "is_list g h (g n) xs" by (auto split: option.splits)
  from Cons.prems(2) [of x] n obtain n' where n': "h' x = Some n'" "g n' = g n" by auto
  from Cons.IH [OF n(2)] Cons.prems(2) have "is_list g h' (g n) xs" by auto
  with n' Cons.prems(1) show ?case by auto
qed simp

lemma is_list_upd_same:
  "is_list g h p xs \<Longrightarrow> h a = Some n \<Longrightarrow> g n' = g n \<Longrightarrow> is_list g (h(a \<mapsto> n')) p xs"
  by (erule is_list_frame) auto

lemma is_list_upd_notin: "is_list g h p xs \<Longrightarrow> a \<notin> set xs \<Longrightarrow> is_list g (h(a := v)) p xs"
  by (erule is_list_frame) auto

lemma is_list_upd_head:
  "is_list g (h(x \<mapsto> n)) p (x # xs) \<longleftrightarrow> p = x \<and> x \<noteq> NULL \<and> is_list g (h(x \<mapsto> n)) (g n) xs"
  by simp

text \<open>The part of a list seen from a slot inside it.\<close>

lemma slot_read_end:
  "is_list g h p (xs @ ys) \<Longrightarrow> slot_read g h hp s = Some p \<Longrightarrow>
   \<exists>q. slot_read g h hp (end_slot s xs) = Some q \<and> is_list g h q ys"
proof (induction xs arbitrary: p s)
  case (Cons x xs)
  then obtain n where "h x = Some n" "is_list g h (g n) (xs @ ys)" by (auto split: option.splits)
  with Cons.IH [of "g n" "SNext x"] show ?case by auto
qed auto

lemma findp_end:
  assumes "is_list g h p (xs @ ys)" and "slot_read g h hp s = Some p"
    and "\<And>x. x \<in> set xs \<Longrightarrow> P x = Some False"
    and "ys = [] \<or> P (hd ys) = Some True"
  shows "findp g P h hp s = Some (end_slot s xs)"
  using assms
proof (induction xs arbitrary: p s)
  case Nil
  then show ?case by (cases ys) (auto simp: findp.simps [of g P h hp s])
next
  case (Cons x xs)
  from Cons.prems(1) obtain n where n: "h x = Some n" "p = x" "x \<noteq> NULL" "is_list g h (g n) (xs @ ys)"
    by auto
  have "findp g P h hp (SNext x) = Some (end_slot (SNext x) xs)"
    using Cons.IH [OF n(4), of "SNext x"] Cons.prems(3,4) n by auto
  then show ?case
    using n Cons.prems(2,3) by (auto simp: findp.simps [of g P h hp s])
qed

lemma findp_absent:
  "is_list g h hp xs \<Longrightarrow> (\<And>x. x \<in> set xs \<Longrightarrow> P x = Some False) \<Longrightarrow>
   findp g P h hp SHead = Some (end_slot SHead xs)"
  by (rule findp_end [of _ _ _ xs "[]"]) auto

lemma findp_present:
  "is_list g h hp (xs @ y # zs) \<Longrightarrow> (\<And>x. x \<in> set xs \<Longrightarrow> P x = Some False) \<Longrightarrow> P y = Some True \<Longrightarrow>
   findp g P h hp SHead = Some (end_slot SHead xs)"
  by (rule findp_end [of _ _ _ xs "y # zs"]) auto

lemma slot_read_absent: "is_list g h hp xs \<Longrightarrow> slot_read g h hp (end_slot SHead xs) = Some NULL"
  using slot_read_end [of g h hp xs "[]" hp SHead] by auto

lemma slot_read_present:
  "is_list g h hp (xs @ y # zs) \<Longrightarrow> slot_read g h hp (end_slot SHead xs) = Some y"
  using slot_read_end [of g h hp xs "y # zs" hp SHead] by auto

lemma end_slot_last: "xs \<noteq> [] \<Longrightarrow> end_slot s xs = SNext (last xs)"
  by (metis append_butlast_last_id end_slot_snoc)

text \<open>Searching a list for a given node.\<close>

lemma findp_pointer:
  assumes "is_list g h hp xs"
  shows "a \<in> set xs \<Longrightarrow> \<exists>ys zs. xs = ys @ a # zs \<and> a \<notin> set ys \<and>
      findp g (\<lambda>x. Some (x = a)) h hp SHead = Some (end_slot SHead ys) \<and>
      slot_read g h hp (end_slot SHead ys) = Some a"
    and "a \<notin> set xs \<Longrightarrow> \<exists>s. findp g (\<lambda>x. Some (x = a)) h hp SHead = Some s \<and> slot_read g h hp s = Some NULL"
proof -
  show "\<exists>ys zs. xs = ys @ a # zs \<and> a \<notin> set ys \<and> findp g (\<lambda>x. Some (x = a)) h hp SHead = Some (end_slot SHead ys) \<and>
      slot_read g h hp (end_slot SHead ys) = Some a" if "a \<in> set xs"
  proof -
    from that obtain ys zs where xs: "xs = ys @ a # zs" "a \<notin> set ys" by (rule split_at_first)
    with assms have "findp g (\<lambda>x. Some (x = a)) h hp SHead = Some (end_slot SHead ys)"
      by (intro findp_present [of _ _ _ ys a zs]) auto
    with xs slot_read_present assms show ?thesis by blast
  qed
  show "\<exists>s. findp g (\<lambda>x. Some (x = a)) h hp SHead = Some s \<and> slot_read g h hp s = Some NULL" if "a \<notin> set xs"
  proof -
    have "findp g (\<lambda>x. Some (x = a)) h hp SHead = Some (end_slot SHead xs)"
      by (rule findp_absent [OF assms]) (use that in auto)
    with slot_read_absent [OF assms] show ?thesis by blast
  qed
qed

subsection \<open>Writes through a slot\<close>

lemma slot_write_frame:
  "slot_write u s v h hp = Some (h', hp') \<Longrightarrow> (\<And>w n. f (u w n) = f n) \<Longrightarrow>
   map_option f (h' a) = map_option f (h a)"
  by (auto simp: slot_write_def split: slot.splits option.splits)

lemma slot_write_dom: "slot_write u s v h hp = Some (h', hp') \<Longrightarrow> dom h' = dom h"
  by (auto simp: slot_write_def split: slot.splits option.splits if_splits)

lemma slot_write_other:
  "slot_write u s v h hp = Some (h', hp') \<Longrightarrow> s \<noteq> SNext a \<Longrightarrow> h' a = h a"
  by (auto simp: slot_write_def split: slot.splits option.splits)

lemma slot_write_end_defined:
  "is_list g h hp (xs @ ys) \<Longrightarrow> \<exists>h' hp'. slot_write u (end_slot SHead xs) v h hp = Some (h', hp')"
proof (cases "xs = []")
  case False
  assume l: "is_list g h hp (xs @ ys)"
  from False have "last xs \<in> set (xs @ ys)" by simp
  with l obtain n where "h (last xs) = Some n" using is_list_live by blast
  with False show ?thesis by (simp add: end_slot_last)
qed simp

locale intrusive_list =
  fixes g :: "'n \<Rightarrow> addr" and u :: "addr \<Rightarrow> 'n \<Rightarrow> 'n"
  assumes get_set: "g (u v n) = v"
begin

text \<open>Replacing the tail of a list after its last kept node.\<close>

lemma splice:
  assumes "is_list g h p (xs @ ys)" and "xs \<noteq> []" and "h (last xs) = Some n"
    and "is_list g h q ws" and "last xs \<notin> set ws" and "h' = h(last xs \<mapsto> u q n)"
  shows "is_list g h' p (xs @ ws)"
  using assms
proof (induction xs arbitrary: p)
  case (Cons x xs)
  show ?case
  proof (cases "xs = []")
    case True
    then have last: "last (x # xs) = x" by simp
    have h': "h' = h(x \<mapsto> u q n)" using Cons.prems(6) unfolding last .
    have "is_list g h' q ws"
      unfolding h' by (rule is_list_upd_notin [OF Cons.prems(4)]) (use Cons.prems(5) last in simp)
    moreover have "h' x = Some (u q n)" by (simp add: h')
    ultimately show ?thesis using True Cons.prems(1) by (simp add: get_set)
  next
    case False
    from Cons.prems(1) have "distinct (x # xs @ ys)" using is_list_distinct by fastforce
    with False have ne: "x \<noteq> last xs" by auto
    from Cons.prems(1) obtain m where m: "h x = Some m" "is_list g h (g m) (xs @ ys)" by auto
    from Cons.IH [OF m(2) False] Cons.prems False have "is_list g h' (g m) (xs @ ws)" by simp
    with ne m(1) False Cons.prems show ?thesis by simp
  qed
qed simp

lemma slot_write_splice:
  assumes "is_list g h hp (xs @ ys)" and "is_list g h q ws"
    and "xs = [] \<or> last xs \<notin> set ws"
    and "slot_write u (end_slot SHead xs) q h hp = Some (h', hp')"
  shows "is_list g h' hp' (xs @ ws)"
proof (cases "xs = []")
  case True
  with assms show ?thesis by simp
next
  case False
  then have "last xs \<in> set (xs @ ys)" by simp
  with assms(1) obtain n where n: "h (last xs) = Some n" using is_list_live by blast
  with False assms(4) have "h' = h(last xs \<mapsto> u q n)" "hp' = hp" by (auto simp: end_slot_last)
  moreover from False assms(3) have "last xs \<notin> set ws" by simp
  ultimately show ?thesis using splice [OF assms(1) False n assms(2)] by blast
qed

text \<open>Unlinking the node a slot points to.\<close>

lemma unlink:
  assumes "is_list g h hp (xs @ y # zs)" and "h y = Some n"
    and "slot_write u (end_slot SHead xs) (g n) h hp = Some (h', hp')"
  shows "is_list g h' hp' (xs @ zs)"
proof (rule slot_write_splice [OF assms(1) _ _ assms(3)])
  from slot_read_end [OF assms(1), of hp SHead] assms(2) show "is_list g h (g n) zs"
    by (auto split: option.splits)
  from is_list_distinct [OF assms(1)] show "xs = [] \<or> last xs \<notin> set zs"
    by (cases xs rule: rev_cases) auto
qed

text \<open>Linking a fresh node in front of the node a slot points to.\<close>

lemma link:
  assumes "is_list g h hp (xs @ zs)" and "slot_read g h hp (end_slot SHead xs) = Some q"
    and "y \<notin> set (xs @ zs)" and "y \<noteq> NULL" and "g m = q"
    and "slot_write u (end_slot SHead xs) y (h(y \<mapsto> m)) hp = Some (h', hp')"
  shows "is_list g h' hp' (xs @ y # zs)"
proof (rule slot_write_splice [OF _ _ _ assms(6)])
  from assms(1,3) show "is_list g (h(y \<mapsto> m)) hp (xs @ zs)" by (simp add: is_list_upd_notin)
  from slot_read_end [OF assms(1), of hp SHead] assms(2) have "is_list g h q zs" by simp
  with assms(3-5) show "is_list g (h(y \<mapsto> m)) y (y # zs)" by (simp add: is_list_upd_notin)
  from is_list_distinct [OF assms(1)] assms(3) show "xs = [] \<or> last xs \<notin> set (y # zs)"
    by (cases xs rule: rev_cases) auto
qed

text \<open>Removing a given node: search, unlink, and clear its own link; other fields \<open>f\<close> are kept.\<close>

lemma remove_node:
  assumes l: "is_list g h hp xs" and a: "a \<in> set xs" and f: "\<And>w n. f (u w n) = f n"
  obtains pnode n h1 hp1 n1 where "findp g (\<lambda>x. Some (x = a)) h hp SHead = Some pnode"
    and "slot_read g h hp pnode = Some a" and "h a = Some n"
    and "slot_write u pnode (g n) h hp = Some (h1, hp1)" and "h1 a = Some n1"
    and "is_list g (h1(a \<mapsto> u NULL n1)) hp1 (remove1 a xs)"
    and "\<And>b. map_option f ((h1(a \<mapsto> u NULL n1)) b) = map_option f (h b)"
proof -
  obtain ys zs where ys: "xs = ys @ a # zs" "a \<notin> set ys"
      "findp g (\<lambda>x. Some (x = a)) h hp SHead = Some (end_slot SHead ys)"
      "slot_read g h hp (end_slot SHead ys) = Some a"
    using findp_pointer(1) [OF l a] by blast
  from l a obtain n where n: "h a = Some n" using is_list_live by blast
  from l ys(1) have l': "is_list g h hp (ys @ a # zs)" by simp
  then obtain h1 hp1 where w: "slot_write u (end_slot SHead ys) (g n) h hp = Some (h1, hp1)"
    using slot_write_end_defined by blast
  have fr: "map_option f (h1 b) = map_option f (h b)" for b
    by (rule slot_write_frame [where f = f, OF w]) (rule f)
  from fr [of a] n obtain n1 where n1: "h1 a = Some n1" by auto
  have "a \<notin> set (ys @ zs)" using is_list_distinct [OF l'] by simp
  with unlink [OF l' n w] have "is_list g (h1(a \<mapsto> u NULL n1)) hp1 (remove1 a xs)"
    using ys(1,2) by (simp add: remove1_append is_list_upd_notin)
  moreover have "map_option f ((h1(a \<mapsto> u NULL n1)) b) = map_option f (h b)" for b
    using fr [of b] n1 f by auto
  ultimately show ?thesis by (rule that [OF ys(3,4) n w n1])
qed

end

end
