(* ===== verification/PipeDevice.thy ===== *)
theory PipeDevice
  imports LinkedList
begin

text \<open>
  The emulated pipe device, \<open>host-qemu/hw/android/pipe.c\<close> with
  \<open>include/hw/android/pipe.h\<close>: the registered services, the pipes and their two
  intrusive lists (all open pipes, and the pipes with a pending wake event), the
  connector that every new pipe starts with, the register file and the command
  interpreter. Pipes and connectors live in explicit stores, so freeing an object is
  visible and a use after free is \<open>None\<close>.

  The service callbacks work on a backend state of type \<open>'w\<close>; they are the
  \<open>GoldfishPipeFuncs\<close> of the service. Physical memory (\<open>exec.c\<close>) is the parameter
  \<open>phys_mem\<close>; the addresses \<open>g_malloc0\<close> returns are arguments of the operations that
  allocate.
\<close>

subsection \<open>Registers, commands, status codes (\<open>pipe.h\<close>)\<close>

abbreviation (input) PIPE_REG_COMMAND :: u64 where "PIPE_REG_COMMAND \<equiv> 0x00"
abbreviation (input) PIPE_REG_STATUS :: u64 where "PIPE_REG_STATUS \<equiv> 0x04"
abbreviation (input) PIPE_REG_CHANNEL :: u64 where "PIPE_REG_CHANNEL \<equiv> 0x08"
abbreviation (input) PIPE_REG_SIZE :: u64 where "PIPE_REG_SIZE \<equiv> 0x0c"
abbreviation (input) PIPE_REG_ADDRESS :: u64 where "PIPE_REG_ADDRESS \<equiv> 0x10"
abbreviation (input) PIPE_REG_WAKES :: u64 where "PIPE_REG_WAKES \<equiv> 0x14"
abbreviation (input) PIPE_REG_PARAMS_ADDR_LOW :: u64 where "PIPE_REG_PARAMS_ADDR_LOW \<equiv> 0x18"
abbreviation (input) PIPE_REG_PARAMS_ADDR_HIGH :: u64 where "PIPE_REG_PARAMS_ADDR_HIGH \<equiv> 0x1c"
abbreviation (input) PIPE_REG_ACCESS_PARAMS :: u64 where "PIPE_REG_ACCESS_PARAMS \<equiv> 0x20"
abbreviation (input) PIPE_REG_VERSION :: u64 where "PIPE_REG_VERSION \<equiv> 0x24"
abbreviation (input) PIPE_REG_CHANNEL_HIGH :: u64 where "PIPE_REG_CHANNEL_HIGH \<equiv> 0x30"
abbreviation (input) PIPE_REG_ADDRESS_HIGH :: u64 where "PIPE_REG_ADDRESS_HIGH \<equiv> 0x34"

abbreviation (input) PIPE_CMD_OPEN :: u32 where "PIPE_CMD_OPEN \<equiv> 1"
abbreviation (input) PIPE_CMD_CLOSE :: u32 where "PIPE_CMD_CLOSE \<equiv> 2"
abbreviation (input) PIPE_CMD_POLL :: u32 where "PIPE_CMD_POLL \<equiv> 3"
abbreviation (input) PIPE_CMD_WRITE_BUFFER :: u32 where "PIPE_CMD_WRITE_BUFFER \<equiv> 4"
abbreviation (input) PIPE_CMD_WAKE_ON_WRITE :: u32 where "PIPE_CMD_WAKE_ON_WRITE \<equiv> 5"
abbreviation (input) PIPE_CMD_READ_BUFFER :: u32 where "PIPE_CMD_READ_BUFFER \<equiv> 6"
abbreviation (input) PIPE_CMD_WAKE_ON_READ :: u32 where "PIPE_CMD_WAKE_ON_READ \<equiv> 7"

abbreviation (input) PIPE_POLL_IN :: u32 where "PIPE_POLL_IN \<equiv> 1"
abbreviation (input) PIPE_POLL_OUT :: u32 where "PIPE_POLL_OUT \<equiv> 2"
abbreviation (input) PIPE_POLL_HUP :: u32 where "PIPE_POLL_HUP \<equiv> 4"

abbreviation (input) PIPE_ERROR_INVAL :: u32 where "PIPE_ERROR_INVAL \<equiv> - 1"
abbreviation (input) PIPE_ERROR_AGAIN :: u32 where "PIPE_ERROR_AGAIN \<equiv> - 2"
abbreviation (input) PIPE_ERROR_NOMEM :: u32 where "PIPE_ERROR_NOMEM \<equiv> - 3"
abbreviation (input) PIPE_ERROR_IO :: u32 where "PIPE_ERROR_IO \<equiv> - 4"

abbreviation (input) PIPE_WAKE_CLOSED :: u32 where "PIPE_WAKE_CLOSED \<equiv> 1"
abbreviation (input) PIPE_WAKE_READ :: u32 where "PIPE_WAKE_READ \<equiv> 2"
abbreviation (input) PIPE_WAKE_WRITE :: u32 where "PIPE_WAKE_WRITE \<equiv> 4"

subsection \<open>Data\<close>

text \<open>The callback table of a service; a status is the bit pattern of a C \<open>int\<close>.\<close>

record 'w GoldfishPipeFuncs =
  f_init :: "addr \<Rightarrow> addr \<Rightarrow> u8 list option \<Rightarrow> 'w \<Rightarrow> ('w \<times> addr) option"
  f_close :: "(addr \<Rightarrow> 'w \<Rightarrow> 'w option) option"
  f_sendBuffers :: "addr \<Rightarrow> u8 list list \<Rightarrow> 'w \<Rightarrow> ('w \<times> u32) option"
  f_recvBuffers :: "addr \<Rightarrow> nat list \<Rightarrow> 'w \<Rightarrow> ('w \<times> u8 list list \<times> u32) option"
  f_poll :: "addr \<Rightarrow> 'w \<Rightarrow> u32 option"
  f_wakeOn :: "addr \<Rightarrow> u32 \<Rightarrow> 'w \<Rightarrow> 'w option"

record 'w PipeService =
  svc_name :: "u8 list"
  svc_opaque :: addr
  svc_funcs :: "'w GoldfishPipeFuncs"

text \<open>\<open>pipe->funcs\<close> points to the connector's table or into a registered service.\<close>

datatype funcs_ptr = ConnectorFuncs | ServiceFuncs nat

record Pipe =
  p_next :: addr
  p_next_waked :: addr
  p_channel :: u64
  p_opaque :: addr
  p_funcs :: funcs_ptr
  p_service :: "nat option"
  p_args :: "u8 list option"
  p_wanted :: u8
  p_closed :: bool

record PipeConnector =
  pc_pipe :: addr
  pc_buffer :: "u8 list"
  pc_buffpos :: nat

record PipeDevice =
  pd_irq :: bool
  pd_pipes :: addr
  pd_signaled_pipes :: addr
  pd_address :: u64
  pd_size :: u32
  pd_status :: u32
  pd_channel :: u64
  pd_wakes :: u32
  pd_params_addr :: u64

text \<open>The device together with the objects it owns, the service table, guest RAM and the backend.\<close>

record 'w pipe_sys = PipeDevice +
  ps_pipe :: "addr \<rightharpoonup> Pipe"
  ps_conn :: "addr \<rightharpoonup> PipeConnector"
  ps_services :: "'w PipeService list"
  ps_ram :: "u64 \<Rightarrow> u8"
  ps_world :: 'w

text \<open>
  Physical memory as \<open>exec.c\<close> offers it: \<open>pm_ram_ptr\<close> is
  \<open>qemu_get_ram_ptr(addr1 + memory_region_get_ram_addr(mr))\<close> after
  \<open>address_space_translate\<close>, as an offset into guest RAM; \<open>pm_read\<close> and \<open>pm_write\<close> are
  \<open>cpu_physical_memory_read\<close> and \<open>cpu_physical_memory_write\<close>.
\<close>

record phys_mem =
  pm_ram_ptr :: "u64 \<Rightarrow> u32 \<Rightarrow> bool \<Rightarrow> u64"
  pm_read :: "u64 \<Rightarrow> nat \<Rightarrow> (u64 \<Rightarrow> u8) \<Rightarrow> u8 list"
  pm_write :: "u64 \<Rightarrow> u8 list \<Rightarrow> (u64 \<Rightarrow> u8) \<Rightarrow> (u64 \<Rightarrow> u8)"

definition ram_load :: "(u64 \<Rightarrow> u8) \<Rightarrow> u64 \<Rightarrow> nat \<Rightarrow> u8 list" where
  "ram_load ram p n = map (\<lambda>i. ram (p + of_nat i)) [0..<n]"

fun ram_store :: "(u64 \<Rightarrow> u8) \<Rightarrow> u64 \<Rightarrow> u8 list \<Rightarrow> (u64 \<Rightarrow> u8)" where
  "ram_store ram p [] = ram"
| "ram_store ram p (b # bs) = ram_store (ram(p := b)) (p + 1) bs"

subsection \<open>Address halves\<close>

definition uint64_set_low :: "u64 \<Rightarrow> u32 \<Rightarrow> u64" where
  "uint64_set_low a v = (a AND NOT 0xFFFFFFFF) OR ucast v"

definition uint64_set_high :: "u64 \<Rightarrow> u32 \<Rightarrow> u64" where
  "uint64_set_high a v = (a AND 0xFFFFFFFF) OR push_bit 32 (ucast v)"

definition qemu_guest_is_64bit :: bool where
  "qemu_guest_is_64bit = False"

subsection \<open>Service table\<close>

abbreviation (input) MAX_PIPE_SERVICES :: nat where "MAX_PIPE_SERVICES \<equiv> 8"
abbreviation (input) MAX_PIPE_SERVICE_NAME_SIZE :: nat where "MAX_PIPE_SERVICE_NAME_SIZE \<equiv> 255"

definition qemu_pipe_add_type ::
  "u8 list \<Rightarrow> addr \<Rightarrow> 'w GoldfishPipeFuncs \<Rightarrow> 'w PipeService list \<Rightarrow> 'w PipeService list" where
  "qemu_pipe_add_type name opq funcs l =
     (if length l \<ge> MAX_PIPE_SERVICES then l
      else if length name > MAX_PIPE_SERVICE_NAME_SIZE then l
      else l @ [\<lparr>svc_name = name, svc_opaque = opq, svc_funcs = funcs\<rparr>])"

fun find_type_from :: "u8 list \<Rightarrow> 'w PipeService list \<Rightarrow> nat \<Rightarrow> nat option" where
  "find_type_from name [] nn = None"
| "find_type_from name (svc # rest) nn =
     (if svc_name svc = name then Some nn else find_type_from name rest (Suc nn))"

definition qemu_pipe_find_type :: "u8 list \<Rightarrow> 'w PipeService list \<Rightarrow> nat option" where
  "qemu_pipe_find_type name l = find_type_from name l 0"

subsection \<open>Pipes and their lists\<close>

definition pipe_new0 :: Pipe where
  "pipe_new0 = \<lparr>p_next = NULL, p_next_waked = NULL, p_channel = 0, p_opaque = NULL,
     p_funcs = ConnectorFuncs, p_service = None, p_args = None, p_wanted = 0, p_closed = False\<rparr>"

text \<open>\<open>pipeConnector_new\<close>: the connector object and the \<open>funcs\<close> field it sets in the pipe.\<close>

definition pipeConnector_new :: "addr \<Rightarrow> Pipe \<Rightarrow> PipeConnector \<times> Pipe" where
  "pipeConnector_new pipe p =
     (\<lparr>pc_pipe = pipe, pc_buffer = replicate 128 0, pc_buffpos = 0\<rparr>, p\<lparr>p_funcs := ConnectorFuncs\<rparr>)"

definition pipe_new :: "u64 \<Rightarrow> addr \<Rightarrow> addr \<Rightarrow> 'w pipe_sys \<Rightarrow> 'w pipe_sys" where
  "pipe_new channel pipe pcon s =
     (let (c, p) = pipeConnector_new pipe (pipe_new0\<lparr>p_channel := channel\<rparr>)
      in s\<lparr>ps_conn := (ps_conn s)(pcon \<mapsto> c),
           ps_pipe := (ps_pipe s)(pipe \<mapsto> p\<lparr>p_opaque := pcon\<rparr>)\<rparr>)"

definition pipe_list_findp_channel :: "'w pipe_sys \<Rightarrow> u64 \<Rightarrow> slot option" where
  "pipe_list_findp_channel s channel =
     findp p_next (\<lambda>a. map_option (\<lambda>p. p_channel p = channel) (ps_pipe s a))
       (ps_pipe s) (pd_pipes s) SHead"

definition pipe_list_findp_waked :: "'w pipe_sys \<Rightarrow> addr \<Rightarrow> slot option" where
  "pipe_list_findp_waked s pipe =
     findp p_next_waked (\<lambda>a. Some (a = pipe)) (ps_pipe s) (pd_signaled_pipes s) SHead"

definition set_next :: "addr \<Rightarrow> Pipe \<Rightarrow> Pipe" where
  "set_next v p = p\<lparr>p_next := v\<rparr>"

definition set_next_waked :: "addr \<Rightarrow> Pipe \<Rightarrow> Pipe" where
  "set_next_waked v p = p\<lparr>p_next_waked := v\<rparr>"

definition pipe_list_remove_waked :: "'w pipe_sys \<Rightarrow> addr \<Rightarrow> 'w pipe_sys option" where
  "pipe_list_remove_waked s pipe =
     do { lookup \<leftarrow> pipe_list_findp_waked s pipe;
          node \<leftarrow> slot_read p_next_waked (ps_pipe s) (pd_signaled_pipes s) lookup;
          if node \<noteq> NULL then
            do { n \<leftarrow> ps_pipe s node;
                 (h, hp) \<leftarrow> slot_write set_next_waked lookup (p_next_waked n)
                              (ps_pipe s) (pd_signaled_pipes s);
                 n' \<leftarrow> h node;
                 Some (s\<lparr>ps_pipe := h(node \<mapsto> set_next_waked NULL n'), pd_signaled_pipes := hp\<rparr>) }
          else Some s }"

subsection \<open>The connector\<close>

definition pipeConnector_close :: "addr \<Rightarrow> 'w pipe_sys \<Rightarrow> 'w pipe_sys option" where
  "pipeConnector_close pcon s =
     (if pcon = NULL then Some s
      else case ps_conn s pcon of
             None \<Rightarrow> None
           | Some _ \<Rightarrow> Some (s\<lparr>ps_conn := (ps_conn s)(pcon := None)\<rparr>))"

text \<open>The copy loop of \<open>pipeConnector_sendBuffers\<close> (buffer, position, byte count).\<close>

fun connector_copy :: "u8 list \<Rightarrow> nat \<Rightarrow> nat \<Rightarrow> u8 list list \<Rightarrow> u8 list \<times> nat \<times> nat" where
  "connector_copy buf pos ret [] = (buf, pos, ret)"
| "connector_copy buf pos ret (b # bs) =
     (if length b = 0 then connector_copy buf pos ret bs
      else let avail = min (128 - pos) (length b)
           in if avail > 0
              then connector_copy (overwrite buf pos (take avail b)) (pos + avail) (ret + avail) bs
              else connector_copy buf pos ret bs)"

text \<open>
  The name and arguments of a connection string, the bytes after \<open>pipe:\<close>: \<open>strchr\<close> for
  the colon, which the code overwrites by a zero; empty arguments count as none.
\<close>

definition connector_split :: "u8 list \<Rightarrow> u8 list \<times> u8 list option \<times> nat option" where
  "connector_split str =
     (let name = takeWhile (\<lambda>b. b \<noteq> of_char CHR '':'') str
      in if length name = length str then (name, None, None)
         else let args = drop (Suc (length name)) str
              in (name, if args = [] then None else Some args, Some (length name)))"

definition pipeConnector_sendBuffers ::
  "addr \<Rightarrow> u8 list list \<Rightarrow> 'w pipe_sys \<Rightarrow> ('w pipe_sys \<times> u32) option" where
  "pipeConnector_sendBuffers opq buffers s =
     do { pcon \<leftarrow> ps_conn s opq;
          let (buf, pos, ret) = connector_copy (pc_buffer pcon) (pc_buffpos pcon) 0 buffers;
          let s1 = s\<lparr>ps_conn := (ps_conn s)(opq \<mapsto> pcon\<lparr>pc_buffer := buf, pc_buffpos := pos\<rparr>)\<rparr>;
          if 0 \<in> set (take pos buf) then
            if take 5 buf \<noteq> bytes ''pipe:'' then Some (s1, PIPE_ERROR_INVAL)
            else do {
              let (name, args, colon) = connector_split (c_str (drop 5 buf));
              let buf' = (case colon of None \<Rightarrow> buf | Some i \<Rightarrow> buf[5 + i := 0]);
              let s2 = s\<lparr>ps_conn := (ps_conn s)(opq \<mapsto> pcon\<lparr>pc_buffer := buf', pc_buffpos := pos\<rparr>)\<rparr>;
              case qemu_pipe_find_type name (ps_services s2) of
                None \<Rightarrow> Some (s2, PIPE_ERROR_INVAL)
              | Some i \<Rightarrow>
                  do { let svc = ps_services s2 ! i;
                       (w, peer) \<leftarrow> f_init (svc_funcs svc) (pc_pipe pcon) (svc_opaque svc) args (ps_world s2);
                       let s3 = s2\<lparr>ps_world := w\<rparr>;
                       if peer = NULL then Some (s3, PIPE_ERROR_INVAL)
                       else do {
                         p \<leftarrow> ps_pipe s3 (pc_pipe pcon);
                         Some (s3\<lparr>ps_pipe := (ps_pipe s3)(pc_pipe pcon \<mapsto>
                                    p\<lparr>p_opaque := peer, p_service := Some i,
                                      p_funcs := ServiceFuncs i, p_args := args\<rparr>),
                                  ps_conn := (ps_conn s3)(opq := None)\<rparr>, of_nat ret) } } }
          else Some (s1, of_nat ret) }"

definition pipeConnector_recvBuffers :: "addr \<Rightarrow> nat list \<Rightarrow> u8 list list \<times> u32" where
  "pipeConnector_recvBuffers opq sizes = (map (\<lambda>_. []) sizes, PIPE_ERROR_IO)"

definition pipeConnector_poll :: "addr \<Rightarrow> u32" where
  "pipeConnector_poll opq = PIPE_POLL_OUT"

definition pipeConnector_wakeOn :: "addr \<Rightarrow> u32 \<Rightarrow> 'w pipe_sys \<Rightarrow> 'w pipe_sys" where
  "pipeConnector_wakeOn opq flags s = s"

subsection \<open>Calls through \<open>pipe->funcs\<close>\<close>

definition service_at :: "'w pipe_sys \<Rightarrow> nat \<Rightarrow> 'w PipeService option" where
  "service_at s i = (if i < length (ps_services s) then Some (ps_services s ! i) else None)"

definition call_sendBuffers ::
  "Pipe \<Rightarrow> u8 list list \<Rightarrow> 'w pipe_sys \<Rightarrow> ('w pipe_sys \<times> u32) option" where
  "call_sendBuffers p buffers s =
     (case p_funcs p of
        ConnectorFuncs \<Rightarrow> pipeConnector_sendBuffers (p_opaque p) buffers s
      | ServiceFuncs i \<Rightarrow>
          do { svc \<leftarrow> service_at s i;
               (w, r) \<leftarrow> f_sendBuffers (svc_funcs svc) (p_opaque p) buffers (ps_world s);
               Some (s\<lparr>ps_world := w\<rparr>, r) })"

definition call_recvBuffers ::
  "Pipe \<Rightarrow> nat list \<Rightarrow> 'w pipe_sys \<Rightarrow> ('w pipe_sys \<times> u8 list list \<times> u32) option" where
  "call_recvBuffers p sizes s =
     (case p_funcs p of
        ConnectorFuncs \<Rightarrow> Some (s, pipeConnector_recvBuffers (p_opaque p) sizes)
      | ServiceFuncs i \<Rightarrow>
          do { svc \<leftarrow> service_at s i;
               (w, out, r) \<leftarrow> f_recvBuffers (svc_funcs svc) (p_opaque p) sizes (ps_world s);
               Some (s\<lparr>ps_world := w\<rparr>, out, r) })"

definition call_poll :: "Pipe \<Rightarrow> 'w pipe_sys \<Rightarrow> u32 option" where
  "call_poll p s =
     (case p_funcs p of
        ConnectorFuncs \<Rightarrow> Some (pipeConnector_poll (p_opaque p))
      | ServiceFuncs i \<Rightarrow>
          do { svc \<leftarrow> service_at s i; f_poll (svc_funcs svc) (p_opaque p) (ps_world s) })"

definition call_wakeOn :: "Pipe \<Rightarrow> u32 \<Rightarrow> 'w pipe_sys \<Rightarrow> 'w pipe_sys option" where
  "call_wakeOn p flags s =
     (case p_funcs p of
        ConnectorFuncs \<Rightarrow> Some (pipeConnector_wakeOn (p_opaque p) flags s)
      | ServiceFuncs i \<Rightarrow>
          do { svc \<leftarrow> service_at s i;
               w \<leftarrow> f_wakeOn (svc_funcs svc) (p_opaque p) flags (ps_world s);
               Some (s\<lparr>ps_world := w\<rparr>) })"

definition call_close :: "Pipe \<Rightarrow> 'w pipe_sys \<Rightarrow> 'w pipe_sys option" where
  "call_close p s =
     (case p_funcs p of
        ConnectorFuncs \<Rightarrow> pipeConnector_close (p_opaque p) s
      | ServiceFuncs i \<Rightarrow>
          do { svc \<leftarrow> service_at s i;
               case f_close (svc_funcs svc) of
                 None \<Rightarrow> Some s
               | Some close \<Rightarrow>
                   do { w \<leftarrow> close (p_opaque p) (ps_world s); Some (s\<lparr>ps_world := w\<rparr>) } })"

subsection \<open>Freeing, waking and closing a pipe\<close>

definition pipe_free :: "addr \<Rightarrow> 'w pipe_sys \<Rightarrow> 'w pipe_sys option" where
  "pipe_free pipe s =
     do { p \<leftarrow> ps_pipe s pipe;
          s1 \<leftarrow> call_close p s;
          Some (s1\<lparr>ps_pipe := (ps_pipe s1)(pipe := None)\<rparr>) }"

definition qemu_pipe_wake :: "addr \<Rightarrow> u32 \<Rightarrow> 'w pipe_sys \<Rightarrow> 'w pipe_sys option" where
  "qemu_pipe_wake pipe flags s =
     do { p \<leftarrow> ps_pipe s pipe;
          lookup \<leftarrow> pipe_list_findp_waked s pipe;
          node \<leftarrow> slot_read p_next_waked (ps_pipe s) (pd_signaled_pipes s) lookup;
          let s1 = (if node = NULL
                    then s\<lparr>ps_pipe := (ps_pipe s)(pipe \<mapsto> set_next_waked (pd_signaled_pipes s) p),
                           pd_signaled_pipes := pipe\<rparr>
                    else s);
          p1 \<leftarrow> ps_pipe s1 pipe;
          Some (s1\<lparr>ps_pipe := (ps_pipe s1)(pipe \<mapsto> p1\<lparr>p_wanted := p_wanted p1 OR ucast flags\<rparr>),
                   pd_irq := True\<rparr>) }"

definition qemu_pipe_close :: "addr \<Rightarrow> 'w pipe_sys \<Rightarrow> 'w pipe_sys option" where
  "qemu_pipe_close pipe s =
     do { p \<leftarrow> ps_pipe s pipe;
          if \<not> p_closed p
          then qemu_pipe_wake pipe PIPE_WAKE_CLOSED
                 (s\<lparr>ps_pipe := (ps_pipe s)(pipe \<mapsto> p\<lparr>p_closed := True\<rparr>)\<rparr>)
          else Some s }"

subsection \<open>Register reads\<close>

definition pipe_dev_read :: "u64 \<Rightarrow> 'w pipe_sys \<Rightarrow> (u64 \<times> 'w pipe_sys) option" where
  "pipe_dev_read offset s =
     (if offset = PIPE_REG_STATUS then Some (ucast (pd_status s), s)
      else if offset = PIPE_REG_CHANNEL then
        (if pd_signaled_pipes s \<noteq> NULL then
           do { let pipe = pd_signaled_pipes s;
                p \<leftarrow> ps_pipe s pipe;
                let s1 = s\<lparr>pd_wakes := ucast (p_wanted p), pd_signaled_pipes := p_next_waked p,
                           ps_pipe := (ps_pipe s)(pipe \<mapsto> (set_next_waked NULL p)\<lparr>p_wanted := 0\<rparr>)\<rparr>;
                let s2 = (if pd_signaled_pipes s1 = NULL then s1\<lparr>pd_irq := False\<rparr> else s1);
                Some (p_channel p AND 0xFFFFFFFF, s2) }
         else Some (0, s))
      else if offset = PIPE_REG_CHANNEL_HIGH then
        (if pd_signaled_pipes s \<noteq> NULL then
           do { p \<leftarrow> ps_pipe s (pd_signaled_pipes s); Some (drop_bit 32 (p_channel p), s) }
         else Some (0, s))
      else if offset = PIPE_REG_WAKES then Some (ucast (pd_wakes s), s)
      else if offset = PIPE_REG_PARAMS_ADDR_HIGH then Some (drop_bit 32 (pd_params_addr s), s)
      else if offset = PIPE_REG_PARAMS_ADDR_LOW then Some (pd_params_addr s AND 0xFFFFFFFF, s)
      else if offset = PIPE_REG_VERSION then Some (1, s)
      else Some (0, s))"

subsection \<open>Commands\<close>

text \<open>The four cases of the command switch that do more than set a register.\<close>

definition cmd_open :: "addr \<Rightarrow> addr \<Rightarrow> addr \<Rightarrow> 'w pipe_sys \<Rightarrow> 'w pipe_sys option" where
  "cmd_open pipe new_pipe new_conn s =
     (if pipe \<noteq> NULL then Some (s\<lparr>pd_status := PIPE_ERROR_INVAL\<rparr>)
      else do { let s1 = pipe_new (pd_channel s) new_pipe new_conn s;
                p \<leftarrow> ps_pipe s1 new_pipe;
                Some (s1\<lparr>ps_pipe := (ps_pipe s1)(new_pipe \<mapsto> set_next (pd_pipes s1) p),
                         pd_pipes := new_pipe, pd_status := 0\<rparr>) })"

definition cmd_close :: "slot \<Rightarrow> addr \<Rightarrow> 'w pipe_sys \<Rightarrow> 'w pipe_sys option" where
  "cmd_close lookup pipe s =
     do { p \<leftarrow> ps_pipe s pipe;
          (h, hp) \<leftarrow> slot_write set_next lookup (p_next p) (ps_pipe s) (pd_pipes s);
          p' \<leftarrow> h pipe;
          s1 \<leftarrow> pipe_list_remove_waked
                  (s\<lparr>ps_pipe := h(pipe \<mapsto> set_next NULL p'), pd_pipes := hp\<rparr>) pipe;
          pipe_free pipe s1 }"

definition cmd_read_buffer :: "phys_mem \<Rightarrow> addr \<Rightarrow> 'w pipe_sys \<Rightarrow> 'w pipe_sys option" where
  "cmd_read_buffer pm pipe s =
     do { p \<leftarrow> ps_pipe s pipe;
          let data = pm_ram_ptr pm (pd_address s) (pd_size s) True;
          (s1, out, r) \<leftarrow> call_recvBuffers p [unat (pd_size s)] s;
          Some (s1\<lparr>ps_ram := ram_store (ps_ram s1) data (concat out), pd_status := r\<rparr>) }"

definition cmd_write_buffer :: "phys_mem \<Rightarrow> addr \<Rightarrow> 'w pipe_sys \<Rightarrow> 'w pipe_sys option" where
  "cmd_write_buffer pm pipe s =
     do { p \<leftarrow> ps_pipe s pipe;
          let data = pm_ram_ptr pm (pd_address s) (pd_size s) False;
          (s1, r) \<leftarrow> call_sendBuffers p [ram_load (ps_ram s) data (unat (pd_size s))] s;
          Some (s1\<lparr>pd_status := r\<rparr>) }"

definition cmd_wake_on :: "u32 \<Rightarrow> addr \<Rightarrow> 'w pipe_sys \<Rightarrow> 'w pipe_sys option" where
  "cmd_wake_on flag pipe s =
     do { p \<leftarrow> ps_pipe s pipe;
          s1 \<leftarrow> (if p_wanted p AND ucast flag = 0 then
                   do { let p' = p\<lparr>p_wanted := p_wanted p OR ucast flag\<rparr>;
                        call_wakeOn p' (ucast (p_wanted p'))
                          (s\<lparr>ps_pipe := (ps_pipe s)(pipe \<mapsto> p')\<rparr>) }
                 else Some s);
          Some (s1\<lparr>pd_status := 0\<rparr>) }"

definition pipeDevice_doCommand ::
  "phys_mem \<Rightarrow> addr \<Rightarrow> addr \<Rightarrow> u32 \<Rightarrow> 'w pipe_sys \<Rightarrow> 'w pipe_sys option" where
  "pipeDevice_doCommand pm new_pipe new_conn command s =
     do { lookup \<leftarrow> pipe_list_findp_channel s (pd_channel s);
          pipe \<leftarrow> slot_read p_next (ps_pipe s) (pd_pipes s) lookup;
          if command \<noteq> PIPE_CMD_OPEN \<and> pipe = NULL then Some (s\<lparr>pd_status := PIPE_ERROR_INVAL\<rparr>)
          else do {
            closed \<leftarrow> (if pipe \<noteq> NULL then map_option p_closed (ps_pipe s pipe) else Some False);
            if pipe \<noteq> NULL \<and> closed \<and> command \<noteq> PIPE_CMD_CLOSE
            then Some (s\<lparr>pd_status := PIPE_ERROR_IO\<rparr>)
            else if command = PIPE_CMD_OPEN then cmd_open pipe new_pipe new_conn s
            else if command = PIPE_CMD_CLOSE then cmd_close lookup pipe s
            else if command = PIPE_CMD_POLL then
              do { p \<leftarrow> ps_pipe s pipe; r \<leftarrow> call_poll p s; Some (s\<lparr>pd_status := r\<rparr>) }
            else if command = PIPE_CMD_READ_BUFFER then cmd_read_buffer pm pipe s
            else if command = PIPE_CMD_WRITE_BUFFER then cmd_write_buffer pm pipe s
            else if command = PIPE_CMD_WAKE_ON_READ then cmd_wake_on PIPE_WAKE_READ pipe s
            else if command = PIPE_CMD_WAKE_ON_WRITE then cmd_wake_on PIPE_WAKE_WRITE pipe s
            else Some s } }"

subsection \<open>The parameter block and register writes\<close>

record access_params =
  ap_channel :: u32
  ap_size :: u32
  ap_address :: u32
  ap_cmd :: u32
  ap_result :: u32
  ap_flags :: u32

text \<open>The block is 24 bytes of little-endian 32-bit fields.\<close>

definition aps_encode :: "access_params \<Rightarrow> u8 list" where
  "aps_encode a = le32 (ap_channel a) @ le32 (ap_size a) @ le32 (ap_address a) @
     le32 (ap_cmd a) @ le32 (ap_result a) @ le32 (ap_flags a)"

definition aps_decode :: "u8 list \<Rightarrow> access_params" where
  "aps_decode bs = \<lparr>ap_channel = get_le32 bs 0, ap_size = get_le32 bs 4, ap_address = get_le32 bs 8,
     ap_cmd = get_le32 bs 12, ap_result = get_le32 bs 16, ap_flags = get_le32 bs 20\<rparr>"

text \<open>
  The block of a 64-bit guest: 40 bytes, with padding after \<open>size\<close> and at the end. The write
  back replaces the result field and keeps the padding as it was read.
\<close>

record access_params_64 =
  ap64_channel :: u64
  ap64_size :: u32
  ap64_address :: u64
  ap64_cmd :: u32
  ap64_result :: u32
  ap64_flags :: u32

definition get_le64 :: "u8 list \<Rightarrow> nat \<Rightarrow> u64" where
  "get_le64 bs i = ucast (get_le32 bs i) OR push_bit 32 (ucast (get_le32 bs (i + 4)))"

definition aps64_decode :: "u8 list \<Rightarrow> access_params_64" where
  "aps64_decode bs = \<lparr>ap64_channel = get_le64 bs 0, ap64_size = get_le32 bs 8, ap64_address = get_le64 bs 16,
     ap64_cmd = get_le32 bs 24, ap64_result = get_le32 bs 28, ap64_flags = get_le32 bs 32\<rparr>"

definition aps64_set_result :: "u32 \<Rightarrow> u8 list \<Rightarrow> u8 list" where
  "aps64_set_result r bs = take 28 bs @ le32 r @ drop 32 bs"

definition dev_access_params ::
  "phys_mem \<Rightarrow> addr \<Rightarrow> addr \<Rightarrow> 'w pipe_sys \<Rightarrow> 'w pipe_sys option" where
  "dev_access_params pm new_pipe new_conn s =
     (if pd_params_addr s = 0 then Some s
      else do {
        let aps = aps_decode (pm_read pm (pd_params_addr s) 24 (ps_ram s));
        let bs64 = pm_read pm (pd_params_addr s) 40 (ps_ram s);
        let aps64 = aps64_decode bs64;
        let (s1, cmd) =
          (if qemu_guest_is_64bit
           then (s\<lparr>pd_channel := ap64_channel aps64, pd_size := ap64_size aps64,
                   pd_address := ap64_address aps64\<rparr>, ap64_cmd aps64)
           else (s\<lparr>pd_channel := ucast (ap_channel aps), pd_size := ap_size aps,
                   pd_address := ucast (ap_address aps)\<rparr>, ap_cmd aps));
        if cmd \<noteq> PIPE_CMD_READ_BUFFER \<and> cmd \<noteq> PIPE_CMD_WRITE_BUFFER then Some s1
        else do {
          s2 \<leftarrow> pipeDevice_doCommand pm new_pipe new_conn cmd s1;
          let blk = (if qemu_guest_is_64bit then aps64_set_result (pd_status s2) bs64
                     else aps_encode (aps\<lparr>ap_result := pd_status s2\<rparr>));
          Some (s2\<lparr>ps_ram := pm_write pm (pd_params_addr s2) blk (ps_ram s2)\<rparr>) } })"

definition pipe_dev_write ::
  "phys_mem \<Rightarrow> addr \<Rightarrow> addr \<Rightarrow> u64 \<Rightarrow> u64 \<Rightarrow> 'w pipe_sys \<Rightarrow> 'w pipe_sys option" where
  "pipe_dev_write pm new_pipe new_conn offset value s =
     (if offset = PIPE_REG_COMMAND then pipeDevice_doCommand pm new_pipe new_conn (ucast value) s
      else if offset = PIPE_REG_SIZE then Some (s\<lparr>pd_size := ucast value\<rparr>)
      else if offset = PIPE_REG_ADDRESS then
        Some (s\<lparr>pd_address := uint64_set_low (pd_address s) (ucast value)\<rparr>)
      else if offset = PIPE_REG_ADDRESS_HIGH then
        Some (s\<lparr>pd_address := uint64_set_high (pd_address s) (ucast value)\<rparr>)
      else if offset = PIPE_REG_CHANNEL then
        Some (s\<lparr>pd_channel := uint64_set_low (pd_channel s) (ucast value)\<rparr>)
      else if offset = PIPE_REG_CHANNEL_HIGH then
        Some (s\<lparr>pd_channel := uint64_set_high (pd_channel s) (ucast value)\<rparr>)
      else if offset = PIPE_REG_PARAMS_ADDR_HIGH then
        Some (s\<lparr>pd_params_addr :=
                (pd_params_addr s AND NOT (push_bit 32 0xFFFFFFFF)) OR push_bit 32 value\<rparr>)
      else if offset = PIPE_REG_PARAMS_ADDR_LOW then
        Some (s\<lparr>pd_params_addr := (pd_params_addr s AND NOT 0xFFFFFFFF) OR value\<rparr>)
      else if offset = PIPE_REG_ACCESS_PARAMS then dev_access_params pm new_pipe new_conn s
      else Some s)"

subsection \<open>Device creation\<close>

text \<open>The device object is allocated zeroed; \<open>qemu_pipe_initfn\<close> connects its registers and interrupt line.\<close>

definition qemu_pipe_initfn :: "'w PipeService list \<Rightarrow> (u64 \<Rightarrow> u8) \<Rightarrow> 'w \<Rightarrow> 'w pipe_sys" where
  "qemu_pipe_initfn svcs ram w =
     \<lparr>pd_irq = False, pd_pipes = NULL, pd_signaled_pipes = NULL, pd_address = 0, pd_size = 0,
      pd_status = 0, pd_channel = 0, pd_wakes = 0, pd_params_addr = 0,
      ps_pipe = Map.empty, ps_conn = Map.empty, ps_services = svcs, ps_ram = ram, ps_world = w\<rparr>"

end
