(* ===== verification/PipeInv.thy ===== *)
theory PipeInv
  imports PipeDevice
begin

text \<open>
  The invariant of the pipe device and its preservation. \<open>pipe_lists s xs ws\<close> says that
  the device's two intrusive lists represent the pipe lists \<open>xs\<close> (open pipes, newest
  first) and \<open>ws\<close> (signaled pipes, last signaled first) and that exactly the open pipes
  are allocated. \<open>pipe_owns\<close> says who owns the object a pipe's \<open>opaque\<close> field points to: a
  connector, or a live peer of the backend. The locale \<open>pipe_backend\<close> is the contract the
  device relies on when it calls a service.
\<close>

interpretation pnext: intrusive_list p_next set_next
  by unfold_locales (simp add: set_next_def)

interpretation pwaked: intrusive_list p_next_waked set_next_waked
  by unfold_locales (simp add: set_next_waked_def)

lemma set_next_simps [heap_simps]:
  "p_next (set_next v p) = v" "p_next_waked (set_next v p) = p_next_waked p"
  "p_channel (set_next v p) = p_channel p" "p_opaque (set_next v p) = p_opaque p"
  "p_funcs (set_next v p) = p_funcs p" "p_wanted (set_next v p) = p_wanted p"
  "p_closed (set_next v p) = p_closed p"
  by (simp_all add: set_next_def)

lemma set_next_waked_simps [heap_simps]:
  "p_next (set_next_waked v p) = p_next p" "p_next_waked (set_next_waked v p) = v"
  "p_channel (set_next_waked v p) = p_channel p" "p_opaque (set_next_waked v p) = p_opaque p"
  "p_funcs (set_next_waked v p) = p_funcs p" "p_wanted (set_next_waked v p) = p_wanted p"
  "p_closed (set_next_waked v p) = p_closed p"
  by (simp_all add: set_next_waked_def)

declare heap_simps [simp]

definition pipe_lists :: "'w pipe_sys \<Rightarrow> addr list \<Rightarrow> addr list \<Rightarrow> bool" where
  "pipe_lists s xs ws \<longleftrightarrow>
     is_list p_next (ps_pipe s) (pd_pipes s) xs \<and>
     is_list p_next_waked (ps_pipe s) (pd_signaled_pipes s) ws \<and>
     set ws \<subseteq> set xs \<and> dom (ps_pipe s) = set xs"

text \<open>The pipe a channel number names.\<close>

definition pipe_at :: "'w pipe_sys \<Rightarrow> u64 \<Rightarrow> addr \<Rightarrow> Pipe \<Rightarrow> bool" where
  "pipe_at s ch a p \<longleftrightarrow> ps_pipe s a = Some p \<and> p_channel p = ch"

definition pipe_chans :: "'w pipe_sys \<Rightarrow> bool" where
  "pipe_chans s \<longleftrightarrow>
     (\<forall>a b p q. ps_pipe s a = Some p \<longrightarrow> ps_pipe s b = Some q \<longrightarrow> p_channel p = p_channel q \<longrightarrow> a = b)"

definition conn_ok :: "addr \<Rightarrow> PipeConnector \<Rightarrow> bool" where
  "conn_ok a k \<longleftrightarrow> pc_pipe k = a \<and> length (pc_buffer k) = 128 \<and> pc_buffpos k \<le> 128"

text \<open>
  \<open>peer w a b\<close>: the object \<open>b\<close> of the services belongs to the pipe \<open>a\<close>; \<open>dead w b\<close>: it no longer
  reports to its pipe, which must be closed then.
\<close>

definition endpoint_ok :: "('w \<Rightarrow> addr \<Rightarrow> addr \<Rightarrow> bool) \<Rightarrow> ('w \<Rightarrow> addr \<Rightarrow> bool) \<Rightarrow> (addr \<rightharpoonup> PipeConnector) \<Rightarrow> nat \<Rightarrow> 'w \<Rightarrow>
    addr \<Rightarrow> Pipe \<Rightarrow> bool" where
  "endpoint_ok peer dead conn n w a p \<longleftrightarrow>
     (case p_funcs p of
        ConnectorFuncs \<Rightarrow> p_opaque p \<noteq> NULL \<and> (\<exists>k. conn (p_opaque p) = Some k \<and> conn_ok a k)
      | ServiceFuncs i \<Rightarrow> i < n \<and> peer w a (p_opaque p) \<and> (dead w (p_opaque p) \<longrightarrow> p_closed p))"

definition service_pipe :: "(addr \<rightharpoonup> Pipe) \<Rightarrow> addr \<Rightarrow> addr \<Rightarrow> bool" where
  "service_pipe h a b \<longleftrightarrow> (\<exists>p. h a = Some p \<and> p_funcs p \<noteq> ConnectorFuncs \<and> p_opaque p = b)"

definition pipe_owns :: "('w \<Rightarrow> addr \<Rightarrow> addr \<Rightarrow> bool) \<Rightarrow> ('w \<Rightarrow> addr \<Rightarrow> bool) \<Rightarrow> 'w pipe_sys \<Rightarrow> bool" where
  "pipe_owns peer dead s \<longleftrightarrow>
     (\<forall>a p. ps_pipe s a = Some p \<longrightarrow>
        endpoint_ok peer dead (ps_conn s) (length (ps_services s)) (ps_world s) a p) \<and>
     (\<forall>c k. ps_conn s c = Some k \<longrightarrow>
        (\<exists>p. ps_pipe s (pc_pipe k) = Some p \<and> p_funcs p = ConnectorFuncs \<and> p_opaque p = c)) \<and>
     (\<forall>a b. peer (ps_world s) a b \<longrightarrow> service_pipe (ps_pipe s) a b)"

lemma endpoint_ok_cong:
  "p_funcs p = p_funcs q \<Longrightarrow> p_opaque p = p_opaque q \<Longrightarrow> p_closed p = p_closed q \<Longrightarrow>
   endpoint_ok peer dead conn n w a p = endpoint_ok peer dead conn n w a q"
  by (simp add: endpoint_ok_def split: funcs_ptr.splits)

lemma pipe_lists_live: "pipe_lists s xs ws \<Longrightarrow> a \<in> set xs \<longleftrightarrow> (\<exists>p. ps_pipe s a = Some p)"
  unfolding pipe_lists_def by auto

lemma pipe_lists_distinct: "pipe_lists s xs ws \<Longrightarrow> distinct xs \<and> distinct ws"
  unfolding pipe_lists_def using is_list_distinct by blast

lemma pipe_lists_nonnull: "pipe_lists s xs ws \<Longrightarrow> ps_pipe s a = Some p \<Longrightarrow> a \<noteq> NULL"
  unfolding pipe_lists_def using is_list_nonnull by (metis domI)

lemma pipe_chansD: "pipe_chans s \<Longrightarrow> pipe_at s ch a p \<Longrightarrow> pipe_at s ch b q \<Longrightarrow> a = b \<and> p = q"
  unfolding pipe_chans_def pipe_at_def by (metis option.inject)

text \<open>Updating fields of a pipe other than its links keeps the lists.\<close>

lemma pipe_lists_upd:
  assumes "pipe_lists s xs ws" and "ps_pipe s a = Some p"
    and "ps_pipe t = (ps_pipe s)(a \<mapsto> p')" and "pd_pipes t = pd_pipes s"
    and "pd_signaled_pipes t = pd_signaled_pipes s"
    and "p_next p' = p_next p" and "p_next_waked p' = p_next_waked p"
  shows "pipe_lists t xs ws"
proof -
  from assms(2) have "dom (ps_pipe t) = dom (ps_pipe s)" by (auto simp: assms(3))
  with assms show ?thesis
    unfolding pipe_lists_def by (auto intro!: is_list_upd_same)
qed

lemma pipe_lists_cong:
  "pipe_lists s xs ws \<Longrightarrow> ps_pipe t = ps_pipe s \<Longrightarrow> pd_pipes t = pd_pipes s \<Longrightarrow>
   pd_signaled_pipes t = pd_signaled_pipes s \<Longrightarrow> pipe_lists t xs ws"
  unfolding pipe_lists_def by simp

subsection \<open>What the list searches find\<close>

lemma find_channel_present:
  assumes l: "pipe_lists s xs ws" and c: "pipe_chans s" and at: "pipe_at s ch a p"
  obtains ys zs where "xs = ys @ a # zs" and "pipe_list_findp_channel s ch = Some (end_slot SHead ys)"
    and "slot_read p_next (ps_pipe s) (pd_pipes s) (end_slot SHead ys) = Some a"
proof -
  from at l have "a \<in> set xs" by (auto simp: pipe_at_def pipe_lists_live)
  then obtain ys zs where xs: "xs = ys @ a # zs" "a \<notin> set ys" by (rule split_at_first)
  from l xs have il: "is_list p_next (ps_pipe s) (pd_pipes s) (ys @ a # zs)" by (simp add: pipe_lists_def)
  have no: "map_option (\<lambda>p. p_channel p = ch) (ps_pipe s x) = Some False" if "x \<in> set ys" for x
  proof -
    from that l xs obtain q where q: "ps_pipe s x = Some q" using pipe_lists_live [OF l, of x] by auto
    from that xs(2) have "x \<noteq> a" by auto
    with c at q have "p_channel q \<noteq> ch" unfolding pipe_chans_def pipe_at_def by blast
    with q show ?thesis by simp
  qed
  show ?thesis
  proof (rule that [OF xs(1)])
    show "pipe_list_findp_channel s ch = Some (end_slot SHead ys)"
      unfolding pipe_list_findp_channel_def
      by (rule findp_present [OF il no]) (use at in \<open>auto simp: pipe_at_def\<close>)
  qed (rule slot_read_present [OF il])
qed

lemma find_channel_absent:
  assumes l: "pipe_lists s xs ws" and no: "\<And>a p. \<not> pipe_at s ch a p"
  shows "pipe_list_findp_channel s ch = Some (end_slot SHead xs)"
    and "slot_read p_next (ps_pipe s) (pd_pipes s) (end_slot SHead xs) = Some NULL"
proof -
  from l have il: "is_list p_next (ps_pipe s) (pd_pipes s) xs" by (simp add: pipe_lists_def)
  show "pipe_list_findp_channel s ch = Some (end_slot SHead xs)"
    unfolding pipe_list_findp_channel_def
  proof (rule findp_absent [OF il])
    fix x assume "x \<in> set xs"
    with l obtain q where "ps_pipe s x = Some q" using pipe_lists_live by blast
    with no show "map_option (\<lambda>p. p_channel p = ch) (ps_pipe s x) = Some False"
      by (auto simp: pipe_at_def)
  qed
  show "slot_read p_next (ps_pipe s) (pd_pipes s) (end_slot SHead xs) = Some NULL"
    by (rule slot_read_absent [OF il])
qed

lemma find_waked_present:
  assumes il: "is_list p_next_waked (ps_pipe s) (pd_signaled_pipes s) (ys @ a # zs)"
  shows "pipe_list_findp_waked s a = Some (end_slot SHead ys)"
    and "slot_read p_next_waked (ps_pipe s) (pd_signaled_pipes s) (end_slot SHead ys) = Some a"
proof -
  from is_list_distinct [OF il] have "a \<notin> set ys" by auto
  then show "pipe_list_findp_waked s a = Some (end_slot SHead ys)"
    unfolding pipe_list_findp_waked_def by (intro findp_present [OF il]) auto
  show "slot_read p_next_waked (ps_pipe s) (pd_signaled_pipes s) (end_slot SHead ys) = Some a"
    by (rule slot_read_present [OF il])
qed

lemma find_waked_absent:
  assumes il: "is_list p_next_waked (ps_pipe s) (pd_signaled_pipes s) ws" and "a \<notin> set ws"
  shows "pipe_list_findp_waked s a = Some (end_slot SHead ws)"
    and "slot_read p_next_waked (ps_pipe s) (pd_signaled_pipes s) (end_slot SHead ws) = Some NULL"
proof -
  show "pipe_list_findp_waked s a = Some (end_slot SHead ws)"
    unfolding pipe_list_findp_waked_def by (rule findp_absent [OF il]) (use assms(2) in auto)
  show "slot_read p_next_waked (ps_pipe s) (pd_signaled_pipes s) (end_slot SHead ws) = Some NULL"
    by (rule slot_read_absent [OF il])
qed

subsection \<open>Pipe data without the links\<close>

definition unlinked :: "Pipe \<Rightarrow> Pipe" where
  "unlinked p = set_next NULL (set_next_waked NULL p)"

definition pipe_data :: "'w pipe_sys \<Rightarrow> addr \<rightharpoonup> Pipe" where
  "pipe_data s a = map_option unlinked (ps_pipe s a)"

lemma unlinked_set [simp]:
  "unlinked (set_next v p) = unlinked p" "unlinked (set_next_waked v p) = unlinked p"
  by (simp_all add: unlinked_def set_next_def set_next_waked_def)

lemma unlinked_fields [simp]:
  "p_channel (unlinked p) = p_channel p" "p_opaque (unlinked p) = p_opaque p"
  "p_funcs (unlinked p) = p_funcs p" "p_wanted (unlinked p) = p_wanted p"
  "p_closed (unlinked p) = p_closed p"
  by (simp_all add: unlinked_def)

lemma pipe_data_Some: "pipe_data s a = Some q \<longleftrightarrow> (\<exists>p. ps_pipe s a = Some p \<and> q = unlinked p)"
  by (auto simp: pipe_data_def)

lemma pipe_chans_data:
  "pipe_chans s \<longleftrightarrow>
     (\<forall>a b p q. pipe_data s a = Some p \<longrightarrow> pipe_data s b = Some q \<longrightarrow> p_channel p = p_channel q \<longrightarrow> a = b)"
  by (fastforce simp: pipe_chans_def pipe_data_def)

lemma endpoint_ok_unlinked [simp]:
  "endpoint_ok peer dead conn n w a (unlinked p) = endpoint_ok peer dead conn n w a p"
  by (rule endpoint_ok_cong) simp_all

lemma pipe_owns_data:
  "pipe_owns peer dead s \<longleftrightarrow>
     (\<forall>a p. pipe_data s a = Some p \<longrightarrow>
        endpoint_ok peer dead (ps_conn s) (length (ps_services s)) (ps_world s) a p) \<and>
     (\<forall>c k. ps_conn s c = Some k \<longrightarrow>
        (\<exists>p. pipe_data s (pc_pipe k) = Some p \<and> p_funcs p = ConnectorFuncs \<and> p_opaque p = c)) \<and>
     (\<forall>a b. peer (ps_world s) a b \<longrightarrow> service_pipe (pipe_data s) a b)"
  unfolding pipe_owns_def service_pipe_def pipe_data_Some by fastforce

lemma pipe_chans_sub: "pipe_chans s \<Longrightarrow> pipe_data t \<subseteq>\<^sub>m pipe_data s \<Longrightarrow> pipe_chans t"
  unfolding pipe_chans_data map_le_def by (metis domI)

lemma pipe_owns_cong:
  "pipe_owns peer dead s \<Longrightarrow> pipe_data t = pipe_data s \<Longrightarrow> ps_conn t = ps_conn s \<Longrightarrow>
   ps_services t = ps_services s \<Longrightarrow> ps_world t = ps_world s \<Longrightarrow> pipe_owns peer dead t"
  unfolding pipe_owns_data by simp

lemma pipe_lists_irq [simp]: "pipe_lists (s\<lparr>pd_irq := b\<rparr>) xs ws = pipe_lists s xs ws"
  by (simp add: pipe_lists_def)

subsection \<open>Wake events\<close>

text \<open>
  \<open>qemu_pipe_wake\<close> puts the pipe on the signaled list unless it is there already, adds
  the flags to its pending ones and raises the interrupt.
\<close>

lemma qemu_pipe_wake_signaled:
  assumes l: "pipe_lists s xs ws" and a: "ps_pipe s a = Some p" and "a \<in> set ws"
  shows "qemu_pipe_wake a flags s =
    Some (s\<lparr>ps_pipe := (ps_pipe s)(a \<mapsto> p\<lparr>p_wanted := p_wanted p OR ucast flags\<rparr>), pd_irq := True\<rparr>)"
proof -
  from \<open>a \<in> set ws\<close> obtain ys zs where "ws = ys @ a # zs" by (auto dest: split_list)
  with l have il: "is_list p_next_waked (ps_pipe s) (pd_signaled_pipes s) (ys @ a # zs)"
    by (simp add: pipe_lists_def)
  show ?thesis
    using find_waked_present [OF il] a pipe_lists_nonnull [OF l a] by (simp add: qemu_pipe_wake_def)
qed

lemma qemu_pipe_wake_fresh:
  assumes l: "pipe_lists s xs ws" and a: "ps_pipe s a = Some p" and "a \<notin> set ws"
  shows "qemu_pipe_wake a flags s =
    Some (s\<lparr>ps_pipe := (ps_pipe s)(a \<mapsto> (set_next_waked (pd_signaled_pipes s) p)
              \<lparr>p_wanted := p_wanted p OR ucast flags\<rparr>),
            pd_signaled_pipes := a, pd_irq := True\<rparr>)"
proof -
  from l have il: "is_list p_next_waked (ps_pipe s) (pd_signaled_pipes s) ws"
    by (simp add: pipe_lists_def)
  show ?thesis
    using find_waked_absent [OF il assms(3)] a by (simp add: qemu_pipe_wake_def)
qed

lemma qemu_pipe_wake_lists:
  assumes l: "pipe_lists s xs ws" and a: "ps_pipe s a = Some p"
    and t: "qemu_pipe_wake a flags s = Some t"
  shows "pipe_lists t xs (if a \<in> set ws then ws else a # ws)"
proof (cases "a \<in> set ws")
  case True
  with t qemu_pipe_wake_signaled [OF l a True, of flags]
    pipe_lists_upd [OF l a, of t "p\<lparr>p_wanted := p_wanted p OR ucast flags\<rparr>"]
  show ?thesis by auto
next
  case False
  let ?p = "(set_next_waked (pd_signaled_pipes s) p)\<lparr>p_wanted := p_wanted p OR ucast flags\<rparr>"
  from t qemu_pipe_wake_fresh [OF l a False, of flags]
  have t': "ps_pipe t = (ps_pipe s)(a \<mapsto> ?p)" "pd_pipes t = pd_pipes s" "pd_signaled_pipes t = a"
    by auto
  from l have il: "is_list p_next (ps_pipe s) (pd_pipes s) xs"
    "is_list p_next_waked (ps_pipe s) (pd_signaled_pipes s) ws" by (auto simp: pipe_lists_def)
  have "is_list p_next (ps_pipe t) (pd_pipes t) xs"
    unfolding t' by (rule is_list_upd_same [OF il(1) a]) simp
  moreover have "is_list p_next_waked (ps_pipe t) a (a # ws)"
    using is_list_upd_notin [OF il(2) False, of "Some ?p"] pipe_lists_nonnull [OF l a]
    unfolding t' by (simp add: is_list_upd_head)
  moreover have "dom (ps_pipe t) = dom (ps_pipe s)" using a by (auto simp: t')
  ultimately show ?thesis
    using l False a pipe_lists_live [OF l, of a] by (auto simp: pipe_lists_def t')
qed

lemma pipe_list_remove_waked_spec:
  assumes il: "is_list p_next_waked (ps_pipe s) (pd_signaled_pipes s) ws"
  obtains t where "pipe_list_remove_waked s a = Some t"
    and "is_list p_next_waked (ps_pipe t) (pd_signaled_pipes t) (remove1 a ws)"
    and "t = s\<lparr>ps_pipe := ps_pipe t, pd_signaled_pipes := pd_signaled_pipes t\<rparr>"
    and "\<forall>b. map_option (set_next_waked NULL) (ps_pipe t b) = map_option (set_next_waked NULL) (ps_pipe s b)"
proof (cases "a \<in> set ws")
  case False
  have "pipe_list_remove_waked s a = Some s"
    using find_waked_absent [OF il False] by (simp add: pipe_list_remove_waked_def)
  moreover have "remove1 a ws = ws" using False by (simp add: remove1_idem)
  ultimately show ?thesis using il that [of s] by simp
next
  case True
  then obtain ys zs where ws: "ws = ys @ a # zs" and ny: "a \<notin> set ys" by (rule split_at_first)
  note il' = il [unfolded ws]
  from is_list_live [OF il', of a] obtain n where n: "ps_pipe s a = Some n" by auto
  obtain h hp where w: "slot_write set_next_waked (end_slot SHead ys) (p_next_waked n)
      (ps_pipe s) (pd_signaled_pipes s) = Some (h, hp)"
    using slot_write_end_defined [OF il'] by blast
  have l: "is_list p_next_waked h hp (ys @ zs)" by (rule pwaked.unlink [OF il' n w])
  have fr: "map_option (set_next_waked NULL) (h b) = map_option (set_next_waked NULL) (ps_pipe s b)" for b
    by (rule slot_write_frame [OF w]) (simp add: set_next_waked_def)
  from fr [of a] n obtain n' where n': "h a = Some n'" by auto
  from is_list_nonnull [OF il', of a] have "a \<noteq> NULL" by simp
  with find_waked_present [OF il'] n n' w
  have "pipe_list_remove_waked s a =
      Some (s\<lparr>ps_pipe := h(a \<mapsto> set_next_waked NULL n'), pd_signaled_pipes := hp\<rparr>)"
    by (simp add: pipe_list_remove_waked_def)
  moreover from is_list_distinct [OF il'] have "a \<notin> set (ys @ zs)" by auto
  with l have "is_list p_next_waked (h(a \<mapsto> set_next_waked NULL n')) hp (ys @ zs)"
    by (rule is_list_upd_notin)
  moreover have "remove1 a ws = ys @ zs" using ny ws by (simp add: remove1_append)
  moreover have "map_option (set_next_waked NULL) ((h(a \<mapsto> set_next_waked NULL n')) b) =
      map_option (set_next_waked NULL) (ps_pipe s b)" for b
    using fr [of b] n' by (auto simp: set_next_waked_def)
  ultimately show ?thesis
    using that [of "s\<lparr>ps_pipe := h(a \<mapsto> set_next_waked NULL n'), pd_signaled_pipes := hp\<rparr>"] by simp
qed

text \<open>
  Reading the channel register takes the last signaled pipe off the list: its pending
  flags move to the wakes register, and the interrupt is lowered with the last one.
\<close>

lemma read_channel_spec:
  assumes l: "pipe_lists s xs (a # ws)" and a: "ps_pipe s a = Some p"
    and t: "t = s\<lparr>pd_wakes := ucast (p_wanted p), pd_signaled_pipes := p_next_waked p,
        ps_pipe := (ps_pipe s)(a \<mapsto> (set_next_waked NULL p)\<lparr>p_wanted := 0\<rparr>),
        pd_irq := (if ws = [] then False else pd_irq s)\<rparr>"
  shows "pipe_dev_read PIPE_REG_CHANNEL s = Some (p_channel p AND 0xFFFFFFFF, t)"
    and "pipe_lists t xs ws"
proof -
  from l have il: "is_list p_next (ps_pipe s) (pd_pipes s) xs"
    and wl: "pd_signaled_pipes s = a" "a \<noteq> NULL" "is_list p_next_waked (ps_pipe s) (p_next_waked p) ws"
    and sub: "a \<in> set xs" "set ws \<subseteq> set xs" "dom (ps_pipe s) = set xs"
    using a by (auto simp: pipe_lists_def)
  from is_list_NULL_iff [OF wl(3)] show "pipe_dev_read PIPE_REG_CHANNEL s = Some (p_channel p AND 0xFFFFFFFF, t)"
    using a wl(1,2) unfolding t by (cases "ws = []") (simp_all add: pipe_dev_read_def)
  let ?p = "(set_next_waked NULL p)\<lparr>p_wanted := 0\<rparr>"
  have "is_list p_next (ps_pipe t) (pd_pipes t) xs"
    unfolding t by (simp, rule is_list_upd_same [OF il a]) simp
  moreover from pipe_lists_distinct [OF l] have "a \<notin> set ws" by simp
  with wl(3) have "is_list p_next_waked (ps_pipe t) (pd_signaled_pipes t) ws"
    unfolding t by (simp, intro is_list_upd_notin)
  moreover have "dom (ps_pipe t) = set xs" using sub a unfolding t by auto
  ultimately show "pipe_lists t xs ws" using sub by (simp add: pipe_lists_def)
qed

lemma read_channel_empty:
  "pipe_lists s xs [] \<Longrightarrow> pipe_dev_read PIPE_REG_CHANNEL s = Some (0, s)"
  by (simp add: pipe_dev_read_def pipe_lists_def)

subsection \<open>Opening and closing\<close>

lemma cmd_open_spec:
  assumes l: "pipe_lists s xs ws" and new: "a \<noteq> NULL" "a \<notin> dom (ps_pipe s)"
    and t: "t = s\<lparr>ps_conn := (ps_conn s)(c \<mapsto> \<lparr>pc_pipe = a, pc_buffer = replicate 128 0, pc_buffpos = 0\<rparr>),
        ps_pipe := (ps_pipe s)(a \<mapsto> pipe_new0\<lparr>p_channel := pd_channel s, p_opaque := c, p_next := pd_pipes s\<rparr>),
        pd_pipes := a, pd_status := 0\<rparr>"
  shows "cmd_open NULL a c s = Some t" and "pipe_lists t (a # xs) ws"
proof -
  show "cmd_open NULL a c s = Some t"
    by (simp add: cmd_open_def pipe_new_def pipeConnector_new_def Let_def t pipe_new0_def set_next_def)
  from l have il: "is_list p_next (ps_pipe s) (pd_pipes s) xs"
    and wl: "is_list p_next_waked (ps_pipe s) (pd_signaled_pipes s) ws"
    and sub: "set ws \<subseteq> set xs" "dom (ps_pipe s) = set xs"
    by (auto simp: pipe_lists_def)
  from new sub have na: "a \<notin> set xs" "a \<notin> set ws" by auto
  let ?p = "pipe_new0\<lparr>p_channel := pd_channel s, p_opaque := c, p_next := pd_pipes s\<rparr>"
  have "is_list p_next (ps_pipe t) a (a # xs)"
    using is_list_upd_notin [OF il na(1), of "Some ?p"] new unfolding t by (simp add: is_list_upd_head)
  moreover have "is_list p_next_waked (ps_pipe t) (pd_signaled_pipes t) ws"
    using is_list_upd_notin [OF wl na(2), of "Some ?p"] unfolding t by simp
  ultimately show "pipe_lists t (a # xs) ws"
    using sub unfolding pipe_lists_def t by auto
qed

text \<open>
  Closing unlinks the pipe from both lists and then frees it: what is left to do is the
  call of the \<open>close\<close> callback in a state that differs only in its links.
\<close>

lemma cmd_close_spec:
  assumes l: "pipe_lists s (ys @ a # zs) ws" and a: "ps_pipe s a = Some p"
  obtains t q where "cmd_close (end_slot SHead ys) a s =
      do { u \<leftarrow> call_close q t; Some (u\<lparr>ps_pipe := (ps_pipe u)(a := None)\<rparr>) }"
    and "unlinked q = unlinked p" and "ps_pipe t a = Some q"
    and "t = s\<lparr>ps_pipe := ps_pipe t, pd_pipes := pd_pipes t, pd_signaled_pipes := pd_signaled_pipes t\<rparr>"
    and "pipe_data t = pipe_data s"
    and "is_list p_next (ps_pipe t) (pd_pipes t) (ys @ zs)"
    and "is_list p_next_waked (ps_pipe t) (pd_signaled_pipes t) (remove1 a ws)"
proof -
  from l have il: "is_list p_next (ps_pipe s) (pd_pipes s) (ys @ a # zs)"
    and wl: "is_list p_next_waked (ps_pipe s) (pd_signaled_pipes s) ws" by (auto simp: pipe_lists_def)
  obtain h hp where w: "slot_write set_next (end_slot SHead ys) (p_next p) (ps_pipe s) (pd_pipes s) = Some (h, hp)"
    using slot_write_end_defined [OF il] by blast
  have hl: "is_list p_next h hp (ys @ zs)" by (rule pnext.unlink [OF il a w])
  have fr: "map_option (set_next NULL) (h b) = map_option (set_next NULL) (ps_pipe s b)" for b
    by (rule slot_write_frame [OF w]) (simp add: set_next_def)
  have frw: "map_option p_next_waked (h b) = map_option p_next_waked (ps_pipe s b)" for b
    by (rule slot_write_frame [OF w]) simp
  have frd: "map_option unlinked (h b) = map_option unlinked (ps_pipe s b)" for b
    by (rule slot_write_frame [OF w]) simp
  from frd [of a] a obtain p' where p': "h a = Some p'" "unlinked p' = unlinked p" by auto
  define s1 where "s1 = s\<lparr>ps_pipe := h(a \<mapsto> set_next NULL p'), pd_pipes := hp\<rparr>"
  have wh: "is_list p_next_waked h (pd_signaled_pipes s) ws" by (rule is_list_frame [OF wl frw])
  have wl1: "is_list p_next_waked (ps_pipe s1) (pd_signaled_pipes s1) ws"
    unfolding s1_def by (simp, rule is_list_upd_same [OF wh p'(1)]) simp
  obtain t where t: "pipe_list_remove_waked s1 a = Some t"
    "is_list p_next_waked (ps_pipe t) (pd_signaled_pipes t) (remove1 a ws)"
    "t = s1\<lparr>ps_pipe := ps_pipe t, pd_signaled_pipes := pd_signaled_pipes t\<rparr>"
    and tf: "\<forall>b. map_option (set_next_waked NULL) (ps_pipe t b) = map_option (set_next_waked NULL) (ps_pipe s1 b)"
    using pipe_list_remove_waked_spec [OF wl1, of a] by blast
  have view: "map_option f (ps_pipe t b) = map_option f (ps_pipe s1 b)"
    if "\<And>v q. f (set_next_waked v q) = f q" for f b
    using arg_cong [OF spec [OF tf, of b], of "map_option f"] that by (simp add: option.map_comp comp_def)
  have data: "map_option unlinked (ps_pipe t b) = map_option unlinked (ps_pipe s b)" for b
    using view [of unlinked b] frd [of b] p' a by (simp add: s1_def)
  from is_list_distinct [OF il] have na: "a \<notin> set (ys @ zs)" by auto
  have "is_list p_next (ps_pipe s1) (pd_pipes s1) (ys @ zs)"
    unfolding s1_def by (simp, rule is_list_upd_notin [OF hl na])
  moreover have "pd_pipes t = pd_pipes s1" by (subst t(3)) simp
  ultimately have nl: "is_list p_next (ps_pipe t) (pd_pipes t) (ys @ zs)"
    using is_list_frame [of p_next "ps_pipe s1" "pd_pipes s1" "ys @ zs" "ps_pipe t"] view [of p_next] by simp
  from data [of a] a obtain q where q: "ps_pipe t a = Some q" "unlinked q = unlinked p" by auto
  show ?thesis
  proof (rule that [of q t, OF _ q(2,1) _ _ nl t(2)])
    show "cmd_close (end_slot SHead ys) a s =
        do { u \<leftarrow> call_close q t; Some (u\<lparr>ps_pipe := (ps_pipe u)(a := None)\<rparr>) }"
      using a w p'(1) t(1) q(1) by (simp add: cmd_close_def pipe_free_def s1_def)
    show "t = s\<lparr>ps_pipe := ps_pipe t, pd_pipes := pd_pipes t, pd_signaled_pipes := pd_signaled_pipes t\<rparr>"
      by (subst (1 3) t(3)) (simp add: s1_def)
    show "pipe_data t = pipe_data s" using data by (auto simp: pipe_data_def)
  qed
qed

lemma pipe_lists_close:
  assumes l: "pipe_lists s (ys @ a # zs) ws" and d: "pipe_data t = pipe_data s"
    and tl: "is_list p_next (ps_pipe t) (pd_pipes t) (ys @ zs)"
      "is_list p_next_waked (ps_pipe t) (pd_signaled_pipes t) (remove1 a ws)"
    and v: "ps_pipe v = (ps_pipe t)(a := None)" "pd_pipes v = pd_pipes t"
      "pd_signaled_pipes v = pd_signaled_pipes t"
  shows "pipe_lists v (ys @ zs) (remove1 a ws)" and "pipe_data v = (pipe_data s)(a := None)"
proof -
  show vd: "pipe_data v = (pipe_data s)(a := None)" using d v(1) by (auto simp: pipe_data_def fun_eq_iff)
  from pipe_lists_distinct [OF l] have na: "a \<notin> set (ys @ zs)" "a \<notin> set (remove1 a ws)" by auto
  have "dom (pipe_data s) = set (ys @ a # zs)" using l by (auto simp: pipe_lists_def pipe_data_def dom_def)
  then have "dom (ps_pipe v) = set (ys @ zs)"
    using na arg_cong [OF vd, of dom] by (auto simp: pipe_data_def dom_def)
  moreover have "set (remove1 a ws) \<subseteq> set (ys @ zs)"
    using l na(2) set_remove1_subset [of a ws] by (auto simp: pipe_lists_def)
  ultimately show "pipe_lists v (ys @ zs) (remove1 a ws)"
    using is_list_upd_notin [OF tl(1) na(1)] is_list_upd_notin [OF tl(2) na(2)] v
    by (simp add: pipe_lists_def)
qed

subsection \<open>The connector buffer\<close>

text \<open>The copy loop appends the sent bytes to the buffer, as far as its 128 bytes reach.\<close>

lemma connector_copy_spec:
  assumes "length buf = 128" and "pos \<le> 128" and "connector_copy buf pos ret bs = (buf', pos', ret')"
  shows "length buf' = 128 \<and> pos' = min 128 (pos + length (concat bs)) \<and> ret' = ret + (pos' - pos) \<and>
    take pos' buf' = take pos buf @ take (128 - pos) (concat bs)"
  using assms
proof (induction buf pos ret bs rule: connector_copy.induct)
  case (1 buf pos ret)
  then show ?case by simp
next
  case (2 buf pos ret b bs)
  show ?case
  proof (cases "length b = 0 \<or> pos = 128")
    case True
    with 2 show ?thesis by (auto simp: Let_def split: if_splits)
  next
    case False
    let ?av = "min (128 - pos) (length b)"
    from False 2(5) have av: "?av > 0" "pos + ?av \<le> 128" by auto
    with False 2(6) have step: "connector_copy (overwrite buf pos (take ?av b)) (pos + ?av) (ret + ?av) bs = (buf', pos', ret')"
      by (simp add: Let_def)
    have len: "length (overwrite buf pos (take ?av b)) = 128" using av 2(4) by simp
    have IH: "length buf' = 128 \<and> pos' = min 128 (pos + ?av + length (concat bs)) \<and>
        ret' = ret + ?av + (pos' - (pos + ?av)) \<and>
        take pos' buf' = take (pos + ?av) (overwrite buf pos (take ?av b)) @ take (128 - (pos + ?av)) (concat bs)"
      using 2(2) [OF _ refl av(1) len av(2) step] False by blast
    have tk: "take (pos + ?av) (overwrite buf pos (take ?av b)) = take pos buf @ take ?av b"
      using take_overwrite [of pos buf "take ?av b"] 2(4,5) by simp
    have "take ?av b @ take (128 - (pos + ?av)) (concat bs) = take (128 - pos) (concat (b # bs))"
      by (cases "length b \<le> 128 - pos") (auto simp: min_def)
    with IH tk 2(4,5) False show ?thesis by (auto simp: min_def)
  qed
qed

lemma conn_ok_copy:
  "conn_ok a k \<Longrightarrow> connector_copy (pc_buffer k) (pc_buffpos k) 0 bs = (buf, pos, ret) \<Longrightarrow>
   conn_ok a (k\<lparr>pc_buffer := buf, pc_buffpos := pos\<rparr>) \<and>
   conn_ok a (k\<lparr>pc_buffer := buf[i := v], pc_buffpos := pos\<rparr>)"
  using connector_copy_spec [of "pc_buffer k" "pc_buffpos k" 0 bs buf pos ret] by (auto simp: conn_ok_def)

end
