(* ===== verification/PipeSafe.thy ===== *)
theory PipeSafe
  imports PipeInv
begin

text \<open>
  Memory safety of the pipe device: under the invariant \<open>pipe_inv\<close> every register access
  and every host-side event returns, without touching a freed object, and keeps the
  invariant. The services are only known through the contract \<open>pipe_backend\<close>: callbacks on
  a live peer return and keep all other peers alive, and \<open>init\<close> hands out a new peer.
\<close>

definition pipe_inv :: "('w \<Rightarrow> addr \<Rightarrow> addr \<Rightarrow> bool) \<Rightarrow> ('w \<Rightarrow> addr \<Rightarrow> bool) \<Rightarrow> ('w \<Rightarrow> bool) \<Rightarrow> 'w PipeService list \<Rightarrow>
    'w pipe_sys \<Rightarrow> bool" where
  "pipe_inv peer dead winv svcs s \<longleftrightarrow>
     (\<exists>xs ws. pipe_lists s xs ws \<and> (ws \<noteq> [] \<longrightarrow> pd_irq s)) \<and> pipe_chans s \<and> pipe_owns peer dead s \<and>
     ps_services s = svcs \<and> winv (ps_world s)"

lemma pipe_lists_unique: "pipe_lists s xs ws \<Longrightarrow> pipe_lists s xs' ws' \<Longrightarrow> xs = xs' \<and> ws = ws'"
  unfolding pipe_lists_def by (blast intro: is_list_unique)

lemma pipe_invE:
  assumes "pipe_inv peer dead winv svcs s"
  obtains xs ws where "pipe_lists s xs ws" "ws \<noteq> [] \<longrightarrow> pd_irq s" "pipe_chans s" "pipe_owns peer dead s"
    "ps_services s = svcs" "winv (ps_world s)"
  using assms unfolding pipe_inv_def by blast

lemma pipe_invD:
  assumes "pipe_inv peer dead winv svcs s"
  shows "pipe_owns peer dead s" and "ps_services s = svcs" and "winv (ps_world s)"
  using assms by (simp_all add: pipe_inv_def)

lemma pipe_owns_endpoint:
  "pipe_owns peer dead s \<Longrightarrow> ps_pipe s a = Some p \<Longrightarrow>
   endpoint_ok peer dead (ps_conn s) (length (ps_services s)) (ps_world s) a p"
  by (simp add: pipe_owns_def)

lemma pipe_owns_service:
  assumes "pipe_owns peer dead s" and "ps_pipe s a = Some p" and "p_funcs p = ServiceFuncs i"
  shows "i < length (ps_services s)" and "peer (ps_world s) a (p_opaque p)" and "dead (ps_world s) (p_opaque p) \<longrightarrow> p_closed p"
  using pipe_owns_endpoint [OF assms(1,2)] assms(3) by (simp_all add: endpoint_ok_def)

lemma pipe_owns_connector:
  assumes "pipe_owns peer dead s" and "ps_pipe s a = Some p" and "p_funcs p = ConnectorFuncs"
  obtains k where "ps_conn s (p_opaque p) = Some k" and "conn_ok a k" and "p_opaque p \<noteq> NULL"
  using pipe_owns_endpoint [OF assms(1,2)] assms(3) that by (auto simp: endpoint_ok_def)

lemma pipe_owns_peer:
  "pipe_owns peer dead s \<Longrightarrow> peer (ps_world s) a b \<Longrightarrow>
   \<exists>p. ps_pipe s a = Some p \<and> p_funcs p \<noteq> ConnectorFuncs \<and> p_opaque p = b"
  by (simp add: pipe_owns_def service_pipe_def)

text \<open>The invariant does not depend on the registers and on guest RAM.\<close>

definition same_core :: "'w pipe_sys \<Rightarrow> 'w pipe_sys \<Rightarrow> bool" where
  "same_core s t \<longleftrightarrow> ps_pipe t = ps_pipe s \<and> pd_pipes t = pd_pipes s \<and>
     pd_signaled_pipes t = pd_signaled_pipes s \<and> pd_irq t = pd_irq s \<and> ps_conn t = ps_conn s \<and>
     ps_services t = ps_services s \<and> ps_world t = ps_world s"

lemma pipe_inv_core: "same_core s t \<Longrightarrow> pipe_inv peer dead winv svcs t = pipe_inv peer dead winv svcs s"
  by (simp add: same_core_def pipe_inv_def pipe_lists_def pipe_chans_def pipe_owns_def)

lemma pipe_owns_world:
  assumes "pipe_owns peer dead s" and "peer w = peer (ps_world s)" and "\<And>b. dead w b \<Longrightarrow> dead (ps_world s) b"
  shows "pipe_owns peer dead (s\<lparr>ps_world := w\<rparr>)"
  using assms unfolding pipe_owns_def endpoint_ok_def
  by (auto split: funcs_ptr.splits)

lemma pipe_inv_world:
  assumes "pipe_inv peer dead winv svcs s" and "winv w" and "peer w = peer (ps_world s)"
    and "\<And>b. dead w b \<Longrightarrow> dead (ps_world s) b"
  shows "pipe_inv peer dead winv svcs (s\<lparr>ps_world := w\<rparr>)"
  using assms pipe_owns_world [of peer dead s w]
  by (auto simp: pipe_inv_def pipe_lists_def pipe_chans_def)

text \<open>Changes that keep the endpoint of every pipe; a pipe may become closed.\<close>

lemma service_pipe_view:
  assumes "service_pipe h a b"
    and "map_option (\<lambda>p. (p_funcs p, p_opaque p)) (h' a) = map_option (\<lambda>p. (p_funcs p, p_opaque p)) (h a)"
  shows "service_pipe h' a b"
  using assms by (cases "h' a") (auto simp: service_pipe_def)

lemma pipe_owns_view:
  assumes o: "pipe_owns peer dead s"
    and v: "\<And>b. map_option (\<lambda>p. (p_funcs p, p_opaque p)) (ps_pipe t b) =
                map_option (\<lambda>p. (p_funcs p, p_opaque p)) (ps_pipe s b)"
    and cl: "\<And>b p q. ps_pipe s b = Some p \<Longrightarrow> ps_pipe t b = Some q \<Longrightarrow> p_closed p \<Longrightarrow> p_closed q"
    and "ps_conn t = ps_conn s" "ps_services t = ps_services s" "ps_world t = ps_world s"
  shows "pipe_owns peer dead t"
  unfolding pipe_owns_def
proof (intro conjI allI impI)
  fix b q assume q: "ps_pipe t b = Some q"
  with v [of b] obtain q0 where q0: "ps_pipe s b = Some q0" "p_funcs q = p_funcs q0" "p_opaque q = p_opaque q0"
    by (cases "ps_pipe s b") auto
  have "endpoint_ok peer dead (ps_conn s) (length (ps_services s)) (ps_world s) b q0"
    using o q0(1) by (simp add: pipe_owns_def)
  then show "endpoint_ok peer dead (ps_conn t) (length (ps_services t)) (ps_world t) b q"
    using assms(4-6) q0(2,3) cl [OF q0(1) q] by (auto simp: endpoint_ok_def split: funcs_ptr.splits)
next
  fix c k assume "ps_conn t c = Some k"
  with o assms(4) obtain q where "ps_pipe s (pc_pipe k) = Some q" "p_funcs q = ConnectorFuncs" "p_opaque q = c"
    unfolding pipe_owns_def by metis
  with v [of "pc_pipe k"] show "\<exists>p. ps_pipe t (pc_pipe k) = Some p \<and> p_funcs p = ConnectorFuncs \<and> p_opaque p = c"
    by auto
next
  fix a b assume "peer (ps_world t) a b"
  with o assms(6) have "service_pipe (ps_pipe s) a b" by (simp add: pipe_owns_def)
  then show "service_pipe (ps_pipe t) a b" by (rule service_pipe_view [OF _ v])
qed

text \<open>Writing fields of a pipe that neither link it nor name its endpoint.\<close>

lemma pipe_inv_upd:
  assumes inv: "pipe_inv peer dead winv svcs s" and a: "ps_pipe s a = Some p"
    and "p_next p' = p_next p" "p_next_waked p' = p_next_waked p" "p_channel p' = p_channel p"
      "p_opaque p' = p_opaque p" "p_funcs p' = p_funcs p" "p_closed p \<longrightarrow> p_closed p'"
  shows "pipe_inv peer dead winv svcs (s\<lparr>ps_pipe := (ps_pipe s)(a \<mapsto> p')\<rparr>)"
proof -
  let ?t = "s\<lparr>ps_pipe := (ps_pipe s)(a \<mapsto> p')\<rparr>"
  obtain xs ws where l: "pipe_lists s xs ws" "ws \<noteq> [] \<longrightarrow> pd_irq s" and c: "pipe_chans s"
    and o: "pipe_owns peer dead s" and r: "ps_services s = svcs" "winv (ps_world s)"
    using inv by (rule pipe_invE)
  have "pipe_lists ?t xs ws" by (rule pipe_lists_upd [OF l(1) a, of _ p']) (use assms in auto)
  moreover have "pipe_chans ?t" using c a assms unfolding pipe_chans_def by (auto split: if_splits)
  moreover have "pipe_owns peer dead ?t" by (rule pipe_owns_view [OF o]) (use a assms in \<open>auto split: if_splits\<close>)
  ultimately show ?thesis using l r by (auto simp: pipe_inv_def)
qed

lemma pipe_inv_conn_upd:
  assumes inv: "pipe_inv peer dead winv svcs s" and a: "ps_pipe s a = Some p" "p_funcs p = ConnectorFuncs"
    and k: "conn_ok a k'"
  shows "pipe_inv peer dead winv svcs (s\<lparr>ps_conn := (ps_conn s)(p_opaque p \<mapsto> k')\<rparr>)"
proof -
  obtain xs ws where l: "pipe_lists s xs ws" "ws \<noteq> [] \<longrightarrow> pd_irq s" and c: "pipe_chans s"
    and o: "pipe_owns peer dead s" and r: "ps_services s = svcs" "winv (ps_world s)"
    using inv by (rule pipe_invE)
  from o a obtain k where k0: "p_opaque p \<noteq> NULL" "ps_conn s (p_opaque p) = Some k" "conn_ok a k"
    unfolding pipe_owns_def endpoint_ok_def by fastforce
  have "b = a" if "ps_pipe s b = Some q" "p_funcs q = ConnectorFuncs" "p_opaque q = p_opaque p" for b q
    using o that k0 unfolding pipe_owns_def endpoint_ok_def conn_ok_def by fastforce
  then have "endpoint_ok peer dead ((ps_conn s)(p_opaque p \<mapsto> k')) n w b q"
    if "ps_pipe s b = Some q" "endpoint_ok peer dead (ps_conn s) n w b q" for b q n w
    using that k unfolding endpoint_ok_def by (auto split: funcs_ptr.splits)
  then have "pipe_owns peer dead (s\<lparr>ps_conn := (ps_conn s)(p_opaque p \<mapsto> k')\<rparr>)"
    using o a k unfolding pipe_owns_def conn_ok_def by auto
  with l c r show ?thesis by (auto simp: pipe_inv_def pipe_lists_def pipe_chans_def)
qed

subsection \<open>What a command does\<close>

lemma doCommand_absent:
  assumes "pipe_lists s xs ws" and "\<And>a p. \<not> pipe_at s (pd_channel s) a p"
  shows "pipeDevice_doCommand pm np nc cmd s =
    (if cmd = PIPE_CMD_OPEN then cmd_open NULL np nc s else Some (s\<lparr>pd_status := PIPE_ERROR_INVAL\<rparr>))"
  using find_channel_absent [OF assms] by (simp add: pipeDevice_doCommand_def)

lemma doCommand_present:
  assumes l: "pipe_lists s xs ws" and c: "pipe_chans s" and at: "pipe_at s (pd_channel s) a p"
  obtains ys zs where "xs = ys @ a # zs"
    and "pipeDevice_doCommand pm np nc cmd s =
      (if p_closed p \<and> cmd \<noteq> PIPE_CMD_CLOSE then Some (s\<lparr>pd_status := PIPE_ERROR_IO\<rparr>)
       else if cmd = PIPE_CMD_OPEN then Some (s\<lparr>pd_status := PIPE_ERROR_INVAL\<rparr>)
       else if cmd = PIPE_CMD_CLOSE then cmd_close (end_slot SHead ys) a s
       else if cmd = PIPE_CMD_POLL then do { r \<leftarrow> call_poll p s; Some (s\<lparr>pd_status := r\<rparr>) }
       else if cmd = PIPE_CMD_READ_BUFFER then cmd_read_buffer pm a s
       else if cmd = PIPE_CMD_WRITE_BUFFER then cmd_write_buffer pm a s
       else if cmd = PIPE_CMD_WAKE_ON_READ then cmd_wake_on PIPE_WAKE_READ a s
       else if cmd = PIPE_CMD_WAKE_ON_WRITE then cmd_wake_on PIPE_WAKE_WRITE a s
       else Some s)"
proof -
  obtain ys zs where ys: "xs = ys @ a # zs" "pipe_list_findp_channel s (pd_channel s) = Some (end_slot SHead ys)"
    "slot_read p_next (ps_pipe s) (pd_pipes s) (end_slot SHead ys) = Some a"
    using find_channel_present [OF assms] by blast
  from at have a: "ps_pipe s a = Some p" by (simp add: pipe_at_def)
  have "a \<noteq> NULL" by (rule pipe_lists_nonnull [OF l a])
  then show ?thesis
    using that [OF ys(1)] ys(2,3) a by (simp add: pipeDevice_doCommand_def cmd_open_def)
qed

lemma doCommand_refused:
  assumes l: "pipe_lists s xs ws" and c: "pipe_chans s" and at: "pipe_at s (pd_channel s) a p"
  shows "p_closed p \<Longrightarrow> cmd \<noteq> PIPE_CMD_CLOSE \<Longrightarrow>
      pipeDevice_doCommand pm np nc cmd s = Some (s\<lparr>pd_status := PIPE_ERROR_IO\<rparr>)"
    and "\<not> p_closed p \<Longrightarrow>
      pipeDevice_doCommand pm np nc PIPE_CMD_OPEN s = Some (s\<lparr>pd_status := PIPE_ERROR_INVAL\<rparr>)"
  using doCommand_present [OF assms, of pm np nc cmd "pipeDevice_doCommand pm np nc cmd s = Some (s\<lparr>pd_status := PIPE_ERROR_IO\<rparr>)"]
    doCommand_present [OF assms, of pm np nc PIPE_CMD_OPEN
      "pipeDevice_doCommand pm np nc PIPE_CMD_OPEN s = Some (s\<lparr>pd_status := PIPE_ERROR_INVAL\<rparr>)"]
  by force+

text \<open>Register reads need no service.\<close>

lemma pipe_inv_read:
  assumes inv: "pipe_inv peer dead winv svcs s"
  shows "\<exists>v t. pipe_dev_read off s = Some (v, t) \<and> pipe_inv peer dead winv svcs t \<and> ps_world t = ps_world s"
proof -
  obtain xs ws where l: "pipe_lists s xs ws" "ws \<noteq> [] \<longrightarrow> pd_irq s" and c: "pipe_chans s"
    and o: "pipe_owns peer dead s" and r: "ps_services s = svcs" "winv (ps_world s)"
    using inv by (rule pipe_invE)
  consider "off \<noteq> PIPE_REG_CHANNEL" | "off = PIPE_REG_CHANNEL" "ws = []" | a ws' where "off = PIPE_REG_CHANNEL" "ws = a # ws'"
    by (cases ws) auto
  then show ?thesis
  proof cases
    case 1
    have "pd_signaled_pipes s \<noteq> NULL \<Longrightarrow> \<exists>p. ps_pipe s (pd_signaled_pipes s) = Some p"
      using l(1) by (cases ws) (auto simp: pipe_lists_def)
    with 1 inv show ?thesis by (auto simp: pipe_dev_read_def)
  next
    case 2
    with read_channel_empty [of s xs] l(1) inv show ?thesis by auto
  next
    case 3
    with l(1) have l': "pipe_lists s xs (a # ws')" by simp
    then obtain p where a: "ps_pipe s a = Some p" by (auto simp: pipe_lists_def)
    let ?p = "(set_next_waked NULL p)\<lparr>p_wanted := 0\<rparr>"
    define t where "t = s\<lparr>pd_wakes := ucast (p_wanted p), pd_signaled_pipes := p_next_waked p,
        ps_pipe := (ps_pipe s)(a \<mapsto> ?p), pd_irq := (if ws' = [] then False else pd_irq s)\<rparr>"
    note rd = read_channel_spec [OF l' a t_def]
    have "pipe_chans t" using c a unfolding pipe_chans_def by (auto simp: t_def set_next_waked_def split: if_splits)
    moreover have "pipe_owns peer dead t"
      by (rule pipe_owns_view [OF o]) (use a in \<open>auto simp: t_def set_next_waked_def split: if_splits\<close>)
    ultimately have "pipe_inv peer dead winv svcs t" using rd(2) r l(2) 3(2) by (auto simp: pipe_inv_def t_def)
    with rd(1) 3(1) show ?thesis by (auto simp: t_def)
  qed
qed

text \<open>The addresses \<open>g_malloc0\<close> returns are not null and not in use.\<close>

definition fresh_for :: "addr \<Rightarrow> addr \<Rightarrow> 'w pipe_sys \<Rightarrow> bool" where
  "fresh_for np nc s \<longleftrightarrow> np \<noteq> NULL \<and> np \<notin> dom (ps_pipe s) \<and> nc \<noteq> NULL \<and> nc \<notin> dom (ps_conn s)"

lemma cmd_open_inv:
  assumes inv: "pipe_inv peer dead winv svcs s" and new: "fresh_for np nc s"
    and no: "\<And>a p. \<not> pipe_at s (pd_channel s) a p"
  shows "\<exists>t. cmd_open NULL np nc s = Some t \<and> pipe_inv peer dead winv svcs t"
proof -
  obtain xs ws where l: "pipe_lists s xs ws" "ws \<noteq> [] \<longrightarrow> pd_irq s" and c: "pipe_chans s"
    and o: "pipe_owns peer dead s" and r: "ps_services s = svcs" "winv (ps_world s)"
    using inv by (rule pipe_invE)
  let ?k = "\<lparr>pc_pipe = np, pc_buffer = replicate 128 0, pc_buffpos = 0\<rparr>"
  let ?p = "pipe_new0\<lparr>p_channel := pd_channel s, p_opaque := nc, p_next := pd_pipes s\<rparr>"
  define t where "t = s\<lparr>ps_conn := (ps_conn s)(nc \<mapsto> ?k), ps_pipe := (ps_pipe s)(np \<mapsto> ?p),
        pd_pipes := np, pd_status := 0\<rparr>"
  from new have n: "np \<noteq> NULL" "np \<notin> dom (ps_pipe s)" "nc \<noteq> NULL" "nc \<notin> dom (ps_conn s)"
    by (auto simp: fresh_for_def)
  note op = cmd_open_spec [OF l(1) n(1,2) t_def]
  have "p_channel q \<noteq> pd_channel s" if "ps_pipe s a = Some q" for a q
    using no [of a q] that by (auto simp: pipe_at_def)
  then have "pipe_chans t" using c by (force simp: pipe_chans_def t_def split: if_splits)
  moreover have "pipe_owns peer dead t"
    unfolding pipe_owns_def
  proof (intro conjI allI impI)
    fix b q assume q: "ps_pipe t b = Some q"
    show "endpoint_ok peer dead (ps_conn t) (length (ps_services t)) (ps_world t) b q"
    proof (cases "b = np")
      case True
      with q n show ?thesis by (auto simp: t_def endpoint_ok_def pipe_new0_def conn_ok_def)
    next
      case False
      with q o have "endpoint_ok peer dead (ps_conn s) (length (ps_services s)) (ps_world s) b q"
        by (simp add: t_def pipe_owns_def)
      with n(4) show ?thesis by (auto simp: t_def endpoint_ok_def split: funcs_ptr.splits)
    qed
  next
    fix d k assume d: "ps_conn t d = Some k"
    show "\<exists>q. ps_pipe t (pc_pipe k) = Some q \<and> p_funcs q = ConnectorFuncs \<and> p_opaque q = d"
    proof (cases "d = nc")
      case True
      with d show ?thesis by (auto simp: t_def pipe_new0_def)
    next
      case False
      with d have "ps_conn s d = Some k" by (simp add: t_def)
      with o obtain q where "ps_pipe s (pc_pipe k) = Some q" "p_funcs q = ConnectorFuncs" "p_opaque q = d"
        unfolding pipe_owns_def by metis
      with n(2) show ?thesis by (auto simp: t_def)
    qed
  next
    fix a b assume "peer (ps_world t) a b"
    with o have "service_pipe (ps_pipe s) a b" by (simp add: pipe_owns_def t_def)
    with n(2) show "service_pipe (ps_pipe t) a b" by (auto simp: service_pipe_def t_def)
  qed
  ultimately have "pipe_inv peer dead winv svcs t"
    using op(2) l(2) r by (auto simp: pipe_inv_def t_def)
  with op(1) show ?thesis by blast
qed

lemma find_type_from_bound: "find_type_from name l n = Some i \<Longrightarrow> n \<le> i \<and> i < n + length l"
  by (induction l arbitrary: n) (fastforce split: if_splits)+

lemma find_type_bound: "qemu_pipe_find_type name l = Some i \<Longrightarrow> i < length l"
  using find_type_from_bound by (fastforce simp: qemu_pipe_find_type_def)

locale pipe_backend =
  fixes svcs :: "'w PipeService list"
    and peer :: "'w \<Rightarrow> addr \<Rightarrow> addr \<Rightarrow> bool"
    and dead :: "'w \<Rightarrow> addr \<Rightarrow> bool"
    and winv :: "'w \<Rightarrow> bool"
  assumes init: "svc \<in> set svcs \<Longrightarrow> winv w \<Longrightarrow> hw \<noteq> NULL \<Longrightarrow>
      \<exists>w' a. f_init (svc_funcs svc) hw (svc_opaque svc) args w = Some (w', a) \<and> winv w' \<and> dead w' = dead w \<and>
        (if a = NULL then peer w' = peer w
         else (\<forall>h. \<not> peer w h a) \<and> \<not> dead w a \<and> peer w' = (\<lambda>h b. peer w h b \<or> h = hw \<and> b = a))"
    and send: "svc \<in> set svcs \<Longrightarrow> winv w \<Longrightarrow> peer w hw a \<Longrightarrow> length buf < 2 ^ 32 \<Longrightarrow>
      \<exists>w' r. f_sendBuffers (svc_funcs svc) a [buf] w = Some (w', r) \<and> winv w' \<and> peer w' = peer w \<and> dead w' = dead w"
    and recv: "svc \<in> set svcs \<Longrightarrow> winv w \<Longrightarrow> peer w hw a \<Longrightarrow> n < 2 ^ 32 \<Longrightarrow>
      \<exists>w' out r. f_recvBuffers (svc_funcs svc) a [n] w = Some (w', out, r) \<and> winv w' \<and>
        list_all2 (\<lambda>bs n. length bs \<le> n) out [n] \<and> peer w' = peer w \<and> dead w' = dead w"
    and poll: "svc \<in> set svcs \<Longrightarrow> winv w \<Longrightarrow> peer w hw a \<Longrightarrow> \<exists>r. f_poll (svc_funcs svc) a w = Some r"
    and wakeOn: "svc \<in> set svcs \<Longrightarrow> winv w \<Longrightarrow> peer w hw a \<Longrightarrow> \<not> dead w a \<Longrightarrow>
      \<exists>w'. f_wakeOn (svc_funcs svc) a flags w = Some w' \<and> winv w' \<and> peer w' = peer w \<and> dead w' = dead w"
    and close: "svc \<in> set svcs \<Longrightarrow> winv w \<Longrightarrow> peer w hw a \<Longrightarrow>
      \<exists>cl w'. f_close (svc_funcs svc) = Some cl \<and> cl a w = Some w' \<and> winv w' \<and>
        peer w' = (\<lambda>h b. peer w h b \<and> b \<noteq> a) \<and> (\<forall>b. dead w' b \<longrightarrow> dead w b)"
    and peer_fun: "winv w \<Longrightarrow> peer w h a \<Longrightarrow> peer w h' a \<Longrightarrow> h = h'"
begin

abbreviation inv where "inv \<equiv> pipe_inv peer dead winv svcs"

lemma service_of:
  assumes "inv s" and "ps_pipe s a = Some p" and "p_funcs p = ServiceFuncs i"
  obtains svc where "service_at s i = Some svc" "svc \<in> set svcs" "peer (ps_world s) a (p_opaque p)"
    "winv (ps_world s)" "dead (ps_world s) (p_opaque p) \<longrightarrow> p_closed p"
  using pipe_owns_service [OF pipe_invD(1) [OF assms(1)] assms(2,3)] pipe_invD(2,3) [OF assms(1)] that [of "svcs ! i"]
  by (simp add: service_at_def)

lemma connector_of:
  assumes "inv s" and "ps_pipe s a = Some p" and "p_funcs p = ConnectorFuncs"
  obtains k where "ps_conn s (p_opaque p) = Some k" "conn_ok a k" "p_opaque p \<noteq> NULL"
  using pipe_invD(1) [OF assms(1)] assms(2,3) by (rule pipe_owns_connector) (rule that)

text \<open>A successful connection hands the pipe over from its connector to the new peer.\<close>

lemma inv_connect:
  assumes "inv s" and a: "ps_pipe s a = Some p" "p_funcs p = ConnectorFuncs"
    and i: "i < length svcs" and w: "winv w" "\<forall>h. \<not> peer (ps_world s) h o'" "\<not> dead (ps_world s) o'"
      "peer w = (\<lambda>h b. peer (ps_world s) h b \<or> h = a \<and> b = o')" "dead w = dead (ps_world s)"
  shows "inv (s\<lparr>ps_world := w, ps_pipe := (ps_pipe s)(a \<mapsto> p\<lparr>p_opaque := o', p_service := sv,
                  p_funcs := ServiceFuncs i, p_args := args\<rparr>),
                ps_conn := (ps_conn s)(p_opaque p := None)\<rparr>)" (is "inv ?t")
proof -
  let ?p = "p\<lparr>p_opaque := o', p_service := sv, p_funcs := ServiceFuncs i, p_args := args\<rparr>"
  obtain xs ws where l: "pipe_lists s xs ws" "ws \<noteq> [] \<longrightarrow> pd_irq s" and c: "pipe_chans s"
    and o: "pipe_owns peer dead s" and r: "ps_services s = svcs" "winv (ps_world s)"
    using assms(1) by (rule pipe_invE)
  obtain k where k: "ps_conn s (p_opaque p) = Some k" "conn_ok a k" using assms(1) a by (rule connector_of)
  have "pipe_lists ?t xs ws" by (rule pipe_lists_upd [OF l(1) a(1), of _ ?p]) auto
  moreover have "pipe_chans ?t" using c a unfolding pipe_chans_def by (auto split: if_splits)
  moreover have "pipe_owns peer dead ?t"
    unfolding pipe_owns_def
  proof (intro conjI allI impI)
    fix b q assume q: "ps_pipe ?t b = Some q"
    show "endpoint_ok peer dead (ps_conn ?t) (length (ps_services ?t)) (ps_world ?t) b q"
    proof (cases "b = a")
      case True
      with q i r w show ?thesis by (auto simp: endpoint_ok_def)
    next
      case False
      with q have qs: "ps_pipe s b = Some q" by simp
      with o have e: "endpoint_ok peer dead (ps_conn s) (length (ps_services s)) (ps_world s) b q"
        by (simp add: pipe_owns_def)
      moreover have "p_opaque q \<noteq> p_opaque p" if "p_funcs q = ConnectorFuncs"
        using e that k False by (auto simp: endpoint_ok_def conn_ok_def)
      ultimately show ?thesis using w by (auto simp: endpoint_ok_def split: funcs_ptr.splits)
    qed
  next
    fix d k' assume d: "ps_conn ?t d = Some k'"
    then have "ps_conn s d = Some k'" "d \<noteq> p_opaque p" by (auto split: if_splits)
    with o a obtain q where "ps_pipe s (pc_pipe k') = Some q" "p_funcs q = ConnectorFuncs" "p_opaque q = d"
      unfolding pipe_owns_def by blast
    with \<open>d \<noteq> p_opaque p\<close> a(1)
    show "\<exists>q. ps_pipe ?t (pc_pipe k') = Some q \<and> p_funcs q = ConnectorFuncs \<and> p_opaque q = d" by auto
  next
    fix h b assume "peer (ps_world ?t) h b"
    with w(4) o have "service_pipe (ps_pipe s) h b \<or> h = a \<and> b = o'" by (auto simp: pipe_owns_def)
    with a show "service_pipe (ps_pipe ?t) h b" by (auto simp: service_pipe_def)
  qed
  ultimately show ?thesis using l r w(1) by (auto simp: pipe_inv_def)
qed

text \<open>Each callback, called through \<open>pipe->funcs\<close>, returns and keeps the invariant.\<close>

lemma connector_send_ok:
  assumes inv: "inv s" and a: "ps_pipe s a = Some p" "p_funcs p = ConnectorFuncs"
  shows "\<exists>t r. pipeConnector_sendBuffers (p_opaque p) bufs s = Some (t, r) \<and> inv t"
proof -
  obtain k where k: "ps_conn s (p_opaque p) = Some k" "conn_ok a k" using inv a by (rule connector_of)
  obtain buf pos ret where cp: "connector_copy (pc_buffer k) (pc_buffpos k) 0 bufs = (buf, pos, ret)"
    by (metis prod_cases3)
  let ?s = "\<lambda>b. s\<lparr>ps_conn := (ps_conn s)(p_opaque p \<mapsto> k\<lparr>pc_buffer := b, pc_buffpos := pos\<rparr>)\<rparr>"
  have i1: "inv (?s buf)" and i2: "inv (?s (buf[i := v]))" for i v
    using conn_ok_copy [OF k(2) cp] by (auto intro: pipe_inv_conn_upd [OF inv a])
  obtain name args colon where sp: "connector_split (c_str (drop 5 buf)) = (name, args, colon)"
    by (metis prod_cases3)
  define s2 where "s2 = ?s (case colon of None \<Rightarrow> buf | Some i \<Rightarrow> buf[5 + i := 0])"
  have i3: "inv s2" using i1 i2 unfolding s2_def by (cases colon) auto
  have pk: "pc_pipe k = a" using k(2) by (simp add: conn_ok_def)
  have sv: "ps_services s = svcs" "ps_services s2 = svcs" "winv (ps_world s2)" "ps_world s2 = ps_world s"
    using inv i3 by (auto simp: pipe_inv_def s2_def)
  show ?thesis
  proof (cases "0 \<in> set (take pos buf) \<and> take 5 buf = bytes ''pipe:''")
    case False
    with k(1) cp i1 show ?thesis
      by (cases "0 \<in> set (take pos buf)") (simp_all add: pipeConnector_sendBuffers_def)
  next
    case True
    show ?thesis
    proof (cases "qemu_pipe_find_type name svcs")
      case None
      with True k(1) cp sp i3 sv show ?thesis
        by (simp add: pipeConnector_sendBuffers_def s2_def [symmetric])
    next
      case (Some i)
      then have il: "i < length svcs" "svcs ! i \<in> set svcs"
        using find_type_bound by fastforce+
      have "a \<noteq> NULL" using inv by (rule pipe_invE) (rule pipe_lists_nonnull [OF _ a(1)])
      from init [OF il(2) sv(3) this, of args] obtain w peer' where
        f: "f_init (svc_funcs (svcs ! i)) a (svc_opaque (svcs ! i)) args (ps_world s2) = Some (w, peer')"
        "winv w" "dead w = dead (ps_world s2)"
        and fp: "if peer' = NULL then peer w = peer (ps_world s2) else (\<forall>h. \<not> peer (ps_world s2) h peer') \<and>
          \<not> dead (ps_world s2) peer' \<and> peer w = (\<lambda>h b. peer (ps_world s2) h b \<or> h = a \<and> b = peer')"
        by blast
      have i4: "inv (s2\<lparr>ps_world := w\<rparr>)" if "peer' = NULL"
        by (rule pipe_inv_world [OF i3 f(2)]) (use fp f(3) that in auto)
      have s2p: "ps_pipe s2 = ps_pipe s" "ps_conn s2 (p_opaque p) \<noteq> None" by (auto simp: s2_def)
      have "peer' \<noteq> NULL \<Longrightarrow> inv (s2\<lparr>ps_world := w,
          ps_pipe := (ps_pipe s)(a \<mapsto> p\<lparr>p_opaque := peer', p_service := Some i,
             p_funcs := ServiceFuncs i, p_args := args\<rparr>),
          ps_conn := (ps_conn s2)(p_opaque p := None)\<rparr>)" (is "_ \<Longrightarrow> inv ?u")
        using inv_connect [OF i3, where a = a and p = p and i = i and o' = peer' and w = w and sv = "Some i" and args = args]
          a il f fp s2p by simp
      moreover have "?u = s\<lparr>ps_world := w,
          ps_pipe := (ps_pipe s)(a \<mapsto> p\<lparr>p_opaque := peer', p_service := Some i,
             p_funcs := ServiceFuncs i, p_args := args\<rparr>),
          ps_conn := (ps_conn s)(p_opaque p := None)\<rparr>" by (simp add: s2_def)
      ultimately show ?thesis using True k(1) cp sp i4 Some sv f(1) a(1) s2p pk
        by (cases "peer' = NULL") (simp_all add: pipeConnector_sendBuffers_def s2_def [symmetric] Let_def)
    qed
  qed
qed

lemma call_sendBuffers_ok:
  assumes inv: "inv s" and a: "ps_pipe s a = Some p" and len: "length buf < 2 ^ 32"
  shows "\<exists>t r. call_sendBuffers p [buf] s = Some (t, r) \<and> inv t"
proof (cases "p_funcs p")
  case ConnectorFuncs
  with connector_send_ok [OF inv a] show ?thesis by (simp add: call_sendBuffers_def)
next
  case (ServiceFuncs i)
  with inv a obtain svc where svc: "service_at s i = Some svc" "svc \<in> set svcs"
    "peer (ps_world s) a (p_opaque p)" "winv (ps_world s)" "dead (ps_world s) (p_opaque p) \<longrightarrow> p_closed p"
    by (rule service_of)
  from send [OF svc(2,4,3) len] svc(1) ServiceFuncs show ?thesis
    by (auto simp: call_sendBuffers_def intro!: pipe_inv_world [OF inv])
qed

lemma call_recvBuffers_ok:
  assumes inv: "inv s" and a: "ps_pipe s a = Some p" and len: "n < 2 ^ 32"
  shows "\<exists>t out r. call_recvBuffers p [n] s = Some (t, out, r) \<and> inv t \<and>
    list_all2 (\<lambda>bs n. length bs \<le> n) out [n]"
proof (cases "p_funcs p")
  case ConnectorFuncs
  with inv show ?thesis
    by (simp add: call_recvBuffers_def pipeConnector_recvBuffers_def)
next
  case (ServiceFuncs i)
  with inv a obtain svc where svc: "service_at s i = Some svc" "svc \<in> set svcs"
    "peer (ps_world s) a (p_opaque p)" "winv (ps_world s)" "dead (ps_world s) (p_opaque p) \<longrightarrow> p_closed p"
    by (rule service_of)
  from recv [OF svc(2,4,3) len] svc(1) ServiceFuncs show ?thesis
    by (auto simp: call_recvBuffers_def intro!: pipe_inv_world [OF inv])
qed

lemma call_poll_ok: "inv s \<Longrightarrow> ps_pipe s a = Some p \<Longrightarrow> \<exists>r. call_poll p s = Some r"
  by (cases "p_funcs p") (auto simp: call_poll_def elim!: service_of dest: poll)

lemma call_wakeOn_ok:
  assumes inv: "inv s" and a: "ps_pipe s a = Some p" and op: "\<not> p_closed p"
  shows "\<exists>t. call_wakeOn p flags s = Some t \<and> inv t"
proof (cases "p_funcs p")
  case ConnectorFuncs
  with inv show ?thesis by (simp add: call_wakeOn_def pipeConnector_wakeOn_def)
next
  case (ServiceFuncs i)
  with inv a obtain svc where svc: "service_at s i = Some svc" "svc \<in> set svcs"
    "peer (ps_world s) a (p_opaque p)" "winv (ps_world s)" "dead (ps_world s) (p_opaque p) \<longrightarrow> p_closed p"
    by (rule service_of)
  from wakeOn [OF svc(2,4,3), of flags] svc(1,5) ServiceFuncs op show ?thesis
    by (auto simp: call_wakeOn_def intro!: pipe_inv_world [OF inv])
qed

text \<open>
  The \<open>close\<close> callback releases the endpoint of the pipe; afterwards the pipe itself can go,
  since no other pipe refers to that endpoint.
\<close>

lemma pipe_owns_free:
  assumes o: "pipe_owns peer dead s" and a: "ps_pipe s a = Some p"
    and conn: "conn' = (if p_funcs p = ConnectorFuncs then (ps_conn s)(p_opaque p := None) else ps_conn s)"
    and world: "\<And>b q. ps_pipe s b = Some q \<Longrightarrow> b \<noteq> a \<Longrightarrow> peer (ps_world s) b (p_opaque q) \<Longrightarrow> peer w' b (p_opaque q)"
    and bk: "\<And>h b. peer w' h b \<Longrightarrow> peer (ps_world s) h b \<and> h \<noteq> a" and dead: "\<And>b. dead w' b \<Longrightarrow> dead (ps_world s) b"
  shows "pipe_owns peer dead (s\<lparr>ps_conn := conn', ps_world := w', ps_pipe := (ps_pipe s)(a := None)\<rparr>)"
    (is "pipe_owns peer dead ?t")
  unfolding pipe_owns_def
proof (intro conjI allI impI)
  fix b q assume "ps_pipe ?t b = Some q"
  then have q: "ps_pipe s b = Some q" "b \<noteq> a" by (auto split: if_splits)
  with o have e: "endpoint_ok peer dead (ps_conn s) (length (ps_services s)) (ps_world s) b q"
    by (simp add: pipe_owns_def)
  have "conn' (p_opaque q) = ps_conn s (p_opaque q)" if "p_funcs q = ConnectorFuncs"
  proof (cases "p_funcs p = ConnectorFuncs \<and> p_opaque p = p_opaque q")
    case True
    from o a have "endpoint_ok peer dead (ps_conn s) (length (ps_services s)) (ps_world s) a p"
      by (simp add: pipe_owns_def)
    with e that True q(2) show ?thesis by (auto simp: endpoint_ok_def conn_ok_def)
  qed (auto simp: conn)
  with e world [OF q] dead show "endpoint_ok peer dead (ps_conn ?t) (length (ps_services ?t)) (ps_world ?t) b q"
    by (auto simp: endpoint_ok_def split: funcs_ptr.splits)
next
  fix c k assume "ps_conn ?t c = Some k"
  then have c: "ps_conn s c = Some k" "\<not> (p_funcs p = ConnectorFuncs \<and> c = p_opaque p)"
    by (auto simp: conn split: if_splits)
  with o obtain q where q: "ps_pipe s (pc_pipe k) = Some q" "p_funcs q = ConnectorFuncs" "p_opaque q = c"
    unfolding pipe_owns_def by metis
  with c(2) a have "pc_pipe k \<noteq> a" by auto
  with q show "\<exists>p. ps_pipe ?t (pc_pipe k) = Some p \<and> p_funcs p = ConnectorFuncs \<and> p_opaque p = c" by simp
next
  fix h b assume "peer (ps_world ?t) h b"
  with bk have "peer (ps_world s) h b" "h \<noteq> a" by auto
  with o show "service_pipe (ps_pipe ?t) h b" by (auto simp: pipe_owns_def service_pipe_def)
qed

text \<open>A pipe with a connector has no peer, and a pipe has at most one.\<close>

lemma connector_no_peer:
  "pipe_owns peer dead s \<Longrightarrow> ps_pipe s a = Some p \<Longrightarrow> p_funcs p = ConnectorFuncs \<Longrightarrow> \<not> peer (ps_world s) a b"
  using pipe_owns_peer [of peer dead s a b] by auto

lemma peer_is_opaque:
  "pipe_owns peer dead s \<Longrightarrow> ps_pipe s a = Some p \<Longrightarrow> peer (ps_world s) a b \<Longrightarrow> b = p_opaque p"
  using pipe_owns_peer [of peer dead s a b] by auto

lemma call_close_ok:
  assumes o: "pipe_owns peer dead s" and w: "winv (ps_world s)" and sv: "ps_services s = svcs"
    and a: "ps_pipe s a = Some p"
  shows "\<exists>t. call_close p s = Some t \<and> pipe_owns peer dead (t\<lparr>ps_pipe := (ps_pipe s)(a := None)\<rparr>) \<and>
    winv (ps_world t) \<and> t = s\<lparr>ps_conn := ps_conn t, ps_world := ps_world t\<rparr>"
proof (cases "p_funcs p")
  case ConnectorFuncs
  from o a ConnectorFuncs obtain k where k: "ps_conn s (p_opaque p) = Some k" "conn_ok a k" "p_opaque p \<noteq> NULL"
    by (rule pipe_owns_connector)
  let ?t = "s\<lparr>ps_conn := (ps_conn s)(p_opaque p := None)\<rparr>"
  have "pipe_owns peer dead (?t\<lparr>ps_pipe := (ps_pipe s)(a := None)\<rparr>)"
    using pipe_owns_free [OF o a refl, of "ps_world s"] connector_no_peer [OF o a ConnectorFuncs] ConnectorFuncs by fastforce
  with k w ConnectorFuncs show ?thesis by (auto simp: call_close_def pipeConnector_close_def)
next
  case (ServiceFuncs i)
  have i: "i < length (ps_services s)" "peer (ps_world s) a (p_opaque p)"
    by (rule pipe_owns_service [OF o a ServiceFuncs])+
  with sv have svc: "service_at s i = Some (svcs ! i)" "svcs ! i \<in> set svcs" by (auto simp: service_at_def)
  from close [OF svc(2) w i(2)] obtain cl w' where cl: "f_close (svc_funcs (svcs ! i)) = Some cl"
    "cl (p_opaque p) (ps_world s) = Some w'" and w': "winv w'"
    "peer w' = (\<lambda>h b. peer (ps_world s) h b \<and> b \<noteq> p_opaque p)" "\<And>b. dead w' b \<Longrightarrow> dead (ps_world s) b" by blast
  have "pipe_owns peer dead (s\<lparr>ps_conn := ps_conn s, ps_world := w', ps_pipe := (ps_pipe s)(a := None)\<rparr>)"
  proof (rule pipe_owns_free [OF o a])
    show "ps_conn s = (if p_funcs p = ConnectorFuncs then (ps_conn s)(p_opaque p := None) else ps_conn s)"
      using ServiceFuncs by simp
    show "peer w' b (p_opaque q)" if "ps_pipe s b = Some q" "b \<noteq> a" "peer (ps_world s) b (p_opaque q)" for b q
      unfolding w'(2) using that peer_fun [OF w that(3), of a] i(2) by metis
    show "peer (ps_world s) h b \<and> h \<noteq> a" if "peer w' h b" for h b
      using that peer_is_opaque [OF o a, of b] unfolding w'(2) by metis
    show "dead (ps_world s) b" if "dead w' b" for b using that w'(3) by blast
  qed
  then have "pipe_owns peer dead (s\<lparr>ps_world := w', ps_pipe := (ps_pipe s)(a := None)\<rparr>)" by simp
  moreover have "call_close p s = Some (s\<lparr>ps_world := w'\<rparr>)" using svc(1) ServiceFuncs cl by (simp add: call_close_def)
  ultimately show ?thesis using w'(1) by auto
qed

lemma cmd_close_ok:
  assumes inv: "inv s" and l: "pipe_lists s (ys @ a # zs) ws" and a: "ps_pipe s a = Some p"
  shows "\<exists>t. cmd_close (end_slot SHead ys) a s = Some t \<and> inv t \<and>
    pipe_lists t (ys @ zs) (remove1 a ws) \<and> pipe_data t = (pipe_data s)(a := None)"
proof -
  obtain xs' ws' where l': "pipe_lists s xs' ws'" "ws' \<noteq> [] \<longrightarrow> pd_irq s" and c: "pipe_chans s"
    and o: "pipe_owns peer dead s" and r: "ps_services s = svcs" "winv (ps_world s)"
    using inv by (rule pipe_invE)
  have "ws' = ws" using pipe_lists_unique [OF l'(1) l] by simp
  obtain t q where t: "cmd_close (end_slot SHead ys) a s =
      do { u \<leftarrow> call_close q t; Some (u\<lparr>ps_pipe := (ps_pipe u)(a := None)\<rparr>) }"
    "unlinked q = unlinked p" "ps_pipe t a = Some q"
    and ts: "t = s\<lparr>ps_pipe := ps_pipe t, pd_pipes := pd_pipes t, pd_signaled_pipes := pd_signaled_pipes t\<rparr>"
    and td: "pipe_data t = pipe_data s"
    and tl: "is_list p_next (ps_pipe t) (pd_pipes t) (ys @ zs)"
      "is_list p_next_waked (ps_pipe t) (pd_signaled_pipes t) (remove1 a ws)"
    using cmd_close_spec [OF l a] by blast
  have tr: "ps_conn t = ps_conn s" "ps_services t = svcs" "ps_world t = ps_world s" "pd_irq t = pd_irq s"
    by (subst ts, simp add: r)+
  have "pipe_owns peer dead t" by (rule pipe_owns_cong [OF o td]) (use tr r in auto)
  then obtain u where u: "call_close q t = Some u" "pipe_owns peer dead (u\<lparr>ps_pipe := (ps_pipe t)(a := None)\<rparr>)"
    "winv (ps_world u)" and us: "u = t\<lparr>ps_conn := ps_conn u, ps_world := ps_world u\<rparr>"
    using call_close_ok [of t a q] tr r t(3) by auto
  let ?v = "u\<lparr>ps_pipe := (ps_pipe u)(a := None)\<rparr>"
  have ur: "ps_pipe u = ps_pipe t" "pd_pipes u = pd_pipes t" "pd_signaled_pipes u = pd_signaled_pipes t"
    "ps_services u = svcs" "pd_irq u = pd_irq s" by (subst us, simp add: tr)+
  have v: "pipe_lists ?v (ys @ zs) (remove1 a ws)" "pipe_data ?v = (pipe_data s)(a := None)"
    by (rule pipe_lists_close [OF l td tl]; simp add: ur)+
  have "pipe_chans ?v" by (rule pipe_chans_sub [OF c]) (simp add: v map_le_def)
  moreover have "remove1 a ws \<noteq> [] \<longrightarrow> pd_irq ?v"
    using l'(2) \<open>ws' = ws\<close> ur(5) by (cases ws) auto
  ultimately have "inv ?v" using v(1) u(2,3) ur by (auto simp: pipe_inv_def)
  with t(1) u(1) v show ?thesis by simp
qed

lemma cmd_wake_on_ok:
  assumes inv: "inv s" and a: "ps_pipe s a = Some p" and op: "\<not> p_closed p"
  shows "\<exists>t. cmd_wake_on flag a s = Some t \<and> inv t"
proof -
  let ?p = "p\<lparr>p_wanted := p_wanted p OR ucast flag\<rparr>"
  let ?s = "s\<lparr>ps_pipe := (ps_pipe s)(a \<mapsto> ?p)\<rparr>"
  have "inv ?s" by (rule pipe_inv_upd [OF inv a]) auto
  with call_wakeOn_ok [of ?s a ?p "ucast (p_wanted ?p)"] op obtain t where
    t: "call_wakeOn ?p (ucast (p_wanted ?p)) ?s = Some t" "inv t" by auto
  have st: "inv (u\<lparr>pd_status := r\<rparr>) = inv u" for u r by (rule pipe_inv_core) (simp add: same_core_def)
  show ?thesis
    using t inv a by (cases "p_wanted p AND ucast flag = 0") (simp_all add: cmd_wake_on_def st)
qed

text \<open>No command faults, and every command keeps the invariant.\<close>

lemma doCommand_ok:
  assumes inv: "inv s" and new: "fresh_for np nc s"
  shows "\<exists>t. pipeDevice_doCommand pm np nc cmd s = Some t \<and> inv t"
proof -
  obtain xs ws where l: "pipe_lists s xs ws" and c: "pipe_chans s" using inv by (rule pipe_invE)
  have reg: "inv (u\<lparr>pd_status := r\<rparr>) = inv u" "inv (u\<lparr>ps_ram := m\<rparr>) = inv u" for u r m
    by (rule pipe_inv_core, simp add: same_core_def)+
  show ?thesis
  proof (cases "\<exists>a p. pipe_at s (pd_channel s) a p")
    case False
    with doCommand_absent [OF l, of pm np nc cmd] cmd_open_inv [OF inv new] inv show ?thesis
      by (auto simp: reg)
  next
    case True
    then obtain a p where at: "pipe_at s (pd_channel s) a p" by blast
    then have a: "ps_pipe s a = Some p" by (simp add: pipe_at_def)
    from doCommand_present [OF l c at, of pm np nc cmd] obtain ys zs where ys: "xs = ys @ a # zs"
      and eq: "pipeDevice_doCommand pm np nc cmd s =
        (if p_closed p \<and> cmd \<noteq> PIPE_CMD_CLOSE then Some (s\<lparr>pd_status := PIPE_ERROR_IO\<rparr>)
         else if cmd = PIPE_CMD_OPEN then Some (s\<lparr>pd_status := PIPE_ERROR_INVAL\<rparr>)
         else if cmd = PIPE_CMD_CLOSE then cmd_close (end_slot SHead ys) a s
         else if cmd = PIPE_CMD_POLL then do { r \<leftarrow> call_poll p s; Some (s\<lparr>pd_status := r\<rparr>) }
         else if cmd = PIPE_CMD_READ_BUFFER then cmd_read_buffer pm a s
         else if cmd = PIPE_CMD_WRITE_BUFFER then cmd_write_buffer pm a s
         else if cmd = PIPE_CMD_WAKE_ON_READ then cmd_wake_on PIPE_WAKE_READ a s
         else if cmd = PIPE_CMD_WAKE_ON_WRITE then cmd_wake_on PIPE_WAKE_WRITE a s
         else Some s)" by blast
    have "\<exists>t. cmd_close (end_slot SHead ys) a s = Some t \<and> inv t"
      using cmd_close_ok [OF inv _ a, of ys zs ws] l ys by blast
    moreover have "\<exists>t. cmd_read_buffer pm a s = Some t \<and> inv t"
      using call_recvBuffers_ok [OF inv a, of "unat (pd_size s)"] a unsigned_less [of "pd_size s", where 'a = nat]
      by (auto simp: cmd_read_buffer_def Let_def reg)
    moreover have "\<exists>t. cmd_write_buffer pm a s = Some t \<and> inv t"
      using call_sendBuffers_ok [OF inv a,
          of "ram_load (ps_ram s) (pm_ram_ptr pm (pd_address s) (pd_size s) False) (unat (pd_size s))"] a
        unsigned_less [of "pd_size s", where 'a = nat]
      by (auto simp: cmd_write_buffer_def Let_def reg ram_load_def)
    moreover have "\<exists>t. do { r \<leftarrow> call_poll p s; Some (s\<lparr>pd_status := r\<rparr>) } = Some t \<and> inv t"
      using call_poll_ok [OF inv a] inv by (auto simp: reg)
    moreover have "\<not> p_closed p \<Longrightarrow> \<exists>t. cmd_wake_on f a s = Some t \<and> inv t" for f
      by (rule cmd_wake_on_ok [OF inv a])
    ultimately show ?thesis unfolding eq using inv by (cases "p_closed p") (simp_all add: reg)
  qed
qed

lemma pipe_dev_write_ok:
  assumes inv: "inv s" and new: "fresh_for np nc s"
  shows "\<exists>t. pipe_dev_write pm np nc off v s = Some t \<and> inv t"
proof -
  have reg: "inv (s\<lparr>pd_size := x\<rparr>)" "inv (s\<lparr>pd_address := y\<rparr>)" "inv (s\<lparr>pd_channel := y\<rparr>)"
    "inv (s\<lparr>pd_params_addr := y\<rparr>)" "inv (s\<lparr>pd_channel := z, pd_size := x, pd_address := y\<rparr>)" for x y z
    using inv by (subst pipe_inv_core [of s], simp_all add: same_core_def)+
  have ram: "inv (u\<lparr>ps_ram := m\<rparr>) = inv u" for u m by (rule pipe_inv_core) (simp add: same_core_def)
  have "\<exists>t. dev_access_params pm np nc s = Some t \<and> inv t"
  proof -
    let ?a = "aps_decode (pm_read pm (pd_params_addr s) 24 (ps_ram s))"
    let ?s = "s\<lparr>pd_channel := ucast (ap_channel ?a), pd_size := ap_size ?a, pd_address := ucast (ap_address ?a)\<rparr>"
    have "fresh_for np nc ?s" using new by (simp add: fresh_for_def)
    with doCommand_ok [OF reg(5)] obtain t where "pipeDevice_doCommand pm np nc (ap_cmd ?a) ?s = Some t" "inv t"
      by blast
    with inv reg(5) show ?thesis by (auto simp: dev_access_params_def qemu_guest_is_64bit_def Let_def ram)
  qed
  with doCommand_ok [OF inv new] inv reg(1-4) show ?thesis
    by (auto simp: pipe_dev_write_def)
qed

lemma pipe_inv_wake:
  assumes inv: "inv s" and a: "ps_pipe s a = Some p"
  shows "\<exists>t. qemu_pipe_wake a flags s = Some t \<and> inv t \<and> ps_world t = ps_world s \<and>
    (\<forall>b. map_option p_closed (ps_pipe t b) = map_option p_closed (ps_pipe s b))"
proof -
  obtain xs ws where l: "pipe_lists s xs ws" and c: "pipe_chans s"
    and o: "pipe_owns peer dead s" and r: "ps_services s = svcs" "winv (ps_world s)"
    using inv by (rule pipe_invE)
  obtain t where t: "qemu_pipe_wake a flags s = Some t" and f: "pd_irq t" "ps_conn t = ps_conn s"
      "ps_services t = ps_services s" "ps_world t = ps_world s"
    and v: "\<And>b. map_option (\<lambda>q. (p_channel q, p_closed q, p_funcs q, p_opaque q)) (ps_pipe t b) =
                map_option (\<lambda>q. (p_channel q, p_closed q, p_funcs q, p_opaque q)) (ps_pipe s b)"
    using qemu_pipe_wake_signaled [OF l a, of flags] qemu_pipe_wake_fresh [OF l a, of flags] a
    by (cases "a \<in> set ws") (auto simp: set_next_waked_def)
  have vo: "map_option (\<lambda>q. (p_funcs q, p_opaque q)) (ps_pipe t b) =
      map_option (\<lambda>q. (p_funcs q, p_opaque q)) (ps_pipe s b)"
    and vc: "map_option p_channel (ps_pipe t b) = map_option p_channel (ps_pipe s b)"
    and vd: "map_option p_closed (ps_pipe t b) = map_option p_closed (ps_pipe s b)" for b
    using arg_cong [OF v [of b], of "map_option (\<lambda>x. snd (snd x))"] arg_cong [OF v [of b], of "map_option fst"]
      arg_cong [OF v [of b], of "map_option (\<lambda>x. fst (snd x))"]
    by (simp_all add: option.map_comp comp_def)
  have vcl: "p_closed q'" if "ps_pipe s b = Some q" "ps_pipe t b = Some q'" "p_closed q" for b q q'
    using vd [of b] that by simp
  have "pipe_chans t"
    unfolding pipe_chans_def
  proof (intro allI impI)
    fix b d q q' assume "ps_pipe t b = Some q" "ps_pipe t d = Some q'" "p_channel q = p_channel q'"
    with vc [of b] vc [of d] obtain r r' where "ps_pipe s b = Some r" "ps_pipe s d = Some r'"
      "p_channel r = p_channel r'" by (cases "ps_pipe s b"; cases "ps_pipe s d") auto
    with c show "b = d" unfolding pipe_chans_def by blast
  qed
  moreover have "pipe_owns peer dead t" by (rule pipe_owns_view [OF o vo vcl]) (use f in auto)
  ultimately have "inv t" using qemu_pipe_wake_lists [OF l a t] f r by (auto simp: pipe_inv_def)
  with t f vd show ?thesis by blast
qed

lemma pipe_inv_close:
  assumes inv: "inv s" and a: "ps_pipe s a = Some p"
  shows "\<exists>t. qemu_pipe_close a s = Some t \<and> inv t \<and> ps_world t = ps_world s \<and> (\<exists>q. ps_pipe t a = Some q \<and> p_closed q)"
proof (cases "p_closed p")
  case True
  with inv a show ?thesis by (simp add: qemu_pipe_close_def)
next
  case False
  let ?s = "s\<lparr>ps_pipe := (ps_pipe s)(a \<mapsto> p\<lparr>p_closed := True\<rparr>)\<rparr>"
  have "inv ?s" by (rule pipe_inv_upd [OF inv a]) auto
  from pipe_inv_wake [OF this, of a "p\<lparr>p_closed := True\<rparr>" PIPE_WAKE_CLOSED] obtain t where
    t: "qemu_pipe_wake a PIPE_WAKE_CLOSED ?s = Some t" "inv t" "ps_world t = ps_world s"
    "\<forall>b. map_option p_closed (ps_pipe t b) = map_option p_closed (ps_pipe ?s b)" by auto
  from t(4) [rule_format, of a] obtain q where "ps_pipe t a = Some q" "p_closed q" by auto
  with t a False show ?thesis by (simp add: qemu_pipe_close_def)
qed

end

end
