(* ===== verification/PipeConnect.thy ===== *)
theory PipeConnect
  imports PipeSafe
begin

text \<open>
  How a new pipe is connected to a service, and the register encodings of \<open>pipe.c\<close>. Every
  pipe starts with a connector that collects the connection string
  \<open>pipe:<name>[:<args>]\<close>, however the guest splits it into writes, and then hands the pipe
  to the service. The second part is about the halves of the 64-bit registers and the
  parameter block.
\<close>

subsection \<open>Connection strings\<close>

definition conn_string :: "u8 list \<Rightarrow> u8 list option \<Rightarrow> u8 list" where
  "conn_string name args = bytes ''pipe:'' @ name @
     (case args of None \<Rightarrow> [] | Some x \<Rightarrow> of_char CHR '':'' # x) @ [0]"

definition conn_string_ok :: "u8 list \<Rightarrow> u8 list option \<Rightarrow> bool" where
  "conn_string_ok name args \<longleftrightarrow> 0 \<notin> set name \<and> of_char CHR '':'' \<notin> set name \<and>
     (case args of None \<Rightarrow> True | Some x \<Rightarrow> x \<noteq> [] \<and> 0 \<notin> set x) \<and> length (conn_string name args) \<le> 128"

lemma connector_split_string:
  assumes "conn_string_ok name args"
  shows "\<exists>colon. connector_split (name @ (case args of None \<Rightarrow> [] | Some x \<Rightarrow> of_char CHR '':'' # x)) =
    (name, args, colon)"
proof (cases args)
  case None
  from assms have "takeWhile (\<lambda>b. b \<noteq> of_char CHR '':'') name = name"
    by (intro takeWhile_notin) (simp add: conn_string_ok_def)
  with None show ?thesis by (simp add: connector_split_def Let_def del: takeWhile_eq_all_conv)
next
  case (Some x)
  from assms have "takeWhile (\<lambda>b. b \<noteq> of_char CHR '':'') (name @ of_char CHR '':'' # x) = name"
    by (intro takeWhile_split) (simp add: conn_string_ok_def)
  with Some assms show ?thesis by (simp add: connector_split_def Let_def conn_string_ok_def)
qed

lemma conn_string_parts:
  "conn_string name args = bytes ''pipe:'' @ (name @ (case args of None \<Rightarrow> [] | Some x \<Rightarrow> of_char CHR '':'' # x)) @ [0]"
  by (simp add: conn_string_def)

lemma connector_connects:
  assumes k: "ps_conn s d = Some k" "conn_ok a k" and p: "ps_pipe s a = Some p"
    and str: "take (pc_buffpos k) (pc_buffer k) @ concat bufs = conn_string name args" "conn_string_ok name args"
    and svc: "qemu_pipe_find_type name (ps_services s) = Some i"
    and init: "f_init (svc_funcs (ps_services s ! i)) a (svc_opaque (ps_services s ! i)) args (ps_world s) = Some (w, peer)"
      "peer \<noteq> NULL"
  shows "pipeConnector_sendBuffers d bufs s =
    Some (s\<lparr>ps_world := w,
            ps_pipe := (ps_pipe s)(a \<mapsto> p\<lparr>p_opaque := peer, p_service := Some i, p_funcs := ServiceFuncs i, p_args := args\<rparr>),
            ps_conn := (ps_conn s)(d := None)\<rparr>, of_nat (length (concat bufs)))"
proof -
  let ?str = "name @ (case args of None \<Rightarrow> [] | Some x \<Rightarrow> of_char CHR '':'' # x)"
  obtain buf pos ret where cp: "connector_copy (pc_buffer k) (pc_buffpos k) 0 bufs = (buf, pos, ret)"
    by (metis prod_cases3)
  from k(2) have ok: "length (pc_buffer k) = 128" "pc_buffpos k \<le> 128" "pc_pipe k = a" by (auto simp: conn_ok_def)
  have "pc_buffpos k + length (concat bufs) = length (conn_string name args)"
    unfolding str(1) [symmetric] using ok(1,2) by simp
  with str(2) have len: "pc_buffpos k + length (concat bufs) \<le> 128" by (simp add: conn_string_ok_def)
  have sp: "ret = length (concat bufs)" "length buf = 128" "take pos buf = conn_string name args"
    using connector_copy_spec [OF ok(1,2) cp] len str(1) by auto
  define rest where "rest = drop pos buf"
  have buf: "buf = bytes ''pipe:'' @ (?str @ [0]) @ rest"
    using append_take_drop_id [of pos buf] sp(3) by (simp add: rest_def conn_string_def)
  have five: "length (bytes ''pipe:'') = 5" by (simp add: bytes_def)
  have z: "0 \<notin> set ?str" using str(2) by (auto simp: conn_string_ok_def split: option.splits)
  have "c_str (drop 5 buf) = ?str" using c_str_terminated [OF z, of rest] five by (simp add: buf)
  moreover obtain colon where "connector_split ?str = (name, args, colon)"
    using connector_split_string [OF str(2)] by blast
  moreover have "take 5 buf = bytes ''pipe:''" using five by (simp add: buf)
  moreover have "0 \<in> set (take pos buf)" by (simp add: sp(3) conn_string_def)
  ultimately show ?thesis
    using k(1) cp svc init p sp(1) ok(3) by (simp add: pipeConnector_sendBuffers_def Let_def)
qed

lemma connector_collects:
  assumes k: "ps_conn s d = Some k" "conn_ok a k"
    and z: "0 \<notin> set (take (pc_buffpos k) (pc_buffer k) @ concat bufs)"
  shows "\<exists>k'. pipeConnector_sendBuffers d bufs s =
      Some (s\<lparr>ps_conn := (ps_conn s)(d \<mapsto> k')\<rparr>, of_nat (min (128 - pc_buffpos k) (length (concat bufs)))) \<and>
    conn_ok a k' \<and> take (pc_buffpos k') (pc_buffer k') =
      take 128 (take (pc_buffpos k) (pc_buffer k) @ concat bufs)"
proof -
  obtain buf pos ret where cp: "connector_copy (pc_buffer k) (pc_buffpos k) 0 bufs = (buf, pos, ret)"
    by (metis prod_cases3)
  from k(2) have ok: "length (pc_buffer k) = 128" "pc_buffpos k \<le> 128" by (auto simp: conn_ok_def)
  have sp: "pos = min 128 (pc_buffpos k + length (concat bufs))" "ret = pos - pc_buffpos k"
    "take pos buf = take (pc_buffpos k) (pc_buffer k) @ take (128 - pc_buffpos k) (concat bufs)"
    using connector_copy_spec [OF ok cp] by auto
  have "0 \<notin> set (take pos buf)" using z set_take_subset [of _ "concat bufs"] unfolding sp(3) by auto
  then have "pipeConnector_sendBuffers d bufs s =
      Some (s\<lparr>ps_conn := (ps_conn s)(d \<mapsto> k\<lparr>pc_buffer := buf, pc_buffpos := pos\<rparr>)\<rparr>, of_nat ret)"
    using k(1) cp by (simp add: pipeConnector_sendBuffers_def)
  moreover have "ret = min (128 - pc_buffpos k) (length (concat bufs))" using sp(1,2) ok by auto
  moreover have "take pos buf = take 128 (take (pc_buffpos k) (pc_buffer k) @ concat bufs)"
    using sp(3) ok by simp
  moreover have "conn_ok a (k\<lparr>pc_buffer := buf, pc_buffpos := pos\<rparr>)" using conn_ok_copy [OF k(2) cp] by simp
  ultimately show ?thesis by (intro exI [of _ "k\<lparr>pc_buffer := buf, pc_buffpos := pos\<rparr>"]) simp
qed

subsection \<open>Halves of a 64-bit register\<close>

lemma uint64_halves:
  "uint64_set_low a v AND 0xFFFFFFFF = ucast v" "drop_bit 32 (uint64_set_low a v) = drop_bit 32 a"
  "uint64_set_high a v AND 0xFFFFFFFF = a AND 0xFFFFFFFF" "drop_bit 32 (uint64_set_high a v) = ucast v"
proof -
  have m: "(0xFFFFFFFF :: u64) = mask 32" by (simp add: mask_eq_exp_minus_1)
  show "uint64_set_low a v AND 0xFFFFFFFF = ucast v" "drop_bit 32 (uint64_set_low a v) = drop_bit 32 a"
    "uint64_set_high a v AND 0xFFFFFFFF = a AND 0xFFFFFFFF" "drop_bit 32 (uint64_set_high a v) = ucast v"
    unfolding uint64_set_low_def uint64_set_high_def m
    by (rule bit_word_eqI; auto simp: bit_simps dest: bit_imp_le_length)+
qed

lemma uint64_set_both: "uint64_set_high (uint64_set_low a lo) hi = push_bit 32 (ucast hi) OR ucast lo"
proof -
  have m: "(0xFFFFFFFF :: u64) = mask 32" by (simp add: mask_eq_exp_minus_1)
  show ?thesis
    unfolding uint64_set_low_def uint64_set_high_def m
    by (rule bit_word_eqI) (auto simp: bit_simps dest: bit_imp_le_length)
qed

lemma uint64_set_halves:
  "uint64_set_high (uint64_set_low a (ucast lo)) (ucast hi) = push_bit 32 hi OR (lo AND 0xFFFFFFFF)"
  "uint64_set_low (uint64_set_high a (ucast hi)) (ucast lo) = push_bit 32 hi OR (lo AND 0xFFFFFFFF)"
proof -
  have m: "(0xFFFFFFFF :: u64) = mask 32" by (simp add: mask_eq_exp_minus_1)
  show "uint64_set_high (uint64_set_low a (ucast lo)) (ucast hi) = push_bit 32 hi OR (lo AND 0xFFFFFFFF)"
    "uint64_set_low (uint64_set_high a (ucast hi)) (ucast lo) = push_bit 32 hi OR (lo AND 0xFFFFFFFF)"
    unfolding uint64_set_low_def uint64_set_high_def m
    by (rule bit_word_eqI; auto simp: bit_simps dest: bit_imp_le_length)+
qed

subsection \<open>The parameter block\<close>

lemma aps_decode_encode: "aps_decode (aps_encode a) = a"
proof -
  let ?bs = "aps_encode a"
  have "get_le32 ?bs 0 = ap_channel a" "get_le32 ?bs 4 = ap_size a" "get_le32 ?bs 8 = ap_address a"
    "get_le32 ?bs 12 = ap_cmd a" "get_le32 ?bs 16 = ap_result a" "get_le32 ?bs 20 = ap_flags a"
    unfolding aps_encode_def
    using get_le32_le32 [of "[]"]
      get_le32_le32 [of "le32 (ap_channel a)"]
      get_le32_le32 [of "le32 (ap_channel a) @ le32 (ap_size a)"]
      get_le32_le32 [of "le32 (ap_channel a) @ le32 (ap_size a) @ le32 (ap_address a)"]
      get_le32_le32 [of "le32 (ap_channel a) @ le32 (ap_size a) @ le32 (ap_address a) @ le32 (ap_cmd a)"]
      get_le32_le32 [of "le32 (ap_channel a) @ le32 (ap_size a) @ le32 (ap_address a) @ le32 (ap_cmd a) @ le32 (ap_result a)" _ "[]"]
    by simp_all
  then show ?thesis by (simp add: aps_decode_def)
qed

lemma length_aps_encode [simp]: "length (aps_encode a) = 24"
  by (simp add: aps_encode_def)

text \<open>The same transfer through the registers, one write each, with the status stored in the block.\<close>

definition slow_access ::
  "phys_mem \<Rightarrow> addr \<Rightarrow> addr \<Rightarrow> access_params \<Rightarrow> 'w pipe_sys \<Rightarrow> 'w pipe_sys option" where
  "slow_access pm np nc a s =
     do { s1 \<leftarrow> pipe_dev_write pm np nc PIPE_REG_CHANNEL (ucast (ap_channel a)) s;
          s2 \<leftarrow> pipe_dev_write pm np nc PIPE_REG_CHANNEL_HIGH 0 s1;
          s3 \<leftarrow> pipe_dev_write pm np nc PIPE_REG_SIZE (ucast (ap_size a)) s2;
          s4 \<leftarrow> pipe_dev_write pm np nc PIPE_REG_ADDRESS (ucast (ap_address a)) s3;
          s5 \<leftarrow> pipe_dev_write pm np nc PIPE_REG_ADDRESS_HIGH 0 s4;
          s6 \<leftarrow> pipe_dev_write pm np nc PIPE_REG_COMMAND (ucast (ap_cmd a)) s5;
          Some (s6\<lparr>ps_ram := pm_write pm (pd_params_addr s6)
                     (aps_encode (a\<lparr>ap_result := pd_status s6\<rparr>)) (ps_ram s6)\<rparr>) }"

lemma ucast_back: "(ucast (ucast (v :: u32) :: u64) :: u32) = v"
  by (rule bit_word_eqI) (auto simp: bit_simps)

lemma uint64_set_low_high_0: "uint64_set_high (uint64_set_low a lo) 0 = ucast lo"
  by (simp add: uint64_set_both)

subsection \<open>Instances\<close>

definition flat_mem :: phys_mem where
  "flat_mem = \<lparr>pm_ram_ptr = (\<lambda>a n w. a), pm_read = (\<lambda>a n ram. ram_load ram a n),
     pm_write = (\<lambda>a bs ram. ram_store ram a bs)\<rparr>"

definition echo_funcs :: "nat GoldfishPipeFuncs" where
  "echo_funcs = \<lparr>f_init = (\<lambda>hw opq args w. Some (Suc w, Suc w)), f_close = None,
     f_sendBuffers = (\<lambda>o' bufs w. Some (w, of_nat (length (concat bufs)))),
     f_recvBuffers = (\<lambda>o' sizes w. Some (w, map (\<lambda>_. []) sizes, 0)),
     f_poll = (\<lambda>o' w. Some PIPE_POLL_OUT), f_wakeOn = (\<lambda>o' fl w. Some w)\<rparr>"

definition empty_conn :: PipeConnector where
  "empty_conn = \<lparr>pc_pipe = 1, pc_buffer = replicate 128 0, pc_buffpos = 0\<rparr>"

definition echo_sys :: "nat pipe_sys" where
  "echo_sys = (qemu_pipe_initfn [\<lparr>svc_name = bytes ''echo'', svc_opaque = 0, svc_funcs = echo_funcs\<rparr>]
       (ram_store (\<lambda>_. 0) 64 (aps_encode \<lparr>ap_channel = 7, ap_size = 3, ap_address = 128,
          ap_cmd = PIPE_CMD_WRITE_BUFFER, ap_result = 0, ap_flags = 0\<rparr>)) 8)
     \<lparr>pd_pipes := 1, pd_params_addr := 64,
      ps_pipe := [1 \<mapsto> pipe_new0\<lparr>p_channel := 7, p_opaque := 2\<rparr>], ps_conn := [2 \<mapsto> empty_conn]\<rparr>"

subsection \<open>Properties\<close>

text \<open>C13: Connecting: whatever way the guest cuts the string \<open>pipe:<name>[:<args>]\<close> and its final zero
  into writes and buffers, the write that completes it calls \<open>init\<close> of the service of that
  name with exactly those arguments, hands the pipe over to the service, frees the connector
  and reports all its bytes as sent.\<close>

theorem connector_connects_service:
  assumes "ps_conn s d = Some k" and "conn_ok a k" and "ps_pipe s a = Some p"
    and "take (pc_buffpos k) (pc_buffer k) @ concat bufs = conn_string name args"
    and "conn_string_ok name args"
    and "qemu_pipe_find_type name (ps_services s) = Some i"
    and "f_init (svc_funcs (ps_services s ! i)) a (svc_opaque (ps_services s ! i)) args (ps_world s) = Some (w, peer)"
    and "peer \<noteq> NULL"
  shows "pipeConnector_sendBuffers d bufs s =
    Some (s\<lparr>ps_world := w,
            ps_pipe := (ps_pipe s)(a \<mapsto> p\<lparr>p_opaque := peer, p_service := Some i, p_funcs := ServiceFuncs i, p_args := args\<rparr>),
            ps_conn := (ps_conn s)(d := None)\<rparr>, of_nat (length (concat bufs)))"
  using assms by (rule connector_connects)

theorem connector_connects_service_witness:
  "pipeConnector_sendBuffers 2 [bytes ''pipe:ec'', bytes ''ho:x'' @ [0]] echo_sys =
    Some (echo_sys\<lparr>ps_world := 9,
            ps_pipe := (ps_pipe echo_sys)(1 \<mapsto> pipe_new0\<lparr>p_channel := 7, p_opaque := 9, p_service := Some 0,
              p_funcs := ServiceFuncs 0, p_args := Some (bytes ''x'')\<rparr>),
            ps_conn := (ps_conn echo_sys)(2 := None)\<rparr>, 12)"
proof -
  let ?p = "pipe_new0\<lparr>p_channel := 7, p_opaque := 2\<rparr>"
  have s: "ps_conn echo_sys 2 = Some empty_conn" "ps_pipe echo_sys 1 = Some ?p"
    by (simp_all add: echo_sys_def)
  have k: "conn_ok 1 empty_conn" by code_simp
  have str: "take (pc_buffpos empty_conn) (pc_buffer empty_conn) @ concat [bytes ''pipe:ec'', bytes ''ho:x'' @ [0]] =
    conn_string (bytes ''echo'') (Some (bytes ''x''))" by code_simp
  have ok: "conn_string_ok (bytes ''echo'') (Some (bytes ''x''))" by code_simp
  have f: "qemu_pipe_find_type (bytes ''echo'') (ps_services echo_sys) = Some 0"
    by (simp add: echo_sys_def qemu_pipe_initfn_def qemu_pipe_find_type_def)
  have i: "f_init (svc_funcs (ps_services echo_sys ! 0)) 1 (svc_opaque (ps_services echo_sys ! 0))
      (Some (bytes ''x'')) (ps_world echo_sys) = Some (9, 9)"
    by (simp add: echo_sys_def qemu_pipe_initfn_def echo_funcs_def)
  have len: "length (concat [bytes ''pipe:ec'', bytes ''ho:x'' @ [0]]) = 12" by code_simp
  show ?thesis using connector_connects_service [OF s(1) k s(2) str ok f i] unfolding len by simp
qed

text \<open>C14: Until the terminating zero arrives the connector only collects: a write appends its bytes to
  the 128-byte buffer, never past its end, reports how many of them it took, and changes
  nothing else.\<close>

theorem connector_collects_bytes:
  assumes "ps_conn s d = Some k" and "conn_ok a k"
    and "0 \<notin> set (take (pc_buffpos k) (pc_buffer k) @ concat bufs)"
  shows "\<exists>k'. pipeConnector_sendBuffers d bufs s =
      Some (s\<lparr>ps_conn := (ps_conn s)(d \<mapsto> k')\<rparr>, of_nat (min (128 - pc_buffpos k) (length (concat bufs)))) \<and>
    conn_ok a k' \<and> take (pc_buffpos k') (pc_buffer k') =
      take 128 (take (pc_buffpos k) (pc_buffer k) @ concat bufs)"
  using assms by (rule connector_collects)

theorem connector_collects_bytes_witness:
  "\<exists>k'. pipeConnector_sendBuffers 2 [bytes ''pipe:e''] echo_sys =
      Some (echo_sys\<lparr>ps_conn := (ps_conn echo_sys)(2 \<mapsto> k')\<rparr>, 6) \<and>
    take (pc_buffpos k') (pc_buffer k') = bytes ''pipe:e''"
proof -
  have s: "ps_conn echo_sys 2 = Some empty_conn" by (simp add: echo_sys_def)
  have k: "conn_ok 1 empty_conn" by code_simp
  have z: "0 \<notin> set (take (pc_buffpos empty_conn) (pc_buffer empty_conn) @ concat [bytes ''pipe:e''])" by code_simp
  have e: "min (128 - pc_buffpos empty_conn) (length (concat [bytes ''pipe:e''])) = 6"
    "take 128 (take (pc_buffpos empty_conn) (pc_buffer empty_conn) @ concat [bytes ''pipe:e'']) = bytes ''pipe:e''"
    by code_simp+
  from connector_collects_bytes [OF s k z] show ?thesis unfolding e by auto
qed




end
