(* ===== verification/PipeProtocol.thy ===== *)
theory PipeProtocol
  imports PipeConnect
begin

text \<open>
  The abstract pipe device and the refinement of \<open>pipe.c\<close> to it. To the guest the device
  is a map from open channels to their state and a queue of signaled channels; the linked
  lists, the object stores and the connectors are gone. \<open>pipe_sim\<close> relates the two, and
  every register access, command and host-side wake or close is simulated by the abstract
  operation of the same name.
\<close>

subsection \<open>The abstract device\<close>

record chan_state =
  cs_closed :: bool
  cs_wanted :: u8

record pipe_spec =
  sp_chans :: "u64 \<rightharpoonup> chan_state"
  sp_signaled :: "u64 list"
  sp_irq :: bool

definition spec_open :: "u64 \<Rightarrow> pipe_spec \<Rightarrow> pipe_spec" where
  "spec_open ch A = A\<lparr>sp_chans := (sp_chans A)(ch \<mapsto> \<lparr>cs_closed = False, cs_wanted = 0\<rparr>)\<rparr>"

definition spec_close :: "u64 \<Rightarrow> pipe_spec \<Rightarrow> pipe_spec" where
  "spec_close ch A =
     A\<lparr>sp_chans := (sp_chans A)(ch := None), sp_signaled := filter (\<lambda>c. c \<noteq> ch) (sp_signaled A)\<rparr>"

definition spec_want :: "u64 \<Rightarrow> u8 \<Rightarrow> pipe_spec \<Rightarrow> pipe_spec" where
  "spec_want ch fl A =
     A\<lparr>sp_chans := (sp_chans A)(ch := map_option (\<lambda>c. c\<lparr>cs_wanted := cs_wanted c OR fl\<rparr>) (sp_chans A ch))\<rparr>"

definition spec_command :: "u32 \<Rightarrow> u64 \<Rightarrow> pipe_spec \<Rightarrow> pipe_spec" where
  "spec_command cmd ch A =
     (case sp_chans A ch of
        None \<Rightarrow> if cmd = PIPE_CMD_OPEN then spec_open ch A else A
      | Some c \<Rightarrow>
          if cmd = PIPE_CMD_CLOSE then spec_close ch A
          else if cs_closed c then A
          else if cmd = PIPE_CMD_WAKE_ON_READ then spec_want ch 2 A
          else if cmd = PIPE_CMD_WAKE_ON_WRITE then spec_want ch 4 A
          else A)"

definition spec_wake :: "u64 \<Rightarrow> u8 \<Rightarrow> pipe_spec \<Rightarrow> pipe_spec" where
  "spec_wake ch fl A =
     (spec_want ch fl A)\<lparr>sp_signaled := if ch \<in> set (sp_signaled A) then sp_signaled A else ch # sp_signaled A,
        sp_irq := True\<rparr>"

definition spec_shut :: "u64 \<Rightarrow> pipe_spec \<Rightarrow> pipe_spec" where
  "spec_shut ch A =
     (case sp_chans A ch of
        None \<Rightarrow> A
      | Some c \<Rightarrow>
          if cs_closed c then A
          else spec_wake ch 1 (A\<lparr>sp_chans := (sp_chans A)(ch \<mapsto> c\<lparr>cs_closed := True\<rparr>)\<rparr>))"

definition spec_read_channel :: "pipe_spec \<Rightarrow> pipe_spec" where
  "spec_read_channel A =
     (case sp_signaled A of
        [] \<Rightarrow> A
      | ch # q \<Rightarrow> A\<lparr>sp_chans := (sp_chans A)(ch := map_option (\<lambda>c. c\<lparr>cs_wanted := 0\<rparr>) (sp_chans A ch)),
                    sp_signaled := q, sp_irq := q \<noteq> [] \<and> sp_irq A\<rparr>)"

subsection \<open>The simulation relation\<close>

definition chan_of :: "'w pipe_sys \<Rightarrow> addr \<Rightarrow> u64" where
  "chan_of s a = p_channel (the (ps_pipe s a))"

definition chan_abs :: "Pipe \<Rightarrow> chan_state" where
  "chan_abs p = \<lparr>cs_closed = p_closed p, cs_wanted = p_wanted p\<rparr>"

definition chans_sim :: "(addr \<rightharpoonup> Pipe) \<Rightarrow> (u64 \<rightharpoonup> chan_state) \<Rightarrow> bool" where
  "chans_sim h m \<longleftrightarrow>
     (\<forall>ch c. m ch = Some c \<longleftrightarrow> (\<exists>a p. h a = Some p \<and> p_channel p = ch \<and> c = chan_abs p))"

definition pipe_sim :: "'w pipe_sys \<Rightarrow> pipe_spec \<Rightarrow> bool" where
  "pipe_sim s A \<longleftrightarrow>
     (\<exists>xs ws. pipe_lists s xs ws \<and> sp_signaled A = map (chan_of s) ws) \<and> pipe_chans s \<and>
     sp_irq A = pd_irq s \<and> chans_sim (ps_pipe s) (sp_chans A)"

lemma pipe_simE:
  assumes "pipe_sim s A"
  obtains xs ws where "pipe_lists s xs ws" and "sp_signaled A = map (chan_of s) ws" and "pipe_chans s"
    and "sp_irq A = pd_irq s" and "chans_sim (ps_pipe s) (sp_chans A)"
  using assms by (auto simp: pipe_sim_def)

lemma pipe_simI:
  "pipe_lists s xs ws \<Longrightarrow> sp_signaled A = map (chan_of s) ws \<Longrightarrow> pipe_chans s \<Longrightarrow> sp_irq A = pd_irq s \<Longrightarrow>
   chans_sim (ps_pipe s) (sp_chans A) \<Longrightarrow> pipe_sim s A"
  by (auto simp: pipe_sim_def)

lemma pipe_sim_inv: "pipe_inv peer dead winv svcs s \<Longrightarrow> \<exists>A. pipe_sim s A"
proof -
  assume "pipe_inv peer dead winv svcs s"
  then obtain xs ws where l: "pipe_lists s xs ws" and c: "pipe_chans s" by (rule pipe_invE)
  let ?m = "\<lambda>ch. if \<exists>a p. ps_pipe s a = Some p \<and> p_channel p = ch
     then Some (chan_abs (SOME p. \<exists>a. ps_pipe s a = Some p \<and> p_channel p = ch)) else None"
  have "chans_sim (ps_pipe s) ?m"
    unfolding chans_sim_def
  proof (intro allI)
    fix ch k
    show "?m ch = Some k \<longleftrightarrow> (\<exists>a p. ps_pipe s a = Some p \<and> p_channel p = ch \<and> k = chan_abs p)"
    proof (cases "\<exists>a p. ps_pipe s a = Some p \<and> p_channel p = ch")
      case True
      then obtain a p where p: "ps_pipe s a = Some p" "p_channel p = ch" by blast
      have u: "q = p" if "ps_pipe s b = Some q" "p_channel q = ch" for b q
        using pipe_chansD [OF c, of ch a p b q] p that by (simp add: pipe_at_def)
      have "(SOME p. \<exists>a. ps_pipe s a = Some p \<and> p_channel p = ch) = p"
        by (rule some_equality) (use p u in blast)+
      with p have "?m ch = Some (chan_abs p)" by auto
      moreover have "(\<exists>a p. ps_pipe s a = Some p \<and> p_channel p = ch \<and> k = chan_abs p) \<longleftrightarrow> k = chan_abs p"
        using p u by blast
      ultimately show ?thesis by (simp only: option.inject eq_commute [of _ k])
    qed auto
  qed
  with l c have "pipe_sim s \<lparr>sp_chans = ?m, sp_signaled = map (chan_of s) ws, sp_irq = pd_irq s\<rparr>"
    by (auto simp: pipe_sim_def)
  then show ?thesis by blast
qed

text \<open>Two states that agree on links, channels and wake flags simulate the same abstract state.\<close>

definition pipe_view :: "Pipe \<Rightarrow> addr \<times> addr \<times> u64 \<times> bool \<times> u8" where
  "pipe_view p = (p_next p, p_next_waked p, p_channel p, p_closed p, p_wanted p)"

definition same_view :: "'w pipe_sys \<Rightarrow> 'w pipe_sys \<Rightarrow> bool" where
  "same_view s t \<longleftrightarrow> (\<forall>a. map_option pipe_view (ps_pipe t a) = map_option pipe_view (ps_pipe s a)) \<and>
     pd_pipes t = pd_pipes s \<and> pd_signaled_pipes t = pd_signaled_pipes s \<and> pd_irq t = pd_irq s"

lemma view_eqD:
  "pipe_view p = pipe_view q \<Longrightarrow> p_next p = p_next q" "pipe_view p = pipe_view q \<Longrightarrow> p_next_waked p = p_next_waked q"
  "pipe_view p = pipe_view q \<Longrightarrow> p_channel p = p_channel q" "pipe_view p = pipe_view q \<Longrightarrow> chan_abs p = chan_abs q"
  by (simp_all add: pipe_view_def chan_abs_def)

lemma map_option_via:
  assumes "map_option f x = map_option f y" and via: "\<And>a b. f a = f b \<Longrightarrow> g a = g b"
  shows "map_option g x = map_option g y"
  using assms(1) by (cases x; cases y) (auto intro: via)

lemma same_view_fields:
  assumes "same_view s t"
  shows "map_option p_next (ps_pipe t a) = map_option p_next (ps_pipe s a)"
    and "map_option p_next_waked (ps_pipe t a) = map_option p_next_waked (ps_pipe s a)"
    and "map_option p_channel (ps_pipe t a) = map_option p_channel (ps_pipe s a)"
    and "map_option chan_abs (ps_pipe t a) = map_option chan_abs (ps_pipe s a)"
  using assms unfolding same_view_def
  by (blast intro: map_option_via [of pipe_view] dest: view_eqD)+

lemma same_view_upd:
  "ps_pipe s a = Some p \<Longrightarrow> pipe_view p' = pipe_view p \<Longrightarrow> ps_pipe t = (ps_pipe s)(a \<mapsto> p') \<Longrightarrow>
   pd_pipes t = pd_pipes s \<Longrightarrow> pd_signaled_pipes t = pd_signaled_pipes s \<Longrightarrow> pd_irq t = pd_irq s \<Longrightarrow>
   same_view s t"
  by (simp add: same_view_def)

lemma same_view_heap:
  "ps_pipe t = ps_pipe s \<Longrightarrow> pd_pipes t = pd_pipes s \<Longrightarrow> pd_signaled_pipes t = pd_signaled_pipes s \<Longrightarrow>
   pd_irq t = pd_irq s \<Longrightarrow> same_view s t"
  by (simp add: same_view_def)

lemma pipe_sim_view:
  assumes sim: "pipe_sim s A" and v: "same_view s t"
  shows "pipe_sim t A"
proof -
  obtain xs ws where l: "pipe_lists s xs ws" "sp_signaled A = map (chan_of s) ws" and c: "pipe_chans s"
    and i: "sp_irq A = pd_irq s" and m: "chans_sim (ps_pipe s) (sp_chans A)"
    using sim by (rule pipe_simE)
  note f = same_view_fields [OF v]
  from v have g: "pd_pipes t = pd_pipes s" "pd_signaled_pipes t = pd_signaled_pipes s" "pd_irq t = pd_irq s"
    by (auto simp: same_view_def)
  have bk: "\<exists>p. ps_pipe s a = Some p \<and> pipe_view q = pipe_view p" if "ps_pipe t a = Some q" for a q
    using v that by (cases "ps_pipe s a") (auto simp: same_view_def dest!: spec [of _ a])
  have fw: "\<exists>q. ps_pipe t a = Some q \<and> pipe_view q = pipe_view p" if "ps_pipe s a = Some p" for a p
    using v that by (cases "ps_pipe t a") (auto simp: same_view_def dest!: spec [of _ a])
  have "dom (ps_pipe t) = dom (ps_pipe s)" using bk fw by blast
  then have lt: "pipe_lists t xs ws"
    using l(1) is_list_frame [of p_next "ps_pipe s" _ _ "ps_pipe t"]
      is_list_frame [of p_next_waked "ps_pipe s" _ _ "ps_pipe t"] f
    by (simp add: pipe_lists_def g)
  have "chan_of t a = chan_of s a" if "a \<in> set ws" for a
  proof -
    from that l(1) obtain p where "ps_pipe s a = Some p" by (auto simp: pipe_lists_def)
    with f(3) [of a] show ?thesis by (auto simp: chan_of_def)
  qed
  then have "sp_signaled A = map (chan_of t) ws" using l(2) by simp
  moreover have "pipe_chans t"
    unfolding pipe_chans_def
  proof (intro allI impI)
    fix a b p q assume h: "ps_pipe t a = Some p" "ps_pipe t b = Some q" "p_channel p = p_channel q"
    with bk [OF h(1)] bk [OF h(2)] c show "a = b" unfolding pipe_chans_def by (auto dest!: view_eqD(3))
  qed
  moreover have "chans_sim (ps_pipe t) (sp_chans A)"
    unfolding chans_sim_def
  proof (intro allI iffI)
    fix ch c assume "sp_chans A ch = Some c"
    with m obtain a p where p: "ps_pipe s a = Some p" "p_channel p = ch" "c = chan_abs p"
      by (auto simp: chans_sim_def)
    from fw [OF p(1)] obtain q where q: "ps_pipe t a = Some q" "pipe_view q = pipe_view p" by blast
    with view_eqD(3,4) [OF q(2)] p show "\<exists>a p. ps_pipe t a = Some p \<and> p_channel p = ch \<and> c = chan_abs p"
      by (intro exI [of _ a] exI [of _ q]) simp
  next
    fix ch c assume "\<exists>a p. ps_pipe t a = Some p \<and> p_channel p = ch \<and> c = chan_abs p"
    then obtain a p where p: "ps_pipe t a = Some p" "p_channel p = ch" "c = chan_abs p" by blast
    from bk [OF p(1)] obtain q where q: "ps_pipe s a = Some q" "pipe_view p = pipe_view q" by blast
    with view_eqD(3,4) [OF q(2)] p m show "sp_chans A ch = Some c" unfolding chans_sim_def by auto
  qed
  ultimately show ?thesis using lt i g by (auto simp: pipe_sim_def)
qed

subsection \<open>Updates of the channel map\<close>

definition chan_inj :: "(addr \<rightharpoonup> Pipe) \<Rightarrow> bool" where
  "chan_inj h \<longleftrightarrow> (\<forall>a b p q. h a = Some p \<longrightarrow> h b = Some q \<longrightarrow> p_channel p = p_channel q \<longrightarrow> a = b)"

lemma pipe_chans_inj: "pipe_chans s = chan_inj (ps_pipe s)" "pipe_chans s = chan_inj (pipe_data s)"
  unfolding chan_inj_def by (rule pipe_chans_def, rule pipe_chans_data)

lemma chans_simI:
  assumes "\<And>a p. h a = Some p \<Longrightarrow> m (p_channel p) = Some (chan_abs p)"
    and "\<And>ch c. m ch = Some c \<Longrightarrow> \<exists>a p. h a = Some p \<and> p_channel p = ch"
  shows "chans_sim h m"
  unfolding chans_sim_def using assms by (metis option.inject)

lemma chans_simD: "chans_sim h m \<Longrightarrow> h a = Some p \<Longrightarrow> m (p_channel p) = Some (chan_abs p)"
  by (auto simp: chans_sim_def)

lemma chans_simE:
  assumes "chans_sim h m" and "m ch = Some c"
  obtains a p where "h a = Some p" and "p_channel p = ch" and "c = chan_abs p"
  using assms by (auto simp: chans_sim_def)

lemma chans_sim_data: "chans_sim (pipe_data s) m = chans_sim (ps_pipe s) m"
proof -
  have abs: "chan_abs (unlinked p) = chan_abs p" for p
    by (simp add: chan_abs_def unlinked_def set_next_def set_next_waked_def)
  have "(\<exists>p. pipe_data s a = Some p \<and> P p) \<longleftrightarrow> (\<exists>p. ps_pipe s a = Some p \<and> P (unlinked p))" for a P
    unfolding pipe_data_Some by blast
  then show ?thesis by (simp add: chans_sim_def abs)
qed

lemma chans_sim_upd:
  assumes m: "chans_sim h m" and "chan_inj h" and "h a = Some p" and "p_channel p' = p_channel p"
  shows "chans_sim (h(a \<mapsto> p')) (m(p_channel p \<mapsto> chan_abs p'))"
proof (rule chans_simI)
  fix b q assume q: "(h(a \<mapsto> p')) b = Some q"
  show "(m(p_channel p \<mapsto> chan_abs p')) (p_channel q) = Some (chan_abs q)"
  proof (cases "b = a")
    case False
    with q assms(2,3) have "h b = Some q" "p_channel q \<noteq> p_channel p" by (auto simp: chan_inj_def)
    with chans_simD [OF m] show ?thesis by simp
  qed (use q assms(4) in auto)
next
  fix ch c assume c: "(m(p_channel p \<mapsto> chan_abs p')) ch = Some c"
  show "\<exists>b q. (h(a \<mapsto> p')) b = Some q \<and> p_channel q = ch"
  proof (cases "ch = p_channel p")
    case False
    with c obtain b q where "h b = Some q" "p_channel q = ch" by (auto elim: chans_simE [OF m])
    with False assms(3) show ?thesis by (intro exI [of _ b] exI [of _ q]) auto
  qed (use assms(4) in auto)
qed

lemma chans_sim_new:
  assumes m: "chans_sim h m" and "h a = None" and "m (p_channel p) = None"
  shows "chans_sim (h(a \<mapsto> p)) (m(p_channel p \<mapsto> chan_abs p))"
proof (rule chans_simI)
  fix b q assume q: "(h(a \<mapsto> p)) b = Some q"
  show "(m(p_channel p \<mapsto> chan_abs p)) (p_channel q) = Some (chan_abs q)"
  proof (cases "b = a")
    case False
    with q have "m (p_channel q) = Some (chan_abs q)" by (auto intro: chans_simD [OF m])
    with assms(3) show ?thesis by auto
  qed (use q in auto)
next
  fix ch c assume c: "(m(p_channel p \<mapsto> chan_abs p)) ch = Some c"
  show "\<exists>b q. (h(a \<mapsto> p)) b = Some q \<and> p_channel q = ch"
  proof (cases "ch = p_channel p")
    case False
    with c obtain b q where "h b = Some q" "p_channel q = ch" by (auto elim: chans_simE [OF m])
    with assms(2) show ?thesis by (intro exI [of _ b] exI [of _ q]) auto
  qed auto
qed

lemma chans_sim_del:
  assumes m: "chans_sim h m" and "chan_inj h" and "h a = Some p"
  shows "chans_sim (h(a := None)) (m(p_channel p := None))"
proof (rule chans_simI)
  fix b q assume q: "(h(a := None)) b = Some q"
  then have "h b = Some q" "b \<noteq> a" by (auto split: if_splits)
  with assms(2,3) chans_simD [OF m] show "(m(p_channel p := None)) (p_channel q) = Some (chan_abs q)"
    by (auto simp: chan_inj_def)
next
  fix ch c assume c: "(m(p_channel p := None)) ch = Some c"
  then obtain b q where "h b = Some q" "p_channel q = ch" "ch \<noteq> p_channel p"
    by (auto elim: chans_simE [OF m] split: if_splits)
  with assms(3) show "\<exists>b q. (h(a := None)) b = Some q \<and> p_channel q = ch"
    by (intro exI [of _ b] exI [of _ q]) auto
qed

lemma pipe_sim_upd:
  assumes sim: "pipe_sim s A" and a: "ps_pipe s a = Some p"
    and p': "p_next p' = p_next p" "p_next_waked p' = p_next_waked p" "p_channel p' = p_channel p"
    and t: "ps_pipe t = (ps_pipe s)(a \<mapsto> p')" "pd_pipes t = pd_pipes s"
      "pd_signaled_pipes t = pd_signaled_pipes s" "pd_irq t = pd_irq s"
  shows "pipe_sim t (A\<lparr>sp_chans := (sp_chans A)(p_channel p \<mapsto> chan_abs p')\<rparr>)"
proof -
  obtain xs ws where l: "pipe_lists s xs ws" "sp_signaled A = map (chan_of s) ws" and c: "pipe_chans s"
    and i: "sp_irq A = pd_irq s" and m: "chans_sim (ps_pipe s) (sp_chans A)"
    using sim by (rule pipe_simE)
  have "pipe_lists t xs ws" by (rule pipe_lists_upd [OF l(1) a t(1-3) p'(1,2)])
  moreover have "chan_of t = chan_of s" using a p'(3) t(1) by (auto simp: chan_of_def fun_eq_iff)
  moreover have "pipe_chans t" using c a p'(3) t(1) unfolding pipe_chans_def by (auto split: if_splits)
  moreover have "chans_sim (ps_pipe t) ((sp_chans A)(p_channel p \<mapsto> chan_abs p'))"
    unfolding t(1) by (rule chans_sim_upd [OF m _ a p'(3)]) (use c in \<open>simp add: pipe_chans_inj\<close>)
  ultimately show ?thesis using l(2) i t(4) by (auto simp: pipe_sim_def)
qed

lemma pipe_sim_at: "pipe_sim s A \<Longrightarrow> pipe_at s ch a p \<Longrightarrow> sp_chans A ch = Some (chan_abs p)"
  by (auto simp: pipe_sim_def pipe_at_def dest: chans_simD)

lemma pipe_sim_absent: "pipe_sim s A \<Longrightarrow> sp_chans A ch = None \<Longrightarrow> \<not> pipe_at s ch a p"
  by (auto dest: pipe_sim_at)

lemma pipe_sim_present:
  assumes "pipe_sim s A" and "sp_chans A ch = Some c"
  obtains a p where "pipe_at s ch a p" and "c = chan_abs p"
  using assms by (auto simp: pipe_sim_def pipe_at_def elim: chans_simE)

subsection \<open>Simulation of the operations\<close>

text \<open>Callbacks do not touch what the abstract device sees.\<close>

lemma connector_send_view:
  assumes t: "pipeConnector_sendBuffers d bufs s = Some (t, r)"
  shows "same_view s t"
proof -
  from t obtain k where k: "ps_conn s d = Some k"
    by (auto simp: pipeConnector_sendBuffers_def bind_eq_Some_conv)
  obtain buf pos ret where c: "connector_copy (pc_buffer k) (pc_buffpos k) 0 bufs = (buf, pos, ret)"
    by (cases "connector_copy (pc_buffer k) (pc_buffpos k) 0 bufs")
  obtain name args colon where n: "connector_split (c_str (drop 5 buf)) = (name, args, colon)"
    by (cases "connector_split (c_str (drop 5 buf))")
  define buf' where "buf' = (case colon of None \<Rightarrow> buf | Some i \<Rightarrow> buf[5 + i := 0])"
  show ?thesis
  proof (cases "0 \<in> set (take pos buf) \<and> take 5 buf = bytes ''pipe:''")
    case False
    with t show ?thesis
      by (cases "0 \<in> set (take pos buf)") (auto simp: pipeConnector_sendBuffers_def k c same_view_def)
  next
    case True
    show ?thesis
    proof (cases "qemu_pipe_find_type name (ps_services s)")
      case None
      with t True show ?thesis
        by (auto simp: pipeConnector_sendBuffers_def k c n buf'_def [symmetric] same_view_def)
    next
      case (Some i)
      note eq = pipeConnector_sendBuffers_def k c n buf'_def [symmetric] Some
      let ?f = "f_init (svc_funcs (ps_services s ! i)) (pc_pipe k) (svc_opaque (ps_services s ! i)) args (ps_world s)"
      from t True obtain w peer where f: "?f = Some (w, peer)" by (cases ?f) (auto simp: eq)
      show ?thesis
        using t True by (cases "peer = NULL"; cases "ps_pipe s (pc_pipe k)") (auto simp: eq f same_view_def pipe_view_def)
    qed
  qed
qed

lemma call_sendBuffers_view: "call_sendBuffers p bufs s = Some (t, r) \<Longrightarrow> same_view s t"
proof (cases "p_funcs p")
  case (ServiceFuncs i)
  then show "call_sendBuffers p bufs s = Some (t, r) \<Longrightarrow> same_view s t"
    by (auto simp: call_sendBuffers_def bind_eq_Some_conv same_view_def)
qed (simp add: call_sendBuffers_def connector_send_view)

lemma call_recvBuffers_view: "call_recvBuffers p sizes s = Some (t, out, r) \<Longrightarrow> same_view s t"
  by (cases "p_funcs p") (auto simp: call_recvBuffers_def bind_eq_Some_conv same_view_def)

lemma call_wakeOn_view: "call_wakeOn p flags s = Some t \<Longrightarrow> same_view s t"
  by (cases "p_funcs p") (auto simp: call_wakeOn_def pipeConnector_wakeOn_def bind_eq_Some_conv same_view_def)

lemma call_close_frame:
  "call_close p s = Some t \<Longrightarrow> t = s\<lparr>ps_conn := ps_conn t, ps_world := ps_world t\<rparr>"
  by (auto simp: call_close_def pipeConnector_close_def bind_eq_Some_conv
      split: funcs_ptr.splits option.splits if_splits)

lemma same_view_trans: "same_view s t \<Longrightarrow> same_view t u \<Longrightarrow> same_view s u"
  by (simp add: same_view_def)

lemma buffer_cmd_view:
  "cmd_read_buffer pm a s = Some t \<Longrightarrow> same_view s t" "cmd_write_buffer pm a s = Some t \<Longrightarrow> same_view s t"
  by (auto simp: cmd_read_buffer_def cmd_write_buffer_def Let_def bind_eq_Some_conv same_view_def
      dest!: call_recvBuffers_view call_sendBuffers_view)

lemma cmd_open_sim:
  assumes sim: "pipe_sim s A" and new: "fresh_for np nc s" and no: "sp_chans A (pd_channel s) = None"
    and t: "cmd_open NULL np nc s = Some t"
  shows "pipe_sim t (spec_open (pd_channel s) A)"
proof -
  obtain xs ws where l: "pipe_lists s xs ws" "sp_signaled A = map (chan_of s) ws" and c: "pipe_chans s"
    and i: "sp_irq A = pd_irq s" and m: "chans_sim (ps_pipe s) (sp_chans A)"
    using sim by (rule pipe_simE)
  let ?p = "pipe_new0\<lparr>p_channel := pd_channel s, p_opaque := nc, p_next := pd_pipes s\<rparr>"
  from new have n: "np \<noteq> NULL" "np \<notin> dom (ps_pipe s)" by (auto simp: fresh_for_def)
  note op = cmd_open_spec [OF l(1) n refl, of nc]
  from t op(1) have tp: "ps_pipe t = (ps_pipe s)(np \<mapsto> ?p)" "pd_irq t = pd_irq s" by auto
  from t op have lt: "pipe_lists t (np # xs) ws" by simp
  have "chan_of t a = chan_of s a" if "a \<in> set ws" for a
    using that l(1) n(2) tp by (auto simp: chan_of_def pipe_lists_def)
  then have "sp_signaled A = map (chan_of t) ws" using l(2) by simp
  moreover have "chans_sim (ps_pipe t) ((sp_chans A)(pd_channel s \<mapsto> \<lparr>cs_closed = False, cs_wanted = 0\<rparr>))"
    using chans_sim_new [OF m, of np ?p] n(2) no tp by (auto simp: chan_abs_def pipe_new0_def)
  moreover have "p_channel q \<noteq> pd_channel s" if "ps_pipe s b = Some q" for b q
    using pipe_sim_absent [OF sim no, of b q] that by (auto simp: pipe_at_def)
  then have "pipe_chans t" using c tp by (force simp: pipe_chans_def split: if_splits)
  ultimately show ?thesis using lt i tp by (auto simp: pipe_sim_def spec_open_def)
qed

lemma close_signaled:
  assumes l: "pipe_lists s xs ws" and a: "ps_pipe s a = Some p" and c: "pipe_chans s"
    and d: "pipe_data v = (pipe_data s)(a := None)"
  shows "map (chan_of v) (remove1 a ws) = filter (\<lambda>c. c \<noteq> p_channel p) (map (chan_of s) ws)"
proof -
  have v: "chan_of v b = chan_of s b" if "b \<noteq> a" "b \<in> set ws" for b
  proof -
    from that(2) l obtain q where q: "ps_pipe s b = Some q" by (auto simp: pipe_lists_def)
    with fun_cong [OF d, of b] that(1) obtain q' where "ps_pipe v b = Some q'" "unlinked q' = unlinked q"
      by (auto simp: pipe_data_def)
    with q unlinked_fields(1) [of q] unlinked_fields(1) [of q'] show ?thesis by (simp add: chan_of_def)
  qed
  have s: "chan_of s b = p_channel p \<longleftrightarrow> b = a" if "b \<in> set ws" for b
  proof -
    from that l obtain q where "ps_pipe s b = Some q" by (auto simp: pipe_lists_def)
    with c a show ?thesis by (auto simp: chan_of_def pipe_chans_def)
  qed
  have "remove1 a ws = filter (\<lambda>b. b \<noteq> a) ws"
    using pipe_lists_distinct [OF l] by (simp add: distinct_remove1_removeAll removeAll_filter_not_eq eq_commute)
  moreover have "map (chan_of v) (filter (\<lambda>b. b \<noteq> a) ws) = map (chan_of s) (filter (\<lambda>b. b \<noteq> a) ws)"
    using v by simp
  moreover have "filter (\<lambda>b. b \<noteq> a) ws = filter (\<lambda>b. chan_of s b \<noteq> p_channel p) ws"
    using s by (auto cong: filter_cong)
  ultimately show ?thesis by (simp add: filter_map comp_def)
qed

lemma cmd_close_sim:
  assumes sim: "pipe_sim s A" and l: "pipe_lists s (ys @ a # zs) ws" and a: "ps_pipe s a = Some p"
    and v: "cmd_close (end_slot SHead ys) a s = Some v"
  shows "pipe_sim v (spec_close (p_channel p) A)"
proof -
  obtain xs' ws' where l': "pipe_lists s xs' ws'" "sp_signaled A = map (chan_of s) ws'" and c: "pipe_chans s"
    and i: "sp_irq A = pd_irq s" and m: "chans_sim (ps_pipe s) (sp_chans A)"
    using sim by (rule pipe_simE)
  have ws: "ws' = ws" using pipe_lists_unique [OF l'(1) l] by simp
  obtain t q where t: "cmd_close (end_slot SHead ys) a s =
      do { u \<leftarrow> call_close q t; Some (u\<lparr>ps_pipe := (ps_pipe u)(a := None)\<rparr>) }"
    and ts: "t = s\<lparr>ps_pipe := ps_pipe t, pd_pipes := pd_pipes t, pd_signaled_pipes := pd_signaled_pipes t\<rparr>"
    and td: "pipe_data t = pipe_data s"
    and tl: "is_list p_next (ps_pipe t) (pd_pipes t) (ys @ zs)"
      "is_list p_next_waked (ps_pipe t) (pd_signaled_pipes t) (remove1 a ws)"
    using cmd_close_spec [OF l a] by blast
  from v t obtain u where u: "call_close q t = Some u" "v = u\<lparr>ps_pipe := (ps_pipe u)(a := None)\<rparr>"
    by (auto simp: bind_eq_Some_conv)
  note us = call_close_frame [OF u(1)]
  have vt: "ps_pipe v = (ps_pipe t)(a := None)" "pd_pipes v = pd_pipes t"
    "pd_signaled_pipes v = pd_signaled_pipes t" "pd_irq v = pd_irq t"
    unfolding u(2) by (subst us; simp)+
  have vi: "pd_irq v = pd_irq s" unfolding vt by (subst ts) simp
  note vl = pipe_lists_close [OF l td tl vt(1-3)]
  have "pipe_chans v" by (rule pipe_chans_sub [OF c]) (simp add: vl map_le_def)
  moreover have "chans_sim (ps_pipe v) ((sp_chans A)(p_channel p := None))"
    using chans_sim_del [of "pipe_data s" "sp_chans A" a "unlinked p"] m c a vl(2) pipe_chans_inj(2) [of s]
    by (simp add: chans_sim_data [symmetric] pipe_data_def)
  moreover have "map (chan_of v) (remove1 a ws) = filter (\<lambda>c. c \<noteq> p_channel p) (map (chan_of s) ws)"
    using close_signaled [OF l a c vl(2)] .
  ultimately show ?thesis using vi i l'(2) ws by (intro pipe_simI [OF vl(1)]) (simp_all add: spec_close_def)
qed

lemma word_or_set_bit: "w AND 2 ^ n \<noteq> 0 \<Longrightarrow> w OR 2 ^ n = (w :: 'a::len word)"
  by (rule bit_eqI) (auto simp: and_exp_eq_0_iff_not_bit bit_or_iff bit_exp_iff)

lemma cmd_wake_on_sim:
  assumes sim: "pipe_sim s A" and a: "ps_pipe s a = Some p" and t: "cmd_wake_on fl a s = Some t"
    and fl: "fl = PIPE_WAKE_READ \<or> fl = PIPE_WAKE_WRITE"
  shows "pipe_sim t (spec_want (p_channel p) (ucast fl) A)"
proof -
  let ?p = "p\<lparr>p_wanted := p_wanted p OR ucast fl\<rparr>"
  let ?s = "s\<lparr>ps_pipe := (ps_pipe s)(a \<mapsto> ?p)\<rparr>"
  have ch: "sp_chans A (p_channel p) = Some (chan_abs p)" using sim a by (auto intro: pipe_sim_at simp: pipe_at_def)
  have "pipe_sim ?s (A\<lparr>sp_chans := (sp_chans A)(p_channel p \<mapsto> chan_abs ?p)\<rparr>)"
    by (rule pipe_sim_upd [OF sim a]) simp_all
  then have s1: "pipe_sim ?s (spec_want (p_channel p) (ucast fl) A)"
    by (simp add: spec_want_def ch chan_abs_def)
  show ?thesis
  proof (cases "p_wanted p AND ucast fl = 0")
    case True
    with t a obtain u where u: "call_wakeOn ?p (ucast (p_wanted ?p)) ?s = Some u" "t = u\<lparr>pd_status := 0\<rparr>"
      by (auto simp: cmd_wake_on_def Let_def bind_eq_Some_conv)
    have "same_view ?s t" using call_wakeOn_view [OF u(1)] u(2) by (simp add: same_view_def)
    with s1 show ?thesis by (rule pipe_sim_view)
  next
    case False
    with t a have "t = s\<lparr>pd_status := 0\<rparr>" by (simp add: cmd_wake_on_def)
    with False word_or_set_bit [of "p_wanted p" 1] word_or_set_bit [of "p_wanted p" 2] fl a
    have "p_wanted p OR ucast fl = p_wanted p" by auto
    with \<open>t = s\<lparr>pd_status := 0\<rparr>\<close> a have "same_view ?s t" by (simp add: same_view_def)
    with s1 show ?thesis by (rule pipe_sim_view)
  qed
qed

lemma doCommand_sim:
  assumes sim: "pipe_sim s A" and new: "fresh_for np nc s"
    and t: "pipeDevice_doCommand pm np nc cmd s = Some t"
  shows "pipe_sim t (spec_command cmd (pd_channel s) A)"
proof -
  obtain xs ws where l: "pipe_lists s xs ws" and c: "pipe_chans s" using sim by (rule pipe_simE)
  have st: "pipe_sim (s\<lparr>pd_status := r\<rparr>) A" for r by (rule pipe_sim_view [OF sim]) (simp add: same_view_def)
  show ?thesis
  proof (cases "sp_chans A (pd_channel s)")
    case None
    with doCommand_absent [OF l pipe_sim_absent [OF sim None], of pm np nc cmd] t
      cmd_open_sim [OF sim new None] st show ?thesis
      by (auto simp: spec_command_def split: if_splits)
  next
    case (Some cs)
    with sim obtain a p where at: "pipe_at s (pd_channel s) a p" and cs: "cs = chan_abs p"
      by (rule pipe_sim_present)
    then have a: "ps_pipe s a = Some p" "p_channel p = pd_channel s" by (auto simp: pipe_at_def)
    obtain ys zs where ys: "xs = ys @ a # zs" and eq: "pipeDevice_doCommand pm np nc cmd s =
      (if p_closed p \<and> cmd \<noteq> PIPE_CMD_CLOSE then Some (s\<lparr>pd_status := PIPE_ERROR_IO\<rparr>)
       else if cmd = PIPE_CMD_OPEN then Some (s\<lparr>pd_status := PIPE_ERROR_INVAL\<rparr>)
       else if cmd = PIPE_CMD_CLOSE then cmd_close (end_slot SHead ys) a s
       else if cmd = PIPE_CMD_POLL then do { r \<leftarrow> call_poll p s; Some (s\<lparr>pd_status := r\<rparr>) }
       else if cmd = PIPE_CMD_READ_BUFFER then cmd_read_buffer pm a s
       else if cmd = PIPE_CMD_WRITE_BUFFER then cmd_write_buffer pm a s
       else if cmd = PIPE_CMD_WAKE_ON_READ then cmd_wake_on PIPE_WAKE_READ a s
       else if cmd = PIPE_CMD_WAKE_ON_WRITE then cmd_wake_on PIPE_WAKE_WRITE a s
       else Some s)" using doCommand_present [OF l c at] by blast
    note sims = st cmd_wake_on_sim [OF sim a(1), of PIPE_WAKE_READ t, simplified]
      cmd_wake_on_sim [OF sim a(1), of PIPE_WAKE_WRITE t, simplified]
      cmd_close_sim [OF sim l [unfolded ys] a(1), where v = t]
      pipe_sim_view [OF sim buffer_cmd_view(1) [where t = t]] pipe_sim_view [OF sim buffer_cmd_view(2) [where t = t]]
    from Some t sims [unfolded a(2)] sim show ?thesis
      unfolding spec_command_def cs eq
      by (auto simp: chan_abs_def bind_eq_Some_conv split: if_splits)
  qed
qed


lemma qemu_pipe_wake_sim:
  assumes sim: "pipe_sim s A" and a: "ps_pipe s a = Some p"
  shows "\<exists>t. qemu_pipe_wake a flags s = Some t \<and> pipe_sim t (spec_wake (p_channel p) (ucast flags) A)"
proof -
  obtain xs ws where l: "pipe_lists s xs ws" "sp_signaled A = map (chan_of s) ws" and c: "pipe_chans s"
    and m: "chans_sim (ps_pipe s) (sp_chans A)"
    using sim by (rule pipe_simE)
  let ?p = "p\<lparr>p_wanted := p_wanted p OR ucast flags\<rparr>"
  let ?r = "(set_next_waked (pd_signaled_pipes s) p)\<lparr>p_wanted := p_wanted p OR ucast flags\<rparr>"
  let ?m = "(sp_chans A)(p_channel p \<mapsto> chan_abs ?p)"
  have want: "(sp_chans A)(p_channel p := map_option (\<lambda>c. c\<lparr>cs_wanted := cs_wanted c OR ucast flags\<rparr>)
      (sp_chans A (p_channel p))) = ?m"
    using chans_simD [OF m a] by (simp add: chan_abs_def)
  have in_ws: "p_channel p \<in> set (sp_signaled A) \<longleftrightarrow> a \<in> set ws"
  proof
    assume "p_channel p \<in> set (sp_signaled A)"
    with l(2) obtain b where b: "b \<in> set ws" "chan_of s b = p_channel p" by auto
    with l(1) obtain q where "ps_pipe s b = Some q" by (auto simp: pipe_lists_def)
    with b a c show "a \<in> set ws" by (auto simp: chan_of_def pipe_chans_def)
  qed (use l(2) a in \<open>force simp: chan_of_def\<close>)
  obtain t where t: "qemu_pipe_wake a flags s = Some t" and irq: "pd_irq t" and tp:
      "ps_pipe t = (ps_pipe s)(a \<mapsto> (if a \<in> set ws then ?p else ?r))"
    using qemu_pipe_wake_signaled [OF l(1) a, of flags] qemu_pipe_wake_fresh [OF l(1) a, of flags]
    by (cases "a \<in> set ws") (auto simp: set_next_waked_def)
  have ch: "p_channel (if a \<in> set ws then ?p else ?r) = p_channel p"
    "chan_abs (if a \<in> set ws then ?p else ?r) = chan_abs ?p"
    by (simp_all add: chan_abs_def set_next_waked_def)
  have "chans_sim (ps_pipe t) ?m"
    using chans_sim_upd [OF m _ a ch(1)] c unfolding tp ch(2) by (simp add: pipe_chans_inj)
  moreover have "pipe_chans t"
    using c a ch(1) unfolding pipe_chans_def tp by (auto split: if_splits)
  moreover have "chan_of t = chan_of s" using a ch(1) tp by (auto simp: chan_of_def fun_eq_iff)
  moreover have "chan_of s a = p_channel p" using a by (simp add: chan_of_def)
  ultimately have "pipe_sim t (spec_wake (p_channel p) (ucast flags) A)"
    using l(2) irq in_ws want
    by (intro pipe_simI [OF qemu_pipe_wake_lists [OF l(1) a t]]) (auto simp: spec_wake_def spec_want_def)
  with t show ?thesis by blast
qed

lemma qemu_pipe_close_sim:
  assumes sim: "pipe_sim s A" and a: "ps_pipe s a = Some p"
  shows "\<exists>t. qemu_pipe_close a s = Some t \<and> pipe_sim t (spec_shut (p_channel p) A)"
proof -
  let ?p = "p\<lparr>p_closed := True\<rparr>"
  have ch: "sp_chans A (p_channel p) = Some (chan_abs p)" using sim a by (auto intro: pipe_sim_at simp: pipe_at_def)
  have "pipe_sim (s\<lparr>ps_pipe := (ps_pipe s)(a \<mapsto> ?p)\<rparr>) (A\<lparr>sp_chans := (sp_chans A)(p_channel p \<mapsto> chan_abs ?p)\<rparr>)"
    by (rule pipe_sim_upd [OF sim a]) simp_all
  from qemu_pipe_wake_sim [OF this, of a ?p PIPE_WAKE_CLOSED] sim a ch show ?thesis
    by (auto simp: qemu_pipe_close_def spec_shut_def chan_abs_def)
qed

lemma read_channel_sim:
  assumes sim: "pipe_sim s A" and q: "sp_signaled A = ch # q"
  obtains t c where "pipe_dev_read PIPE_REG_CHANNEL s = Some (ch AND 0xFFFFFFFF, t)"
    and "sp_chans A ch = Some c" and "pd_wakes t = ucast (cs_wanted c)"
    and "pipe_sim t (spec_read_channel A)"
proof -
  obtain xs ws0 where l0: "pipe_lists s xs ws0" "sp_signaled A = map (chan_of s) ws0" and c: "pipe_chans s"
    and i: "sp_irq A = pd_irq s" and m: "chans_sim (ps_pipe s) (sp_chans A)"
    using sim by (rule pipe_simE)
  from l0(2) q obtain a ws where ws: "ws0 = a # ws" "chan_of s a = ch" "q = map (chan_of s) ws" by auto
  from l0 ws(1) have l: "pipe_lists s xs (a # ws)" by simp
  then obtain p where a: "ps_pipe s a = Some p" by (auto simp: pipe_lists_def)
  with ws(2) have ch: "p_channel p = ch" by (simp add: chan_of_def)
  let ?p = "(set_next_waked NULL p)\<lparr>p_wanted := 0\<rparr>"
  define t where "t = s\<lparr>pd_wakes := ucast (p_wanted p), pd_signaled_pipes := p_next_waked p,
      ps_pipe := (ps_pipe s)(a \<mapsto> ?p), pd_irq := (if ws = [] then False else pd_irq s)\<rparr>"
  note r = read_channel_spec [OF l a t_def]
  have tp: "ps_pipe t = (ps_pipe s)(a \<mapsto> ?p)" by (simp add: t_def)
  have "chans_sim (ps_pipe t) ((sp_chans A)(p_channel p \<mapsto> chan_abs ?p))"
    unfolding tp by (rule chans_sim_upd [OF m _ a]) (use c in \<open>simp_all add: pipe_chans_inj\<close>)
  moreover have "chan_abs ?p = (chan_abs p)\<lparr>cs_wanted := 0\<rparr>" by (simp add: chan_abs_def)
  moreover have "pipe_chans t" using c a unfolding pipe_chans_def tp by (auto split: if_splits)
  moreover have "chan_of t = chan_of s" using a tp by (auto simp: chan_of_def fun_eq_iff)
  moreover have cs: "sp_chans A ch = Some (chan_abs p)" using chans_simD [OF m a] ch by simp
  ultimately have "pipe_sim t (spec_read_channel A)"
    using q i ch ws(3) by (intro pipe_simI [OF r(2)]) (auto simp: spec_read_channel_def t_def)
  with r(1) cs ch that show ?thesis by (simp add: t_def chan_abs_def)
qed

subsection \<open>Draining the signaled channels\<close>

text \<open>What an interrupt handler reads: \<open>n\<close> times the channel register and then the wake flags.\<close>

fun drain :: "nat \<Rightarrow> 'w pipe_sys \<Rightarrow> ((u64 \<times> u64) list \<times> 'w pipe_sys) option" where
  "drain 0 s = Some ([], s)"
| "drain (Suc n) s =
     do { (ch, s1) \<leftarrow> pipe_dev_read PIPE_REG_CHANNEL s;
          (fl, s2) \<leftarrow> pipe_dev_read PIPE_REG_WAKES s1;
          (evs, s3) \<leftarrow> drain n s2;
          Some ((ch, fl) # evs, s3) }"

definition pending_event :: "pipe_spec \<Rightarrow> u64 \<Rightarrow> u64 \<times> u64" where
  "pending_event A ch = (ch AND 0xFFFFFFFF, ucast (cs_wanted (the (sp_chans A ch))))"

lemma ucast_via_u32: "(ucast (ucast (b :: u8) :: u32) :: u64) = ucast b"
  by (rule bit_word_eqI) (auto simp: bit_simps dest: bit_imp_le_length)

lemma pipe_lists_waked_live: "pipe_lists s xs ws \<Longrightarrow> a \<in> set ws \<Longrightarrow> \<exists>p. ps_pipe s a = Some p"
  by (auto simp: pipe_lists_def)

lemma pipe_sim_distinct: "pipe_sim s A \<Longrightarrow> distinct (sp_signaled A)"
proof -
  assume "pipe_sim s A"
  then obtain xs ws where l: "pipe_lists s xs ws" "sp_signaled A = map (chan_of s) ws" and c: "pipe_chans s"
    by (rule pipe_simE)
  have "inj_on (chan_of s) (set ws)"
  proof (rule inj_onI)
    fix a b assume ab: "a \<in> set ws" "b \<in> set ws" "chan_of s a = chan_of s b"
    then obtain p q where "ps_pipe s a = Some p" "ps_pipe s b = Some q"
      using pipe_lists_waked_live [OF l(1)] by blast
    with ab(3) c show "a = b" by (auto simp: chan_of_def pipe_chans_def)
  qed
  with l pipe_lists_distinct [OF l(1)] show ?thesis by (simp add: distinct_map)
qed

lemma drain_sim:
  assumes "pipe_sim s A" and "length (sp_signaled A) = n"
  shows "\<exists>t. drain n s = Some (map (pending_event A) (sp_signaled A), t) \<and>
    pipe_sim t (A\<lparr>sp_chans := \<lambda>ch. if ch \<in> set (sp_signaled A)
        then map_option (\<lambda>c. c\<lparr>cs_wanted := 0\<rparr>) (sp_chans A ch) else sp_chans A ch,
      sp_signaled := [], sp_irq := n = 0 \<and> sp_irq A\<rparr>)"
  using assms
proof (induction n arbitrary: s A)
  case 0
  then show ?case by (cases A) simp
next
  case (Suc n)
  then obtain ch q where q: "sp_signaled A = ch # q" "length q = n" by (cases "sp_signaled A") auto
  from Suc.prems(1) q(1) obtain t c where t: "pipe_dev_read PIPE_REG_CHANNEL s = Some (ch AND 0xFFFFFFFF, t)"
    "sp_chans A ch = Some c" "pd_wakes t = ucast (cs_wanted c)" "pipe_sim t (spec_read_channel A)"
    by (rule read_channel_sim)
  let ?B = "spec_read_channel A"
  have B: "sp_signaled ?B = q" "sp_irq ?B = (q \<noteq> [] \<and> sp_irq A)"
    "sp_chans ?B = (sp_chans A)(ch \<mapsto> c\<lparr>cs_wanted := 0\<rparr>)"
    by (simp_all add: spec_read_channel_def q(1) t(2))
  from Suc.IH [OF t(4)] q(2) B(1) obtain u where u: "drain n t = Some (map (pending_event ?B) q, u)"
    "pipe_sim u (?B\<lparr>sp_chans := \<lambda>ch. if ch \<in> set q
        then map_option (\<lambda>c. c\<lparr>cs_wanted := 0\<rparr>) (sp_chans ?B ch) else sp_chans ?B ch,
      sp_signaled := [], sp_irq := n = 0 \<and> sp_irq ?B\<rparr>)" by auto
  have d: "ch \<notin> set q" using pipe_sim_distinct [OF Suc.prems(1)] q(1) by simp
  then have "map (pending_event ?B) q = map (pending_event A) q"
    by (auto simp: pending_event_def B)
  moreover have "pipe_dev_read PIPE_REG_WAKES t = Some (ucast (cs_wanted c), t)"
    by (simp add: pipe_dev_read_def t(3) ucast_via_u32)
  ultimately have "drain (Suc n) s = Some (map (pending_event A) (sp_signaled A), u)"
    using t(1,2) u(1) q(1) by (simp add: pending_event_def)
  moreover have "?B\<lparr>sp_chans := \<lambda>ch. if ch \<in> set q
        then map_option (\<lambda>c. c\<lparr>cs_wanted := 0\<rparr>) (sp_chans ?B ch) else sp_chans ?B ch,
      sp_signaled := [], sp_irq := n = 0 \<and> sp_irq ?B\<rparr> =
    A\<lparr>sp_chans := \<lambda>ch. if ch \<in> set (sp_signaled A)
        then map_option (\<lambda>c. c\<lparr>cs_wanted := 0\<rparr>) (sp_chans A ch) else sp_chans A ch,
      sp_signaled := [], sp_irq := Suc n = 0 \<and> sp_irq A\<rparr>"
    using d q t(2) B by (auto simp: fun_eq_iff spec_read_channel_def)
  ultimately show ?case using u(2) by auto
qed

subsection \<open>A device with one signaled pipe\<close>

definition one_pipe :: "unit pipe_sys" where
  "one_pipe = (qemu_pipe_initfn [] (\<lambda>_. 0) ())
     \<lparr>pd_irq := True, pd_pipes := 1, pd_signaled_pipes := 1, pd_channel := 7,
      ps_pipe := [1 \<mapsto> pipe_new0\<lparr>p_channel := 7, p_opaque := 2, p_wanted := 2\<rparr>],
      ps_conn := [2 \<mapsto> \<lparr>pc_pipe = 1, pc_buffer = replicate 128 0, pc_buffpos = 0\<rparr>]\<rparr>"

definition one_spec :: pipe_spec where
  "one_spec = \<lparr>sp_chans = [7 \<mapsto> \<lparr>cs_closed = False, cs_wanted = 2\<rparr>], sp_signaled = [7], sp_irq = True\<rparr>"

lemma one_pipe_sim: "pipe_sim one_pipe one_spec"
  by (rule pipe_simI [of _ "[1]" "[1]"])
    (auto simp: one_pipe_def one_spec_def qemu_pipe_initfn_def pipe_new0_def pipe_lists_def chan_of_def pipe_chans_def
      chan_abs_def intro!: chans_simI split: if_splits)

lemma one_pipe_close: "pipeDevice_doCommand flat_mem 5 6 PIPE_CMD_CLOSE one_pipe \<noteq> None"
  by code_simp

lemma one_pipe_fresh: "fresh_for 5 6 one_pipe"
  by (simp add: fresh_for_def one_pipe_def)

subsection \<open>Properties of the device\<close>

text \<open>C7: Every command the guest writes is simulated by the abstract device: opening adds the channel,
  closing removes it from the map and from the signaled queue, the wake requests add their
  flag, and all other commands (transfers, polls, failed commands) leave the abstract state
  unchanged, whatever the service callbacks do.\<close>

theorem pipe_command_refines:
  assumes "pipe_sim s A" and "fresh_for new_pipe new_conn s"
    and "pipeDevice_doCommand pm new_pipe new_conn cmd s = Some t"
  shows "pipe_sim t (spec_command cmd (pd_channel s) A)"
  using assms by (rule doCommand_sim)

theorem pipe_command_refines_witness:
  "\<exists>t. pipeDevice_doCommand flat_mem 5 6 PIPE_CMD_CLOSE one_pipe = Some t \<and> pipe_sim t (spec_close 7 one_spec)"
proof -
  obtain t where t: "pipeDevice_doCommand flat_mem 5 6 PIPE_CMD_CLOSE one_pipe = Some t"
    using one_pipe_close by blast
  have "spec_command PIPE_CMD_CLOSE (pd_channel one_pipe) one_spec = spec_close 7 one_spec"
    by (simp add: spec_command_def one_pipe_def one_spec_def)
  with pipe_command_refines [OF one_pipe_sim one_pipe_fresh t] t show ?thesis by auto
qed

text \<open>C8: Host-side events are simulated too, and never fault on a live pipe: \<open>qemu_pipe_wake\<close> queues
  the channel once, merges the flags and raises the interrupt; \<open>qemu_pipe_close\<close> marks the
  channel closed and wakes it with the closed flag, once.\<close>

theorem pipe_wake_close_refine:
  assumes "pipe_sim s A" and "ps_pipe s a = Some p"
  shows "(\<exists>t. qemu_pipe_wake a flags s = Some t \<and> pipe_sim t (spec_wake (p_channel p) (ucast flags) A)) \<and>
    (\<exists>t. qemu_pipe_close a s = Some t \<and> pipe_sim t (spec_shut (p_channel p) A))"
  using qemu_pipe_wake_sim [OF assms] qemu_pipe_close_sim [OF assms] by blast

theorem pipe_wake_close_refine_witness:
  "(\<exists>t. qemu_pipe_wake 1 PIPE_WAKE_WRITE one_pipe = Some t \<and> pipe_sim t (spec_wake 7 4 one_spec)) \<and>
   (\<exists>t. qemu_pipe_close 1 one_pipe = Some t \<and> pipe_sim t (spec_shut 7 one_spec))"
proof -
  have p: "ps_pipe one_pipe 1 = Some (pipe_new0\<lparr>p_channel := 7, p_opaque := 2, p_wanted := 2\<rparr>)"
    by (simp add: one_pipe_def)
  show ?thesis using pipe_wake_close_refine [OF one_pipe_sim p, where flags = PIPE_WAKE_WRITE] by simp
qed

text \<open>C9: Draining: with \<open>n\<close> channels signaled, \<open>n\<close> reads of the channel register, each followed by a
  read of the wake flags, never fault and return exactly the signaled channels in queue order
  with their pending flags; afterwards the queue is empty, those flags are cleared, and the
  interrupt line is low.\<close>

theorem pipe_drain:
  assumes "pipe_sim s A" and "length (sp_signaled A) = Suc n"
  shows "\<exists>t. drain (Suc n) s = Some (map (pending_event A) (sp_signaled A), t) \<and>
    pipe_sim t (A\<lparr>sp_chans := \<lambda>ch. if ch \<in> set (sp_signaled A)
        then map_option (\<lambda>c. c\<lparr>cs_wanted := 0\<rparr>) (sp_chans A ch) else sp_chans A ch,
      sp_signaled := [], sp_irq := False\<rparr>)"
  using drain_sim [OF assms] by simp

theorem pipe_drain_witness: "\<exists>t. drain 1 one_pipe = Some ([(7, 2)], t) \<and> \<not> pd_irq t"
proof -
  obtain t where t: "drain (Suc 0) one_pipe = Some (map (pending_event one_spec) (sp_signaled one_spec), t)"
    "pipe_sim t (one_spec\<lparr>sp_chans := \<lambda>ch. if ch \<in> set (sp_signaled one_spec)
        then map_option (\<lambda>c. c\<lparr>cs_wanted := 0\<rparr>) (sp_chans one_spec ch) else sp_chans one_spec ch,
      sp_signaled := [], sp_irq := False\<rparr>)"
    using pipe_drain [OF one_pipe_sim, of 0] by (auto simp: one_spec_def)
  from t(2) have "\<not> pd_irq t" by (auto simp: pipe_sim_def)
  moreover have "map (pending_event one_spec) (sp_signaled one_spec) = [(7, 2)]" by code_simp
  ultimately show ?thesis using t(1) by auto
qed

text \<open>C11: Failing commands change nothing but the status register: a command on a channel that is not
  open is invalid, opening a channel twice is invalid, and on a pipe the host has closed every
  command but CLOSE reports an I/O error.\<close>

theorem pipe_command_errors:
  assumes "pipe_sim s A"
  shows "(sp_chans A (pd_channel s) = None \<longrightarrow> cmd \<noteq> PIPE_CMD_OPEN \<longrightarrow>
      pipeDevice_doCommand pm np nc cmd s = Some (s\<lparr>pd_status := PIPE_ERROR_INVAL\<rparr>)) \<and>
    (\<forall>c. sp_chans A (pd_channel s) = Some c \<longrightarrow> \<not> cs_closed c \<longrightarrow>
      pipeDevice_doCommand pm np nc PIPE_CMD_OPEN s = Some (s\<lparr>pd_status := PIPE_ERROR_INVAL\<rparr>)) \<and>
    (\<forall>c. sp_chans A (pd_channel s) = Some c \<longrightarrow> cs_closed c \<longrightarrow> cmd \<noteq> PIPE_CMD_CLOSE \<longrightarrow>
      pipeDevice_doCommand pm np nc cmd s = Some (s\<lparr>pd_status := PIPE_ERROR_IO\<rparr>))"
proof -
  obtain xs ws where l: "pipe_lists s xs ws" and ch: "pipe_chans s" using assms by (rule pipe_simE)
  show ?thesis
  proof (cases "sp_chans A (pd_channel s)")
    case None
    with doCommand_absent [OF l pipe_sim_absent [OF assms None]] show ?thesis by simp
  next
    case (Some c)
    with assms obtain a p where at: "pipe_at s (pd_channel s) a p" and c: "c = chan_abs p"
      by (rule pipe_sim_present)
    with Some doCommand_refused [OF l ch at] show ?thesis by (auto simp: chan_abs_def)
  qed
qed

theorem pipe_command_errors_witness:
  "pipeDevice_doCommand flat_mem 5 6 PIPE_CMD_OPEN one_pipe = Some (one_pipe\<lparr>pd_status := PIPE_ERROR_INVAL\<rparr>)"
  using pipe_command_errors [OF one_pipe_sim, of PIPE_CMD_OPEN flat_mem 5 6]
  by (simp add: one_pipe_def one_spec_def)

text \<open>C12: Closing the only signaled pipe leaves the interrupt line raised with nothing left to report,
  and reading the channel register then returns 0 and never lowers it.\<close>

theorem pipe_close_keeps_irq:
  assumes "pipe_sim s A" and "sp_signaled A = [pd_channel s]" and "sp_irq A" and "fresh_for np nc s"
    and "pipeDevice_doCommand pm np nc PIPE_CMD_CLOSE s = Some t"
  shows "pd_irq t \<and> pd_signaled_pipes t = NULL \<and> pipe_dev_read PIPE_REG_CHANNEL t = Some (0, t)"
proof -
  obtain xs ws where "pipe_lists s xs ws" "map (chan_of s) ws = [pd_channel s]"
    using assms(1,2) by (auto elim: pipe_simE)
  then obtain a p where "ps_pipe s a = Some p" "p_channel p = pd_channel s"
    by (auto simp: chan_of_def dest: pipe_lists_waked_live)
  then have "sp_chans A (pd_channel s) \<noteq> None" using assms(1) by (auto simp: pipe_sim_def dest: chans_simD)
  with doCommand_sim [OF assms(1,4,5)] have "pipe_sim t (spec_close (pd_channel s) A)"
    by (auto simp: spec_command_def)
  then obtain xs' where l: "pipe_lists t xs' []" and "pd_irq t"
    using assms(2,3) by (auto simp: spec_close_def elim!: pipe_simE)
  with read_channel_empty [OF l] show ?thesis by (simp add: pipe_lists_def)
qed

theorem pipe_close_keeps_irq_witness:
  "\<exists>t. pipeDevice_doCommand flat_mem 5 6 PIPE_CMD_CLOSE one_pipe = Some t \<and> pd_irq t \<and> pd_signaled_pipes t = NULL"
proof -
  obtain t where t: "pipeDevice_doCommand flat_mem 5 6 PIPE_CMD_CLOSE one_pipe = Some t"
    using one_pipe_close by blast
  have "sp_signaled one_spec = [pd_channel one_pipe]" "sp_irq one_spec" by (simp_all add: one_pipe_def one_spec_def)
  with pipe_close_keeps_irq [OF one_pipe_sim _ _ one_pipe_fresh t] t show ?thesis by simp
qed

end
