(* ===== verification/SockAddr.thy ===== *)
theory SockAddr
  imports Prelude
begin

text \<open>
  Socket addresses of \<open>host-qemu/android/sockets.c\<close>: construction and access, conversion from
  and to the byte layout of the C library's \<open>sockaddr\<close> structures (x86-64 Linux), text form,
  and resolution. The resolver \<open>getaddrinfo\<close> is a parameter. An \<open>errno\<close> value is an \<open>int\<close>.
\<close>

subsection \<open>Data\<close>

datatype SocketType = SOCKET_DGRAM | SOCKET_STREAM

datatype SocketFamily = SOCKET_UNSPEC | SOCKET_INET | SOCKET_IN6 | SOCKET_UNIX

datatype SockAddress =
    SA_unspec
  | SA_inet u16 u32
  | SA_in6 u16 "u8 list"
  | SA_unix bool "u8 list"

abbreviation (input) EINTR :: int where "EINTR \<equiv> 4"
abbreviation (input) EAGAIN :: int where "EAGAIN \<equiv> 11"
abbreviation (input) EWOULDBLOCK :: int where "EWOULDBLOCK \<equiv> 11"
abbreviation (input) ENOENT :: int where "ENOENT \<equiv> 2"
abbreviation (input) ENOMEM :: int where "ENOMEM \<equiv> 12"
abbreviation (input) EINVAL :: int where "EINVAL \<equiv> 22"
abbreviation (input) EAFNOSUPPORT :: int where "EAFNOSUPPORT \<equiv> 97"
abbreviation (input) EHOSTDOWN :: int where "EHOSTDOWN \<equiv> 112"
abbreviation (input) EINPROGRESS :: int where "EINPROGRESS \<equiv> 115"

abbreviation (input) AF_UNSPEC :: int where "AF_UNSPEC \<equiv> 0"
abbreviation (input) AF_LOCAL :: int where "AF_LOCAL \<equiv> 1"
abbreviation (input) AF_INET :: int where "AF_INET \<equiv> 2"
abbreviation (input) AF_INET6 :: int where "AF_INET6 \<equiv> 10"
abbreviation (input) SOCK_STREAM :: int where "SOCK_STREAM \<equiv> 1"
abbreviation (input) SOCK_DGRAM :: int where "SOCK_DGRAM \<equiv> 2"

definition socket_family_to_bsd :: "SocketFamily \<Rightarrow> int" where
  "socket_family_to_bsd f =
     (case f of SOCKET_INET \<Rightarrow> AF_INET | SOCKET_IN6 \<Rightarrow> AF_INET6 | SOCKET_UNIX \<Rightarrow> AF_LOCAL | SOCKET_UNSPEC \<Rightarrow> -1)"

definition socket_type_to_bsd :: "SocketType \<Rightarrow> int" where
  "socket_type_to_bsd t = (case t of SOCKET_DGRAM \<Rightarrow> SOCK_DGRAM | SOCKET_STREAM \<Rightarrow> SOCK_STREAM)"

text \<open>The default case casts \<open>SOCKET_UNSPEC\<close>, whose value is that of \<open>SOCKET_DGRAM\<close>.\<close>

definition socket_type_from_bsd :: "int \<Rightarrow> SocketType" where
  "socket_type_from_bsd t =
     (if t = SOCK_DGRAM then SOCKET_DGRAM else if t = SOCK_STREAM then SOCKET_STREAM else SOCKET_DGRAM)"

subsection \<open>Construction and access\<close>

definition sock_address_init_inet :: "u32 \<Rightarrow> u16 \<Rightarrow> SockAddress" where
  "sock_address_init_inet ip port = SA_inet port ip"

definition sock_address_init_in6 :: "u8 list \<Rightarrow> u16 \<Rightarrow> SockAddress" where
  "sock_address_init_in6 ip6 port = SA_in6 port (take 16 ip6)"

definition sock_address_init_unix :: "u8 list option \<Rightarrow> SockAddress" where
  "sock_address_init_unix path = SA_unix True (case path of None \<Rightarrow> [] | Some p \<Rightarrow> p)"

definition sock_address_done :: "SockAddress \<Rightarrow> SockAddress" where
  "sock_address_done a = (case a of SA_unix owner path \<Rightarrow> SA_unix False path | _ \<Rightarrow> a)"

definition sock_address_get_family :: "SockAddress \<Rightarrow> SocketFamily" where
  "sock_address_get_family a =
     (case a of SA_unspec \<Rightarrow> SOCKET_UNSPEC | SA_inet _ _ \<Rightarrow> SOCKET_INET | SA_in6 _ _ \<Rightarrow> SOCKET_IN6
      | SA_unix _ _ \<Rightarrow> SOCKET_UNIX)"

fun sock_address_equal :: "SockAddress \<Rightarrow> SockAddress \<Rightarrow> bool" where
  "sock_address_equal (SA_inet port ip) (SA_inet port' ip') \<longleftrightarrow> ip = ip' \<and> port = port'"
| "sock_address_equal (SA_in6 port ip) (SA_in6 port' ip') \<longleftrightarrow> take 16 ip = take 16 ip' \<and> port = port'"
| "sock_address_equal (SA_unix _ path) (SA_unix _ path') \<longleftrightarrow> path = path'"
| "sock_address_equal _ _ \<longleftrightarrow> False"

fun sock_address_get_port :: "SockAddress \<Rightarrow> int" where
  "sock_address_get_port (SA_inet port _) = uint port"
| "sock_address_get_port (SA_in6 port _) = uint port"
| "sock_address_get_port _ = -1"

fun sock_address_set_port :: "u16 \<Rightarrow> SockAddress \<Rightarrow> SockAddress" where
  "sock_address_set_port port (SA_inet _ ip) = SA_inet port ip"
| "sock_address_set_port port (SA_in6 _ ip) = SA_in6 port ip"
| "sock_address_set_port port a = a"

fun sock_address_get_path :: "SockAddress \<Rightarrow> u8 list option" where
  "sock_address_get_path (SA_unix _ path) = Some path"
| "sock_address_get_path _ = None"

text \<open>The unsigned address is returned as a signed \<open>int\<close>.\<close>

fun sock_address_get_ip :: "SockAddress \<Rightarrow> int" where
  "sock_address_get_ip (SA_inet _ ip) = sint ip"
| "sock_address_get_ip _ = -1"

subsection \<open>The C library's \<open>sockaddr\<close>\<close>

definition be16 :: "u16 \<Rightarrow> u8 list" where
  "be16 v = [ucast (drop_bit 8 v), ucast v]"

definition be32 :: "u32 \<Rightarrow> u8 list" where
  "be32 v = [ucast (drop_bit 24 v), ucast (drop_bit 16 v), ucast (drop_bit 8 v), ucast v]"

definition get_be16 :: "u8 list \<Rightarrow> nat \<Rightarrow> u16" where
  "get_be16 bs i = push_bit 8 (ucast (bs ! i)) OR ucast (bs ! (i + 1))"

definition get_be32 :: "u8 list \<Rightarrow> nat \<Rightarrow> u32" where
  "get_be32 bs i = push_bit 24 (ucast (bs ! i)) OR push_bit 16 (ucast (bs ! (i + 1))) OR
     push_bit 8 (ucast (bs ! (i + 2))) OR ucast (bs ! (i + 3))"

text \<open>\<open>UNIX_PATH_MAX\<close> as this file defines it: one less than the 108 bytes of \<open>sun_path\<close>.\<close>

abbreviation (input) UNIX_PATH_MAX :: nat where "UNIX_PATH_MAX \<equiv> 107"

text \<open>
  The first \<open>*psize\<close> bytes of the storage, or \<open>-1\<close> with the value of \<open>errno\<close> it sets (an
  over-long path sets none).
\<close>

fun sock_address_to_bsd :: "SockAddress \<Rightarrow> int option + u8 list" where
  "sock_address_to_bsd (SA_inet port ip) = Inr ([2, 0] @ be16 port @ be32 ip @ replicate 8 0)"
| "sock_address_to_bsd (SA_in6 port ip) = Inr ([10, 0] @ be16 port @ replicate 4 0 @ take 16 ip @ replicate 4 0)"
| "sock_address_to_bsd (SA_unix _ path) =
     (if length path \<ge> UNIX_PATH_MAX then Inl None else Inr ([1, 0] @ path @ [0]))"
| "sock_address_to_bsd SA_unspec = Inl (Some EINVAL)"

text \<open>\<open>fromlen\<close> bytes of an address; without a family field the read is undefined.\<close>

definition sock_address_from_bsd :: "u8 list \<Rightarrow> (int + SockAddress) option" where
  "sock_address_from_bsd from =
     (if length from < 2 then None
      else if take 2 from = [2, 0]
      then Some (if length from < 16 then Inl EINVAL else Inr (SA_inet (get_be16 from 2) (get_be32 from 4)))
      else if take 2 from = [10, 0]
      then Some (if length from < 28 then Inl EINVAL else Inr (SA_in6 (get_be16 from 2) (take 16 (drop 8 from))))
      else if take 2 from = [1, 0]
      then Some (if length from < 110 then Inl EINVAL
                 else if 0 \<notin> set (take UNIX_PATH_MAX (drop 2 from)) then Inl EINVAL
                 else Inr (SA_unix True (c_str (drop 2 from))))
      else Some (Inl EINVAL))"

subsection \<open>Text\<close>

text \<open>An output buffer with the write position \<open>buf\<close>; \<open>end\<close> is its length.\<close>

type_synonym outbuf = "u8 list \<times> nat"

definition format_char :: "u8 \<Rightarrow> outbuf \<Rightarrow> outbuf" where
  "format_char c st =
     (case st of (mem, buf) \<Rightarrow>
        if buf < length mem
        then (if buf + 1 = length mem then (mem[buf := 0], buf + 1) else (mem[buf := c, buf + 1 := 0], buf + 1))
        else (mem, buf))"

definition format_str :: "u8 list \<Rightarrow> outbuf \<Rightarrow> outbuf option" where
  "format_str str st =
     (case st of (mem, buf) \<Rightarrow>
        let len = min (length str) (length mem - buf);
            mem1 = overwrite mem buf (take len str);
            buf1 = buf + len
        in if buf1 = length mem then (if buf1 = 0 then None else Some (mem1[buf1 - 1 := 0], buf1))
           else Some (mem1[buf1 := 0], buf1))"

text \<open>The digits in \<open>temp\<close>, from index \<open>nn\<close> on; a write outside its 16 bytes is \<open>None\<close>.\<close>

function unsigned_temp :: "nat \<Rightarrow> u32 \<Rightarrow> u8 list option" where
  "unsigned_temp nn val =
     (if val = 0 then Some []
      else if nn \<ge> 16 then None
      else map_option ((#) (48 + ucast (val mod 10))) (unsigned_temp (nn + 1) (val div 10)))"
  by auto
termination by (relation "measure (\<lambda>(nn, val). 16 - nn)") auto

declare unsigned_temp.simps [simp del]

definition format_unsigned :: "u32 \<Rightarrow> outbuf \<Rightarrow> outbuf option" where
  "format_unsigned val st =
     do { temp \<leftarrow> unsigned_temp 0 val;
          let temp1 = (if temp = [] then [48] else temp);
          Some (fold format_char (rev temp1) st) }"

definition hex_digits :: "u8 list" where
  "hex_digits = [48, 49, 50, 51, 52, 53, 54, 55, 56, 57, 97, 98, 99, 100, 101, 102]"

text \<open>The loop \<open>shift = 4 * ndigits\<close> down to \<open>0\<close>.\<close>

fun format_hex :: "u32 \<Rightarrow> nat \<Rightarrow> outbuf \<Rightarrow> outbuf" where
  "format_hex val 0 st = format_char (hex_digits ! unat (val AND 15)) st"
| "format_hex val (Suc n) st =
     format_hex val n (format_char (hex_digits ! unat (drop_bit (4 * Suc n) val AND 15)) st)"

definition format_ip4 :: "u32 \<Rightarrow> outbuf \<Rightarrow> outbuf option" where
  "format_ip4 ip st =
     do { st1 \<leftarrow> format_unsigned (drop_bit 24 ip) st;
          st2 \<leftarrow> format_unsigned (drop_bit 16 ip AND 255) (format_char 46 st1);
          st3 \<leftarrow> format_unsigned (drop_bit 8 ip AND 255) (format_char 46 st2);
          format_unsigned (ip AND 255) (format_char 46 st3) }"

fun format_ip6_loop :: "nat \<Rightarrow> u8 list \<Rightarrow> outbuf \<Rightarrow> outbuf option" where
  "format_ip6_loop nn ip6 st =
     (if nn \<ge> 8 then Some st
      else case ip6 of
             b0 # b1 # ip6' \<Rightarrow>
               (let val = push_bit 16 (ucast b0) OR ucast b1 :: u32;
                    st1 = (if nn > 0 then format_char 58 st else st)
                in format_ip6_loop (nn + 1) ip6' (if val = 0 then st1 else format_hex val 4 st1))
           | _ \<Rightarrow> None)"

declare format_ip6_loop.simps [simp del]

definition format_ip6 :: "u8 list \<Rightarrow> outbuf \<Rightarrow> outbuf option" where
  "format_ip6 ip6 st = format_ip6_loop 0 ip6 st"

text \<open>The static buffer before and after; \<open>Some None\<close> is the null result.\<close>

definition sock_address_to_string :: "SockAddress \<Rightarrow> u8 list \<Rightarrow> u8 list option option" where
  "sock_address_to_string a buf0 =
     (case a of
        SA_inet port ip \<Rightarrow>
          do { st \<leftarrow> format_ip4 ip (buf0, 0);
               st1 \<leftarrow> format_unsigned (ucast port) (format_char 58 st);
               Some (Some (fst st1)) }
      | SA_in6 port ip \<Rightarrow>
          do { st \<leftarrow> format_ip6 ip (buf0, 0);
               st1 \<leftarrow> format_unsigned (ucast port) (format_char 58 st);
               Some (Some (fst st1)) }
      | SA_unix _ path \<Rightarrow> do { st \<leftarrow> format_str path (buf0, 0); Some (Some (fst st)) }
      | SA_unspec \<Rightarrow> Some None)"

subsection \<open>Resolution\<close>

record addrinfo =
  ai_family :: int
  ai_addr :: "u8 list"

record ai_hints =
  hint_flags :: u32
  hint_family :: int
  hint_socktype :: int

fun resolve_scan :: "bool \<Rightarrow> addrinfo option \<Rightarrow> addrinfo option \<Rightarrow> addrinfo list \<Rightarrow> addrinfo option \<times> addrinfo option" where
  "resolve_scan preferIn6 res4 res6 [] = (res4, res6)"
| "resolve_scan preferIn6 res4 res6 (r # rs) =
     (if ai_family r = AF_INET \<and> res4 = None
      then (if \<not> preferIn6 then (Some r, res6) else resolve_scan preferIn6 (Some r) res6 rs)
      else if ai_family r = AF_INET6 \<and> res6 = None
      then (if preferIn6 then (res4, Some r) else resolve_scan preferIn6 res4 (Some r) rs)
      else resolve_scan preferIn6 res4 res6 rs)"

definition resolve_errno :: "int \<Rightarrow> int" where
  "resolve_errno ret =
     (if ret = -3 \<or> ret = -4 then EHOSTDOWN else if ret = -5 \<or> ret = -2 then ENOENT
      else if ret = -10 then ENOMEM else EINVAL)"

text \<open>\<open>getaddrinfo\<close> gives an error code or the list of results.\<close>

definition sock_address_init_resolve ::
  "(u8 list \<Rightarrow> ai_hints \<Rightarrow> int + addrinfo list) \<Rightarrow> u8 list \<Rightarrow> u16 \<Rightarrow> bool \<Rightarrow> (int + SockAddress) option" where
  "sock_address_init_resolve getaddrinfo hostname port preferIn6 =
     (case getaddrinfo hostname \<lparr>hint_flags = 0, hint_family = (if preferIn6 then AF_INET6 else AF_UNSPEC),
             hint_socktype = 0\<rparr> of
        Inl ret \<Rightarrow> Some (Inl (resolve_errno ret))
      | Inr res \<Rightarrow>
          (let (res4, res6) = resolve_scan preferIn6 None None res;
               r = (if preferIn6 then (case res6 of None \<Rightarrow> res4 | Some x \<Rightarrow> Some x)
                    else (case res4 of None \<Rightarrow> res6 | Some x \<Rightarrow> Some x))
           in case r of
                None \<Rightarrow> Some (Inl ENOENT)
              | Some x \<Rightarrow> map_option (map_sum id (sock_address_set_port port)) (sock_address_from_bsd (ai_addr x))))"

text \<open>The results that are addresses of a known kind, in order.\<close>

fun addrinfo_addresses :: "addrinfo list \<Rightarrow> SockAddress list option" where
  "addrinfo_addresses [] = Some []"
| "addrinfo_addresses (e # es) =
     do { r \<leftarrow> sock_address_from_bsd (ai_addr e);
          as \<leftarrow> addrinfo_addresses es;
          Some (case r of Inl _ \<Rightarrow> as | Inr a \<Rightarrow> a # as) }"

definition list_create_hints :: "u32 \<Rightarrow> ai_hints" where
  "list_create_hints flags =
     \<lparr>hint_flags = 0x20 OR (if flags AND 1 \<noteq> 0 then 1 else 2),
      hint_family = (if flags AND 2 \<noteq> 0 then AF_INET else if flags AND 4 \<noteq> 0 then AF_INET6 else AF_UNSPEC),
      hint_socktype = (if flags AND 8 \<noteq> 0 then SOCK_DGRAM else 0)\<rparr>"

text \<open>\<open>getaddrinfo\<close> with its effect on the system \<open>'o\<close> and the value of \<open>errno\<close> after it.\<close>

partial_function (option) sock_address_list_create ::
  "(u8 list \<Rightarrow> u8 list \<Rightarrow> ai_hints \<Rightarrow> 'o \<Rightarrow> (int + addrinfo list) \<times> int \<times> 'o) \<Rightarrow>
   u8 list \<Rightarrow> u8 list \<Rightarrow> u32 \<Rightarrow> 'o \<Rightarrow> ((int + SockAddress list) \<times> 'o) option" where
  "sock_address_list_create getaddrinfo hostname port flags w =
     (case getaddrinfo hostname port (list_create_hints flags) w of (res, err, w1) \<Rightarrow>
        (case res of
           Inr es \<Rightarrow> do { as \<leftarrow> addrinfo_addresses es; Some (Inr as, w1) }
         | Inl ret \<Rightarrow>
             if ret = -9 \<or> ret = -5 then Some (Inl ENOENT, w1)
             else if ret = -6 then Some (Inl EAFNOSUPPORT, w1)
             else if ret = -3 then Some (Inl EAGAIN, w1)
             else if ret = -11
             then (if err = EINTR then sock_address_list_create getaddrinfo hostname port flags w1
                   else Some (Inl err, w1))
             else Some (Inl EINVAL, w1)))"

text \<open>Host and port of \<open>[host:]port\<close>; the host name is cut to the 512-byte buffer.\<close>

definition host_and_port_split :: "u8 list \<Rightarrow> (u8 list \<times> u8 list) option" where
  "host_and_port_split s =
     (let host = takeWhile (\<lambda>b. b \<noteq> 58) s in
      if 58 \<in> set s
      then (if min 511 (length host) \<noteq> 0
            then (let port = drop (length host + 1) s in if port = [] then None else Some (take 511 host, port))
            else None)
      else if s = [] then None else Some (bytes ''localhost'', s))"

definition sock_address_list_create2 where
  "sock_address_list_create2 getaddrinfo host_and_port flags w =
     (case host_and_port_split host_and_port of
        None \<Rightarrow> Some (None, w)
      | Some (host, port) \<Rightarrow>
          do { (r, w1) \<leftarrow> sock_address_list_create getaddrinfo host port flags w;
               Some (case r of Inl _ \<Rightarrow> None | Inr as \<Rightarrow> Some as, w1) })"

definition sock_address_list_free :: "SockAddress list \<Rightarrow> SockAddress list" where
  "sock_address_list_free as = map sock_address_done as"

end
