(* ===== verification/SockText.thy ===== *)
theory SockText
  imports SockAddr
begin

text \<open>
  Correctness of the socket addresses: the text form against a reference definition, with the
  truncation at the end of the buffer; the \<open>sockaddr\<close> layout as an inverse pair; the choice
  the resolver makes.
\<close>

subsection \<open>The output buffer\<close>

text \<open>
  \<open>fmt n s st\<close>: after the text \<open>s\<close> has been written to a buffer of \<open>n\<close> bytes, the buffer holds
  as much of \<open>s\<close> as fits before a terminating zero.
\<close>

definition fmt :: "nat \<Rightarrow> u8 list \<Rightarrow> outbuf \<Rightarrow> bool" where
  "fmt n s st \<longleftrightarrow> length (fst st) = n \<and>
     (if length s < n
      then snd st = length s \<and> take (length s) (fst st) = s \<and> (s \<noteq> [] \<longrightarrow> fst st ! length s = 0)
      else snd st = n \<and> take (n - 1) (fst st) = take (n - 1) s \<and> fst st ! (n - 1) = 0)"

lemma fmt_start: "0 < length mem \<Longrightarrow> fmt (length mem) [] (mem, 0)"
  by (simp add: fmt_def)

lemma fmt_char:
  assumes f: "fmt n s st" and n: "0 < n"
  shows "fmt n (s @ [c]) (format_char c st)"
proof -
  obtain mem buf where st: "st = (mem, buf)" by (cases st)
  consider "Suc (length s) < n" | "Suc (length s) = n" | "n \<le> length s" using n by linarith
  then show ?thesis
  proof cases
    case 1
    with f have "buf = length s" "take (length s) mem = s" "length mem = n" by (auto simp: fmt_def st)
    with 1 show ?thesis by (simp add: fmt_def st format_char_def take_Suc_conv_app_nth)
  next
    case 2
    with f have "buf = length s" "take (length s) mem = s" "length mem = n" by (auto simp: fmt_def st)
    with 2 show ?thesis by (auto simp: fmt_def st format_char_def)
  next
    case 3
    with f show ?thesis by (simp add: fmt_def st format_char_def)
  qed
qed

lemma fmt_fold: "fmt n s st \<Longrightarrow> 0 < n \<Longrightarrow> fmt n (s @ cs) (fold format_char cs st)"
proof (induction cs arbitrary: s st)
  case (Cons c cs)
  from Cons.IH [OF fmt_char [OF Cons.prems, of c]] Cons.prems show ?case by simp
qed simp

lemma fmt_c_str:
  assumes f: "fmt n s st" and n: "0 < n" and s: "s \<noteq> []" "0 \<notin> set s"
  shows "c_str (fst st) = take (n - 1) s"
proof -
  obtain k where k: "k < length (fst st)" "take k (fst st) = take (n - 1) s" "fst st ! k = 0"
  proof (cases "length s < n")
    case True
    with f s that [of "length s"] show ?thesis by (auto simp: fmt_def)
  next
    case False
    with f n that [of "n - 1"] show ?thesis by (auto simp: fmt_def)
  qed
  then have "fst st = take (n - 1) s @ 0 # drop (Suc k) (fst st)" using id_take_nth_drop by metis
  moreover have "0 \<notin> set (take (n - 1) s)" using s(2) in_set_takeD by metis
  ultimately show ?thesis using c_str_terminated by metis
qed

subsection \<open>Numbers\<close>

fun dec :: "nat \<Rightarrow> u8 list" where
  "dec n = (if n < 10 then [48 + of_nat n] else dec (n div 10) @ [48 + of_nat (n mod 10)])"

declare dec.simps [simp del]

lemma unsigned_temp_0 [simp]: "unsigned_temp nn 0 = Some []"
  by (simp add: unsigned_temp.simps)

lemma unsigned_temp_dec:
  assumes "unat val < 10 ^ k" and "nn + k \<le> 16" and "val \<noteq> 0"
  shows "\<exists>t. unsigned_temp nn val = Some t \<and> t \<noteq> [] \<and> rev t = dec (unat val)"
  using assms
proof (induction k arbitrary: nn val)
  case 0
  then show ?case by (simp add: unat_eq_zero)
next
  case (Suc k)
  have "ucast (val mod 10) = (of_nat (unat (val mod 10)) :: u8)" by (rule of_nat_unat [symmetric])
  then have d: "unat (val div 10) = unat val div 10" "ucast (val mod 10) = (of_nat (unat val mod 10) :: u8)"
    by (simp_all add: unat_div_distrib unat_mod_distrib)
  have step: "unsigned_temp nn val = map_option ((#) (48 + ucast (val mod 10))) (unsigned_temp (nn + 1) (val div 10))"
    using Suc.prems by (subst unsigned_temp.simps) simp
  show ?case
  proof (cases "unat val < 10")
    case True
    then have "val div 10 = 0" using d(1) by (simp add: unat_eq_zero flip: unat_eq_0)
    with True d(2) step show ?thesis by (subst dec.simps) simp
  next
    case False
    then have "unat (val div 10) \<noteq> 0" using d(1) by simp
    then have "val div 10 \<noteq> 0" by auto
    moreover have "unat (val div 10) < 10 ^ k" using Suc.prems(1) d(1) by (simp add: less_mult_imp_div_less mult.commute)
    ultimately obtain t where "unsigned_temp (nn + 1) (val div 10) = Some t" "rev t = dec (unat val div 10)"
      using Suc.IH [of "val div 10" "nn + 1"] Suc.prems(2) d(1) by auto
    with False d(2) step show ?thesis by (subst dec.simps) simp
  qed
qed

lemma format_unsigned_eq: "format_unsigned val st = Some (fold format_char (dec (unat val)) st)"
proof (cases "val = 0")
  case True
  then show ?thesis by (simp add: format_unsigned_def dec.simps)
next
  case False
  have "unat val < 10 ^ 10" using unsigned_less [of val, where 'a = nat] by simp
  with unsigned_temp_dec [of val 10 0] False obtain t where "unsigned_temp 0 val = Some t" "t \<noteq> []" "rev t = dec (unat val)"
    by auto
  then show ?thesis by (simp add: format_unsigned_def)
qed

lemma dec_digits: "set (dec n) \<subseteq> {48..57}"
proof (induction n rule: dec.induct)
  case (1 n)
  have d: "48 + of_nat k \<in> {48..57 :: u8}" if "k < 10" for k :: nat
  proof -
    have "k \<in> {0, 1, 2, 3, 4, 5, 6, 7, 8, 9}" using that by auto
    then show ?thesis by auto
  qed
  show ?case using 1 d [of n] d [of "n mod 10"] by (subst dec.simps) auto
qed

lemma dec_nonempty [simp]: "dec n \<noteq> []"
  by (subst dec.simps) simp

lemma dec_nonzero [simp]: "0 \<notin> set (dec n)"
  using dec_digits [of n] by auto

subsection \<open>Addresses as text\<close>

definition ip4_text :: "u32 \<Rightarrow> u8 list" where
  "ip4_text ip = dec (unat (drop_bit 24 ip)) @ [46] @ dec (unat (drop_bit 16 ip AND 255)) @ [46] @
     dec (unat (drop_bit 8 ip AND 255)) @ [46] @ dec (unat (ip AND 255))"

text \<open>As the code writes a group: five digits of \<open>b0 << 16 | b1\<close>, or nothing if it is zero.\<close>

fun hex_text :: "u32 \<Rightarrow> nat \<Rightarrow> u8 list" where
  "hex_text val 0 = [hex_digits ! unat (val AND 15)]"
| "hex_text val (Suc n) = hex_digits ! unat (drop_bit (4 * Suc n) val AND 15) # hex_text val n"

definition group_text :: "u8 \<Rightarrow> u8 \<Rightarrow> u8 list" where
  "group_text b0 b1 = (if b0 = 0 \<and> b1 = 0 then [] else hex_text (push_bit 16 (ucast b0) OR ucast b1) 4)"

fun groups_text :: "u8 list \<Rightarrow> u8 list" where
  "groups_text (b0 # b1 # bs) = group_text b0 b1 @ (if bs = [] then [] else [58] @ groups_text bs)"
| "groups_text bs = []"

fun addr_text :: "SockAddress \<Rightarrow> u8 list" where
  "addr_text (SA_inet port ip) = ip4_text ip @ [58] @ dec (unat port)"
| "addr_text (SA_in6 port ip) = groups_text ip @ [58] @ dec (unat port)"
| "addr_text (SA_unix _ path) = path"
| "addr_text SA_unspec = []"

fun addr_ok :: "SockAddress \<Rightarrow> bool" where
  "addr_ok (SA_in6 _ ip) \<longleftrightarrow> length ip = 16"
| "addr_ok (SA_unix _ path) \<longleftrightarrow> 0 \<notin> set path"
| "addr_ok (SA_inet _ _) \<longleftrightarrow> True"
| "addr_ok SA_unspec \<longleftrightarrow> False"

lemma format_ip4_eq: "format_ip4 ip st = Some (fold format_char (ip4_text ip) st)"
  by (simp add: format_ip4_def format_unsigned_eq ip4_text_def)

lemma format_hex_eq: "format_hex val n st = fold format_char (hex_text val n) st"
  by (induction n arbitrary: st) simp_all

lemma group_val_zero: "push_bit 16 (ucast b0) OR ucast b1 = (0 :: u32) \<longleftrightarrow> b0 = 0 \<and> b1 = (0 :: u8)" for b0 :: u8
proof
  assume z: "push_bit 16 (ucast b0) OR ucast b1 = (0 :: u32)"
  have "bit b0 n = False" "bit b1 n = False" if "n < 8" for n
    using that arg_cong [OF z, of "\<lambda>w. bit w (n + 16)"] arg_cong [OF z, of "\<lambda>w. bit w n"]
    by (auto simp: bit_simps)
  then show "b0 = 0 \<and> b1 = 0" by (auto intro!: bit_word_eqI)
qed auto

lemma format_group_eq:
  "(if push_bit 16 (ucast b0) OR ucast b1 = (0 :: u32) then st else format_hex (push_bit 16 (ucast b0) OR ucast b1) 4 st) =
   fold format_char (group_text b0 b1) st"
  by (simp add: format_hex_eq group_text_def group_val_zero)

lemma format_ip6_loop_eq:
  assumes "length ip = 2 * (8 - nn)" and "nn < 8"
  shows "format_ip6_loop nn ip st = Some (fold format_char ((if nn > 0 then [58] else []) @ groups_text ip) st)"
  using assms
proof (induction "8 - nn" arbitrary: nn ip st)
  case (Suc m)
  then obtain b0 b1 bs where ip: "ip = b0 # b1 # bs" by (cases ip; cases "tl ip") auto
  let ?st = "fold format_char (group_text b0 b1) (if nn > 0 then format_char 58 st else st)"
  have step: "format_ip6_loop nn ip st = format_ip6_loop (nn + 1) bs ?st"
    using Suc.prems(2) by (subst format_ip6_loop.simps) (simp add: ip Let_def format_group_eq)
  show ?case
  proof (cases "bs = []")
    case True
    with Suc.prems ip have "nn = 7" by simp
    with step True ip show ?thesis by (simp add: format_ip6_loop.simps)
  next
    case False
    with Suc.prems ip have "nn + 1 < 8" by (cases "nn = 7") auto
    with Suc.hyps(1) [of "nn + 1" bs ?st] Suc.hyps(2) Suc.prems step ip False show ?thesis by simp
  qed
qed simp

lemma hex_digits_nonzero: "hex_digits ! unat (w AND 15 :: u32) \<noteq> 0"
proof -
  have "w AND 15 = take_bit 4 w" by (simp add: take_bit_eq_mask mask_numeral)
  then have "unat (w AND 15) < 16" using take_bit_nat_less_exp [of 4 "unat w"] by (simp add: unsigned_take_bit_eq)
  moreover have "length hex_digits = 16" "0 \<notin> set hex_digits" by (simp_all add: hex_digits_def)
  ultimately show ?thesis by (metis nth_mem)
qed

lemma hex_text_nonzero [simp]: "0 \<notin> set (hex_text val n)"
  using hex_digits_nonzero by (induction n) fastforce+

lemma groups_text_nonzero [simp]: "0 \<notin> set (groups_text ip)"
  by (induction ip rule: groups_text.induct) (auto simp: group_text_def)

lemma to_string_chars:
  assumes "sock_address_to_string a buf0 = Some (Some (fst (fold format_char cs (buf0, 0))))"
    and "0 < length buf0" and "cs \<noteq> []" and "0 \<notin> set cs"
  shows "\<exists>b. sock_address_to_string a buf0 = Some (Some b) \<and> length b = length buf0 \<and>
    c_str b = take (length buf0 - 1) cs"
proof -
  have f: "fmt (length buf0) cs (fold format_char cs (buf0, 0))"
    using fmt_fold [OF fmt_start [OF assms(2)] assms(2), of cs] by simp
  with fmt_c_str [OF f assms(2-4)] assms(1) show ?thesis by (auto simp: fmt_def)
qed

lemma to_string_unix:
  assumes "0 \<notin> set path" and "0 < length buf0"
  shows "\<exists>b. sock_address_to_string (SA_unix w path) buf0 = Some (Some b) \<and> length b = length buf0 \<and>
    c_str b = take (length buf0 - 1) path"
proof (cases "length path < length buf0")
  case True
  then have "overwrite buf0 0 path = path @ drop (length path) buf0" by (simp add: overwrite_def)
  moreover from True have "(path @ drop (length path) buf0)[length path := 0] = path @ 0 # drop (Suc (length path)) buf0"
    by (simp add: list_update_append Cons_nth_drop_Suc [symmetric])
  ultimately show ?thesis using True c_str_terminated [OF assms(1)]
    by (simp add: sock_address_to_string_def format_str_def Let_def)
next
  case False
  define k where "k = length buf0 - 1"
  have k: "length buf0 = Suc k" using assms(2) by (simp add: k_def)
  have "overwrite buf0 0 (take (Suc k) path) = take (Suc k) path" using False k by (simp add: overwrite_def)
  moreover have "(take (Suc k) path)[k := 0] = take k path @ [0]"
    using False k by (simp add: take_Suc_conv_app_nth list_update_append)
  moreover have "c_str (take k path @ [0]) = take k path"
    using c_str_terminated [of "take k path" "[]"] assms(1) by (meson in_set_takeD)
  ultimately show ?thesis using False k by (simp add: sock_address_to_string_def format_str_def Let_def min_def)
qed

subsection \<open>The \<open>sockaddr\<close> layout\<close>

lemma get_be16_be16: "get_be16 (x # y # be16 v @ post) 2 = v"
proof (rule bit_word_eqI)
  fix n assume "n < LENGTH(16)"
  then show "bit (get_be16 (x # y # be16 v @ post) 2) n = bit v n"
    by (cases "n < 8") (auto simp: get_be16_def be16_def bit_simps)
qed

lemma get_be32_be32: "get_be32 (x # y # be16 p @ be32 v @ post) 4 = v"
proof (rule bit_word_eqI)
  fix n assume "n < LENGTH(32)"
  then consider "n < 8" | "8 \<le> n" "n < 16" | "16 \<le> n" "n < 24" | "24 \<le> n" "n < 32" by fastforce
  then show "bit (get_be32 (x # y # be16 p @ be32 v @ post) 4) n = bit v n"
    by cases (auto simp: get_be32_def be16_def be32_def bit_simps)
qed

lemma length_be [simp]: "length (be16 v) = 2" "length (be32 w) = 4"
  by (simp_all add: be16_def be32_def)

lemma from_to_bsd:
  assumes "sock_address_to_bsd a = Inr bs" and "addr_ok a"
  shows "sock_address_from_bsd bs = Some (case a of SA_unix _ _ \<Rightarrow> Inl EINVAL | _ \<Rightarrow> Inr a)"
proof (cases a)
  case (SA_inet port ip)
  then have "bs = 2 # 0 # be16 port @ be32 ip @ replicate 8 0" using assms(1) by simp
  then show ?thesis using SA_inet by (simp add: sock_address_from_bsd_def get_be16_be16 get_be32_be32)
next
  case (SA_in6 port ip)
  then have bs: "bs = 10 # 0 # be16 port @ (replicate 4 0 @ ip @ replicate 4 0)" using assms by simp
  have "take 16 (drop 8 bs) = ip" using SA_in6 assms(2) by (simp add: bs be16_def)
  moreover have "length bs = 28" using SA_in6 assms(2) by (simp add: bs)
  moreover have "take 2 bs = [10, 0]" by (simp add: bs)
  moreover have "get_be16 bs 2 = port" unfolding bs by (rule get_be16_be16)
  ultimately show ?thesis using SA_in6 by (simp add: sock_address_from_bsd_def)
next
  case (SA_unix w path)
  then have "bs = 1 # 0 # path @ [0]" "length path < 107" using assms(1) by (auto split: if_splits)
  then show ?thesis using SA_unix by (simp add: sock_address_from_bsd_def)
qed (use assms in simp)

subsection \<open>Resolution\<close>

lemma resolve_scan_4:
  "fst (resolve_scan False None r6 rs) = find (\<lambda>r. ai_family r = AF_INET) rs"
  "find (\<lambda>r. ai_family r = AF_INET) rs = None \<Longrightarrow>
    snd (resolve_scan False None r6 rs) = (case r6 of None \<Rightarrow> find (\<lambda>r. ai_family r = AF_INET6) rs | Some x \<Rightarrow> Some x)"
  by (induction rs arbitrary: r6) (auto split: option.splits if_splits)

lemma resolve_scan_6:
  "snd (resolve_scan True r4 None rs) = find (\<lambda>r. ai_family r = AF_INET6) rs"
  "find (\<lambda>r. ai_family r = AF_INET6) rs = None \<Longrightarrow>
    fst (resolve_scan True r4 None rs) = (case r4 of None \<Rightarrow> find (\<lambda>r. ai_family r = AF_INET) rs | Some x \<Rightarrow> Some x)"
  by (induction rs arbitrary: r4) (auto split: option.splits if_splits)

text \<open>The first result of the preferred family, or else the first one of the other family.\<close>

definition best_result :: "bool \<Rightarrow> addrinfo list \<Rightarrow> addrinfo option" where
  "best_result preferIn6 rs =
     (let four = find (\<lambda>r. ai_family r = AF_INET) rs; six = find (\<lambda>r. ai_family r = AF_INET6) rs
      in if preferIn6 then (case six of None \<Rightarrow> four | Some x \<Rightarrow> Some x)
         else (case four of None \<Rightarrow> six | Some x \<Rightarrow> Some x))"

lemma resolve_best:
  assumes "resolve_scan preferIn6 None None rs = (r4, r6)"
  shows "(if preferIn6 then (case r6 of None \<Rightarrow> r4 | Some x \<Rightarrow> Some x)
      else (case r4 of None \<Rightarrow> r6 | Some x \<Rightarrow> Some x)) = best_result preferIn6 rs"
  using resolve_scan_4 [where rs = rs and ?r6.0 = None] resolve_scan_6 [where rs = rs and ?r4.0 = None] assms
  by (cases preferIn6) (auto simp: best_result_def Let_def split: option.splits)

subsection \<open>Properties\<close>

text \<open>C32: The text of a socket address never leaves the 4096-byte buffer and is always terminated: it is
  the reference text (dotted decimal address, colon and decimal port for IPv4; the path for a
  Unix socket), cut to what fits. The digits fit into the 16-byte temporary.\<close>

theorem sock_address_string:
  assumes "addr_ok a" and "length buf0 = 4096"
  shows "\<exists>b. sock_address_to_string a buf0 = Some (Some b) \<and> length b = 4096 \<and> c_str b = take 4095 (addr_text a)"
proof -
  have n: "0 < length buf0" using assms(2) by simp
  have port: "unat (ucast (port :: u16) :: u32) = unat port" for port
    using unsigned_less [of port, where 'a = nat] by (simp add: unsigned_ucast_eq take_bit_nat_eq_self)
  show ?thesis
  proof (cases a)
    case (SA_inet port ip)
    have "sock_address_to_string a buf0 = Some (Some (fst (fold format_char (addr_text a) (buf0, 0))))"
      by (simp add: SA_inet sock_address_to_string_def format_ip4_eq format_unsigned_eq port)
    from to_string_chars [OF this n] assms(2) show ?thesis by (simp add: SA_inet ip4_text_def)
  next
    case (SA_in6 port ip)
    have "sock_address_to_string a buf0 = Some (Some (fst (fold format_char (addr_text a) (buf0, 0))))"
      using format_ip6_loop_eq [of ip 0] assms(1)
      by (simp add: SA_in6 sock_address_to_string_def format_ip6_def format_unsigned_eq port)
    from to_string_chars [OF this n] assms(2) show ?thesis by (simp add: SA_in6)
  next
    case (SA_unix w path)
    with to_string_unix [OF _ n, of path w] assms show ?thesis by simp
  qed (use assms in simp)
qed

theorem sock_address_string_witness:
  "\<exists>b. sock_address_to_string (SA_inet 80 0x7F000001) (replicate 4096 0) = Some (Some b) \<and> c_str b = bytes ''127.0.0.1:80''"
proof -
  have "addr_text (SA_inet 80 0x7F000001) = bytes ''127.0.0.1:80''" by code_simp
  then show ?thesis using sock_address_string [of "SA_inet 80 0x7F000001" "replicate 4096 0"] by (auto simp: bytes_def)
qed


text \<open>C31: Converting an address to the C library's layout and back gives the same address for IPv4 and
  IPv6. For a Unix address the conversion back always fails with EINVAL: it insists on a full
  \<open>sockaddr_un\<close>, while the conversion forth, like the kernel, counts only the used part of the path.\<close>

theorem sockaddr_round_trip:
  assumes "sock_address_to_bsd a = Inr bs" and "addr_ok a"
  shows "sock_address_from_bsd bs = Some (case a of SA_unix _ _ \<Rightarrow> Inl EINVAL | _ \<Rightarrow> Inr a)"
  using assms by (rule from_to_bsd)

theorem sockaddr_round_trip_witness:
  "\<exists>bs. sock_address_to_bsd (SA_inet 8080 0x7F000001) = Inr bs \<and> sock_address_from_bsd bs = Some (Inr (SA_inet 8080 0x7F000001))"
  using sockaddr_round_trip [of "SA_inet 8080 0x7F000001"] by simp

text \<open>C33: Resolving a host picks the first IPv4 result, or the first IPv6 one when IPv6 is preferred, falls
  back to the first result of the other family, sets the port, and reports ENOENT if there is
  neither.\<close>

theorem resolve_picks_best:
  assumes "getaddrinfo hostname \<lparr>hint_flags = 0, hint_family = (if preferIn6 then AF_INET6 else AF_UNSPEC), hint_socktype = 0\<rparr> = Inr rs"
    and "\<And>r. r \<in> set rs \<Longrightarrow> sock_address_from_bsd (ai_addr r) = Some (Inr (to_addr r))"
  shows "sock_address_init_resolve getaddrinfo hostname port preferIn6 =
    Some (case best_result preferIn6 rs of None \<Rightarrow> Inl ENOENT | Some r \<Rightarrow> Inr (sock_address_set_port port (to_addr r)))"
proof -
  obtain r4 r6 where s: "resolve_scan preferIn6 None None rs = (r4, r6)" by (cases "resolve_scan preferIn6 None None rs")
  have "r \<in> set rs" if "best_result preferIn6 rs = Some r" for r
    using that by (auto simp: best_result_def Let_def find_Some_iff split: if_splits option.splits)
  with assms(2) show ?thesis
    by (auto simp: sock_address_init_resolve_def assms(1) s resolve_best [OF s] split: option.splits)
qed

theorem resolve_picks_best_witness:
  "sock_address_init_resolve
     (\<lambda>_ _. Inr [\<lparr>ai_family = 10, ai_addr = [10, 0] @ replicate 25 0 @ [1]\<rparr>, \<lparr>ai_family = 2, ai_addr = [2, 0, 0, 0, 127, 0, 0, 1] @ replicate 8 0\<rparr>])
     (bytes ''localhost'') 5037 False = Some (Inr (SA_inet 5037 0x7F000001))"
  (is "sock_address_init_resolve ?g _ _ _ = _")
proof -
  have "sock_address_init_resolve ?g (bytes ''localhost'') 5037 False =
    Some (case best_result False (projr (?g (bytes ''localhost'') undefined)) of None \<Rightarrow> Inl ENOENT
          | Some r \<Rightarrow> Inr (sock_address_set_port 5037 (projr (the (sock_address_from_bsd (ai_addr r))))))"
    by (rule resolve_picks_best) (auto simp: sock_address_from_bsd_def)
  also have "\<dots> = Some (Inr (SA_inet 5037 0x7F000001))"
    by (simp add: best_result_def sock_address_from_bsd_def get_be16_def get_be32_def)
  finally show ?thesis .
qed

text \<open>A host and port string splits at its first colon: \<open>host:port\<close> gives both parts back (the host
  name cut to 511 bytes), a lone port gets the host name \<open>localhost\<close>, and an empty host or an
  empty port is refused.\<close>

theorem host_and_port_round_trip:
  assumes "58 \<notin> set host"
  shows "host_and_port_split (host @ 58 # port) = (if host = [] \<or> port = [] then None else Some (take 511 host, port)) \<and>
    host_and_port_split host = (if host = [] then None else Some (bytes ''localhost'', host))"
  using assms takeWhile_split [OF assms, of port]
  by (cases host) (simp_all add: host_and_port_split_def Let_def)

theorem host_and_port_round_trip_witness:
  "host_and_port_split (bytes ''example:80'') = Some (bytes ''example'', bytes ''80'')"
  using host_and_port_round_trip [of "bytes ''example''" "bytes ''80''"] by (simp add: bytes_def)

end
