(* ===== verification/IoHandler.thy ===== *)
theory IoHandler
  imports Prelude
begin

text \<open>
  The file-descriptor handlers of the main loop, \<open>host-qemu/iohandler.c\<close>: registration
  (\<open>qemu_set_fd_handler\<close>), the poll set (\<open>qemu_iohandler_fill\<close>) and the dispatch of ready
  descriptors (\<open>qemu_iohandler_poll\<close>). The \<open>QLIST\<close> of records is a list; a record is
  identified by its descriptor, since registration reuses the record of a descriptor
  (\<open>ioh_inv\<close> says they are distinct). A handler is called on the whole state and may
  register and remove handlers.
\<close>

subsection \<open>Data\<close>

abbreviation (input) G_IO_IN :: u32 where "G_IO_IN \<equiv> 1"
abbreviation (input) G_IO_OUT :: u32 where "G_IO_OUT \<equiv> 4"
abbreviation (input) G_IO_ERR :: u32 where "G_IO_ERR \<equiv> 8"
abbreviation (input) G_IO_HUP :: u32 where "G_IO_HUP \<equiv> 16"

record 'h IOHandlerRecord =
  ih_read :: "'h option"
  ih_write :: "'h option"
  ih_opaque :: addr
  ih_fd :: int
  ih_pollfds_idx :: int
  ih_deleted :: bool

record GPollFD =
  pfd_fd :: int
  pfd_events :: u32
  pfd_revents :: u32

subsection \<open>Registration\<close>

fun ioh_delete :: "int \<Rightarrow> 'h IOHandlerRecord list \<Rightarrow> 'h IOHandlerRecord list" where
  "ioh_delete fd [] = []"
| "ioh_delete fd (ioh # l) =
     (if ih_fd ioh = fd then ioh\<lparr>ih_deleted := True\<rparr> # l else ioh # ioh_delete fd l)"

fun ioh_found :: "'h IOHandlerRecord \<Rightarrow> 'h IOHandlerRecord list \<Rightarrow> 'h IOHandlerRecord list option" where
  "ioh_found new [] = None"
| "ioh_found new (ioh # l) =
     (if ih_fd ioh = ih_fd new then Some (new # l)
      else map_option (\<lambda>l'. ioh # l') (ioh_found new l))"

definition qemu_set_fd_handler ::
  "int \<Rightarrow> 'h option \<Rightarrow> 'h option \<Rightarrow> addr \<Rightarrow> 'h IOHandlerRecord list \<Rightarrow> 'h IOHandlerRecord list option" where
  "qemu_set_fd_handler fd fd_read fd_write opq l =
     (if fd < 0 then None
      else if fd_read = None \<and> fd_write = None then Some (ioh_delete fd l)
      else let new = \<lparr>ih_read = fd_read, ih_write = fd_write, ih_opaque = opq, ih_fd = fd,
                      ih_pollfds_idx = -1, ih_deleted = False\<rparr>
           in case ioh_found new l of Some l' \<Rightarrow> Some l' | None \<Rightarrow> Some (new # l))"

subsection \<open>The poll set\<close>

definition ioh_events :: "'h IOHandlerRecord \<Rightarrow> u32" where
  "ioh_events ioh =
     (if ih_read ioh \<noteq> None then G_IO_IN OR G_IO_HUP OR G_IO_ERR else 0) OR
     (if ih_write ioh \<noteq> None then G_IO_OUT OR G_IO_ERR else 0)"

fun qemu_iohandler_fill ::
  "'h IOHandlerRecord list \<Rightarrow> GPollFD list \<Rightarrow> 'h IOHandlerRecord list \<times> GPollFD list" where
  "qemu_iohandler_fill [] pollfds = ([], pollfds)"
| "qemu_iohandler_fill (ioh # l) pollfds =
     (if ih_deleted ioh
      then let (l', p') = qemu_iohandler_fill l pollfds in (ioh # l', p')
      else if ioh_events ioh \<noteq> 0
      then let (l', p') = qemu_iohandler_fill l
                 (pollfds @ [\<lparr>pfd_fd = ih_fd ioh, pfd_events = ioh_events ioh, pfd_revents = 0\<rparr>])
           in (ioh\<lparr>ih_pollfds_idx := int (length pollfds)\<rparr> # l', p')
      else let (l', p') = qemu_iohandler_fill l pollfds
           in (ioh\<lparr>ih_pollfds_idx := -1\<rparr> # l', p'))"

subsection \<open>Dispatch\<close>

text \<open>The record a pointer of the loop stands for, re-read after every call.\<close>

definition ioh_at :: "int \<Rightarrow> 'h IOHandlerRecord list \<Rightarrow> 'h IOHandlerRecord option" where
  "ioh_at fd l = find (\<lambda>ioh. ih_fd ioh = fd) l"

definition ioh_revents :: "GPollFD list \<Rightarrow> 'h IOHandlerRecord \<Rightarrow> u32 option" where
  "ioh_revents pollfds ioh =
     (if \<not> ih_deleted ioh \<and> ih_pollfds_idx ioh \<noteq> -1 then
        (if 0 \<le> ih_pollfds_idx ioh \<and> ih_pollfds_idx ioh < int (length pollfds)
         then Some (pfd_revents (pollfds ! nat (ih_pollfds_idx ioh))) else None)
      else Some 0)"

definition ioh_call ::
  "('h \<Rightarrow> addr \<Rightarrow> 'h IOHandlerRecord list \<times> 's \<Rightarrow> ('h IOHandlerRecord list \<times> 's) option) \<Rightarrow>
   ('h IOHandlerRecord \<Rightarrow> 'h option) \<Rightarrow> u32 \<Rightarrow> u32 \<Rightarrow> int \<Rightarrow>
   'h IOHandlerRecord list \<times> 's \<Rightarrow> ('h IOHandlerRecord list \<times> 's) option" where
  "ioh_call run sel evmask revents fd st =
     do { ioh \<leftarrow> ioh_at fd (fst st);
          case sel ioh of
            Some h \<Rightarrow> if \<not> ih_deleted ioh \<and> revents AND evmask \<noteq> 0
                      then run h (ih_opaque ioh) st else Some st
          | None \<Rightarrow> Some st }"

definition iohandler_poll_one where
  "iohandler_poll_one run pollfds fd st =
     do { ioh \<leftarrow> ioh_at fd (fst st);
          revents \<leftarrow> ioh_revents pollfds ioh;
          st1 \<leftarrow> ioh_call run ih_read (G_IO_IN OR G_IO_HUP OR G_IO_ERR) revents fd st;
          st2 \<leftarrow> ioh_call run ih_write (G_IO_OUT OR G_IO_ERR) revents fd st1;
          ioh2 \<leftarrow> ioh_at fd (fst st2);
          Some (if ih_deleted ioh2 then (filter (\<lambda>x. ih_fd x \<noteq> fd) (fst st2), snd st2) else st2) }"

fun iohandler_poll_loop where
  "iohandler_poll_loop run pollfds [] st = Some st"
| "iohandler_poll_loop run pollfds (fd # fds) st =
     do { st1 \<leftarrow> iohandler_poll_one run pollfds fd st; iohandler_poll_loop run pollfds fds st1 }"

text \<open>
  The loop is \<open>QLIST_FOREACH_SAFE\<close>: handlers only insert at the head and only mark records
  as deleted, so it visits the records that were linked when it started.
\<close>

definition qemu_iohandler_poll where
  "qemu_iohandler_poll run pollfds ret st =
     (if ret > (0 :: int) then iohandler_poll_loop run pollfds (map ih_fd (fst st)) st else Some st)"

subsection \<open>The handler map\<close>

definition ioh_inv :: "'h IOHandlerRecord list \<Rightarrow> bool" where
  "ioh_inv l \<longleftrightarrow> distinct (map ih_fd l) \<and> (\<forall>ioh \<in> set l. 0 \<le> ih_fd ioh)"

definition fd_handlers :: "'h IOHandlerRecord list \<Rightarrow> int \<rightharpoonup> 'h option \<times> 'h option \<times> addr" where
  "fd_handlers l fd =
     (case ioh_at fd l of
        None \<Rightarrow> None
      | Some ioh \<Rightarrow> if ih_deleted ioh then None else Some (ih_read ioh, ih_write ioh, ih_opaque ioh))"

lemma ioh_at_Nil [simp]: "ioh_at fd [] = None"
  by (simp add: ioh_at_def)

lemma ioh_at_Cons [simp]: "ioh_at fd (ioh # l) = (if ih_fd ioh = fd then Some ioh else ioh_at fd l)"
  by (simp add: ioh_at_def)

lemma ioh_at_None: "ioh_at fd l = None \<longleftrightarrow> fd \<notin> ih_fd ` set l"
  by (induction l) auto

lemma ioh_at_append: "fd \<notin> ih_fd ` set xs \<Longrightarrow> ioh_at fd (xs @ ys) = ioh_at fd ys"
  by (induction xs) auto

lemma ioh_delete_fds [simp]: "map ih_fd (ioh_delete fd l) = map ih_fd l"
  by (induction l) auto

lemma ioh_at_delete: "ioh_at g (ioh_delete fd l) =
    (if g = fd then map_option (\<lambda>ioh. ioh\<lparr>ih_deleted := True\<rparr>) (ioh_at g l) else ioh_at g l)"
  by (induction l) auto

lemma ioh_found_fds: "ioh_found new l = Some l' \<Longrightarrow> map ih_fd l' = map ih_fd l"
  by (induction l arbitrary: l') (auto split: if_splits)

lemma ioh_at_found:
  "ioh_found new l = Some l' \<Longrightarrow> ioh_at g l' = (if g = ih_fd new then Some new else ioh_at g l)"
  by (induction l arbitrary: l') (auto split: if_splits)

lemma ioh_found_None: "ioh_found new l = None \<longleftrightarrow> ih_fd new \<notin> ih_fd ` set l"
  by (induction l) auto

lemma ioh_inv_fds: "ioh_inv l \<longleftrightarrow> distinct (map ih_fd l) \<and> (\<forall>fd \<in> set (map ih_fd l). 0 \<le> fd)"
  by (simp add: ioh_inv_def)

lemma ioh_inv_grow:
  assumes "ioh_inv l" and "0 \<le> fd"
    and "map ih_fd l' = map ih_fd l \<or> (map ih_fd l' = fd # map ih_fd l \<and> fd \<notin> ih_fd ` set l)"
  shows "ioh_inv l'"
proof -
  have "distinct F' \<and> (\<forall>g \<in> set F'. 0 \<le> g)"
    if "distinct F" "\<forall>g \<in> set F. 0 \<le> g" "F' = F \<or> (F' = fd # F \<and> fd \<notin> set F)" for F F' :: "int list"
    using that assms(2) by auto
  from this [of "map ih_fd l" "map ih_fd l'"] assms show ?thesis unfolding ioh_inv_fds by simp
qed

lemma qemu_set_fd_handler_spec:
  assumes inv: "ioh_inv l" and "0 \<le> fd"
  shows "\<exists>l'. qemu_set_fd_handler fd r w opq l = Some l' \<and> ioh_inv l' \<and>
    fd_handlers l' = (fd_handlers l)(fd := if r = None \<and> w = None then None else Some (r, w, opq))"
proof (cases "r = None \<and> w = None")
  case True
  have "fd_handlers (ioh_delete fd l) = (fd_handlers l)(fd := None)"
    by (auto simp: fd_handlers_def ioh_at_delete fun_eq_iff split: option.splits)
  moreover have "ioh_inv (ioh_delete fd l)" using inv unfolding ioh_inv_fds ioh_delete_fds .
  ultimately show ?thesis using True assms(2) by (simp add: qemu_set_fd_handler_def)
next
  case False
  define new where "new = \<lparr>ih_read = r, ih_write = w, ih_opaque = opq, ih_fd = fd, ih_pollfds_idx = -1, ih_deleted = False\<rparr>"
  have "qemu_set_fd_handler fd r w opq l = (case ioh_found new l of Some l' \<Rightarrow> Some l' | None \<Rightarrow> Some (new # l))"
    using False assms(2) by (cases "ioh_found new l") (auto simp: qemu_set_fd_handler_def Let_def simp flip: new_def)
  then obtain l' where l': "qemu_set_fd_handler fd r w opq l = Some l'"
    and at: "\<And>g. ioh_at g l' = (if g = fd then Some new else ioh_at g l)"
    and fds: "map ih_fd l' = map ih_fd l \<or> (map ih_fd l' = fd # map ih_fd l \<and> fd \<notin> ih_fd ` set l)"
  proof (cases "ioh_found new l")
    case None
    then have "fd \<notin> ih_fd ` set l" by (simp add: ioh_found_None new_def)
    then show ?thesis
      using None that [of "new # l"] \<open>qemu_set_fd_handler fd r w opq l = _\<close> by (simp add: new_def)
  next
    case (Some l1)
    then show ?thesis
      using that [of l1] \<open>qemu_set_fd_handler fd r w opq l = _\<close> ioh_at_found [OF Some] ioh_found_fds [OF Some]
      by (simp add: new_def)
  qed
  have "fd_handlers l' = (fd_handlers l)(fd := Some (r, w, opq))"
    by (auto simp: fd_handlers_def at new_def fun_eq_iff)
  moreover have "ioh_inv l'" by (rule ioh_inv_grow [OF inv assms(2) fds])
  ultimately show ?thesis using l' False by auto
qed

subsection \<open>Fill and dispatch\<close>

text \<open>What one record does when its descriptor has the events \<open>ev\<close>: the read handler, then the write handler.\<close>

definition ioh_dispatch :: "('h \<Rightarrow> addr \<Rightarrow> 's \<Rightarrow> 's) \<Rightarrow> u32 \<Rightarrow> 'h IOHandlerRecord \<Rightarrow> 's \<Rightarrow> 's" where
  "ioh_dispatch f ev ioh s =
     (if ih_deleted ioh then s
      else let s1 = (case ih_read ioh of
                       Some h \<Rightarrow> if ev AND (G_IO_IN OR G_IO_HUP OR G_IO_ERR) \<noteq> 0 then f h (ih_opaque ioh) s else s
                     | None \<Rightarrow> s)
           in case ih_write ioh of
                Some h \<Rightarrow> if ev AND (G_IO_OUT OR G_IO_ERR) \<noteq> 0 then f h (ih_opaque ioh) s1 else s1
              | None \<Rightarrow> s1)"

lemma poll_one_frame:
  assumes run: "\<And>h d s. run h d (l, s) = Some (l, f h d s)" and at: "ioh_at fd l = Some ioh"
    and ev: "ioh_revents p ioh = Some ev"
  shows "iohandler_poll_one run p fd (l, s) =
    Some (if ih_deleted ioh then filter (\<lambda>x. ih_fd x \<noteq> fd) l else l, ioh_dispatch f ev ioh s)"
  using at ev
  by (cases "ih_read ioh"; cases "ih_write ioh") (auto simp: iohandler_poll_one_def ioh_call_def run ioh_dispatch_def)

lemma filter_other_fds:
  assumes "distinct (map ih_fd (xs @ ioh # ys))"
  shows "filter (\<lambda>x. ih_fd x \<noteq> ih_fd ioh) (xs @ ioh # ys) = xs @ ys"
proof -
  have "filter (\<lambda>x. ih_fd x \<noteq> ih_fd ioh) xs = xs" "filter (\<lambda>x. ih_fd x \<noteq> ih_fd ioh) ys = ys"
    using assms by (auto simp: filter_id_conv image_iff)
  then show ?thesis by simp
qed

lemma poll_loop_frame:
  assumes run: "\<And>l h d s. run h d (l, s) = Some (l, f h d s)"
    and "distinct (map ih_fd (pre @ todo))"
    and "\<And>ioh. ioh \<in> set todo \<Longrightarrow> ioh_revents p ioh = Some (ev ioh)"
  shows "iohandler_poll_loop run p (map ih_fd todo) (pre @ todo, s) =
    Some (pre @ filter (\<lambda>x. \<not> ih_deleted x) todo, fold (\<lambda>x. ioh_dispatch f (ev x) x) todo s)"
  using assms(2,3)
proof (induction todo arbitrary: pre s)
  case Nil
  then show ?case by simp
next
  case (Cons ioh todo)
  have at: "ioh_at (ih_fd ioh) (pre @ ioh # todo) = Some ioh"
    using Cons.prems(1) ioh_at_append [of "ih_fd ioh" pre "ioh # todo"] by auto
  have one: "iohandler_poll_one run p (ih_fd ioh) (pre @ ioh # todo, s) =
    Some (if ih_deleted ioh then pre @ todo else pre @ ioh # todo, ioh_dispatch f (ev ioh) ioh s)"
    using poll_one_frame [where run = run and f = f, OF run at Cons.prems(2)] filter_other_fds [OF Cons.prems(1)] by simp
  show ?case
  proof (cases "ih_deleted ioh")
    case True
    with one Cons.IH [of pre] Cons.prems show ?thesis by simp
  next
    case False
    with one Cons.IH [of "pre @ [ioh]"] Cons.prems show ?thesis by simp
  qed
qed

lemma fill_spec:
  assumes "qemu_iohandler_fill l p = (l', p')"
  shows "map (\<lambda>x. x\<lparr>ih_pollfds_idx := 0\<rparr>) l' = map (\<lambda>x. x\<lparr>ih_pollfds_idx := 0\<rparr>) l \<and> (\<exists>q. p' = p @ q) \<and>
    (\<forall>x \<in> set l'. \<not> ih_deleted x \<longrightarrow>
      (if ioh_events x = 0 then ih_pollfds_idx x = -1
       else \<exists>i. ih_pollfds_idx x = int i \<and> i < length p' \<and>
         p' ! i = \<lparr>pfd_fd = ih_fd x, pfd_events = ioh_events x, pfd_revents = 0\<rparr>))"
  using assms
proof (induction l p arbitrary: l' p' rule: qemu_iohandler_fill.induct)
  case (2 ioh l p)
  have ev: "ioh_events (ioh\<lparr>ih_pollfds_idx := k\<rparr>) = ioh_events ioh" for k by (simp add: ioh_events_def)
  let ?e = "\<lparr>pfd_fd = ih_fd ioh, pfd_events = ioh_events ioh, pfd_revents = 0\<rparr>"
  consider "ih_deleted ioh" | "\<not> ih_deleted ioh" "ioh_events ioh = 0" | "\<not> ih_deleted ioh" "ioh_events ioh \<noteq> 0"
    by blast
  then show ?case
  proof cases
    case 1
    obtain m where "l' = ioh # m" "qemu_iohandler_fill l p = (m, p')"
      using "2.prems" 1 by (auto split: prod.splits)
    with "2.IH"(1) [OF 1] 1 show ?thesis by auto
  next
    case 2
    obtain m where "l' = ioh\<lparr>ih_pollfds_idx := -1\<rparr> # m" "qemu_iohandler_fill l p = (m, p')"
      using "2.prems" 2 by (auto split: prod.splits)
    with "2.IH"(3) [of m p'] 2 show ?thesis by (auto simp: ev)
  next
    case 3
    obtain m where m: "l' = ioh\<lparr>ih_pollfds_idx := int (length p)\<rparr> # m" "qemu_iohandler_fill l (p @ [?e]) = (m, p')"
      using "2.prems" 3 by (auto split: prod.splits)
    note IH = "2.IH"(2) [OF 3 m(2)]
    from IH obtain q where q: "p' = p @ ?e # q" by auto
    then have "p' ! length p = ?e" "length p < length p'" by simp_all
    moreover have "\<exists>q'. p' = p @ q'" using q by simp
    ultimately show ?thesis unfolding m(1) using IH 3 by (simp add: ev)
  qed
qed auto

lemma fill_fds:
  assumes "qemu_iohandler_fill l p = (l', p')"
  shows "map ih_fd l' = map ih_fd l"
proof -
  from fill_spec [OF assms]
  have "map ih_fd (map (\<lambda>x. x\<lparr>ih_pollfds_idx := 0\<rparr>) l') = map ih_fd (map (\<lambda>x. x\<lparr>ih_pollfds_idx := 0\<rparr>) l)"
    by simp
  then show ?thesis by (simp add: comp_def)
qed

lemma no_events: "ioh_events x = 0 \<Longrightarrow> ih_read x = None \<and> ih_write x = None"
  by (cases "ih_read x"; cases "ih_write x") (simp_all add: ioh_events_def)

text \<open>
  What the kernel does to the poll set: \<open>ready fd\<close> are the events of descriptor \<open>fd\<close>. A record
  that is polled finds the events of its own descriptor, any other record none.
\<close>

definition kernel_poll :: "(int \<Rightarrow> u32) \<Rightarrow> GPollFD list \<Rightarrow> GPollFD list" where
  "kernel_poll ready p = map (\<lambda>e. e\<lparr>pfd_revents := ready (pfd_fd e)\<rparr>) p"

lemma fill_revents:
  assumes "qemu_iohandler_fill l p = (l', p')" and "x \<in> set l'"
  shows "ioh_revents (kernel_poll ready p') x =
    Some (if ih_deleted x \<or> ioh_events x = 0 then 0 else ready (ih_fd x))"
proof (cases "ih_deleted x \<or> ioh_events x = 0")
  case True
  with fill_spec [OF assms(1)] assms(2) show ?thesis by (auto simp: ioh_revents_def)
next
  case False
  with fill_spec [OF assms(1)] assms(2) obtain i where "ih_pollfds_idx x = int i" "i < length p'"
    "p' ! i = \<lparr>pfd_fd = ih_fd x, pfd_events = ioh_events x, pfd_revents = 0\<rparr>" by fastforce
  with False show ?thesis by (simp add: ioh_revents_def kernel_poll_def)
qed

lemma dispatch_no_events: "ih_deleted x \<or> ioh_events x = 0 \<Longrightarrow> ioh_dispatch f ev x s = s"
  using no_events [of x] by (auto simp: ioh_dispatch_def)

lemma fill_then_poll:
  assumes run: "\<And>l h d s. run h d (l, s) = Some (l, f h d s)" and "ioh_inv l"
    and fill: "qemu_iohandler_fill l p = (l', p')" and "0 < ret"
  shows "qemu_iohandler_poll run (kernel_poll ready p') ret (l', s) =
    Some (filter (\<lambda>x. \<not> ih_deleted x) l', fold (\<lambda>x. ioh_dispatch f (ready (ih_fd x)) x) l' s)"
proof -
  let ?ev = "\<lambda>x. if ih_deleted x \<or> ioh_events x = 0 then 0 else ready (ih_fd x)"
  have "distinct (map ih_fd ([] @ l'))" using fill_fds [OF fill] assms(2) by (simp add: ioh_inv_def)
  then have "iohandler_poll_loop run (kernel_poll ready p') (map ih_fd l') ([] @ l', s) =
      Some ([] @ filter (\<lambda>x. \<not> ih_deleted x) l', fold (\<lambda>x. ioh_dispatch f (?ev x) x) l' s)"
    by (rule poll_loop_frame [where run = run and f = f, OF run]) (rule fill_revents [OF fill])
  moreover have "ioh_dispatch f (?ev x) x = ioh_dispatch f (ready (ih_fd x)) x" for x
    using dispatch_no_events [of x f] by (auto simp: fun_eq_iff)
  ultimately show ?thesis using assms(4) by (simp add: qemu_iohandler_poll_def)
qed

subsection \<open>Properties\<close>

text \<open>C17: Registering handlers for a valid descriptor never fails, keeps one record per descriptor, and
  sets exactly the entry of that descriptor in the handler map; registering no handler at all
  removes the entry, even though the record itself is only marked.\<close>

theorem set_fd_handler_refines:
  assumes "ioh_inv l" and "0 \<le> fd"
  shows "\<exists>l'. qemu_set_fd_handler fd r w opq l = Some l' \<and> ioh_inv l' \<and>
    fd_handlers l' = (fd_handlers l)(fd := if r = None \<and> w = None then None else Some (r, w, opq))"
  using assms by (rule qemu_set_fd_handler_spec)

theorem set_fd_handler_refines_witness:
  "\<exists>l'. qemu_set_fd_handler 5 (Some ''rd'') None 9 [] = Some l' \<and> fd_handlers l' = [5 \<mapsto> (Some ''rd'', None, 9)]"
proof -
  have "fd_handlers ([] :: string IOHandlerRecord list) = Map.empty" by (simp add: fd_handlers_def fun_eq_iff)
  with set_fd_handler_refines [of "[]" 5 "Some ''rd''" None 9] show ?thesis by (auto simp: ioh_inv_def)
qed



end
