(* ===== verification/BottomHalf.thy ===== *)
theory BottomHalf
  imports LinkedList
begin

text \<open>
  Bottom halves of an event loop context, \<open>host-qemu/async.c\<close>: the list of \<open>QEMUBH\<close> objects
  (an intrusive list in a store), scheduling and notification, one round of execution
  (\<open>aio_bh_poll\<close>) with the removal of deleted objects, and the poll timeout. A callback is
  called on the context and a state \<open>'s\<close> of its owner, so it may schedule, create and delete
  bottom halves. Locks and memory barriers only order accesses and have no effect here.
\<close>

subsection \<open>Data\<close>

record 'c QEMUBH =
  bh_cb :: 'c
  bh_opaque :: addr
  bh_next :: addr
  bh_scheduled :: bool
  bh_idle :: bool
  bh_deleted :: bool

record 'c AioContext =
  ac_notify_me :: u32
  ac_first_bh :: addr
  ac_walking_bh :: int
  ac_notified :: bool
  ac_notifier :: bool
  ac_notify_dummy_bh :: addr
  ac_bhs :: "addr \<rightharpoonup> 'c QEMUBH"

subsection \<open>Operations\<close>

definition aio_bh_new :: "'c \<Rightarrow> addr \<Rightarrow> addr \<Rightarrow> 'c AioContext \<Rightarrow> 'c AioContext" where
  "aio_bh_new cb opq bh ctx =
     ctx\<lparr>ac_bhs := (ac_bhs ctx)(bh \<mapsto> \<lparr>bh_cb = cb, bh_opaque = opq, bh_next = ac_first_bh ctx,
                      bh_scheduled = False, bh_idle = False, bh_deleted = False\<rparr>),
         ac_first_bh := bh\<rparr>"

definition aio_notify :: "'c AioContext \<Rightarrow> 'c AioContext" where
  "aio_notify ctx = (if ac_notify_me ctx \<noteq> 0 then ctx\<lparr>ac_notifier := True, ac_notified := True\<rparr> else ctx)"

definition aio_notify_accept :: "'c AioContext \<Rightarrow> 'c AioContext" where
  "aio_notify_accept ctx =
     (if ac_notified ctx then ctx\<lparr>ac_notified := False, ac_notifier := False\<rparr> else ctx)"

definition bh_upd :: "addr \<Rightarrow> ('c QEMUBH \<Rightarrow> 'c QEMUBH) \<Rightarrow> 'c AioContext \<Rightarrow> 'c AioContext option" where
  "bh_upd bh f ctx =
     do { b \<leftarrow> ac_bhs ctx bh; Some (ctx\<lparr>ac_bhs := (ac_bhs ctx)(bh \<mapsto> f b)\<rparr>) }"

definition qemu_bh_schedule_idle :: "addr \<Rightarrow> 'c AioContext \<Rightarrow> 'c AioContext option" where
  "qemu_bh_schedule_idle bh ctx = bh_upd bh (\<lambda>b. b\<lparr>bh_idle := True, bh_scheduled := True\<rparr>) ctx"

definition qemu_bh_schedule :: "addr \<Rightarrow> 'c AioContext \<Rightarrow> 'c AioContext option" where
  "qemu_bh_schedule bh ctx =
     do { b \<leftarrow> ac_bhs ctx bh;
          ctx1 \<leftarrow> bh_upd bh (\<lambda>b. b\<lparr>bh_idle := False, bh_scheduled := True\<rparr>) ctx;
          Some (if bh_scheduled b then ctx1 else aio_notify ctx1) }"

definition qemu_bh_cancel :: "addr \<Rightarrow> 'c AioContext \<Rightarrow> 'c AioContext option" where
  "qemu_bh_cancel bh ctx = bh_upd bh (\<lambda>b. b\<lparr>bh_scheduled := False\<rparr>) ctx"

definition qemu_bh_delete :: "addr \<Rightarrow> 'c AioContext \<Rightarrow> 'c AioContext option" where
  "qemu_bh_delete bh ctx = bh_upd bh (\<lambda>b. b\<lparr>bh_scheduled := False, bh_deleted := True\<rparr>) ctx"

text \<open>The first loop of \<open>aio_bh_poll\<close>: \<open>next\<close> is read before the callback runs.\<close>

partial_function (option) bh_walk where
  "bh_walk run bh ret st =
     (if bh = NULL then Some (ret, st)
      else do {
        b \<leftarrow> ac_bhs (fst st) bh;
        if \<not> bh_deleted b \<and> bh_scheduled b then do {
          ctx1 \<leftarrow> bh_upd bh (\<lambda>b. b\<lparr>bh_scheduled := False, bh_idle := False\<rparr>) (fst st);
          st1 \<leftarrow> run (bh_cb b) (bh_opaque b) (ctx1, snd st);
          bh_walk run (bh_next b)
            (if \<not> bh_idle b \<and> bh \<noteq> ac_notify_dummy_bh (fst st) then True else ret) st1 }
        else bh_walk run (bh_next b) ret st })"

definition set_bh_next :: "addr \<Rightarrow> 'c QEMUBH \<Rightarrow> 'c QEMUBH" where
  "set_bh_next v b = b\<lparr>bh_next := v\<rparr>"

text \<open>The second loop: unlink and free what is marked as deleted.\<close>

partial_function (option) bh_sweep ::
  "slot \<Rightarrow> (addr \<rightharpoonup> 'c QEMUBH) \<Rightarrow> addr \<Rightarrow> ((addr \<rightharpoonup> 'c QEMUBH) \<times> addr) option" where
  "bh_sweep bhp h hp =
     do { bh \<leftarrow> slot_read bh_next h hp bhp;
          if bh = NULL then Some (h, hp)
          else do {
            b \<leftarrow> h bh;
            if bh_deleted b then do {
              (h1, hp1) \<leftarrow> slot_write set_bh_next bhp (bh_next b) h hp;
              bh_sweep bhp (h1(bh := None)) hp1 }
            else bh_sweep (SNext bh) h hp } }"

definition aio_bh_poll where
  "aio_bh_poll run st =
     do { let ctx = (fst st)\<lparr>ac_walking_bh := ac_walking_bh (fst st) + 1\<rparr>;
          (ret, st1) \<leftarrow> bh_walk run (ac_first_bh ctx) False (ctx, snd st);
          let ctx1 = (fst st1)\<lparr>ac_walking_bh := ac_walking_bh (fst st1) - 1\<rparr>;
          if ac_walking_bh ctx1 = 0 then do {
            (h, hp) \<leftarrow> bh_sweep SHead (ac_bhs ctx1) (ac_first_bh ctx1);
            Some (ret, ctx1\<lparr>ac_bhs := h, ac_first_bh := hp\<rparr>, snd st1) }
          else Some (ret, ctx1, snd st1) }"

text \<open>The timeout: \<open>-1\<close> is infinite; the deadline of the timer lists is an argument.\<close>

partial_function (option) bh_timeout ::
  "(addr \<rightharpoonup> 'c QEMUBH) \<Rightarrow> addr \<Rightarrow> int \<Rightarrow> int option" where
  "bh_timeout h bh timeout =
     (if bh = NULL then Some timeout
      else do { b \<leftarrow> h bh;
                if \<not> bh_deleted b \<and> bh_scheduled b
                then if bh_idle b then bh_timeout h (bh_next b) 10000000 else Some 0
                else bh_timeout h (bh_next b) timeout })"

definition qemu_soonest_timeout :: "int \<Rightarrow> int \<Rightarrow> int" where
  "qemu_soonest_timeout timeout1 timeout2 =
     (if uint (word_of_int timeout1 :: u64) < uint (word_of_int timeout2 :: u64) then timeout1 else timeout2)"

definition aio_compute_timeout :: "int \<Rightarrow> 'c AioContext \<Rightarrow> int option" where
  "aio_compute_timeout deadline ctx =
     do { timeout \<leftarrow> bh_timeout (ac_bhs ctx) (ac_first_bh ctx) (-1);
          Some (if timeout = 0 \<or> deadline = 0 then 0 else qemu_soonest_timeout timeout deadline) }"

declare bh_walk.simps [code] bh_sweep.simps [code] bh_timeout.simps [code]

subsection \<open>The list of bottom halves\<close>

interpretation bhl: intrusive_list bh_next set_bh_next
  by unfold_locales (simp add: set_bh_next_def)

definition bh_list :: "'c AioContext \<Rightarrow> addr list \<Rightarrow> bool" where
  "bh_list ctx xs \<longleftrightarrow> is_list bh_next (ac_bhs ctx) (ac_first_bh ctx) xs"

text \<open>The objects without their links, and what is marked as deleted among them.\<close>

definition bh_data :: "(addr \<rightharpoonup> 'c QEMUBH) \<Rightarrow> addr \<rightharpoonup> 'c QEMUBH" where
  "bh_data h a = map_option (set_bh_next NULL) (h a)"

definition bh_dead :: "(addr \<rightharpoonup> 'c QEMUBH) \<Rightarrow> addr \<Rightarrow> bool" where
  "bh_dead h a \<longleftrightarrow> (case h a of None \<Rightarrow> False | Some b \<Rightarrow> bh_deleted b)"

definition bh_live :: "(addr \<rightharpoonup> 'c QEMUBH) \<Rightarrow> addr \<Rightarrow> bool" where
  "bh_live h a \<longleftrightarrow> \<not> bh_dead h a"

lemma set_bh_next_eqD: "set_bh_next v b = set_bh_next v b' \<Longrightarrow> bh_deleted b = bh_deleted b'"
  by (cases b; cases b') (simp add: set_bh_next_def)

lemma bh_dead_data: "bh_data h a = bh_data h' a \<Longrightarrow> bh_dead h a = bh_dead h' a"
  by (cases "h a"; cases "h' a") (auto simp: bh_data_def bh_dead_def dest: set_bh_next_eqD)

lemma bh_list_new:
  "bh_list ctx xs \<Longrightarrow> bh \<noteq> NULL \<Longrightarrow> bh \<notin> set xs \<Longrightarrow> bh_list (aio_bh_new cb opq bh ctx) (bh # xs)"
  by (simp add: bh_list_def aio_bh_new_def is_list_upd_notin)

lemma bh_list_upd:
  assumes "bh_list ctx xs" and "bh_upd bh f ctx = Some ctx'" and "\<And>b. bh_next (f b) = bh_next b"
  shows "bh_list ctx' xs"
  using assms by (auto simp: bh_list_def bh_upd_def bind_eq_Some_conv intro!: is_list_upd_same)

lemma bh_list_schedule: "bh_list ctx xs \<Longrightarrow> qemu_bh_schedule bh ctx = Some ctx' \<Longrightarrow> bh_list ctx' xs"
  by (auto simp: bh_list_def qemu_bh_schedule_def bh_upd_def aio_notify_def bind_eq_Some_conv
      intro!: is_list_upd_same split: if_splits)

lemma sweep_unlink:
  assumes l: "is_list bh_next h hp (pre @ x # xs)" and b: "h x = Some b"
    and w: "slot_write set_bh_next (end_slot SHead pre) (bh_next b) h hp = Some (h1, hp1)"
  shows "is_list bh_next (h1(x := None)) hp1 (pre @ xs)"
    and "bh_data (h1(x := None)) = (bh_data h)(x := None)"
proof -
  have "x \<notin> set (pre @ xs)" using is_list_distinct [OF l] by simp
  with bhl.unlink [OF l b w] show "is_list bh_next (h1(x := None)) hp1 (pre @ xs)"
    by (simp add: is_list_upd_notin)
  have "map_option (set_bh_next NULL) (h1 a) = map_option (set_bh_next NULL) (h a)" for a
    by (rule slot_write_frame [OF w]) (simp add: set_bh_next_def)
  then show "bh_data (h1(x := None)) = (bh_data h)(x := None)" by (auto simp: bh_data_def)
qed

lemma bh_sweep_spec:
  assumes "is_list bh_next h hp (pre @ xs)"
  shows "\<exists>h' hp'. bh_sweep (end_slot SHead pre) h hp = Some (h', hp') \<and>
    is_list bh_next h' hp' (pre @ filter (bh_live h) xs) \<and>
    bh_data h' = (\<lambda>a. if a \<in> set xs \<and> bh_dead h a then None else bh_data h a)"
  using assms
proof (induction xs arbitrary: pre h hp)
  case Nil
  then have "slot_read bh_next h hp (end_slot SHead pre) = Some NULL" using slot_read_absent by simp
  with Nil show ?case by (subst bh_sweep.simps) (auto simp: fun_eq_iff)
next
  case (Cons x xs)
  have rd: "slot_read bh_next h hp (end_slot SHead pre) = Some x" by (rule slot_read_present [OF Cons.prems])
  have x: "x \<noteq> NULL" "x \<notin> set xs" using is_list_nonnull [OF Cons.prems, of x] is_list_distinct [OF Cons.prems] by auto
  obtain b where b: "h x = Some b" using is_list_live [OF Cons.prems, of x] by auto
  show ?case
  proof (cases "bh_deleted b")
    case True
    obtain h1 hp1 where w: "slot_write set_bh_next (end_slot SHead pre) (bh_next b) h hp = Some (h1, hp1)"
      using slot_write_end_defined [OF Cons.prems] by blast
    let ?h = "h1(x := None)"
    note u = sweep_unlink [OF Cons.prems b w]
    obtain h' hp' where s: "bh_sweep (end_slot SHead pre) ?h hp1 = Some (h', hp')"
      "is_list bh_next h' hp' (pre @ filter (bh_live ?h) xs)"
      "bh_data h' = (\<lambda>a. if a \<in> set xs \<and> bh_dead ?h a then None else bh_data ?h a)"
      using Cons.IH [OF u(1)] by blast
    have "bh_dead ?h a = bh_dead h a" if "a \<noteq> x" for a
      using u(2) that by (intro bh_dead_data) (simp add: fun_eq_iff)
    then have eq: "bh_live ?h a = bh_live h a" "bh_dead ?h a = bh_dead h a" if "a \<in> set xs" for a
      using that x(2) unfolding bh_live_def by metis+
    have dead: "bh_dead h x" using True b by (simp add: bh_dead_def)
    then have "filter (bh_live ?h) xs = filter (bh_live h) (x # xs)"
      using eq(1) by (auto simp: bh_live_def [of h x] cong: filter_cong)
    moreover have "bh_data h' = (\<lambda>a. if a \<in> set (x # xs) \<and> bh_dead h a then None else bh_data h a)"
      using u(2) x(2) s(3) eq(2) dead by (auto simp: fun_eq_iff)
    moreover have "bh_sweep (end_slot SHead pre) h hp = Some (h', hp')"
      using s(1) rd x(1) b True w by (subst bh_sweep.simps) simp
    ultimately show ?thesis using s(2) by auto
  next
    case False
    have "bh_sweep (end_slot SHead pre) h hp = bh_sweep (end_slot SHead (pre @ [x])) h hp"
      using rd x(1) b False by (subst bh_sweep.simps) simp
    moreover have live: "\<not> bh_dead h x" using False b by (simp add: bh_dead_def)
    moreover from live have "(\<lambda>a. if a \<in> set (x # xs) \<and> bh_dead h a then None else bh_data h a) =
        (\<lambda>a. if a \<in> set xs \<and> bh_dead h a then None else bh_data h a)" by auto
    ultimately show ?thesis using Cons.IH [of h hp "pre @ [x]"] Cons.prems
      by (simp add: bh_live_def)
  qed
qed

subsection \<open>Callbacks\<close>

text \<open>
  What \<open>aio_bh_poll\<close> needs of its callbacks: they return, they put new bottom halves in front
  of the list and otherwise keep it (they may set the flags of any bottom half), and they
  leave the nesting count alone.
\<close>

locale bh_client =
  fixes run :: "'c \<Rightarrow> addr \<Rightarrow> 'c AioContext \<times> 's \<Rightarrow> ('c AioContext \<times> 's) option"
    and ok :: "'c AioContext \<Rightarrow> 's \<Rightarrow> bool"
  assumes run_ok: "bh_list ctx xs \<Longrightarrow> ok ctx s \<Longrightarrow> \<exists>ctx' s' new. run cb opq (ctx, s) = Some (ctx', s') \<and>
      bh_list ctx' (new @ xs) \<and> ac_walking_bh ctx' = ac_walking_bh ctx \<and> ok ctx' s'"
    and ok_flags: "ok ctx s \<Longrightarrow> ac_bhs ctx bh = Some b \<Longrightarrow>
      ok (ctx\<lparr>ac_bhs := (ac_bhs ctx)(bh \<mapsto> b\<lparr>bh_scheduled := False, bh_idle := False\<rparr>)\<rparr>) s"
    and ok_walking: "ok ctx s \<Longrightarrow> ok (ctx\<lparr>ac_walking_bh := n\<rparr>) s"
begin

lemma bh_walk_ok:
  assumes "bh_list ctx (pre @ xs)" and "is_list bh_next (ac_bhs ctx) bh xs" and "ok ctx s"
  shows "\<exists>ret' ctx' s' new. bh_walk run bh ret (ctx, s) = Some (ret', ctx', s') \<and>
    bh_list ctx' (new @ pre @ xs) \<and> ac_walking_bh ctx' = ac_walking_bh ctx \<and> ok ctx' s'"
  using assms
proof (induction xs arbitrary: pre bh ctx s ret)
  case Nil
  then show ?case by (subst bh_walk.simps) (auto intro: exI [of _ "[]"])
next
  case (Cons x xs)
  then obtain b where b: "bh = x" "x \<noteq> NULL" "ac_bhs ctx x = Some b" "is_list bh_next (ac_bhs ctx) (bh_next b) xs"
    by auto
  show ?case
  proof (cases "\<not> bh_deleted b \<and> bh_scheduled b")
    case False
    with b have "bh_walk run bh ret (ctx, s) = bh_walk run (bh_next b) ret (ctx, s)"
      by (subst bh_walk.simps) auto
    with Cons.IH [of ctx "pre @ [x]" "bh_next b" s] Cons.prems b(4) show ?thesis by simp
  next
    case True
    let ?c = "ctx\<lparr>ac_bhs := (ac_bhs ctx)(x \<mapsto> b\<lparr>bh_scheduled := False, bh_idle := False\<rparr>)\<rparr>"
    have l1: "bh_list ?c (pre @ x # xs)" using Cons.prems(1) b(3) by (simp add: bh_list_def is_list_upd_same)
    obtain c2 s2 new where r: "run (bh_cb b) (bh_opaque b) (?c, s) = Some (c2, s2)"
      "bh_list c2 (new @ pre @ x # xs)" "ac_walking_bh c2 = ac_walking_bh ctx" "ok c2 s2"
      using run_ok [OF l1 ok_flags [OF Cons.prems(3) b(3)], of "bh_cb b" "bh_opaque b"] by auto
    obtain q where "is_list bh_next (ac_bhs c2) q xs"
      using is_list_suffix [of bh_next "ac_bhs c2" "ac_first_bh c2" "new @ pre @ [x]" xs] r(2)
      by (auto simp: bh_list_def)
    with is_list_start [OF b(4) this] have nx: "is_list bh_next (ac_bhs c2) (bh_next b) xs" by simp
    let ?r = "if \<not> bh_idle b \<and> x \<noteq> ac_notify_dummy_bh ctx then True else ret"
    obtain ret' c3 s3 new' where w: "bh_walk run (bh_next b) ?r (c2, s2) = Some (ret', c3, s3)"
      "bh_list c3 (new' @ (new @ pre @ [x]) @ xs)" "ac_walking_bh c3 = ac_walking_bh c2" "ok c3 s3"
      using Cons.IH [of c2 "new @ pre @ [x]" "bh_next b" s2 ?r] r(2,4) nx by auto
    have "bh_walk run bh ret (ctx, s) = Some (ret', c3, s3)"
      using b True r(1) w(1) by (subst bh_walk.simps) (simp add: bh_upd_def)
    with w(2-4) r(3) show ?thesis by (intro exI [of _ ret'] exI [of _ c3] exI [of _ s3] exI [of _ "new' @ new"]) simp
  qed
qed

lemma aio_bh_poll_ok:
  assumes l: "bh_list ctx xs" and "ac_walking_bh ctx = 0" and ok: "ok ctx s"
  shows "\<exists>ret ctx' s' ys. aio_bh_poll run (ctx, s) = Some (ret, ctx', s') \<and> bh_list ctx' ys \<and>
    ac_walking_bh ctx' = 0 \<and> (\<forall>a \<in> set ys. bh_live (ac_bhs ctx') a)"
proof -
  let ?c = "ctx\<lparr>ac_walking_bh := 1\<rparr>"
  have "bh_list ?c ([] @ xs)" using l by (simp add: bh_list_def)
  moreover have "is_list bh_next (ac_bhs ?c) (ac_first_bh ?c) xs" using l by (simp add: bh_list_def)
  ultimately obtain ret c1 s1 new where w: "bh_walk run (ac_first_bh ?c) False (?c, s) = Some (ret, c1, s1)"
    "bh_list c1 (new @ xs)" "ac_walking_bh c1 = 1"
    using bh_walk_ok [OF _ _ ok_walking [OF ok], of 1 "[]" xs] by fastforce
  have "is_list bh_next (ac_bhs c1) (ac_first_bh c1) ([] @ (new @ xs))" using w(2) by (simp add: bh_list_def)
  from bh_sweep_spec [OF this] obtain h hp where
    sw: "bh_sweep SHead (ac_bhs c1) (ac_first_bh c1) = Some (h, hp)"
      "is_list bh_next h hp (filter (bh_live (ac_bhs c1)) (new @ xs))"
      "bh_data h = (\<lambda>a. if a \<in> set (new @ xs) \<and> bh_dead (ac_bhs c1) a then None else bh_data (ac_bhs c1) a)"
    by auto
  have "bh_live h a" if "a \<in> set (filter (bh_live (ac_bhs c1)) (new @ xs))" for a
  proof -
    from that sw(3) have "bh_data h a = bh_data (ac_bhs c1) a" by (auto simp: bh_live_def)
    with that bh_dead_data [of h a "ac_bhs c1"] show ?thesis by (auto simp: bh_live_def)
  qed
  moreover have "aio_bh_poll run (ctx, s) =
      Some (ret, c1\<lparr>ac_walking_bh := 0, ac_bhs := h, ac_first_bh := hp\<rparr>, s1)"
    using w(1,3) sw(1) assms(2) by (simp add: aio_bh_poll_def Let_def)
  ultimately show ?thesis using sw(2)
    by (intro exI [of _ ret] exI [of _ "c1\<lparr>ac_walking_bh := 0, ac_bhs := h, ac_first_bh := hp\<rparr>"] exI [of _ s1]
        exI [of _ "filter (bh_live (ac_bhs c1)) (new @ xs)"]) (simp add: bh_list_def)
qed

end

subsection \<open>One round with callbacks that leave the context alone\<close>

definition bh_due :: "(addr \<rightharpoonup> 'c QEMUBH) \<Rightarrow> addr \<Rightarrow> bool" where
  "bh_due h a \<longleftrightarrow> (case h a of None \<Rightarrow> False | Some b \<Rightarrow> \<not> bh_deleted b \<and> bh_scheduled b)"

definition bh_clear :: "'c QEMUBH \<Rightarrow> 'c QEMUBH" where
  "bh_clear b = b\<lparr>bh_scheduled := False, bh_idle := False\<rparr>"

definition bh_cleared :: "addr list \<Rightarrow> (addr \<rightharpoonup> 'c QEMUBH) \<Rightarrow> addr \<rightharpoonup> 'c QEMUBH" where
  "bh_cleared xs h a = (if a \<in> set xs \<and> bh_due h a then map_option bh_clear (h a) else h a)"

definition bh_fire :: "('c \<Rightarrow> addr \<Rightarrow> 's \<Rightarrow> 's) \<Rightarrow> (addr \<rightharpoonup> 'c QEMUBH) \<Rightarrow> addr list \<Rightarrow> 's \<Rightarrow> 's" where
  "bh_fire f h xs s = fold (\<lambda>a. f (bh_cb (the (h a))) (bh_opaque (the (h a)))) (filter (bh_due h) xs) s"

definition bh_progress :: "addr \<Rightarrow> (addr \<rightharpoonup> 'c QEMUBH) \<Rightarrow> addr list \<Rightarrow> bool" where
  "bh_progress dummy h xs \<longleftrightarrow> (\<exists>a \<in> set xs. bh_due h a \<and> \<not> bh_idle (the (h a)) \<and> a \<noteq> dummy)"

lemma bh_clear_simps [simp]:
  "bh_next (bh_clear b) = bh_next b" "bh_deleted (bh_clear b) = bh_deleted b" "bh_scheduled (bh_clear b) = False"
  "bh_cb (bh_clear b) = bh_cb b" "bh_opaque (bh_clear b) = bh_opaque b"
  by (simp_all add: bh_clear_def)

lemma bh_fire_cong:
  "(\<And>a. a \<in> set xs \<Longrightarrow> h a = h' a) \<Longrightarrow> bh_fire f h xs s = bh_fire f h' xs s"
  "(\<And>a. a \<in> set xs \<Longrightarrow> h a = h' a) \<Longrightarrow> bh_progress d h xs = bh_progress d h' xs"
proof -
  assume eq: "\<And>a. a \<in> set xs \<Longrightarrow> h a = h' a"
  then have "filter (bh_due h) xs = filter (bh_due h') xs" by (auto simp: bh_due_def cong: filter_cong)
  then show "bh_fire f h xs s = bh_fire f h' xs s"
    using eq unfolding bh_fire_def by (intro fold_cong) auto
  from eq show "bh_progress d h xs = bh_progress d h' xs" by (auto simp: bh_progress_def bh_due_def)
qed

lemma bh_fire_Cons: "bh_fire f h (x # xs) s =
    (if bh_due h x then bh_fire f h xs (f (bh_cb (the (h x))) (bh_opaque (the (h x))) s) else bh_fire f h xs s)"
  by (simp add: bh_fire_def)

lemma bh_progress_Cons: "bh_progress d h (x # xs) \<longleftrightarrow>
    (bh_due h x \<and> \<not> bh_idle (the (h x)) \<and> x \<noteq> d) \<or> bh_progress d h xs"
  by (auto simp: bh_progress_def)

lemma bh_walk_neutral:
  assumes run: "\<And>cb d c s. run cb d (c, s) = Some (c, f cb d s)"
    and "is_list bh_next (ac_bhs ctx) bh xs"
  shows "bh_walk run bh ret (ctx, s) =
    Some (ret \<or> bh_progress (ac_notify_dummy_bh ctx) (ac_bhs ctx) xs,
      ctx\<lparr>ac_bhs := bh_cleared xs (ac_bhs ctx)\<rparr>, bh_fire f (ac_bhs ctx) xs s)"
  using assms(2)
proof (induction xs arbitrary: bh ctx s ret)
  case Nil
  have "bh_cleared [] (ac_bhs ctx) = ac_bhs ctx" by (auto simp: bh_cleared_def fun_eq_iff)
  with Nil show ?case by (subst bh_walk.simps) (simp add: bh_progress_def bh_fire_def)
next
  case (Cons x xs)
  then obtain b where b: "bh = x" "x \<noteq> NULL" "ac_bhs ctx x = Some b" "is_list bh_next (ac_bhs ctx) (bh_next b) xs"
    by auto
  from is_list_distinct [OF Cons.prems] have x: "x \<notin> set xs" by simp
  show ?case
  proof (cases "\<not> bh_deleted b \<and> bh_scheduled b")
    case False
    then have nd: "\<not> bh_due (ac_bhs ctx) x" by (simp add: bh_due_def b)
    then have "bh_cleared (x # xs) (ac_bhs ctx) = bh_cleared xs (ac_bhs ctx)"
      by (auto simp: bh_cleared_def fun_eq_iff)
    moreover from b False have "bh_walk run bh ret (ctx, s) = bh_walk run (bh_next b) ret (ctx, s)"
      by (subst bh_walk.simps) auto
    ultimately show ?thesis using Cons.IH [OF b(4)] nd by (simp add: bh_fire_def bh_progress_def)
  next
    case True
    define h where "h = (ac_bhs ctx)(x \<mapsto> bh_clear b)"
    have l: "is_list bh_next (ac_bhs (ctx\<lparr>ac_bhs := h\<rparr>)) (bh_next b) xs"
      using b(3,4) by (simp add: h_def is_list_upd_same)
    have due: "bh_due (ac_bhs ctx) x" using True b(3) by (simp add: bh_due_def)
    have "bh_cleared xs h = bh_cleared (x # xs) (ac_bhs ctx)"
      using x b(3) due by (auto simp: h_def bh_cleared_def bh_due_def fun_eq_iff)
    moreover have "bh_fire f h xs t = bh_fire f (ac_bhs ctx) xs t" "bh_progress d h xs = bh_progress d (ac_bhs ctx) xs" for t d
      using x by (auto simp: h_def intro!: bh_fire_cong)
    moreover have "bh_walk run bh ret (ctx, s) = bh_walk run (bh_next b)
        (if \<not> bh_idle b \<and> x \<noteq> ac_notify_dummy_bh ctx then True else ret)
        (ctx\<lparr>ac_bhs := h\<rparr>, f (bh_cb b) (bh_opaque b) s)"
      using b True run by (subst bh_walk.simps) (simp add: h_def bh_upd_def bh_clear_def)
    ultimately show ?thesis using Cons.IH [OF l] due b(3) by (simp add: bh_fire_Cons bh_progress_Cons)
  qed
qed

lemma aio_bh_poll_neutral:
  assumes run: "\<And>cb d c s. run cb d (c, s) = Some (c, f cb d s)"
    and l: "bh_list ctx xs" and w: "ac_walking_bh ctx = 0"
  shows "\<exists>ctx'. aio_bh_poll run (ctx, s) =
      Some (bh_progress (ac_notify_dummy_bh ctx) (ac_bhs ctx) xs, ctx', bh_fire f (ac_bhs ctx) xs s) \<and>
    bh_list ctx' (filter (bh_live (ac_bhs ctx)) xs) \<and>
    bh_data (ac_bhs ctx') = (\<lambda>a. if a \<in> set xs \<and> bh_dead (ac_bhs ctx) a then None
      else bh_data (bh_cleared xs (ac_bhs ctx)) a)"
proof -
  let ?c = "ctx\<lparr>ac_walking_bh := 1\<rparr>" and ?h = "bh_cleared xs (ac_bhs ctx)"
  have "is_list bh_next (ac_bhs ?c) (ac_first_bh ctx) xs" using l by (simp add: bh_list_def)
  from bh_walk_neutral [where run = run and f = f, OF run this, of False s]
  have wk: "bh_walk run (ac_first_bh ctx) False (?c, s) = Some (bh_progress (ac_notify_dummy_bh ctx) (ac_bhs ctx) xs,
      ?c\<lparr>ac_bhs := ?h\<rparr>, bh_fire f (ac_bhs ctx) xs s)" by simp
  have "is_list bh_next ?h (ac_first_bh ctx) xs"
    using l unfolding bh_list_def by (rule is_list_frame) (auto simp: bh_cleared_def option.map_comp comp_def)
  then have "is_list bh_next ?h (ac_first_bh ctx) ([] @ xs)" by simp
  from bh_sweep_spec [OF this] obtain h hp where sw: "bh_sweep SHead ?h (ac_first_bh ctx) = Some (h, hp)"
      "is_list bh_next h hp (filter (bh_live ?h) xs)"
      "bh_data h = (\<lambda>a. if a \<in> set xs \<and> bh_dead ?h a then None else bh_data ?h a)" by auto
  have dead: "bh_dead ?h a = bh_dead (ac_bhs ctx) a" for a
    by (cases "ac_bhs ctx a") (auto simp: bh_dead_def bh_cleared_def)
  then have "bh_live ?h = bh_live (ac_bhs ctx)" by (auto simp: bh_live_def fun_eq_iff)
  with sw dead have "bh_list (ctx\<lparr>ac_walking_bh := 0, ac_bhs := h, ac_first_bh := hp\<rparr>) (filter (bh_live (ac_bhs ctx)) xs)"
    "bh_data h = (\<lambda>a. if a \<in> set xs \<and> bh_dead (ac_bhs ctx) a then None else bh_data ?h a)"
    by (simp_all add: bh_list_def)
  moreover have "aio_bh_poll run (ctx, s) = Some (bh_progress (ac_notify_dummy_bh ctx) (ac_bhs ctx) xs,
      ctx\<lparr>ac_walking_bh := 0, ac_bhs := h, ac_first_bh := hp\<rparr>, bh_fire f (ac_bhs ctx) xs s)"
    using wk sw(1) w by (simp add: aio_bh_poll_def Let_def)
  ultimately show ?thesis by (intro exI [of _ "ctx\<lparr>ac_walking_bh := 0, ac_bhs := h, ac_first_bh := hp\<rparr>"]) simp
qed

subsection \<open>The timeout\<close>

lemma uint_word_of_timeout:
  assumes "-1 \<le> t" and "t < 2 ^ 63"
  shows "uint (word_of_int t :: u64) = (if t = -1 then 2 ^ 64 - 1 else t)"
proof (cases "t = -1")
  case False
  with assms have "0 \<le> t" "t < 2 ^ 64" by auto
  with False show ?thesis by (simp add: uint_word_of_int)
qed (simp add: unsigned_minus_1_eq_mask mask_eq_exp_minus_1)

lemma qemu_soonest_timeout_min:
  assumes "-1 \<le> t1" and "t1 < 2 ^ 63" and "-1 \<le> t2" and "t2 < 2 ^ 63"
  shows "qemu_soonest_timeout t1 t2 = (if t1 = -1 then t2 else if t2 = -1 then t1 else min t1 t2)"
  using assms unfolding qemu_soonest_timeout_def by (simp add: uint_word_of_timeout min_def)

definition bh_busy :: "(addr \<rightharpoonup> 'c QEMUBH) \<Rightarrow> addr list \<Rightarrow> bool" where
  "bh_busy h xs \<longleftrightarrow> (\<exists>a \<in> set xs. bh_due h a \<and> \<not> bh_idle (the (h a)))"

lemma bh_timeout_spec:
  assumes "is_list bh_next h bh xs"
  shows "bh_timeout h bh t =
    Some (if bh_busy h xs then 0 else if \<exists>a \<in> set xs. bh_due h a then 10000000 else t)"
  using assms
proof (induction xs arbitrary: bh t)
  case Nil
  then show ?case by (subst bh_timeout.simps) (simp add: bh_busy_def)
next
  case (Cons x xs)
  then obtain b where "bh = x" "x \<noteq> NULL" "h x = Some b" "is_list bh_next h (bh_next b) xs" by auto
  with Cons.IH show ?case by (subst bh_timeout.simps) (auto simp: bh_busy_def bh_due_def)
qed

subsection \<open>Properties\<close>


definition two_bhs :: "nat AioContext" where
  "two_bhs = \<lparr>ac_notify_me = 0, ac_first_bh = 1, ac_walking_bh = 0, ac_notified = False, ac_notifier = False,
     ac_notify_dummy_bh = 9, ac_bhs =
       [1 \<mapsto> \<lparr>bh_cb = 10, bh_opaque = 0, bh_next = 2, bh_scheduled = True, bh_idle = False, bh_deleted = False\<rparr>,
        2 \<mapsto> \<lparr>bh_cb = 20, bh_opaque = 0, bh_next = 0, bh_scheduled = False, bh_idle = False, bh_deleted = True\<rparr>]\<rparr>"

lemma two_bhs_list: "bh_list two_bhs [1, 2]"
  by (simp add: bh_list_def two_bhs_def)


text \<open>C20: The poll timeout: zero if a non-idle bottom half is due or a timer has expired, otherwise at
  most 10ms if an idle one is due, and otherwise the deadline of the timers (\<open>-1\<close> is infinite).\<close>

theorem aio_timeout_spec:
  assumes "bh_list ctx xs" and "-1 \<le> deadline" and "deadline < 2 ^ 63"
  shows "aio_compute_timeout deadline ctx =
    Some (if bh_busy (ac_bhs ctx) xs \<or> deadline = 0 then 0
          else if \<exists>a \<in> set xs. bh_due (ac_bhs ctx) a
          then (if deadline = -1 then 10000000 else min 10000000 deadline) else deadline)"
  using bh_timeout_spec [OF assms(1) [unfolded bh_list_def]] assms(2,3)
  by (simp add: aio_compute_timeout_def qemu_soonest_timeout_min)

theorem aio_timeout_spec_witness: "aio_compute_timeout (-1) two_bhs = Some 0"
  using aio_timeout_spec [OF two_bhs_list, of "-1"] by (simp add: bh_busy_def bh_due_def two_bhs_def)

end
