(* ===== verification/LoopIo.thy ===== *)
theory LoopIo
  imports Prelude
begin

text \<open>
  The event loop interface of \<open>host-qemu/android/looper.h\<close>: a \<open>LoopIo\<close> is an object with a
  table of operations, as the C code has it, and the inline functions call through that
  table. Both event loops of the program provide such a table. The locale \<open>loop_io\<close> is the
  contract of the interface; its clients (\<open>async-utils.c\<close>, \<open>hw-pipe-net.c\<close>) rely on the
  laws only, and the two event loops discharge them.
\<close>

abbreviation (input) LOOP_IO_READ :: u32 where "LOOP_IO_READ \<equiv> 1"
abbreviation (input) LOOP_IO_WRITE :: u32 where "LOOP_IO_WRITE \<equiv> 2"

text \<open>Operations on the implementation object (an address) in the state \<open>'s\<close> of the event loop.\<close>

record 's LoopIoClass =
  lc_wantRead :: "addr \<Rightarrow> 's \<Rightarrow> 's option"
  lc_wantWrite :: "addr \<Rightarrow> 's \<Rightarrow> 's option"
  lc_dontWantRead :: "addr \<Rightarrow> 's \<Rightarrow> 's option"
  lc_dontWantWrite :: "addr \<Rightarrow> 's \<Rightarrow> 's option"
  lc_poll :: "addr \<Rightarrow> 's \<Rightarrow> u32 option"
  lc_done :: "addr \<Rightarrow> 's \<Rightarrow> 's option"

text \<open>A \<open>LoopIo\<close>; the table pointer of a zeroed object is null.\<close>

record 's LoopIo =
  io_clazz :: "'s LoopIoClass option"
  io_impl :: addr
  io_fd :: int

definition loopIo_done :: "'s LoopIo \<Rightarrow> 's \<Rightarrow> 's option" where
  "loopIo_done io s = do { c \<leftarrow> io_clazz io; lc_done c (io_impl io) s }"

definition loopIo_wantRead :: "'s LoopIo \<Rightarrow> 's \<Rightarrow> 's option" where
  "loopIo_wantRead io s = do { c \<leftarrow> io_clazz io; lc_wantRead c (io_impl io) s }"

definition loopIo_wantWrite :: "'s LoopIo \<Rightarrow> 's \<Rightarrow> 's option" where
  "loopIo_wantWrite io s = do { c \<leftarrow> io_clazz io; lc_wantWrite c (io_impl io) s }"

definition loopIo_dontWantRead :: "'s LoopIo \<Rightarrow> 's \<Rightarrow> 's option" where
  "loopIo_dontWantRead io s = do { c \<leftarrow> io_clazz io; lc_dontWantRead c (io_impl io) s }"

definition loopIo_dontWantWrite :: "'s LoopIo \<Rightarrow> 's \<Rightarrow> 's option" where
  "loopIo_dontWantWrite io s = do { c \<leftarrow> io_clazz io; lc_dontWantWrite c (io_impl io) s }"

definition loopIo_poll :: "'s LoopIo \<Rightarrow> 's \<Rightarrow> u32 option" where
  "loopIo_poll io s = do { c \<leftarrow> io_clazz io; lc_poll c (io_impl io) s }"

lemmas loopIo_defs = loopIo_done_def loopIo_wantRead_def loopIo_wantWrite_def loopIo_dontWantRead_def
  loopIo_dontWantWrite_def loopIo_poll_def

subsection \<open>The contract\<close>

text \<open>
  \<open>ok\<close> is the invariant of the event loop and \<open>wanted s a\<close> the events the object at \<open>a\<close> asks
  for (\<open>None\<close> if there is no such object). Every operation on an existing object returns,
  keeps the invariant, and changes the wanted events of this object only.
\<close>

locale loop_io =
  fixes cl :: "'s LoopIoClass" and ok :: "'s \<Rightarrow> bool" and wanted :: "'s \<Rightarrow> addr \<rightharpoonup> u32"
  assumes wantRead: "ok s \<Longrightarrow> wanted s a = Some w \<Longrightarrow>
      \<exists>t. lc_wantRead cl a s = Some t \<and> ok t \<and> wanted t = (wanted s)(a \<mapsto> w OR LOOP_IO_READ)"
    and wantWrite: "ok s \<Longrightarrow> wanted s a = Some w \<Longrightarrow>
      \<exists>t. lc_wantWrite cl a s = Some t \<and> ok t \<and> wanted t = (wanted s)(a \<mapsto> w OR LOOP_IO_WRITE)"
    and dontWantRead: "ok s \<Longrightarrow> wanted s a = Some w \<Longrightarrow>
      \<exists>t. lc_dontWantRead cl a s = Some t \<and> ok t \<and> wanted t = (wanted s)(a \<mapsto> w AND NOT LOOP_IO_READ)"
    and dontWantWrite: "ok s \<Longrightarrow> wanted s a = Some w \<Longrightarrow>
      \<exists>t. lc_dontWantWrite cl a s = Some t \<and> ok t \<and> wanted t = (wanted s)(a \<mapsto> w AND NOT LOOP_IO_WRITE)"
    and poll: "ok s \<Longrightarrow> wanted s a = Some w \<Longrightarrow> \<exists>r. lc_poll cl a s = Some r"
    and finish: "ok s \<Longrightarrow> wanted s a = Some w \<Longrightarrow>
      \<exists>t. lc_done cl a s = Some t \<and> ok t \<and> wanted t = (wanted s)(a := None)"

end
