(* ===== verification/QLooper.thy ===== *)
theory QLooper
  imports LinkedList IoHandler BottomHalf LoopIo
begin

text \<open>
  The event loop the pipe services run on, \<open>host-qemu/android/looper-qemu.c\<close>: I/O watchers
  (\<open>QLoopIo\<close>) on top of QEMU's file-descriptor handlers and bottom halves. The handlers only
  record readiness and put the watcher on a pending list; a bottom half then calls the user
  callbacks. Watchers live in a store and on two intrusive lists. The user callback is called
  on a state \<open>'s\<close> that contains the looper, read and written with \<open>get\<close> and \<open>put\<close>.
\<close>

subsection \<open>Data\<close>

text \<open>The functions registered with QEMU by this file.\<close>

datatype qhandler = HandleRead | HandleWrite

datatype bh_func = HandleIoBh

record 'u QLoopIo =
  qi_fd :: int
  qi_user_callback :: 'u
  qi_user_opaque :: addr
  qi_wanted :: u32
  qi_ready :: u32
  qi_pendingNext :: addr
  qi_next :: addr

record 'u QLooper =
  ql_io_list :: addr
  ql_io_pending :: addr
  ql_io_bh :: addr
  ql_ios :: "addr \<rightharpoonup> 'u QLoopIo"
  ql_handlers :: "qhandler IOHandlerRecord list"
  ql_ctx :: "bh_func AioContext"

definition set_qi_next :: "addr \<Rightarrow> 'u QLoopIo \<Rightarrow> 'u QLoopIo" where
  "set_qi_next v io = io\<lparr>qi_next := v\<rparr>"

definition set_qi_pendingNext :: "addr \<Rightarrow> 'u QLoopIo \<Rightarrow> 'u QLoopIo" where
  "set_qi_pendingNext v io = io\<lparr>qi_pendingNext := v\<rparr>"

subsection \<open>The two lists\<close>

definition qlooper_addIo :: "addr \<Rightarrow> ('u, 'm) QLooper_scheme \<Rightarrow> ('u, 'm) QLooper_scheme option" where
  "qlooper_addIo io l =
     do { i \<leftarrow> ql_ios l io;
          Some (l\<lparr>ql_ios := (ql_ios l)(io \<mapsto> set_qi_next (ql_io_list l) i), ql_io_list := io\<rparr>) }"

definition qlooper_delIo :: "addr \<Rightarrow> ('u, 'm) QLooper_scheme \<Rightarrow> ('u, 'm) QLooper_scheme option" where
  "qlooper_delIo io l =
     do { pnode \<leftarrow> findp qi_next (\<lambda>a. Some (a = io)) (ql_ios l) (ql_io_list l) SHead;
          node \<leftarrow> slot_read qi_next (ql_ios l) (ql_io_list l) pnode;
          if node = NULL then Some l
          else do { i \<leftarrow> ql_ios l io;
                    (h, hp) \<leftarrow> slot_write set_qi_next pnode (qi_next i) (ql_ios l) (ql_io_list l);
                    i' \<leftarrow> h io;
                    Some (l\<lparr>ql_ios := h(io \<mapsto> set_qi_next NULL i'), ql_io_list := hp\<rparr>) } }"

definition qlooper_addPendingIo :: "addr \<Rightarrow> ('u, 'm) QLooper_scheme \<Rightarrow> ('u, 'm) QLooper_scheme option" where
  "qlooper_addPendingIo io l =
     do { ctx \<leftarrow> (if ql_io_pending l = NULL then qemu_bh_schedule (ql_io_bh l) (ql_ctx l) else Some (ql_ctx l));
          i \<leftarrow> ql_ios l io;
          Some (l\<lparr>ql_ctx := ctx, ql_ios := (ql_ios l)(io \<mapsto> set_qi_pendingNext (ql_io_pending l) i),
                  ql_io_pending := io\<rparr>) }"

definition qlooper_delPendingIo :: "addr \<Rightarrow> ('u, 'm) QLooper_scheme \<Rightarrow> ('u, 'm) QLooper_scheme option" where
  "qlooper_delPendingIo io l =
     do { pnode \<leftarrow> findp qi_pendingNext (\<lambda>a. Some (a = io)) (ql_ios l) (ql_io_pending l) SHead;
          node \<leftarrow> slot_read qi_pendingNext (ql_ios l) (ql_io_pending l) pnode;
          i \<leftarrow> ql_ios l io;
          (h, hp) \<leftarrow> (if node = NULL then Some (ql_ios l, ql_io_pending l)
                       else slot_write set_qi_pendingNext pnode (qi_pendingNext i) (ql_ios l) (ql_io_pending l));
          i' \<leftarrow> h io;
          Some (l\<lparr>ql_ios := h(io \<mapsto> set_qi_pendingNext NULL i'), ql_io_pending := hp\<rparr>) }"

subsection \<open>Watchers\<close>

definition qloopio_new ::
  "int \<Rightarrow> 'u \<Rightarrow> addr \<Rightarrow> addr \<Rightarrow> ('u, 'm) QLooper_scheme \<Rightarrow> ('u, 'm) QLooper_scheme option" where
  "qloopio_new fd callback opq io l =
     qlooper_addIo io
       (l\<lparr>ql_ios := (ql_ios l)(io \<mapsto> \<lparr>qi_fd = fd, qi_user_callback = callback, qi_user_opaque = opq,
            qi_wanted = 0, qi_ready = 0, qi_pendingNext = NULL, qi_next = NULL\<rparr>)\<rparr>)"

definition qio_upd ::
  "addr \<Rightarrow> ('u QLoopIo \<Rightarrow> 'u QLoopIo) \<Rightarrow> ('u, 'm) QLooper_scheme \<Rightarrow> ('u, 'm) QLooper_scheme option" where
  "qio_upd io f l = do { i \<leftarrow> ql_ios l io; Some (l\<lparr>ql_ios := (ql_ios l)(io \<mapsto> f i)\<rparr>) }"

definition qloopio_removePending :: "addr \<Rightarrow> ('u, 'm) QLooper_scheme \<Rightarrow> ('u, 'm) QLooper_scheme option" where
  "qloopio_removePending io l =
     do { i \<leftarrow> ql_ios l io;
          if qi_ready i \<noteq> 0
          then do { l1 \<leftarrow> qlooper_delPendingIo io l; qio_upd io (\<lambda>i. i\<lparr>qi_ready := 0\<rparr>) l1 }
          else Some l }"

definition qloopio_setReady :: "addr \<Rightarrow> u32 \<Rightarrow> ('u, 'm) QLooper_scheme \<Rightarrow> ('u, 'm) QLooper_scheme option" where
  "qloopio_setReady io flag l =
     do { i \<leftarrow> ql_ios l io;
          l1 \<leftarrow> (if qi_ready i = 0 then qlooper_addPendingIo io l else Some l);
          qio_upd io (\<lambda>i. i\<lparr>qi_ready := qi_ready i OR flag\<rparr>) l1 }"

definition qloopio_handleRead :: "addr \<Rightarrow> ('u, 'm) QLooper_scheme \<Rightarrow> ('u, 'm) QLooper_scheme option" where
  "qloopio_handleRead io l = qloopio_setReady io LOOP_IO_READ l"

definition qloopio_handleWrite :: "addr \<Rightarrow> ('u, 'm) QLooper_scheme \<Rightarrow> ('u, 'm) QLooper_scheme option" where
  "qloopio_handleWrite io l = qloopio_setReady io LOOP_IO_WRITE l"

definition qio_set_handler ::
  "int \<Rightarrow> qhandler option \<Rightarrow> qhandler option \<Rightarrow> addr \<Rightarrow> ('u, 'm) QLooper_scheme \<Rightarrow> ('u, 'm) QLooper_scheme option" where
  "qio_set_handler fd r w opq l =
     do { hs \<leftarrow> qemu_set_fd_handler fd r w opq (ql_handlers l); Some (l\<lparr>ql_handlers := hs\<rparr>) }"

definition qloopio_modify :: "addr \<Rightarrow> u32 \<Rightarrow> ('u, 'm) QLooper_scheme \<Rightarrow> ('u, 'm) QLooper_scheme option" where
  "qloopio_modify io wanted l =
     do { i \<leftarrow> ql_ios l io;
          if wanted = qi_wanted i then Some l
          else do {
            l1 \<leftarrow> (if qi_ready i \<noteq> 0 \<and> qi_ready i AND wanted = 0 then qloopio_removePending io l else Some l);
            let fd_read = (if wanted AND LOOP_IO_READ \<noteq> 0 then Some HandleRead else None);
            let fd_write = (if wanted AND LOOP_IO_WRITE \<noteq> 0 then Some HandleWrite else None);
            l2 \<leftarrow> qio_set_handler (qi_fd i) fd_read fd_write io l1;
            qio_upd io (\<lambda>i. i\<lparr>qi_wanted := wanted\<rparr>) l2 } }"

definition qloopio_wantRead :: "addr \<Rightarrow> ('u, 'm) QLooper_scheme \<Rightarrow> ('u, 'm) QLooper_scheme option" where
  "qloopio_wantRead io l = do { i \<leftarrow> ql_ios l io; qloopio_modify io (qi_wanted i OR LOOP_IO_READ) l }"

definition qloopio_wantWrite :: "addr \<Rightarrow> ('u, 'm) QLooper_scheme \<Rightarrow> ('u, 'm) QLooper_scheme option" where
  "qloopio_wantWrite io l = do { i \<leftarrow> ql_ios l io; qloopio_modify io (qi_wanted i OR LOOP_IO_WRITE) l }"

definition qloopio_dontWantRead :: "addr \<Rightarrow> ('u, 'm) QLooper_scheme \<Rightarrow> ('u, 'm) QLooper_scheme option" where
  "qloopio_dontWantRead io l = do { i \<leftarrow> ql_ios l io; qloopio_modify io (qi_wanted i AND NOT LOOP_IO_READ) l }"

definition qloopio_dontWantWrite :: "addr \<Rightarrow> ('u, 'm) QLooper_scheme \<Rightarrow> ('u, 'm) QLooper_scheme option" where
  "qloopio_dontWantWrite io l = do { i \<leftarrow> ql_ios l io; qloopio_modify io (qi_wanted i AND NOT LOOP_IO_WRITE) l }"

definition qloopio_free :: "addr \<Rightarrow> ('u, 'm) QLooper_scheme \<Rightarrow> ('u, 'm) QLooper_scheme option" where
  "qloopio_free io l =
     do { i \<leftarrow> ql_ios l io;
          l1 \<leftarrow> (if qi_ready i \<noteq> 0 then qloopio_removePending io l else Some l);
          l2 \<leftarrow> qlooper_delIo io l1;
          l3 \<leftarrow> qio_set_handler (qi_fd i) None None NULL l2;
          Some (l3\<lparr>ql_ios := (ql_ios l3)(io := None)\<rparr>) }"

definition qloopio_poll :: "addr \<Rightarrow> ('u, 'm) QLooper_scheme \<Rightarrow> u32 option" where
  "qloopio_poll io l = map_option qi_ready (ql_ios l io)"

definition qlooper_io_class :: "('u, 'm) QLooper_scheme LoopIoClass" where
  "qlooper_io_class =
     \<lparr>lc_wantRead = qloopio_wantRead, lc_wantWrite = qloopio_wantWrite,
      lc_dontWantRead = qloopio_dontWantRead, lc_dontWantWrite = qloopio_dontWantWrite,
      lc_poll = qloopio_poll, lc_done = qloopio_free\<rparr>"

text \<open>\<open>socket_set_nonblock\<close> acts on the descriptor only.\<close>

definition qlooper_io_init ::
  "int \<Rightarrow> 'u \<Rightarrow> addr \<Rightarrow> addr \<Rightarrow> ('u, 'm) QLooper_scheme \<Rightarrow>
   (('u, 'm) QLooper_scheme LoopIo \<times> ('u, 'm) QLooper_scheme) option" where
  "qlooper_io_init fd callback opq new_io l =
     do { l1 \<leftarrow> qloopio_new fd callback opq new_io l;
          Some (\<lparr>io_clazz = Some qlooper_io_class, io_impl = new_io, io_fd = fd\<rparr>, l1) }"

subsection \<open>The looper\<close>

partial_function (option) qlooper_handle_io_bh ::
  "('s \<Rightarrow> ('u, 'm) QLooper_scheme) \<Rightarrow> (('u, 'm) QLooper_scheme \<Rightarrow> 's \<Rightarrow> 's) \<Rightarrow>
   ('u \<Rightarrow> addr \<Rightarrow> int \<Rightarrow> u32 \<Rightarrow> 's \<Rightarrow> 's option) \<Rightarrow> 's \<Rightarrow> 's option" where
  "qlooper_handle_io_bh get put call s =
     (let l = get s; io = ql_io_pending l in
      if io = NULL then Some s
      else do {
        i \<leftarrow> ql_ios l io;
        let l1 = l\<lparr>ql_io_pending := qi_pendingNext i,
                   ql_ios := (ql_ios l)(io \<mapsto> i\<lparr>qi_pendingNext := NULL, qi_ready := 0\<rparr>)\<rparr>;
        s1 \<leftarrow> call (qi_user_callback i) (qi_user_opaque i) (qi_fd i) (qi_ready i) (put l1 s);
        qlooper_handle_io_bh get put call s1 })"

partial_function (option) qlooper_free_ios ::
  "('u, 'm) QLooper_scheme \<Rightarrow> ('u, 'm) QLooper_scheme option" where
  "qlooper_free_ios l =
     (if ql_io_list l = NULL then Some l
      else do { l1 \<leftarrow> qloopio_free (ql_io_list l) l; qlooper_free_ios l1 })"

definition qlooper_destroy :: "('u, 'm) QLooper_scheme \<Rightarrow> ('u, 'm) QLooper_scheme option" where
  "qlooper_destroy l =
     do { l1 \<leftarrow> qlooper_free_ios l;
          ctx \<leftarrow> qemu_bh_delete (ql_io_bh l1) (ql_ctx l1);
          Some (l1\<lparr>ql_ctx := ctx\<rparr>) }"

definition looper_newCore :: "addr \<Rightarrow> qhandler IOHandlerRecord list \<Rightarrow> bh_func AioContext \<Rightarrow> 'u QLooper" where
  "looper_newCore new_bh hs ctx =
     \<lparr>ql_io_list = NULL, ql_io_pending = NULL, ql_io_bh = new_bh, ql_ios = Map.empty,
      ql_handlers = hs, ql_ctx = aio_bh_new HandleIoBh NULL new_bh ctx\<rparr>"

declare qlooper_handle_io_bh.simps [code] qlooper_free_ios.simps [code]

end
