(* ===== verification/QLooperInv.thy ===== *)
theory QLooperInv
  imports QLooper
begin

text \<open>
  The invariant of the event loop of \<open>looper-qemu.c\<close> and its preservation. \<open>ql_rep l xs ps D\<close>
  says that the two intrusive lists hold the watchers \<open>xs\<close> and the pending ones \<open>ps\<close>, that
  exactly \<open>xs\<close> are allocated, and that \<open>D\<close> is their data without the links. \<open>ql_inv\<close> adds what
  ties the data to the lists and to QEMU: a watcher is pending iff its ready mask is not zero,
  and the registered handlers are exactly those its wanted mask asks for.
\<close>

interpretation qnext: intrusive_list qi_next set_qi_next
  by unfold_locales (simp add: set_qi_next_def)

interpretation qpend: intrusive_list qi_pendingNext set_qi_pendingNext
  by unfold_locales (simp add: set_qi_pendingNext_def)

lemma set_qi_simps [simp]:
  "qi_next (set_qi_next v i) = v" "qi_pendingNext (set_qi_next v i) = qi_pendingNext i"
  "qi_next (set_qi_pendingNext v i) = qi_next i" "qi_pendingNext (set_qi_pendingNext v i) = v"
  by (simp_all add: set_qi_next_def set_qi_pendingNext_def)

subsection \<open>Representation\<close>

definition qi_un :: "'u QLoopIo \<Rightarrow> 'u QLoopIo" where
  "qi_un i = set_qi_next NULL (set_qi_pendingNext NULL i)"

definition qi_data :: "(addr \<rightharpoonup> 'u QLoopIo) \<Rightarrow> addr \<rightharpoonup> 'u QLoopIo" where
  "qi_data h a = map_option qi_un (h a)"

definition ql_rep ::
  "('u, 'm) QLooper_scheme \<Rightarrow> addr list \<Rightarrow> addr list \<Rightarrow> (addr \<rightharpoonup> 'u QLoopIo) \<Rightarrow> bool" where
  "ql_rep l xs ps D \<longleftrightarrow>
     is_list qi_next (ql_ios l) (ql_io_list l) xs \<and> is_list qi_pendingNext (ql_ios l) (ql_io_pending l) ps \<and>
     set ps \<subseteq> set xs \<and> dom (ql_ios l) = set xs \<and> qi_data (ql_ios l) = D"

text \<open>States that differ in the watchers and their lists only.\<close>

definition ql_frame :: "('u, 'm) QLooper_scheme \<Rightarrow> ('u, 'm) QLooper_scheme \<Rightarrow> bool" where
  "ql_frame l t \<longleftrightarrow>
     t = l\<lparr>ql_ios := ql_ios t, ql_io_list := ql_io_list t, ql_io_pending := ql_io_pending t\<rparr>"

lemma qi_un_set [simp]: "qi_un (set_qi_next v i) = qi_un i" "qi_un (set_qi_pendingNext v i) = qi_un i"
  by (simp_all add: qi_un_def set_qi_next_def set_qi_pendingNext_def)

lemma qi_un_fields [simp]:
  "qi_fd (qi_un i) = qi_fd i" "qi_user_callback (qi_un i) = qi_user_callback i"
  "qi_user_opaque (qi_un i) = qi_user_opaque i" "qi_wanted (qi_un i) = qi_wanted i" "qi_ready (qi_un i) = qi_ready i"
  by (simp_all add: qi_un_def set_qi_next_def set_qi_pendingNext_def)

lemma qi_data_upd: "h a = Some i \<Longrightarrow> qi_un i' = qi_un i \<Longrightarrow> qi_data (h(a \<mapsto> i')) = qi_data h"
  by (auto simp: qi_data_def fun_eq_iff)

lemma qi_data_set: "qi_data (h(a \<mapsto> i)) = (qi_data h)(a \<mapsto> qi_un i)"
  by (auto simp: qi_data_def fun_eq_iff)

lemma qi_data_del: "qi_data (h(a := None)) = (qi_data h)(a := None)"
  by (auto simp: qi_data_def fun_eq_iff)

lemma dom_qi_data [simp]: "dom (qi_data h) = dom h"
  by (auto simp: qi_data_def dom_def)

lemma ql_repD:
  assumes "ql_rep l xs ps D"
  shows "is_list qi_next (ql_ios l) (ql_io_list l) xs" "is_list qi_pendingNext (ql_ios l) (ql_io_pending l) ps"
    "set ps \<subseteq> set xs" "dom (ql_ios l) = set xs" "qi_data (ql_ios l) = D" "dom D = set xs"
  using assms dom_qi_data [of "ql_ios l"] unfolding ql_rep_def by (simp_all del: dom_qi_data)

lemma ql_rep_unique: "ql_rep l xs ps D \<Longrightarrow> ql_rep l xs' ps' D' \<Longrightarrow> xs = xs' \<and> ps = ps' \<and> D = D'"
  unfolding ql_rep_def using is_list_unique by blast

lemma ql_rep_at:
  assumes "ql_rep l xs ps D" and "a \<in> set xs"
  obtains i where "ql_ios l a = Some i" and "D a = Some (qi_un i)"
  using assms is_list_live [of qi_next "ql_ios l" "ql_io_list l" xs a] by (auto simp: ql_rep_def qi_data_def)

lemma ql_frame_refl [simp]: "ql_frame l l"
  by (simp add: ql_frame_def)

lemma ql_frame_trans: "ql_frame l t \<Longrightarrow> ql_frame t u \<Longrightarrow> ql_frame l u"
proof -
  assume "ql_frame l t" "ql_frame t u"
  then have t: "t = l\<lparr>ql_ios := ql_ios t, ql_io_list := ql_io_list t, ql_io_pending := ql_io_pending t\<rparr>"
    and u: "u = t\<lparr>ql_ios := ql_ios u, ql_io_list := ql_io_list u, ql_io_pending := ql_io_pending u\<rparr>"
    by (simp_all add: ql_frame_def)
  show "ql_frame l u" unfolding ql_frame_def by (subst u, subst t) simp
qed

lemma ql_frameD:
  assumes "ql_frame l t"
  shows "ql_handlers t = ql_handlers l" "ql_ctx t = ql_ctx l" "ql_io_bh t = ql_io_bh l"
    "QLooper.more t = QLooper.more l"
  by (subst assms [unfolded ql_frame_def], simp)+

lemma ql_frameI:
  "t = l\<lparr>ql_ios := h, ql_io_pending := p\<rparr> \<Longrightarrow> ql_frame l t" "t = l\<lparr>ql_ios := h, ql_io_list := q\<rparr> \<Longrightarrow> ql_frame l t"
  "t = l\<lparr>ql_ios := h\<rparr> \<Longrightarrow> ql_frame l t"
  by (simp_all add: ql_frame_def)

text \<open>Writing fields other than the links.\<close>

lemma qio_upd_rep:
  assumes r: "ql_rep l xs ps D" and a: "a \<in> set xs"
    and f: "\<And>i. qi_next (f i) = qi_next i" "\<And>i. qi_pendingNext (f i) = qi_pendingNext i"
      "\<And>i. qi_un (f i) = f (qi_un i)"
  shows "\<exists>t. qio_upd a f l = Some t \<and> ql_rep t xs ps (D(a \<mapsto> f (the (D a)))) \<and> ql_frame l t"
proof -
  obtain i where i: "ql_ios l a = Some i" "D a = Some (qi_un i)" using r a by (rule ql_rep_at)
  let ?t = "l\<lparr>ql_ios := (ql_ios l)(a \<mapsto> f i)\<rparr>"
  have "is_list qi_next (ql_ios ?t) (ql_io_list ?t) xs" "is_list qi_pendingNext (ql_ios ?t) (ql_io_pending ?t) ps"
    using ql_repD(1,2) [OF r] i(1) f(1,2) by (auto intro!: is_list_upd_same)
  moreover have "qi_data (ql_ios ?t) = D(a \<mapsto> f (the (D a)))"
    using i ql_repD(5) [OF r] f(3) by (simp add: qi_data_set)
  moreover have "dom (ql_ios ?t) = set xs" using ql_repD(4) [OF r] a by auto
  ultimately have "ql_rep ?t xs ps (D(a \<mapsto> f (the (D a))))" using ql_repD(3) [OF r] by (simp add: ql_rep_def)
  with i show ?thesis by (auto simp: qio_upd_def intro: ql_frameI)
qed

subsection \<open>Unlinking\<close>

lemma qi_pair_frame:
  assumes "\<And>b. map_option (\<lambda>i. (k i, qi_un i)) (h' b) = map_option (\<lambda>i. (k i, qi_un i)) (h b)"
  shows "map_option k (h' b) = map_option k (h b)" and "qi_data h' = qi_data h" and "dom h' = dom h"
proof -
  have m: "map_option f (map_option (\<lambda>i. (k i, qi_un i)) (h' b)) = map_option f (map_option (\<lambda>i. (k i, qi_un i)) (h b))" for f :: "_ \<Rightarrow> 'z" and b
    using assms by simp
  from m [of fst b] show "map_option k (h' b) = map_option k (h b)" by (simp add: option.map_comp comp_def)
  have "qi_data h' b = qi_data h b" for b using m [of snd b] by (simp add: qi_data_def option.map_comp comp_def)
  then show "qi_data h' = qi_data h" by (simp add: fun_eq_iff)
  then show "dom h' = dom h" by (metis dom_qi_data)
qed

lemma qlooper_delPendingIo_rep:
  assumes r: "ql_rep l xs ps D" and a: "a \<in> set xs"
  shows "\<exists>t. qlooper_delPendingIo a l = Some t \<and> ql_rep t xs (remove1 a ps) D \<and> ql_frame l t"
proof (cases "a \<in> set ps")
  case True
  obtain pnode n h1 hp1 n1 where u: "findp qi_pendingNext (\<lambda>x. Some (x = a)) (ql_ios l) (ql_io_pending l) SHead = Some pnode"
    "slot_read qi_pendingNext (ql_ios l) (ql_io_pending l) pnode = Some a" "ql_ios l a = Some n"
    "slot_write set_qi_pendingNext pnode (qi_pendingNext n) (ql_ios l) (ql_io_pending l) = Some (h1, hp1)" "h1 a = Some n1"
    "is_list qi_pendingNext (h1(a \<mapsto> set_qi_pendingNext NULL n1)) hp1 (remove1 a ps)"
    "\<And>b. map_option (\<lambda>i. (qi_next i, qi_un i)) ((h1(a \<mapsto> set_qi_pendingNext NULL n1)) b) =
         map_option (\<lambda>i. (qi_next i, qi_un i)) (ql_ios l b)"
    by (rule qpend.remove_node [OF ql_repD(2) [OF r] True, of "\<lambda>i. (qi_next i, qi_un i)"]) simp_all
  let ?h = "h1(a \<mapsto> set_qi_pendingNext NULL n1)"
  let ?t = "l\<lparr>ql_ios := ?h, ql_io_pending := hp1\<rparr>"
  note fr = qi_pair_frame [where k = qi_next and h' = ?h and h = "ql_ios l", OF u(7)]
  have "is_list qi_next ?h (ql_io_list l) xs" by (rule is_list_frame [OF ql_repD(1) [OF r]]) (rule fr(1))
  then have "ql_rep ?t xs (remove1 a ps) D"
    using r u(6) fr(2,3) set_remove1_subset [of a ps] unfolding ql_rep_def by (simp del: fun_upd_apply) blast
  moreover have "qlooper_delPendingIo a l = Some ?t"
    using u(1-5) is_list_nonnull [OF ql_repD(2) [OF r] True] by (simp add: qlooper_delPendingIo_def)
  ultimately show ?thesis by (auto intro: ql_frameI)
next
  case False
  obtain i where i: "ql_ios l a = Some i" "D a = Some (qi_un i)" using r a by (rule ql_rep_at)
  obtain s where s: "findp qi_pendingNext (\<lambda>x. Some (x = a)) (ql_ios l) (ql_io_pending l) SHead = Some s"
    "slot_read qi_pendingNext (ql_ios l) (ql_io_pending l) s = Some NULL"
    using findp_pointer(2) [OF ql_repD(2) [OF r] False] by blast
  let ?h = "(ql_ios l)(a \<mapsto> set_qi_pendingNext NULL i)"
  let ?t = "l\<lparr>ql_ios := ?h, ql_io_pending := ql_io_pending l\<rparr>"
  have "is_list qi_next ?h (ql_io_list l) xs" by (rule is_list_upd_same [OF ql_repD(1) [OF r] i(1)]) simp
  moreover have "is_list qi_pendingNext ?h (ql_io_pending l) ps" by (rule is_list_upd_notin [OF ql_repD(2) [OF r] False])
  moreover have "qi_data ?h = D" using qi_data_upd [where h = "ql_ios l" and a = a and i = i and i' = "set_qi_pendingNext NULL i"] i(1) ql_repD(5) [OF r]
    by (simp del: fun_upd_apply)
  ultimately have "ql_rep ?t xs (remove1 a ps) D"
    using r a False unfolding ql_rep_def by (auto simp: remove1_idem simp del: fun_upd_apply)
  moreover have "qlooper_delPendingIo a l = Some ?t" using s i(1) by (simp add: qlooper_delPendingIo_def)
  ultimately show ?thesis by (auto intro: ql_frameI)
qed

text \<open>\<open>qlooper_delIo\<close> keeps the object allocated: it is freed by its caller.\<close>

lemma qlooper_delIo_rep:
  assumes r: "ql_rep l xs ps D" and a: "a \<in> set xs"
  shows "\<exists>t. qlooper_delIo a l = Some t \<and> is_list qi_next (ql_ios t) (ql_io_list t) (remove1 a xs) \<and>
    is_list qi_pendingNext (ql_ios t) (ql_io_pending t) ps \<and> qi_data (ql_ios t) = D \<and> ql_frame l t"
proof -
  obtain pnode n h1 hp1 n1 where u: "findp qi_next (\<lambda>x. Some (x = a)) (ql_ios l) (ql_io_list l) SHead = Some pnode"
    "slot_read qi_next (ql_ios l) (ql_io_list l) pnode = Some a" "ql_ios l a = Some n"
    "slot_write set_qi_next pnode (qi_next n) (ql_ios l) (ql_io_list l) = Some (h1, hp1)" "h1 a = Some n1"
    "is_list qi_next (h1(a \<mapsto> set_qi_next NULL n1)) hp1 (remove1 a xs)"
    "\<And>b. map_option (\<lambda>i. (qi_pendingNext i, qi_un i)) ((h1(a \<mapsto> set_qi_next NULL n1)) b) =
         map_option (\<lambda>i. (qi_pendingNext i, qi_un i)) (ql_ios l b)"
    by (rule qnext.remove_node [OF ql_repD(1) [OF r] a, of "\<lambda>i. (qi_pendingNext i, qi_un i)"]) simp_all
  let ?h = "h1(a \<mapsto> set_qi_next NULL n1)"
  let ?t = "l\<lparr>ql_ios := ?h, ql_io_list := hp1\<rparr>"
  note fr = qi_pair_frame [where k = qi_pendingNext and h' = ?h and h = "ql_ios l", OF u(7)]
  have "is_list qi_pendingNext ?h (ql_io_pending l) ps" by (rule is_list_frame [OF ql_repD(2) [OF r]]) (rule fr(1))
  moreover have "qi_data ?h = D" using fr(2) ql_repD(5) [OF r] by simp
  moreover have "qlooper_delIo a l = Some ?t"
    using u(1-5) is_list_nonnull [OF ql_repD(1) [OF r] a] by (simp add: qlooper_delIo_def)
  ultimately show ?thesis using u(6) by (auto intro: ql_frameI)
qed

subsection \<open>Pending watchers\<close>

lemma qloopio_removePending_rep:
  assumes r: "ql_rep l xs ps D" and a: "D a = Some i" and "qi_ready i \<noteq> 0"
  shows "\<exists>t. qloopio_removePending a l = Some t \<and> ql_rep t xs (remove1 a ps) (D(a \<mapsto> i\<lparr>qi_ready := 0\<rparr>)) \<and> ql_frame l t"
proof -
  from a ql_repD(6) [OF r] have ax: "a \<in> set xs" by blast
  obtain i' where i': "ql_ios l a = Some i'" "D a = Some (qi_un i')" using r ax by (rule ql_rep_at)
  obtain t where t: "qlooper_delPendingIo a l = Some t" "ql_rep t xs (remove1 a ps) D" "ql_frame l t"
    using qlooper_delPendingIo_rep [OF r ax] by blast
  obtain u where u: "qio_upd a (\<lambda>i. i\<lparr>qi_ready := 0\<rparr>) t = Some u"
    "ql_rep u xs (remove1 a ps) (D(a \<mapsto> (the (D a))\<lparr>qi_ready := 0\<rparr>))" "ql_frame t u"
    using qio_upd_rep [OF t(2) ax, of "\<lambda>i. i\<lparr>qi_ready := 0\<rparr>"]
    by (auto simp: qi_un_def set_qi_next_def set_qi_pendingNext_def)
  from u t i' a assms(3) show ?thesis by (auto simp: qloopio_removePending_def intro: ql_frame_trans)
qed

subsection \<open>The invariant\<close>

text \<open>The handlers a watcher has registered with QEMU.\<close>

definition qio_handlers :: "addr \<Rightarrow> u32 \<Rightarrow> (qhandler option \<times> qhandler option \<times> addr) option" where
  "qio_handlers a w =
     (let r = (if w AND LOOP_IO_READ \<noteq> 0 then Some HandleRead else None);
          wr = (if w AND LOOP_IO_WRITE \<noteq> 0 then Some HandleWrite else None)
      in if r = None \<and> wr = None then None else Some (r, wr, a))"

definition ql_handlers_ok :: "(addr \<rightharpoonup> 'u QLoopIo) \<Rightarrow> qhandler IOHandlerRecord list \<Rightarrow> bool" where
  "ql_handlers_ok D hs \<longleftrightarrow> ioh_inv hs \<and>
     (\<forall>a i. D a = Some i \<longrightarrow> 0 \<le> qi_fd i \<and> fd_handlers hs (qi_fd i) = qio_handlers a (qi_wanted i)) \<and>
     (\<forall>a b i j. D a = Some i \<longrightarrow> D b = Some j \<longrightarrow> qi_fd i = qi_fd j \<longrightarrow> a = b) \<and>
     (\<forall>fd r w a. fd_handlers hs fd = Some (r, w, a) \<longrightarrow> (\<exists>i. D a = Some i \<and> qi_fd i = fd))"

definition ql_bh_ok :: "('u, 'm) QLooper_scheme \<Rightarrow> bool" where
  "ql_bh_ok l \<longleftrightarrow> (\<exists>b. ac_bhs (ql_ctx l) (ql_io_bh l) = Some b \<and> \<not> bh_deleted b)"

definition ql_good ::
  "('u, 'm) QLooper_scheme \<Rightarrow> addr list \<Rightarrow> addr list \<Rightarrow> (addr \<rightharpoonup> 'u QLoopIo) \<Rightarrow> bool" where
  "ql_good l xs ps D \<longleftrightarrow> ql_rep l xs ps D \<and> (\<forall>a i. D a = Some i \<longrightarrow> (qi_ready i \<noteq> 0 \<longleftrightarrow> a \<in> set ps)) \<and>
     ql_handlers_ok D (ql_handlers l) \<and> ql_bh_ok l"

definition ql_inv :: "('u, 'm) QLooper_scheme \<Rightarrow> bool" where
  "ql_inv l \<longleftrightarrow> (\<exists>xs ps D. ql_good l xs ps D)"

text \<open>Pending work is never forgotten: the bottom half is scheduled.\<close>

definition ql_armed :: "('u, 'm) QLooper_scheme \<Rightarrow> bool" where
  "ql_armed l \<longleftrightarrow> ql_io_pending l \<noteq> NULL \<longrightarrow>
     (\<exists>b. ac_bhs (ql_ctx l) (ql_io_bh l) = Some b \<and> bh_scheduled b)"

lemma ql_bh_ok_cong: "ql_ctx t = ql_ctx l \<Longrightarrow> ql_io_bh t = ql_io_bh l \<Longrightarrow> ql_bh_ok t = ql_bh_ok l"
  by (simp add: ql_bh_ok_def)

lemma qio_handlers_cases: "qio_handlers a w = Some (r, wr, b) \<Longrightarrow> b = a"
  by (auto simp: qio_handlers_def Let_def split: if_splits)

lemma ql_handlers_ok_set:
  assumes ok: "ql_handlers_ok D hs" and a: "D a = Some i" and i': "qi_fd i' = qi_fd i"
    and hs': "ioh_inv hs'" "fd_handlers hs' = (fd_handlers hs)(qi_fd i := qio_handlers a (qi_wanted i'))"
  shows "ql_handlers_ok (D(a \<mapsto> i')) hs'"
  unfolding ql_handlers_ok_def
proof (intro conjI allI impI)
  note ok' = ok [unfolded ql_handlers_ok_def]
  show "ioh_inv hs'" by (rule hs'(1))
  fix b j assume b: "(D(a \<mapsto> i')) b = Some j"
  show "0 \<le> qi_fd j" using b ok' a i' by (auto split: if_splits)
  show "fd_handlers hs' (qi_fd j) = qio_handlers b (qi_wanted j)"
  proof (cases "b = a")
    case False
    with b have bj: "D b = Some j" by simp
    with ok' a False have "qi_fd j \<noteq> qi_fd i" by metis
    with bj ok' hs'(2) show ?thesis by simp
  qed (use b i' hs'(2) in auto)
  fix c k assume "(D(a \<mapsto> i')) c = Some k" "qi_fd j = qi_fd k"
  with b ok' a i' show "b = c" by (auto split: if_splits)
next
  note ok' = ok [unfolded ql_handlers_ok_def]
  fix fd r w b assume h: "fd_handlers hs' fd = Some (r, w, b)"
  show "\<exists>j. (D(a \<mapsto> i')) b = Some j \<and> qi_fd j = fd"
  proof (cases "fd = qi_fd i")
    case True
    with h hs'(2) have "b = a" by (auto dest: qio_handlers_cases)
    with True i' show ?thesis by simp
  next
    case False
    with h hs'(2) have "fd_handlers hs fd = Some (r, w, b)" by simp
    with ok' obtain j where "D b = Some j" "qi_fd j = fd" by blast
    with False a show ?thesis by auto
  qed
qed

lemma ql_handlers_ok_del:
  assumes ok: "ql_handlers_ok D hs" and a: "D a = Some i"
    and hs': "ioh_inv hs'" "fd_handlers hs' = (fd_handlers hs)(qi_fd i := None)"
  shows "ql_handlers_ok (D(a := None)) hs'"
  unfolding ql_handlers_ok_def
proof (intro conjI allI impI)
  note ok' = ok [unfolded ql_handlers_ok_def]
  show "ioh_inv hs'" by (rule hs'(1))
  fix b j assume b: "(D(a := None)) b = Some j"
  then have bj: "D b = Some j" "b \<noteq> a" by (auto split: if_splits)
  with ok' a have ne: "qi_fd j \<noteq> qi_fd i" by metis
  from bj ok' show "0 \<le> qi_fd j" by blast
  from bj ne ok' hs'(2) show "fd_handlers hs' (qi_fd j) = qio_handlers b (qi_wanted j)" by simp
  fix c k assume "(D(a := None)) c = Some k" "qi_fd j = qi_fd k"
  with bj ok' show "b = c" by (auto split: if_splits)
next
  note ok' = ok [unfolded ql_handlers_ok_def]
  fix fd r w b assume h: "fd_handlers hs' fd = Some (r, w, b)"
  with hs'(2) have fd: "fd \<noteq> qi_fd i" "fd_handlers hs fd = Some (r, w, b)" by (auto split: if_splits)
  with ok' obtain j where "D b = Some j" "qi_fd j = fd" by blast
  with fd a show "\<exists>j. (D(a := None)) b = Some j \<and> qi_fd j = fd" by auto
qed

lemma ql_handlers_ok_new:
  assumes ok: "ql_handlers_ok D hs" and a: "D a = None" and fd: "0 \<le> fd"
    and fdn: "\<And>b j. D b = Some j \<Longrightarrow> qi_fd j \<noteq> fd" and i: "qi_fd i = fd" "qi_wanted i = 0"
  shows "ql_handlers_ok (D(a \<mapsto> i)) hs"
  unfolding ql_handlers_ok_def
proof (intro conjI allI impI)
  note ok' = ok [unfolded ql_handlers_ok_def]
  have none: "fd_handlers hs fd = None"
  proof (rule ccontr)
    assume "fd_handlers hs fd \<noteq> None"
    then obtain r w b where "fd_handlers hs fd = Some (r, w, b)" by auto
    with ok' fdn show False by blast
  qed
  show "ioh_inv hs" using ok' by blast
  fix b j assume b: "(D(a \<mapsto> i)) b = Some j"
  show "0 \<le> qi_fd j" using b ok' i fd by (cases "b = a") auto
  show "fd_handlers hs (qi_fd j) = qio_handlers b (qi_wanted j)"
    using b ok' i none by (cases "b = a") (auto simp: qio_handlers_def)
  fix c k assume "(D(a \<mapsto> i)) c = Some k" "qi_fd j = qi_fd k"
  with b ok' i fdn show "b = c" by (cases "b = a"; cases "c = a") auto
next
  note ok' = ok [unfolded ql_handlers_ok_def]
  fix g r w b assume "fd_handlers hs g = Some (r, w, b)"
  with ok' obtain j where "D b = Some j" "qi_fd j = g" by blast
  with a show "\<exists>j. (D(a \<mapsto> i)) b = Some j \<and> qi_fd j = g" by auto
qed

lemma ql_handlers_ok_ready:
  assumes "ql_handlers_ok D hs" and "D a = Some i" and "qi_fd i' = qi_fd i" and "qi_wanted i' = qi_wanted i"
  shows "ql_handlers_ok (D(a \<mapsto> i')) hs"
proof (rule ql_handlers_ok_set [OF assms(1-3)])
  show "ioh_inv hs" using assms(1) by (simp add: ql_handlers_ok_def)
  from assms(1,2,4) have "fd_handlers hs (qi_fd i) = qio_handlers a (qi_wanted i')"
    by (simp add: ql_handlers_ok_def)
  then show "fd_handlers hs = (fd_handlers hs)(qi_fd i := qio_handlers a (qi_wanted i'))" by auto
qed

subsection \<open>Operations\<close>

text \<open>States that agree on everything the event loop does not own.\<close>

definition ql_outer :: "('u, 'm) QLooper_scheme \<Rightarrow> ('u, 'm) QLooper_scheme \<Rightarrow> bool" where
  "ql_outer l t \<longleftrightarrow> ql_ctx t = ql_ctx l \<and> ql_io_bh t = ql_io_bh l \<and> QLooper.more t = QLooper.more l"

lemma ql_outer_refl [simp]: "ql_outer l l"
  by (simp add: ql_outer_def)

lemma ql_outer_trans: "ql_outer l t \<Longrightarrow> ql_outer t u \<Longrightarrow> ql_outer l u"
  by (simp add: ql_outer_def)

lemma ql_frame_outer: "ql_frame l t \<Longrightarrow> ql_outer l t"
  using ql_frameD [of l t] by (simp add: ql_outer_def)

lemma ql_armed_shrink:
  assumes "ql_good l xs ps D" and "ql_good t xs' ps' D'" and "set ps' \<subseteq> set ps" and "ql_outer l t" and "ql_armed l"
  shows "ql_armed t"
proof -
  have "ql_io_pending t \<noteq> NULL \<Longrightarrow> ql_io_pending l \<noteq> NULL"
    using assms(1-3) is_list_NULL_iff unfolding ql_good_def ql_rep_def by (metis set_empty subset_empty)
  with assms(4,5) show ?thesis by (auto simp: ql_armed_def ql_outer_def)
qed

lemma qio_set_handler_ok:
  assumes "ioh_inv (ql_handlers l)" and "0 \<le> fd"
  shows "\<exists>t. qio_set_handler fd r w b l = Some t \<and> ioh_inv (ql_handlers t) \<and>
    fd_handlers (ql_handlers t) = (fd_handlers (ql_handlers l))(fd := if r = None \<and> w = None then None else Some (r, w, b)) \<and>
    ql_outer l t \<and> t = l\<lparr>ql_handlers := ql_handlers t\<rparr>"
  using qemu_set_fd_handler_spec [OF assms, of r w b] by (auto simp: qio_set_handler_def ql_outer_def)

lemma ql_rep_handlers [simp]: "ql_rep (l\<lparr>ql_handlers := hs\<rparr>) xs ps D = ql_rep l xs ps D"
  by (simp add: ql_rep_def)

lemma qemu_bh_schedule_Some:
  assumes "ac_bhs ctx bh = Some b"
  shows "\<exists>c. qemu_bh_schedule bh ctx = Some c \<and> ac_bhs c bh = Some (b\<lparr>bh_idle := False, bh_scheduled := True\<rparr>)"
  using assms by (auto simp: qemu_bh_schedule_def bh_upd_def aio_notify_def)

lemma qlooper_addPendingIo_ok:
  assumes r: "ql_rep l xs ps D" and a: "a \<in> set xs" "a \<notin> set ps"
    and b: "ac_bhs (ql_ctx l) (ql_io_bh l) = Some b"
  shows "\<exists>t b'. qlooper_addPendingIo a l = Some t \<and> ql_rep t xs (a # ps) D \<and> ql_handlers t = ql_handlers l \<and>
    ql_io_bh t = ql_io_bh l \<and> QLooper.more t = QLooper.more l \<and>
    ac_bhs (ql_ctx t) (ql_io_bh l) = Some b' \<and> bh_deleted b' = bh_deleted b \<and> (ql_armed l \<longrightarrow> bh_scheduled b')"
proof -
  obtain i where i: "ql_ios l a = Some i" using ql_rep_at [OF r a(1)] by blast
  have pn: "ql_io_pending l = NULL \<longleftrightarrow> ps = []" by (rule is_list_NULL_iff [OF ql_repD(2) [OF r]])
  obtain ctx b' where c: "(if ql_io_pending l = NULL then qemu_bh_schedule (ql_io_bh l) (ql_ctx l) else Some (ql_ctx l)) = Some ctx"
    "ac_bhs ctx (ql_io_bh l) = Some b'" "bh_deleted b' = bh_deleted b" "ql_armed l \<longrightarrow> bh_scheduled b'"
    using qemu_bh_schedule_Some [OF b] b pn by (cases "ps = []") (auto simp: ql_armed_def)
  let ?h = "(ql_ios l)(a \<mapsto> set_qi_pendingNext (ql_io_pending l) i)"
  let ?t = "l\<lparr>ql_ctx := ctx, ql_ios := ?h, ql_io_pending := a\<rparr>"
  have "is_list qi_next ?h (ql_io_list l) xs" by (rule is_list_upd_same [OF ql_repD(1) [OF r] i]) simp
  moreover have "is_list qi_pendingNext ?h a (a # ps)"
    using is_list_upd_notin [OF ql_repD(2) [OF r] a(2)] is_list_nonnull [OF ql_repD(1) [OF r] a(1)] by simp
  moreover have "qi_data ?h = D"
    using qi_data_upd [where h = "ql_ios l" and a = a and i = i and i' = "set_qi_pendingNext (ql_io_pending l) i"] i ql_repD(5) [OF r]
    by (simp del: fun_upd_apply)
  ultimately have "ql_rep ?t xs (a # ps) D" using r a(1) unfolding ql_rep_def by (auto simp del: fun_upd_apply)
  moreover have "qlooper_addPendingIo a l = Some ?t" using c(1) i by (simp add: qlooper_addPendingIo_def)
  ultimately show ?thesis using c by (intro exI [of _ ?t] exI [of _ b']) simp
qed

text \<open>
  Recording readiness keeps the looper armed. (It is not armed while its bottom half runs.)
\<close>

lemma qloopio_setReady_ok:
  assumes g: "ql_good l xs ps D" and a: "D a = Some i" and fl: "flag \<noteq> 0"
  shows "\<exists>t. qloopio_setReady a flag l = Some t \<and>
    ql_good t xs (if qi_ready i = 0 then a # ps else ps) (D(a \<mapsto> i\<lparr>qi_ready := qi_ready i OR flag\<rparr>)) \<and>
    (ql_armed l \<longrightarrow> ql_armed t) \<and> QLooper.more t = QLooper.more l"
proof -
  have r: "ql_rep l xs ps D" and rd: "\<And>a i. D a = Some i \<Longrightarrow> qi_ready i \<noteq> 0 \<longleftrightarrow> a \<in> set ps"
    and h: "ql_handlers_ok D (ql_handlers l)" using g by (auto simp: ql_good_def)
  obtain b where b: "ac_bhs (ql_ctx l) (ql_io_bh l) = Some b" "\<not> bh_deleted b"
    using g by (auto simp: ql_good_def ql_bh_ok_def)
  from a ql_repD(6) [OF r] have ax: "a \<in> set xs" by blast
  obtain i' where i': "ql_ios l a = Some i'" "D a = Some (qi_un i')" using r ax by (rule ql_rep_at)
  then have ir: "qi_ready i' = qi_ready i" using a by auto
  let ?ps = "if qi_ready i = 0 then a # ps else ps" and ?i = "i\<lparr>qi_ready := qi_ready i OR flag\<rparr>"
  have pn: "ql_io_pending l = NULL \<longleftrightarrow> ps = []" by (rule is_list_NULL_iff [OF ql_repD(2) [OF r]])
  obtain t b' where t: "(if qi_ready i' = 0 then qlooper_addPendingIo a l else Some l) = Some t"
    "ql_rep t xs ?ps D" "ql_handlers t = ql_handlers l" "ql_io_bh t = ql_io_bh l" "QLooper.more t = QLooper.more l"
    "ac_bhs (ql_ctx t) (ql_io_bh l) = Some b'" "\<not> bh_deleted b'" "ql_armed l \<longrightarrow> bh_scheduled b'"
  proof (cases "qi_ready i = 0")
    case True
    with rd [OF a] qlooper_addPendingIo_ok [OF r ax _ b(1)] b(2) ir that show ?thesis by auto
  next
    case False
    with rd [OF a] have "ps \<noteq> []" by auto
    with False b pn r ir that [of l b] show ?thesis by (auto simp: ql_armed_def)
  qed
  obtain u where u: "qio_upd a (\<lambda>i. i\<lparr>qi_ready := qi_ready i OR flag\<rparr>) t = Some u"
    "ql_rep u xs ?ps (D(a \<mapsto> ?i))" "ql_frame t u"
    using qio_upd_rep [OF t(2) ax, of "\<lambda>i. i\<lparr>qi_ready := qi_ready i OR flag\<rparr>"] a
    by (auto simp: qi_un_def set_qi_next_def set_qi_pendingNext_def)
  note uf = ql_frameD [OF u(3)]
  have "qi_ready ?i \<noteq> 0" using fl by (simp add: or_eq_0_iff)
  then have "\<forall>b j. (D(a \<mapsto> ?i)) b = Some j \<longrightarrow> (qi_ready j \<noteq> 0 \<longleftrightarrow> b \<in> set ?ps)"
    using rd a by auto
  moreover have "ql_handlers_ok (D(a \<mapsto> ?i)) (ql_handlers u)"
    using ql_handlers_ok_ready [OF h a, of ?i] uf t(3) by simp
  moreover have "ql_bh_ok u" and ua: "ql_armed l \<longrightarrow> ql_armed u" using uf t(4,6-8) by (simp_all add: ql_bh_ok_def ql_armed_def)
  ultimately have "ql_good u xs ?ps (D(a \<mapsto> ?i))" using u(2) by (simp add: ql_good_def)
  moreover have "qloopio_setReady a flag l = Some u" using i' t(1) u(1) by (simp add: qloopio_setReady_def)
  ultimately show ?thesis using ua uf t(5) by auto
qed

lemma qloopio_modify_ok:
  assumes g: "ql_good l xs ps D" and a: "D a = Some i"
  shows "\<exists>t ps' rd. qloopio_modify a w l = Some t \<and> ql_good t xs ps' (D(a \<mapsto> i\<lparr>qi_ready := rd, qi_wanted := w\<rparr>)) \<and>
    set ps' \<subseteq> set ps \<and> ql_outer l t"
proof -
  have r: "ql_rep l xs ps D" and rd: "\<And>a i. D a = Some i \<Longrightarrow> qi_ready i \<noteq> 0 \<longleftrightarrow> a \<in> set ps"
    and h: "ql_handlers_ok D (ql_handlers l)" and bh: "ql_bh_ok l" using g by (auto simp: ql_good_def)
  from a ql_repD(6) [OF r] have ax: "a \<in> set xs" by blast
  obtain i' where i': "ql_ios l a = Some i'" "D a = Some (qi_un i')" using r ax by (rule ql_rep_at)
  then have ii: "i = qi_un i'" using a by simp
  show ?thesis
  proof (cases "w = qi_wanted i")
    case True
    then have "qloopio_modify a w l = Some l" using i' ii by (simp add: qloopio_modify_def)
    moreover have "D(a \<mapsto> i\<lparr>qi_ready := qi_ready i, qi_wanted := w\<rparr>) = D" using True a by auto
    ultimately show ?thesis using g by (intro exI [of _ l] exI [of _ ps] exI [of _ "qi_ready i"]) simp
  next
    case False
    let ?c = "qi_ready i \<noteq> 0 \<and> qi_ready i AND w = 0"
    let ?ps = "if ?c then remove1 a ps else ps" and ?rd = "if ?c then 0 else qi_ready i"
    have d: "distinct ps" by (rule is_list_distinct [OF ql_repD(2) [OF r]])
    obtain t where t: "(if ?c then qloopio_removePending a l else Some l) = Some t"
      "ql_rep t xs ?ps (D(a \<mapsto> i\<lparr>qi_ready := ?rd\<rparr>))" "ql_frame l t"
    proof (cases ?c)
      case True
      then show ?thesis using qloopio_removePending_rep [OF r a] that by auto
    next
      case False
      then have "?rd = qi_ready i" by simp
      then have eqD: "D(a \<mapsto> i\<lparr>qi_ready := ?rd\<rparr>) = D" using a by auto
      from False r show ?thesis using that [of l] unfolding eqD by auto
    qed
    note tf = ql_frameD [OF t(3)]
    let ?r = "if w AND LOOP_IO_READ \<noteq> 0 then Some HandleRead else None"
    let ?w = "if w AND LOOP_IO_WRITE \<noteq> 0 then Some HandleWrite else None"
    have fd: "ioh_inv (ql_handlers t)" "0 \<le> qi_fd i" using h a tf by (auto simp: ql_handlers_ok_def)
    obtain u where u: "qio_set_handler (qi_fd i) ?r ?w a t = Some u" "ioh_inv (ql_handlers u)"
      "fd_handlers (ql_handlers u) = (fd_handlers (ql_handlers t))(qi_fd i := if ?r = None \<and> ?w = None then None else Some (?r, ?w, a))"
      "ql_outer t u" "u = t\<lparr>ql_handlers := ql_handlers u\<rparr>"
      using qio_set_handler_ok [OF fd, of ?r ?w a] by blast
    have "ql_rep u xs ?ps (D(a \<mapsto> i\<lparr>qi_ready := ?rd\<rparr>))" by (subst u(5)) (simp add: t(2))
    from qio_upd_rep [OF this ax, of "\<lambda>i. i\<lparr>qi_wanted := w\<rparr>"]
    obtain v where v: "qio_upd a (\<lambda>i. i\<lparr>qi_wanted := w\<rparr>) u = Some v"
      "ql_rep v xs ?ps (D(a \<mapsto> i\<lparr>qi_ready := ?rd, qi_wanted := w\<rparr>))" "ql_frame u v"
      by (auto simp: qi_un_def set_qi_next_def set_qi_pendingNext_def)
    note vf = ql_frameD [OF v(3)]
    let ?i = "i\<lparr>qi_ready := ?rd, qi_wanted := w\<rparr>"
    have out: "ql_outer l v"
      using ql_outer_trans [OF ql_frame_outer [OF t(3)] ql_outer_trans [OF u(4) ql_frame_outer [OF v(3)]]] .
    have "ql_handlers_ok (D(a \<mapsto> ?i)) (ql_handlers v)"
      unfolding vf by (rule ql_handlers_ok_set [OF h a _ u(2)]) (use u(3) tf in \<open>auto simp: qio_handlers_def Let_def\<close>)
    moreover have "\<forall>b j. (D(a \<mapsto> ?i)) b = Some j \<longrightarrow> (qi_ready j \<noteq> 0 \<longleftrightarrow> b \<in> set ?ps)"
      using rd a d by auto
    moreover have "ql_bh_ok v" using bh out ql_bh_ok_cong by (auto simp: ql_outer_def)
    ultimately have "ql_good v xs ?ps (D(a \<mapsto> ?i))" using v(2) unfolding ql_good_def by blast
    moreover have "qloopio_modify a w l = Some v"
      using i' ii False t(1) u(1) v(1) by (simp add: qloopio_modify_def Let_def)
    moreover have "set ?ps \<subseteq> set ps" using set_remove1_subset [of a ps] by auto
    ultimately show ?thesis using out by blast
  qed
qed

lemma qloopio_free_ok:
  assumes g: "ql_good l xs ps D" and a: "D a = Some i"
  shows "\<exists>t. qloopio_free a l = Some t \<and> ql_good t (remove1 a xs) (remove1 a ps) (D(a := None)) \<and> ql_outer l t"
proof -
  have r: "ql_rep l xs ps D" and rd: "\<And>a i. D a = Some i \<Longrightarrow> qi_ready i \<noteq> 0 \<longleftrightarrow> a \<in> set ps"
    and h: "ql_handlers_ok D (ql_handlers l)" and bh: "ql_bh_ok l" using g by (auto simp: ql_good_def)
  from a ql_repD(6) [OF r] have ax: "a \<in> set xs" by blast
  obtain i' where i': "ql_ios l a = Some i'" "D a = Some (qi_un i')" using r ax by (rule ql_rep_at)
  then have ii: "i = qi_un i'" using a by simp
  have d: "distinct ps" "distinct xs" using is_list_distinct ql_repD(1,2) [OF r] by blast+
  obtain t D1 where t: "(if qi_ready i \<noteq> 0 then qloopio_removePending a l else Some l) = Some t"
    "ql_rep t xs (remove1 a ps) D1" "D1(a := None) = D(a := None)" "ql_frame l t"
  proof (cases "qi_ready i = 0")
    case True
    with rd [OF a] r that [of l D] show ?thesis by (auto simp: remove1_idem)
  next
    case False
    with qloopio_removePending_rep [OF r a] that show ?thesis by fastforce
  qed
  note tf = ql_frameD [OF t(4)]
  obtain u where u: "qlooper_delIo a t = Some u" "is_list qi_next (ql_ios u) (ql_io_list u) (remove1 a xs)"
    "is_list qi_pendingNext (ql_ios u) (ql_io_pending u) (remove1 a ps)" "qi_data (ql_ios u) = D1" "ql_frame t u"
    using qlooper_delIo_rep [OF t(2) ax] by blast
  note uf = ql_frameD [OF u(5)]
  have fd: "ioh_inv (ql_handlers u)" "0 \<le> qi_fd i" using h a tf uf by (auto simp: ql_handlers_ok_def)
  obtain v where v: "qio_set_handler (qi_fd i) None None NULL u = Some v" "ioh_inv (ql_handlers v)"
    "fd_handlers (ql_handlers v) = (fd_handlers (ql_handlers u))(qi_fd i := None)"
    "ql_outer u v" "v = u\<lparr>ql_handlers := ql_handlers v\<rparr>"
    using qio_set_handler_ok [OF fd, of None None NULL] by auto
  let ?z = "v\<lparr>ql_ios := (ql_ios v)(a := None)\<rparr>"
  have vs: "ql_ios v = ql_ios u" "ql_io_list v = ql_io_list u" "ql_io_pending v = ql_io_pending u" by (subst v(5); simp)+
  have na: "a \<notin> set (remove1 a xs)" "a \<notin> set (remove1 a ps)" using d by auto
  have zd: "qi_data (ql_ios ?z) = D(a := None)" using u(4) t(3) by (simp add: vs qi_data_del)
  have "dom (ql_ios ?z) = set (remove1 a xs)"
    using arg_cong [OF zd, of dom] ql_repD(6) [OF r] d by (simp del: fun_upd_apply)
  moreover have "set (remove1 a ps) \<subseteq> set (remove1 a xs)" using ql_repD(3) [OF r] d by auto
  ultimately have "ql_rep ?z (remove1 a xs) (remove1 a ps) (D(a := None))"
    using zd is_list_upd_notin [OF u(2) na(1)] is_list_upd_notin [OF u(3) na(2)] by (simp add: ql_rep_def vs)
  moreover have "\<forall>b j. (D(a := None)) b = Some j \<longrightarrow> (qi_ready j \<noteq> 0 \<longleftrightarrow> b \<in> set (remove1 a ps))"
    using rd d by (auto split: if_splits)
  moreover have "ql_handlers_ok (D(a := None)) (ql_handlers ?z)"
    using ql_handlers_ok_del [OF h a v(2)] v(3) uf tf by simp
  moreover have out: "ql_outer l ?z"
    using ql_frame_outer [OF t(4)] ql_frame_outer [OF u(5)] v(4) by (simp add: ql_outer_def)
  ultimately have "ql_good ?z (remove1 a xs) (remove1 a ps) (D(a := None))"
    using bh by (simp add: ql_good_def ql_bh_ok_def ql_outer_def)
  moreover have "qloopio_free a l = Some ?z" using i'(1) ii t(1) u(1) v(1) by (simp add: qloopio_free_def)
  ultimately show ?thesis using out by blast
qed

lemma qloopio_new_ok:
  assumes g: "ql_good l xs ps D" and new: "a \<noteq> NULL" "a \<notin> dom (ql_ios l)" and fd: "0 \<le> fd"
    and fdn: "\<And>b j. D b = Some j \<Longrightarrow> qi_fd j \<noteq> fd"
    and i: "i = \<lparr>qi_fd = fd, qi_user_callback = cb, qi_user_opaque = opq, qi_wanted = 0, qi_ready = 0,
        qi_pendingNext = NULL, qi_next = NULL\<rparr>"
  shows "\<exists>t. qloopio_new fd cb opq a l = Some t \<and> ql_good t (a # xs) ps (D(a \<mapsto> i)) \<and> ql_outer l t"
proof -
  have r: "ql_rep l xs ps D" and rd: "\<And>a i. D a = Some i \<Longrightarrow> qi_ready i \<noteq> 0 \<longleftrightarrow> a \<in> set ps"
    and h: "ql_handlers_ok D (ql_handlers l)" and bh: "ql_bh_ok l" using g by (auto simp: ql_good_def)
  let ?h = "(ql_ios l)(a \<mapsto> set_qi_next (ql_io_list l) i)"
  let ?t = "l\<lparr>ql_ios := ?h, ql_io_list := a\<rparr>"
  have na: "a \<notin> set xs" "a \<notin> set ps" using new ql_repD(3,4) [OF r] by auto
  have un: "qi_un i = i" by (simp add: i qi_un_def set_qi_next_def set_qi_pendingNext_def)
  have "is_list qi_next ?h a (a # xs)" using is_list_upd_notin [OF ql_repD(1) [OF r] na(1)] new(1) by simp
  moreover have "is_list qi_pendingNext ?h (ql_io_pending l) ps" by (rule is_list_upd_notin [OF ql_repD(2) [OF r] na(2)])
  moreover have "qi_data ?h = D(a \<mapsto> i)" using ql_repD(5) [OF r] un by (simp add: qi_data_set)
  ultimately have "ql_rep ?t (a # xs) ps (D(a \<mapsto> i))" using r unfolding ql_rep_def by auto
  moreover have "\<forall>b j. (D(a \<mapsto> i)) b = Some j \<longrightarrow> (qi_ready j \<noteq> 0 \<longleftrightarrow> b \<in> set ps)"
    using rd na(2) by (auto simp: i)
  moreover have "D a = None" using na(1) ql_repD(6) [OF r] by auto
  from ql_handlers_ok_new [OF h this fd, of i] fdn
  have "ql_handlers_ok (D(a \<mapsto> i)) (ql_handlers ?t)" by (simp add: i)
  ultimately have "ql_good ?t (a # xs) ps (D(a \<mapsto> i))" using bh by (simp add: ql_good_def ql_bh_ok_def)
  moreover have "qloopio_new fd cb opq a l = Some ?t" by (simp add: qloopio_new_def qlooper_addIo_def i)
  ultimately show ?thesis by (auto simp: ql_outer_def)
qed

end
