(* ===== verification/QLooperRun.thy ===== *)
theory QLooperRun
  imports QLooperInv
begin

text \<open>
  The event loop of \<open>looper-qemu.c\<close> at work: it provides the \<open>LoopIo\<close> interface, its bottom
  half calls every pending watcher once and ends, its handlers never see a freed watcher, and
  destroying it frees every watcher and every handler.
\<close>

subsection \<open>The \<open>LoopIo\<close> interface\<close>

definition ql_wanted :: "('u, 'm) QLooper_scheme \<Rightarrow> addr \<rightharpoonup> u32" where
  "ql_wanted l a = map_option qi_wanted (ql_ios l a)"

lemma ql_wanted_rep: "ql_rep l xs ps D \<Longrightarrow> ql_wanted l a = map_option qi_wanted (D a)"
  by (auto simp: ql_rep_def ql_wanted_def qi_data_def option.map_comp comp_def)

text \<open>
  What a client sees: the descriptor, callback and user pointer of every watcher, and which
  watchers are ready. \<open>ql_step\<close> relates states between which no watcher comes, goes or becomes
  ready.
\<close>

definition ql_watch :: "('u, 'm) QLooper_scheme \<Rightarrow> addr \<rightharpoonup> int \<times> 'u \<times> addr" where
  "ql_watch l a = map_option (\<lambda>i. (qi_fd i, qi_user_callback i, qi_user_opaque i)) (ql_ios l a)"

definition ql_ready :: "('u, 'm) QLooper_scheme \<Rightarrow> addr set" where
  "ql_ready l = {a. \<exists>i. ql_ios l a = Some i \<and> qi_ready i \<noteq> 0}"

definition ql_step :: "('u, 'm) QLooper_scheme \<Rightarrow> ('u, 'm) QLooper_scheme \<Rightarrow> bool" where
  "ql_step l t \<longleftrightarrow> ql_inv t \<and> ql_outer l t \<and> ql_watch t = ql_watch l \<and> ql_ready t \<subseteq> ql_ready l \<and>
     (ql_armed l \<longrightarrow> ql_armed t)"

lemma ql_step_refl: "ql_inv l \<Longrightarrow> ql_step l l"
  by (simp add: ql_step_def)

lemma ql_step_trans: "ql_step l t \<Longrightarrow> ql_step t u \<Longrightarrow> ql_step l u"
  unfolding ql_step_def using ql_outer_trans by (auto dest: subset_trans)

lemma ql_watch_rep:
  "ql_rep l xs ps D \<Longrightarrow> ql_watch l a = map_option (\<lambda>i. (qi_fd i, qi_user_callback i, qi_user_opaque i)) (D a)"
  by (auto simp: ql_rep_def ql_watch_def qi_data_def option.map_comp comp_def)

lemma ql_good_ready:
  assumes "ql_good l xs ps D" and "ql_ios l a = Some i"
  shows "qi_ready i \<noteq> 0 \<longleftrightarrow> a \<in> set ps"
proof -
  have "D a = Some (qi_un i)" using assms by (auto simp: ql_good_def ql_rep_def qi_data_def)
  moreover have "\<forall>a i. D a = Some i \<longrightarrow> (qi_ready i \<noteq> 0 \<longleftrightarrow> a \<in> set ps)" using assms(1) unfolding ql_good_def by blast
  ultimately show ?thesis using qi_un_fields(5) [of i] by metis
qed

lemma ql_ready_set:
  assumes "ql_good l xs ps D"
  shows "ql_ready l = set ps"
proof -
  have "\<exists>i. ql_ios l a = Some i" if "a \<in> set ps" for a
    using that assms is_list_live unfolding ql_good_def ql_rep_def by fast
  with ql_good_ready [OF assms] show ?thesis unfolding ql_ready_def by blast
qed

lemma ql_watch_inj:
  assumes "ql_inv l" and "ql_watch l a = Some (fd, u, v)" and "ql_watch l b = Some (fd, u', v')"
  shows "a = b"
proof -
  obtain xs ps D where g: "ql_good l xs ps D" using assms(1) by (auto simp: ql_inv_def)
  then have r: "ql_rep l xs ps D" and h: "ql_handlers_ok D (ql_handlers l)" by (simp_all add: ql_good_def)
  obtain i j where "D a = Some i" "D b = Some j" "qi_fd i = qi_fd j"
    using assms(2,3) unfolding ql_watch_rep [OF r] by auto
  with h show ?thesis unfolding ql_handlers_ok_def by blast
qed

lemma ql_inv_modify:
  assumes inv: "ql_inv l" and a: "ql_ios l a = Some i"
  shows "\<exists>t. qloopio_modify a w l = Some t \<and> ql_step l t \<and> ql_wanted t = (ql_wanted l)(a \<mapsto> w)"
proof -
  obtain xs ps D where g: "ql_good l xs ps D" using inv by (auto simp: ql_inv_def)
  then have r: "ql_rep l xs ps D" by (simp add: ql_good_def)
  from r a have d: "D a = Some (qi_un i)" by (auto simp: ql_rep_def qi_data_def)
  obtain t ps' rd where t: "qloopio_modify a w l = Some t"
    "ql_good t xs ps' (D(a \<mapsto> (qi_un i)\<lparr>qi_ready := rd, qi_wanted := w\<rparr>))" "set ps' \<subseteq> set ps" "ql_outer l t"
    using qloopio_modify_ok [OF g d] by blast
  then have rt: "ql_rep t xs ps' (D(a \<mapsto> (qi_un i)\<lparr>qi_ready := rd, qi_wanted := w\<rparr>))" by (simp add: ql_good_def)
  have "ql_wanted t = (ql_wanted l)(a \<mapsto> w)"
    using ql_wanted_rep [OF r] ql_wanted_rep [OF rt] by (auto simp: fun_eq_iff)
  moreover have "ql_watch t = ql_watch l"
    using ql_watch_rep [OF r] ql_watch_rep [OF rt] d by (auto simp: fun_eq_iff)
  moreover have "ql_ready t \<subseteq> ql_ready l" using ql_ready_set [OF g] ql_ready_set [OF t(2)] t(3) by simp
  ultimately show ?thesis
    using t ql_armed_shrink [OF g t(2-4)] unfolding ql_step_def ql_inv_def by blast
qed

lemma ql_inv_free:
  assumes inv: "ql_inv l" and a: "ql_ios l a = Some i"
  shows "\<exists>t. qloopio_free a l = Some t \<and> ql_inv t \<and> ql_wanted t = (ql_wanted l)(a := None) \<and> ql_outer l t \<and>
    ql_watch t = (ql_watch l)(a := None) \<and> ql_ready t \<subseteq> ql_ready l \<and> (ql_armed l \<longrightarrow> ql_armed t)"
proof -
  obtain xs ps D where g: "ql_good l xs ps D" using inv by (auto simp: ql_inv_def)
  then have r: "ql_rep l xs ps D" by (simp add: ql_good_def)
  from r a have d: "D a = Some (qi_un i)" by (auto simp: ql_rep_def qi_data_def)
  obtain t where t: "qloopio_free a l = Some t" "ql_good t (remove1 a xs) (remove1 a ps) (D(a := None))" "ql_outer l t"
    using qloopio_free_ok [OF g d] by blast
  then have rt: "ql_rep t (remove1 a xs) (remove1 a ps) (D(a := None))" by (simp add: ql_good_def)
  have "ql_wanted t = (ql_wanted l)(a := None)"
    using ql_wanted_rep [OF r] ql_wanted_rep [OF rt] by (auto simp: fun_eq_iff)
  moreover have "ql_watch t = (ql_watch l)(a := None)"
    using ql_watch_rep [OF r] ql_watch_rep [OF rt] by (auto simp: fun_eq_iff)
  moreover have "ql_ready t \<subseteq> ql_ready l"
    using ql_ready_set [OF g] ql_ready_set [OF t(2)] set_remove1_subset by auto
  ultimately show ?thesis
    using t ql_armed_shrink [OF g t(2) set_remove1_subset t(3)] unfolding ql_inv_def by blast
qed

lemma ql_wantedE:
  assumes "ql_wanted l a = Some w"
  obtains i where "ql_ios l a = Some i" and "qi_wanted i = w"
  using assms by (auto simp: ql_wanted_def)

interpretation qio: loop_io qlooper_io_class ql_inv ql_wanted
proof unfold_locales
  fix l :: "('u, 'm) QLooper_scheme" and a w
  assume inv: "ql_inv l" and w: "ql_wanted l a = Some w"
  from w obtain i where i: "ql_ios l a = Some i" "qi_wanted i = w" by (rule ql_wantedE)
  note m = ql_inv_modify [OF inv i(1)]
  show "\<exists>t. lc_wantRead qlooper_io_class a l = Some t \<and> ql_inv t \<and> ql_wanted t = (ql_wanted l)(a \<mapsto> w OR LOOP_IO_READ)"
    using m [of "w OR LOOP_IO_READ"] i by (auto simp: qlooper_io_class_def qloopio_wantRead_def ql_step_def)
  show "\<exists>t. lc_wantWrite qlooper_io_class a l = Some t \<and> ql_inv t \<and> ql_wanted t = (ql_wanted l)(a \<mapsto> w OR LOOP_IO_WRITE)"
    using m [of "w OR LOOP_IO_WRITE"] i by (auto simp: qlooper_io_class_def qloopio_wantWrite_def ql_step_def)
  show "\<exists>t. lc_dontWantRead qlooper_io_class a l = Some t \<and> ql_inv t \<and> ql_wanted t = (ql_wanted l)(a \<mapsto> w AND NOT LOOP_IO_READ)"
    using m [of "w AND NOT LOOP_IO_READ"] i by (auto simp: qlooper_io_class_def qloopio_dontWantRead_def ql_step_def)
  show "\<exists>t. lc_dontWantWrite qlooper_io_class a l = Some t \<and> ql_inv t \<and> ql_wanted t = (ql_wanted l)(a \<mapsto> w AND NOT LOOP_IO_WRITE)"
    using m [of "w AND NOT LOOP_IO_WRITE"] i by (auto simp: qlooper_io_class_def qloopio_dontWantWrite_def ql_step_def)
  show "\<exists>r. lc_poll qlooper_io_class a l = Some r" using i by (simp add: qlooper_io_class_def qloopio_poll_def)
  show "\<exists>t. lc_done qlooper_io_class a l = Some t \<and> ql_inv t \<and> ql_wanted t = (ql_wanted l)(a := None)"
    using ql_inv_free [OF inv i(1)] by (auto simp: qlooper_io_class_def)
qed

subsection \<open>The bottom half\<close>

lemma pop_pending:
  assumes g: "ql_good l xs (a # ps) D" and i: "ql_ios l a = Some i"
    and t: "t = l\<lparr>ql_io_pending := qi_pendingNext i, ql_ios := (ql_ios l)(a \<mapsto> i\<lparr>qi_pendingNext := NULL, qi_ready := 0\<rparr>)\<rparr>"
  shows "ql_good t xs ps (D(a \<mapsto> (the (D a))\<lparr>qi_ready := 0\<rparr>))" and "D a = Some (qi_un i)" and "ql_io_pending l = a"
proof -
  have r: "ql_rep l xs (a # ps) D" and rd: "\<And>a' i. D a' = Some i \<Longrightarrow> qi_ready i \<noteq> 0 \<longleftrightarrow> a' \<in> set (a # ps)"
    and h: "ql_handlers_ok D (ql_handlers l)" and bh: "ql_bh_ok l" using g by (auto simp: ql_good_def)
  show d: "D a = Some (qi_un i)" using r i by (auto simp: ql_rep_def qi_data_def)
  show "ql_io_pending l = a" using ql_repD(2) [OF r] by simp
  let ?i = "i\<lparr>qi_pendingNext := NULL, qi_ready := 0\<rparr>"
  have pl: "is_list qi_pendingNext (ql_ios l) (qi_pendingNext i) ps" using ql_repD(2) [OF r] i by simp
  have na: "a \<notin> set ps" using is_list_distinct [OF ql_repD(2) [OF r]] by simp
  have "is_list qi_next (ql_ios t) (ql_io_list t) xs"
    unfolding t by (simp, rule is_list_upd_same [OF ql_repD(1) [OF r] i]) simp
  moreover have "is_list qi_pendingNext (ql_ios t) (ql_io_pending t) ps"
    unfolding t using is_list_upd_notin [OF pl na] by simp
  moreover have un: "qi_un ?i = (qi_un i)\<lparr>qi_ready := 0\<rparr>"
    by (simp add: qi_un_def set_qi_next_def set_qi_pendingNext_def)
  then have "qi_data (ql_ios t) = D(a \<mapsto> (the (D a))\<lparr>qi_ready := 0\<rparr>)"
    using d ql_repD(5) [OF r] by (simp add: t qi_data_set)
  ultimately have "ql_rep t xs ps (D(a \<mapsto> (the (D a))\<lparr>qi_ready := 0\<rparr>))"
    using r i unfolding ql_rep_def by (auto simp: t)
  moreover have "\<forall>b j. (D(a \<mapsto> (the (D a))\<lparr>qi_ready := 0\<rparr>)) b = Some j \<longrightarrow> (qi_ready j \<noteq> 0 \<longleftrightarrow> b \<in> set ps)"
    using rd na d by auto
  moreover have "ql_handlers_ok (D(a \<mapsto> (the (D a))\<lparr>qi_ready := 0\<rparr>)) (ql_handlers t)"
    using ql_handlers_ok_ready [OF h d] d by (simp add: t)
  ultimately show "ql_good t xs ps (D(a \<mapsto> (the (D a))\<lparr>qi_ready := 0\<rparr>))"
    using bh by (simp add: ql_good_def ql_bh_ok_def t)
qed

text \<open>
  What the bottom half needs of the user callbacks: they return, keep the event loop's
  invariant and an invariant of their own, and make no further watcher pending. The state is
  read and written with \<open>get\<close> and \<open>put\<close>.
\<close>

locale io_client =
  fixes get :: "'s \<Rightarrow> ('u, 'm) QLooper_scheme" and put :: "('u, 'm) QLooper_scheme \<Rightarrow> 's \<Rightarrow> 's"
    and call :: "'u \<Rightarrow> addr \<Rightarrow> int \<Rightarrow> u32 \<Rightarrow> 's \<Rightarrow> 's option" and cinv :: "'s \<Rightarrow> bool"
  assumes get_put: "get (put l s) = l" and put_put: "put l (put l' s) = put l s" and put_get: "put (get s) s = s"
    and cinv_ctx: "cinv s \<Longrightarrow> cinv (put ((get s)\<lparr>ql_ctx := c\<rparr>) s)"
    and cinv_step: "cinv s \<Longrightarrow> ql_inv l \<Longrightarrow> ql_watch l = ql_watch (get s) \<Longrightarrow> ql_outer (get s) l \<Longrightarrow> cinv (put l s)"
    and call_ok: "cinv s \<Longrightarrow> ql_inv (get s) \<Longrightarrow> ql_watch (get s) a = Some (fd, cb, opq) \<Longrightarrow>
      \<exists>t. call cb opq fd rd s = Some t \<and> cinv t \<and> ql_inv (get t) \<and> ql_ready (get t) \<subseteq> ql_ready (get s) \<and>
        ql_ctx (get t) = ql_ctx (get s) \<and> ql_io_bh (get t) = ql_io_bh (get s)"
begin

lemma handle_io_bh_ok:
  assumes "cinv s" and "ql_good (get s) xs ps D"
  shows "\<exists>t xs' D'. qlooper_handle_io_bh get put call s = Some t \<and> cinv t \<and> ql_good (get t) xs' [] D' \<and>
    ql_ctx (get t) = ql_ctx (get s) \<and> ql_io_bh (get t) = ql_io_bh (get s)"
  using assms
proof (induction "length ps" arbitrary: s xs ps D rule: less_induct)
  case less
  then have r: "ql_rep (get s) xs ps D" by (simp add: ql_good_def)
  show ?case
  proof (cases ps)
    case Nil
    then have "ql_io_pending (get s) = NULL" using ql_repD(2) [OF r] by simp
    then have "qlooper_handle_io_bh get put call s = Some s" by (subst qlooper_handle_io_bh.simps) simp
    with less.prems Nil show ?thesis by auto
  next
    case (Cons a ps1)
    then have "a \<in> set xs" using ql_repD(3) [OF r] by auto
    then obtain i where i: "ql_ios (get s) a = Some i" "D a = Some (qi_un i)" using ql_rep_at [OF r] by blast
    define l1 where "l1 = (get s)\<lparr>ql_io_pending := qi_pendingNext i,
        ql_ios := (ql_ios (get s))(a \<mapsto> i\<lparr>qi_pendingNext := NULL, qi_ready := 0\<rparr>)\<rparr>"
    note pop = pop_pending [OF less.prems(2) [unfolded Cons] i(1) l1_def]
    have "a \<noteq> NULL" using is_list_nonnull [OF ql_repD(2) [OF r]] Cons by simp
    have g1: "ql_good l1 xs ps1 (D(a \<mapsto> (qi_un i)\<lparr>qi_ready := 0\<rparr>))" using pop(1) i(2) by simp
    have w1: "ql_watch l1 = ql_watch (get s)" using i(1) by (auto simp: ql_watch_def l1_def fun_eq_iff)
    have c1: "cinv (put l1 s)"
      by (rule cinv_step [OF less.prems(1) _ w1]) (use g1 in \<open>auto simp: ql_inv_def ql_outer_def l1_def\<close>)
    have w1': "ql_watch (get (put l1 s)) a = Some (qi_fd i, qi_user_callback i, qi_user_opaque i)"
      using i(1) by (simp add: get_put ql_watch_def l1_def)
    have q1: "ql_inv (get (put l1 s))" "ql_ctx l1 = ql_ctx (get s)" "ql_io_bh l1 = ql_io_bh (get s)"
      using g1 by (auto simp: get_put ql_inv_def l1_def)
    obtain t where t: "call (qi_user_callback i) (qi_user_opaque i) (qi_fd i) (qi_ready i) (put l1 s) = Some t"
      "cinv t" "ql_inv (get t)" "ql_ready (get t) \<subseteq> ql_ready l1"
      "ql_ctx (get t) = ql_ctx (get s)" "ql_io_bh (get t) = ql_io_bh (get s)"
      using call_ok [OF c1 q1(1) w1', of "qi_ready i"] unfolding get_put q1(2,3) by blast
    obtain xs' ps' D' where t3: "ql_good (get t) xs' ps' D'" using t(3) by (auto simp: ql_inv_def)
    have "set ps' \<subseteq> set ps1" using t(4) ql_ready_set [OF t3] ql_ready_set [OF g1] by simp
    moreover have "distinct ps'" using t3 is_list_distinct by (auto simp: ql_good_def ql_rep_def)
    ultimately have "length ps' \<le> length ps1" by (metis card_mono distinct_card List.finite_set order_trans card_length)
    then have "length ps' < length ps" using Cons by simp
    from less.hyps [OF this t(2) t3] obtain u xs2 D2 where
      u: "qlooper_handle_io_bh get put call t = Some u" "cinv u" "ql_good (get u) xs2 [] D2"
      "ql_ctx (get u) = ql_ctx (get t)" "ql_io_bh (get u) = ql_io_bh (get t)" by blast
    have "qlooper_handle_io_bh get put call s = qlooper_handle_io_bh get put call t"
      using pop(3) \<open>a \<noteq> NULL\<close> i(1) t(1) by (subst qlooper_handle_io_bh.simps) (simp add: Let_def l1_def)
    with u t(5,6) show ?thesis by auto
  qed
qed

text \<open>As a bottom half of the context: the context is the looper's own.\<close>

definition in_ctx where
  "in_ctx ctx s = put ((get s)\<lparr>ql_ctx := ctx\<rparr>) s"

definition run_bh where
  "run_bh cb (opq :: addr) st = (case cb of HandleIoBh \<Rightarrow> case st of (ctx, s) \<Rightarrow>
     map_option (\<lambda>t. (ql_ctx (get t), t)) (qlooper_handle_io_bh get put call (in_ctx ctx s)))"

definition bh_ok where
  "bh_ok ctx s \<longleftrightarrow> cinv (in_ctx ctx s) \<and> ql_inv (get (in_ctx ctx s))"

lemma in_ctx_change:
  assumes "bh_ok ctx s" and "\<And>a b. ac_bhs ctx a = Some b \<Longrightarrow> \<exists>b'. ac_bhs ctx' a = Some b' \<and> bh_deleted b' = bh_deleted b"
  shows "bh_ok ctx' s"
proof -
  have eq: "in_ctx ctx' s = put ((get (in_ctx ctx s))\<lparr>ql_ctx := ctx'\<rparr>) (in_ctx ctx s)"
    by (simp add: in_ctx_def get_put put_put)
  obtain xs ps D where "ql_good (get (in_ctx ctx s)) xs ps D" using assms(1) by (auto simp: bh_ok_def ql_inv_def)
  then have "ql_good (get (in_ctx ctx' s)) xs ps D"
    using assms(2) unfolding ql_good_def ql_rep_def ql_bh_ok_def in_ctx_def get_put by fastforce
  with assms(1) cinv_ctx show ?thesis by (auto simp: bh_ok_def ql_inv_def eq)
qed

end

sublocale io_client \<subseteq> iobh: bh_client run_bh bh_ok
proof unfold_locales
  fix ctx xs s and cb :: bh_func and opq :: addr
  assume l: "bh_list ctx xs" and ok: "bh_ok ctx s"
  from ok obtain ys ps D where "cinv (in_ctx ctx s)" "ql_good (get (in_ctx ctx s)) ys ps D"
    by (auto simp: bh_ok_def ql_inv_def)
  from handle_io_bh_ok [OF this] obtain t zs D' where
    t: "qlooper_handle_io_bh get put call (in_ctx ctx s) = Some t" "cinv t" "ql_good (get t) zs [] D'"
      "ql_ctx (get t) = ctx" by (auto simp: in_ctx_def get_put)
  have "(get t)\<lparr>ql_ctx := ctx\<rparr> = get t" using t(4) by auto
  then have "in_ctx ctx t = t" by (simp add: in_ctx_def put_get)
  with t(2,3) have "bh_ok ctx t" unfolding bh_ok_def ql_inv_def by auto
  moreover have "run_bh cb opq (ctx, s) = Some (ctx, t)" using t(1,4) by (cases cb) (simp add: run_bh_def)
  moreover have "bh_list ctx ([] @ xs)" using l by simp
  ultimately show "\<exists>ctx' s' new. run_bh cb opq (ctx, s) = Some (ctx', s') \<and> bh_list ctx' (new @ xs) \<and>
      ac_walking_bh ctx' = ac_walking_bh ctx \<and> bh_ok ctx' s'"
    by blast
next
  fix ctx s bh b
  assume ok: "bh_ok ctx s" and b: "ac_bhs ctx bh = Some b"
  show "bh_ok (ctx\<lparr>ac_bhs := (ac_bhs ctx)(bh \<mapsto> b\<lparr>bh_scheduled := False, bh_idle := False\<rparr>)\<rparr>) s"
    by (rule in_ctx_change [OF ok]) (use b in auto)
next
  fix ctx s n
  assume "bh_ok ctx s"
  then show "bh_ok (ctx\<lparr>ac_walking_bh := n\<rparr>) s" by (rule in_ctx_change) simp
qed

subsection \<open>Callbacks that leave the loop alone\<close>

text \<open>The call a pending watcher gets: callback, user pointer, descriptor and ready events.\<close>

definition qio_event :: "(addr \<rightharpoonup> 'u QLoopIo) \<Rightarrow> addr \<Rightarrow> 'u \<times> addr \<times> int \<times> u32" where
  "qio_event D a = (let i = the (D a) in (qi_user_callback i, qi_user_opaque i, qi_fd i, qi_ready i))"

definition qio_idle :: "(addr \<rightharpoonup> 'u QLoopIo) \<Rightarrow> addr \<rightharpoonup> 'u QLoopIo" where
  "qio_idle D a = map_option (\<lambda>i. i\<lparr>qi_ready := 0\<rparr>) (D a)"

definition log_call ::
  "'u \<Rightarrow> addr \<Rightarrow> int \<Rightarrow> u32 \<Rightarrow> ('u \<times> addr \<times> int \<times> u32) list \<times> 'l \<Rightarrow> (('u \<times> addr \<times> int \<times> u32) list \<times> 'l) option" where
  "log_call u opq fd ready st = Some (fst st @ [(u, opq, fd, ready)], snd st)"

definition put_snd :: "'l \<Rightarrow> 'a \<times> 'l \<Rightarrow> 'a \<times> 'l" where
  "put_snd l st = (fst st, l)"

lemma qio_idle_good: "ql_good l xs [] D \<Longrightarrow> qio_idle D = D"
  by (rule ext, rename_tac a, case_tac "D a") (auto simp: qio_idle_def ql_good_def)

lemma handle_io_bh_log:
  assumes "ql_good l xs ps D"
  shows "\<exists>t. qlooper_handle_io_bh snd put_snd log_call (log, l) = Some (log @ map (qio_event D) ps, t) \<and>
    ql_good t xs [] (qio_idle D) \<and> ql_outer l t"
  using assms
proof (induction ps arbitrary: l D log)
  case Nil
  then have "ql_io_pending l = NULL" by (simp add: ql_good_def ql_rep_def)
  with Nil qio_idle_good [OF Nil] show ?case by (subst qlooper_handle_io_bh.simps) simp
next
  case (Cons a ps)
  then have r: "ql_rep l xs (a # ps) D" by (simp add: ql_good_def)
  then have "a \<in> set xs" using ql_repD(3) by fastforce
  then obtain i where i: "ql_ios l a = Some i" using ql_rep_at [OF r] by blast
  define l1 where "l1 = l\<lparr>ql_io_pending := qi_pendingNext i,
        ql_ios := (ql_ios l)(a \<mapsto> i\<lparr>qi_pendingNext := NULL, qi_ready := 0\<rparr>)\<rparr>"
  note pop = pop_pending [OF Cons.prems i l1_def]
  let ?D = "D(a \<mapsto> (the (D a))\<lparr>qi_ready := 0\<rparr>)"
  have a: "a \<noteq> NULL" "a \<notin> set ps" using is_list_nonnull [OF ql_repD(2) [OF r], of a] is_list_distinct [OF ql_repD(2) [OF r]] by simp_all
  from Cons.IH [OF pop(1), of "log @ [qio_event D a]"] obtain t where
    t: "qlooper_handle_io_bh snd put_snd log_call (log @ [qio_event D a], l1) =
        Some ((log @ [qio_event D a]) @ map (qio_event ?D) ps, t)"
      "ql_good t xs [] (qio_idle ?D)" "ql_outer l1 t" by blast
  have "map (qio_event ?D) ps = map (qio_event D) ps" using a(2) by (auto simp: qio_event_def)
  moreover have "qio_idle ?D = qio_idle D" using pop(2) by (auto simp: qio_idle_def fun_eq_iff)
  moreover have "qlooper_handle_io_bh snd put_snd log_call (log, l) =
      qlooper_handle_io_bh snd put_snd log_call (log @ [qio_event D a], l1)"
    using pop(2,3) a(1) i
    by (subst qlooper_handle_io_bh.simps) (simp add: Let_def l1_def log_call_def put_snd_def qio_event_def)
  moreover have "ql_outer l t" using t(3) by (auto simp: ql_outer_def l1_def)
  ultimately show ?case using t by (intro exI [of _ t]) simp
qed

subsection \<open>Destruction\<close>

lemma qlooper_free_ios_ok:
  assumes "ql_good l xs ps D"
  shows "\<exists>t. qlooper_free_ios l = Some t \<and> ql_good t [] [] Map.empty \<and> ql_outer l t"
  using assms
proof (induction xs arbitrary: l ps D)
  case Nil
  then have "ql_io_list l = NULL" "ps = []" "D = Map.empty" using ql_repD [of l "[]" ps D] by (auto simp: ql_good_def)
  with Nil show ?case by (subst qlooper_free_ios.simps) simp
next
  case (Cons a xs)
  then have r: "ql_rep l (a # xs) ps D" by (simp add: ql_good_def)
  have a: "ql_io_list l = a" "a \<noteq> NULL" using ql_repD(1) [OF r] by auto
  obtain i where "D a = Some (qi_un i)" by (rule ql_rep_at [OF r, of a]) simp_all
  from qloopio_free_ok [OF Cons.prems this] obtain l1 where
    l1: "qloopio_free a l = Some l1" "ql_good l1 xs (remove1 a ps) (D(a := None))" "ql_outer l l1" by auto
  from Cons.IH [OF l1(2)] obtain t where "qlooper_free_ios l1 = Some t" "ql_good t [] [] Map.empty" "ql_outer l1 t" by blast
  moreover have "qlooper_free_ios l = qlooper_free_ios l1" using a l1(1) by (subst qlooper_free_ios.simps) simp
  ultimately show ?case using ql_outer_trans [OF l1(3)] by auto
qed

lemma qlooper_destroy_ok:
  assumes "ql_good l xs ps D"
  shows "\<exists>t b. qlooper_destroy l = Some t \<and> ql_ios t = Map.empty \<and> fd_handlers (ql_handlers t) = Map.empty \<and>
    ac_bhs (ql_ctx t) (ql_io_bh l) = Some b \<and> bh_deleted b"
proof -
  obtain u where u: "qlooper_free_ios l = Some u" "ql_good u [] [] Map.empty" "ql_outer l u"
    using qlooper_free_ios_ok [OF assms] by blast
  have "ql_ios u = Map.empty" using u(2) by (simp add: ql_good_def ql_rep_def)
  moreover have "fd_handlers (ql_handlers u) fd = None" for fd
    using u(2) by (cases "fd_handlers (ql_handlers u) fd") (auto simp: ql_good_def ql_handlers_ok_def)
  moreover obtain b where "ac_bhs (ql_ctx u) (ql_io_bh u) = Some b" using u(2) by (auto simp: ql_good_def ql_bh_ok_def)
  ultimately show ?thesis using u(1,3)
    by (auto simp: qlooper_destroy_def qemu_bh_delete_def bh_upd_def ql_outer_def fun_eq_iff)
qed

subsection \<open>Reachable loops\<close>

text \<open>The call of a registered handler by the main loop.\<close>

fun run_qhandler :: "qhandler \<Rightarrow> addr \<Rightarrow> ('u, 'm) QLooper_scheme \<Rightarrow> ('u, 'm) QLooper_scheme option" where
  "run_qhandler HandleRead a l = qloopio_handleRead a l"
| "run_qhandler HandleWrite a l = qloopio_handleWrite a l"

definition qio_ops :: "(addr \<Rightarrow> ('u, 'm) QLooper_scheme \<Rightarrow> ('u, 'm) QLooper_scheme option) set" where
  "qio_ops = {qloopio_wantRead, qloopio_wantWrite, qloopio_dontWantRead, qloopio_dontWantWrite, qloopio_free}"

text \<open>
  The loop from its creation on: watchers are created on descriptors that are not watched yet,
  changed and freed in any order, the main loop runs registered handlers and the bottom half.
\<close>

inductive ql_reach :: "'u QLooper \<Rightarrow> bool" where
  ql_new: "ioh_inv hs \<Longrightarrow> fd_handlers hs = Map.empty \<Longrightarrow> ql_reach (looper_newCore bh hs ctx)"
| ql_init: "ql_reach l \<Longrightarrow> io \<noteq> NULL \<Longrightarrow> ql_ios l io = None \<Longrightarrow> 0 \<le> fd \<Longrightarrow>
    \<forall>b i. ql_ios l b = Some i \<longrightarrow> qi_fd i \<noteq> fd \<Longrightarrow>
    qlooper_io_init fd cb opq io l = Some (lio, t) \<Longrightarrow> ql_reach t"
| ql_op: "ql_reach l \<Longrightarrow> op \<in> qio_ops \<Longrightarrow> op io l = Some t \<Longrightarrow> ql_reach t"
| ql_event: "ql_reach l \<Longrightarrow> fd_handlers (ql_handlers l) fd = Some (r, w, io) \<Longrightarrow> h \<in> set_option r \<union> set_option w \<Longrightarrow>
    run_qhandler h io l = Some t \<Longrightarrow> ql_reach t"
| ql_bh: "ql_reach l \<Longrightarrow> qlooper_handle_io_bh snd put_snd log_call (log, l) = Some (log', t) \<Longrightarrow> ql_reach t"

definition ql_ok :: "('u, 'm) QLooper_scheme \<Rightarrow> bool" where
  "ql_ok l \<longleftrightarrow> ql_inv l \<and> ql_armed l"

lemma newCore_ok: "ioh_inv hs \<Longrightarrow> fd_handlers hs = Map.empty \<Longrightarrow> ql_ok (looper_newCore bh hs ctx)"
  unfolding ql_ok_def ql_inv_def ql_armed_def
  by (auto intro!: exI [of _ "[]"] exI [of _ Map.empty]
      simp: ql_good_def ql_rep_def looper_newCore_def ql_handlers_ok_def ql_bh_ok_def aio_bh_new_def qi_data_def fun_eq_iff)

lemma io_init_ok:
  assumes ok: "ql_ok l" and new: "io \<noteq> NULL" "ql_ios l io = None" and fd: "0 \<le> fd"
    and fdn: "\<forall>b i. ql_ios l b = Some i \<longrightarrow> qi_fd i \<noteq> fd"
  shows "\<exists>t lio. qlooper_io_init fd cb opq io l = Some (lio, t) \<and> ql_ok t"
proof -
  obtain xs ps D where g: "ql_good l xs ps D" using ok by (auto simp: ql_ok_def ql_inv_def)
  have "D = qi_data (ql_ios l)" using g by (simp add: ql_good_def ql_rep_def)
  then have fdj: "\<And>b j. D b = Some j \<Longrightarrow> qi_fd j \<noteq> fd"
    subgoal for b j using fdn [rule_format, of b] by (cases "ql_ios l b") (auto simp: qi_data_def) done
  have "io \<notin> dom (ql_ios l)" using new(2) by auto
  have "\<exists>t. qloopio_new fd cb opq io l = Some t \<and> ql_good t (io # xs) ps (D(io \<mapsto> \<lparr>qi_fd = fd, qi_user_callback = cb,
      qi_user_opaque = opq, qi_wanted = 0, qi_ready = 0, qi_pendingNext = NULL, qi_next = NULL\<rparr>)) \<and> ql_outer l t"
    by (rule qloopio_new_ok [OF g new(1) \<open>io \<notin> dom (ql_ios l)\<close> fd _ refl]) (rule fdj)
  then obtain t where
    t: "qloopio_new fd cb opq io l = Some t" and gt: "\<exists>xs D. ql_good t xs ps D" and o: "ql_outer l t" by blast
  with ql_armed_shrink [OF g _ _ o] ok have "ql_ok t" by (auto simp: ql_ok_def ql_inv_def)
  with t show ?thesis by (simp add: qlooper_io_init_def)
qed

lemma qio_ops_ok:
  assumes ok: "ql_ok l" and i: "ql_ios l a = Some i" and op: "op \<in> qio_ops"
  shows "\<exists>t. op a l = Some t \<and> ql_ok t"
proof -
  have "\<exists>t. qloopio_modify a w l = Some t \<and> ql_ok t" for w
    using ql_inv_modify [OF _ i, of w] ok by (auto simp: ql_ok_def ql_step_def)
  moreover have "\<exists>t. qloopio_free a l = Some t \<and> ql_ok t" using ql_inv_free [OF _ i] ok by (auto simp: ql_ok_def)
  ultimately show ?thesis using op i
    by (auto simp: qio_ops_def qloopio_wantRead_def qloopio_wantWrite_def qloopio_dontWantRead_def qloopio_dontWantWrite_def)
qed

lemma qio_ops_dead: "ql_ios l a = None \<Longrightarrow> op \<in> qio_ops \<Longrightarrow> op a l = None"
  by (auto simp: qio_ops_def qloopio_wantRead_def qloopio_wantWrite_def qloopio_dontWantRead_def qloopio_dontWantWrite_def
      qloopio_free_def)

lemma run_qhandler_pending:
  assumes inv: "ql_inv l" and i: "ql_ios l a = Some i"
  shows "\<exists>t. run_qhandler h a l = Some t \<and> ql_inv t \<and> (ql_armed l \<longrightarrow> ql_armed t) \<and> ql_io_pending t \<noteq> NULL \<and>
    ql_watch t = ql_watch l \<and> QLooper.more t = QLooper.more l"
proof -
  obtain xs ps D where g: "ql_good l xs ps D" using inv by (auto simp: ql_inv_def)
  then have r: "ql_rep l xs ps D" by (simp add: ql_good_def)
  have d: "D a = Some (qi_un i)" using g i by (auto simp: ql_good_def ql_rep_def qi_data_def)
  have mem: "a \<in> set (if qi_ready (qi_un i) = 0 then a # ps else ps)" using ql_good_ready [OF g i] by simp
  have "\<exists>t. qloopio_setReady a fl l = Some t \<and> ql_inv t \<and> (ql_armed l \<longrightarrow> ql_armed t) \<and> ql_io_pending t \<noteq> NULL \<and>
      ql_watch t = ql_watch l \<and> QLooper.more t = QLooper.more l" if fl: "fl \<noteq> 0" for fl
  proof -
    from qloopio_setReady_ok [OF g d fl] obtain t where t: "qloopio_setReady a fl l = Some t" "ql_armed l \<longrightarrow> ql_armed t"
      "ql_good t xs (if qi_ready (qi_un i) = 0 then a # ps else ps) (D(a \<mapsto> (qi_un i)\<lparr>qi_ready := qi_ready (qi_un i) OR fl\<rparr>))"
      "QLooper.more t = QLooper.more l" by blast
    from t(3) have "ql_rep t xs (if qi_ready (qi_un i) = 0 then a # ps else ps)
        (D(a \<mapsto> (qi_un i)\<lparr>qi_ready := qi_ready (qi_un i) OR fl\<rparr>))" by (simp add: ql_good_def)
    from ql_watch_rep [OF this] ql_watch_rep [OF r] d have "ql_watch t = ql_watch l" by (auto simp: fun_eq_iff)
    moreover from t(3) have "is_list qi_pendingNext (ql_ios t) (ql_io_pending t) (if qi_ready (qi_un i) = 0 then a # ps else ps)"
      unfolding ql_good_def ql_rep_def by blast
    with mem have "ql_io_pending t \<noteq> NULL" using is_list_NULL_iff by fastforce
    ultimately show ?thesis using t unfolding ql_inv_def by blast
  qed
  then show ?thesis by (cases h) (simp_all add: qloopio_handleRead_def qloopio_handleWrite_def)
qed

lemma run_qhandler_ok: "ql_ok l \<Longrightarrow> ql_ios l a = Some i \<Longrightarrow> \<exists>t. run_qhandler h a l = Some t \<and> ql_ok t"
  using run_qhandler_pending [of l a i h] by (auto simp: ql_ok_def)

lemma map_qio_event:
  assumes "ql_rep l xs ps D"
  shows "map (qio_event D) ps = map (qio_event (ql_ios l)) ps"
proof (rule map_cong [OF refl])
  fix a assume "a \<in> set ps"
  then have "a \<in> set xs" using ql_repD(3) [OF assms] by blast
  then obtain i where "ql_ios l a = Some i" "D a = Some (qi_un i)" using ql_rep_at [OF assms] by blast
  then show "qio_event D a = qio_event (ql_ios l) a" by (simp add: qio_event_def)
qed

lemma ql_ok_handler:
  assumes "ql_ok l" and "fd_handlers (ql_handlers l) fd = Some (r, w, a)"
  obtains i where "ql_ios l a = Some i" and "qi_fd i = fd" and "qio_handlers a (qi_wanted i) = Some (r, w, a)"
proof -
  obtain xs ps D where g: "ql_good l xs ps D" using assms by (auto simp: ql_ok_def ql_inv_def)
  then obtain j where "D a = Some j" "qi_fd j = fd" "fd_handlers (ql_handlers l) fd = qio_handlers a (qi_wanted j)"
    using assms(2) unfolding ql_good_def ql_handlers_ok_def by metis
  moreover then obtain i where "ql_ios l a = Some i" "j = qi_un i" using g by (auto simp: ql_good_def ql_rep_def qi_data_def)
  ultimately show ?thesis using that assms(2) by simp
qed

lemma handle_io_bh_reach:
  assumes ok: "ql_ok l"
  shows "\<exists>t. qlooper_handle_io_bh snd put_snd log_call (log, l) = Some t \<and> ql_ok (snd t)"
proof -
  obtain xs ps D where g: "ql_good l xs ps D" using ok by (auto simp: ql_ok_def ql_inv_def)
  from handle_io_bh_log [OF g, of log] obtain t where
    "qlooper_handle_io_bh snd put_snd log_call (log, l) = Some (log @ map (qio_event D) ps, t)"
    and gt: "ql_good t xs [] (qio_idle D)" by blast
  moreover from gt have "ql_io_pending t = NULL" by (simp add: ql_good_def ql_rep_def)
  ultimately show ?thesis by (auto simp: ql_ok_def ql_inv_def ql_armed_def)
qed

lemma ql_reach_ok: "ql_reach l \<Longrightarrow> ql_ok l"
proof (induction rule: ql_reach.induct)
  case (ql_new hs bh ctx)
  then show ?case by (rule newCore_ok)
next
  case (ql_init l io fd cb opq lio t)
  with io_init_ok [of l io fd cb opq] show ?case by auto
next
  case (ql_op l op io t)
  then show ?case using qio_ops_ok [of l io _ op] qio_ops_dead [of l io op] by (cases "ql_ios l io") auto
next
  case (ql_event l fd r w io h t)
  then show ?case using ql_ok_handler [of l fd r w io] run_qhandler_ok [of l io _ h] by (metis option.inject)
next
  case (ql_bh l log log' t)
  with handle_io_bh_reach [of l log] show ?case by auto
qed

subsection \<open>Properties\<close>


definition ctx0 :: "bh_func AioContext" where
  "ctx0 = \<lparr>ac_notify_me = 0, ac_first_bh = NULL, ac_walking_bh = 0, ac_notified = False, ac_notifier = False,
     ac_notify_dummy_bh = NULL, ac_bhs = Map.empty\<rparr>"

definition loop1 :: "nat QLooper" where
  "loop1 = the (do { (_, l) \<leftarrow> qlooper_io_init 7 100 40 20 (looper_newCore 10 [] ctx0); qloopio_wantRead 20 l })"

lemmas loop1_eval = loop1_def looper_newCore_def ctx0_def qlooper_io_init_def qloopio_new_def qlooper_addIo_def
  qloopio_wantRead_def qloopio_modify_def qio_set_handler_def qemu_set_fd_handler_def qio_upd_def set_qi_next_def
  fd_handlers_def ioh_at_def aio_bh_new_def

lemma loop1_reach: "ql_reach loop1"
proof -
  have 0: "ql_reach (looper_newCore 10 [] ctx0 :: nat QLooper)"
    by (rule ql_new) (simp_all add: ioh_inv_def fd_handlers_def fun_eq_iff)
  obtain lio t where t: "qlooper_io_init 7 100 40 20 (looper_newCore 10 [] ctx0 :: nat QLooper) = Some (lio, t)"
    by (simp add: loop1_eval)
  have 1: "ql_reach t" by (rule ql_init [OF 0 _ _ _ _ t]) (simp_all add: looper_newCore_def)
  have 2: "qloopio_wantRead 20 t = Some loop1" using t by (auto simp: loop1_eval)
  show ?thesis by (rule ql_op [where op = qloopio_wantRead, OF 1 _ 2]) (simp add: qio_ops_def)
qed




text \<open>C26: Destroying the event loop terminates without a fault from every reachable state: it frees every
  watcher, leaves no handler registered with the main loop and marks the bottom half deleted.\<close>

theorem qlooper_destroy_frees:
  assumes "ql_reach l"
  shows "\<exists>t b. qlooper_destroy l = Some t \<and> ql_ios t = Map.empty \<and> fd_handlers (ql_handlers t) = Map.empty \<and>
    ac_bhs (ql_ctx t) (ql_io_bh l) = Some b \<and> bh_deleted b"
  using ql_reach_ok [OF assms] qlooper_destroy_ok by (auto simp: ql_ok_def ql_inv_def)

theorem qlooper_destroy_frees_witness: "\<exists>t. qlooper_destroy loop1 = Some t \<and> ql_ios t = Map.empty"
  using qlooper_destroy_frees [OF loop1_reach] by blast

end
