(* ===== verification/Sockets.thy ===== *)
theory Sockets
  imports SockAddr
begin

text \<open>
  The socket calls of \<open>host-qemu/android/sockets.c\<close> on top of the system calls, which are the
  parameter \<open>libc\<close>. A system call acts on the kernel state \<open>'k\<close> and returns its result, the
  value \<open>errno\<close> gets if the result is negative, and what it stored through its pointer
  arguments. Calls that are repeated while a signal interrupts them return \<open>None\<close> if they are
  interrupted forever.
\<close>

subsection \<open>System calls\<close>

type_synonym ('k, 'x) syscall = "'k \<Rightarrow> int \<times> int \<times> 'x \<times> 'k"

record 'k libc =
  c_socket :: "int \<Rightarrow> int \<Rightarrow> ('k, unit) syscall"
  c_connect :: "int \<Rightarrow> u8 list \<Rightarrow> ('k, unit) syscall"
  c_bind :: "int \<Rightarrow> u8 list \<Rightarrow> ('k, unit) syscall"
  c_listen :: "int \<Rightarrow> int \<Rightarrow> ('k, unit) syscall"
  c_accept :: "int \<Rightarrow> ('k, u8 list) syscall"
  c_send :: "int \<Rightarrow> u8 list \<Rightarrow> int \<Rightarrow> ('k, unit) syscall"
  c_sendto :: "int \<Rightarrow> u8 list \<Rightarrow> u8 list \<Rightarrow> ('k, unit) syscall"
  c_recv :: "int \<Rightarrow> int \<Rightarrow> ('k, u8 list) syscall"
  c_recvfrom :: "int \<Rightarrow> int \<Rightarrow> ('k, u8 list \<times> u8 list) syscall"
  c_getsockname :: "int \<Rightarrow> ('k, u8 list) syscall"
  c_getpeername :: "int \<Rightarrow> ('k, u8 list) syscall"
  c_getsockopt :: "int \<Rightarrow> int \<Rightarrow> int \<Rightarrow> ('k, int) syscall"
  c_setsockopt :: "int \<Rightarrow> int \<Rightarrow> int \<Rightarrow> u8 list \<Rightarrow> ('k, unit) syscall"
  c_getfl :: "int \<Rightarrow> ('k, unit) syscall"
  c_setfl :: "int \<Rightarrow> int \<Rightarrow> ('k, unit) syscall"
  c_fionread :: "int \<Rightarrow> ('k, int) syscall"
  c_shutdown :: "int \<Rightarrow> ('k, unit) syscall"
  c_close :: "int \<Rightarrow> ('k, unit) syscall"
  c_unlink :: "u8 list \<Rightarrow> ('k, unit) syscall"
  c_socketpair :: "('k, int \<times> int) syscall"

record 'k os =
  os_errno :: int
  os_kernel :: 'k

text \<open>One call: \<open>errno\<close> changes on failure only.\<close>

definition sys :: "('k, 'x) syscall \<Rightarrow> 'k os \<Rightarrow> int \<times> 'x \<times> 'k os" where
  "sys call w =
     (case call (os_kernel w) of (ret, err, x, k) \<Rightarrow>
        (ret, x, \<lparr>os_errno = (if ret < 0 then err else os_errno w), os_kernel = k\<rparr>))"

partial_function (option) handle_eintr :: "('k, 'x) syscall \<Rightarrow> 'k os \<Rightarrow> (int \<times> 'x \<times> 'k os) option" where
  "handle_eintr call w =
     (case sys call w of (ret, x, w1) \<Rightarrow>
        if ret < 0 \<and> os_errno w1 = EINTR then handle_eintr call w1 else Some (ret, x, w1))"

definition ignore_eintr :: "('k, 'x) syscall \<Rightarrow> 'k os \<Rightarrow> int \<times> 'x \<times> 'k os" where
  "ignore_eintr call w =
     (case sys call w of (ret, x, w1) \<Rightarrow> (if ret = -1 \<and> os_errno w1 = EINTR then 0 else ret, x, w1))"

definition qsocket_call :: "('k, 'x) syscall \<Rightarrow> 'k os \<Rightarrow> (int \<times> 'x \<times> 'k os) option" where
  "qsocket_call call w = handle_eintr call (w\<lparr>os_errno := 0\<rparr>)"

definition fix_errno :: int where
  "fix_errno = -1"

definition set_errno :: "int \<Rightarrow> 'k os \<Rightarrow> int \<times> 'k os" where
  "set_errno code w = (-1, w\<lparr>os_errno := code\<rparr>)"

definition socket_call :: "('k, 'x) syscall \<Rightarrow> 'k os \<Rightarrow> (int \<times> 'x \<times> 'k os) option" where
  "socket_call call w =
     do { (ret, x, w1) \<leftarrow> qsocket_call call w; Some (if ret < 0 then fix_errno else ret, x, w1) }"

definition drop_data :: "(int \<times> 'x \<times> 'k os) option \<Rightarrow> (int \<times> 'k os) option" where
  "drop_data r = map_option (\<lambda>(ret, x, w). (ret, w)) r"

text \<open>The address argument of a call; its failure leaves \<open>errno\<close> as it is or sets it.\<close>

definition with_bsd :: "SockAddress \<Rightarrow> (u8 list \<Rightarrow> 'k os \<Rightarrow> (int \<times> 'k os) option) \<Rightarrow> 'k os \<Rightarrow> (int \<times> 'k os) option" where
  "with_bsd a f w =
     (case sock_address_to_bsd a of
        Inl None \<Rightarrow> Some (-1, w)
      | Inl (Some code) \<Rightarrow> Some (set_errno code w)
      | Inr bs \<Rightarrow> f bs w)"

text \<open>An address the kernel stored; \<open>Inl\<close> sets \<open>errno\<close>.\<close>

definition read_bsd :: "u8 list \<Rightarrow> 'k os \<Rightarrow> (int \<times> SockAddress option \<times> 'k os) option" where
  "read_bsd bs w =
     do { r \<leftarrow> sock_address_from_bsd bs;
          Some (case r of Inl code \<Rightarrow> (-1, None, w\<lparr>os_errno := code\<rparr>) | Inr a \<Rightarrow> (0, Some a, w)) }"

subsection \<open>Creation and transfer\<close>

definition socket_create :: "'k libc \<Rightarrow> SocketFamily \<Rightarrow> SocketType \<Rightarrow> 'k os \<Rightarrow> (int \<times> 'k os) option" where
  "socket_create lc family type w =
     (let sfamily = socket_family_to_bsd family; stype = socket_type_to_bsd type in
      if sfamily < 0 \<or> stype < 0 then Some (set_errno EINVAL w)
      else drop_data (socket_call (c_socket lc sfamily stype) w))"

definition socket_create_inet where "socket_create_inet lc type w = socket_create lc SOCKET_INET type w"
definition socket_create_in6 where "socket_create_in6 lc type w = socket_create lc SOCKET_IN6 type w"
definition socket_create_unix where "socket_create_unix lc type w = socket_create lc SOCKET_UNIX type w"

definition socket_can_read :: "'k libc \<Rightarrow> int \<Rightarrow> 'k os \<Rightarrow> int \<times> 'k os" where
  "socket_can_read lc fd w = (case sys (c_fionread lc fd) w of (ret, n, w1) \<Rightarrow> (if ret < 0 then 0 else n, w1))"

definition socket_send :: "'k libc \<Rightarrow> int \<Rightarrow> u8 list \<Rightarrow> 'k os \<Rightarrow> (int \<times> 'k os) option" where
  "socket_send lc fd buf w = drop_data (socket_call (c_send lc fd buf 0) w)"

definition socket_send_oob :: "'k libc \<Rightarrow> int \<Rightarrow> u8 list \<Rightarrow> 'k os \<Rightarrow> (int \<times> 'k os) option" where
  "socket_send_oob lc fd buf w = drop_data (socket_call (c_send lc fd buf 1) w)"

definition socket_sendto :: "'k libc \<Rightarrow> int \<Rightarrow> u8 list \<Rightarrow> SockAddress \<Rightarrow> 'k os \<Rightarrow> (int \<times> 'k os) option" where
  "socket_sendto lc fd buf to w = with_bsd to (\<lambda>sa w. drop_data (socket_call (c_sendto lc fd buf sa) w)) w"

definition socket_recv :: "'k libc \<Rightarrow> int \<Rightarrow> int \<Rightarrow> 'k os \<Rightarrow> (int \<times> u8 list \<times> 'k os) option" where
  "socket_recv lc fd len w = socket_call (c_recv lc fd len) w"

definition socket_recvfrom ::
  "'k libc \<Rightarrow> int \<Rightarrow> int \<Rightarrow> 'k os \<Rightarrow> (int \<times> u8 list \<times> SockAddress option \<times> 'k os) option" where
  "socket_recvfrom lc fd len w =
     do { (ret, (data, sa), w1) \<leftarrow> qsocket_call (c_recvfrom lc fd len) w;
          if ret < 0 then Some (fix_errno, data, None, w1)
          else do { (r, a, w2) \<leftarrow> read_bsd sa w1; Some (if r < 0 then -1 else ret, data, a, w2) } }"

definition socket_connect1 :: "'k libc \<Rightarrow> int \<Rightarrow> SockAddress \<Rightarrow> 'k os \<Rightarrow> (int \<times> 'k os) option" where
  "socket_connect1 lc fd address w = with_bsd address (\<lambda>sa w. drop_data (socket_call (c_connect lc fd sa) w)) w"

definition socket_bind :: "'k libc \<Rightarrow> int \<Rightarrow> SockAddress \<Rightarrow> 'k os \<Rightarrow> (int \<times> 'k os) option" where
  "socket_bind lc fd address w = with_bsd address (\<lambda>sa w. drop_data (socket_call (c_bind lc fd sa) w)) w"

definition socket_get_address :: "'k libc \<Rightarrow> int \<Rightarrow> 'k os \<Rightarrow> (int \<times> SockAddress option \<times> 'k os) option" where
  "socket_get_address lc fd w =
     do { (ret, sa, w1) \<leftarrow> qsocket_call (c_getsockname lc fd) w;
          if ret < 0 then Some (fix_errno, None, w1) else read_bsd sa w1 }"

definition socket_get_peer_address :: "'k libc \<Rightarrow> int \<Rightarrow> 'k os \<Rightarrow> (int \<times> SockAddress option \<times> 'k os) option" where
  "socket_get_peer_address lc fd w =
     do { (ret, sa, w1) \<leftarrow> qsocket_call (c_getpeername lc fd) w;
          if ret < 0 then Some (fix_errno, None, w1) else read_bsd sa w1 }"

definition socket_listen1 :: "'k libc \<Rightarrow> int \<Rightarrow> int \<Rightarrow> 'k os \<Rightarrow> (int \<times> 'k os) option" where
  "socket_listen1 lc fd backlog w = drop_data (socket_call (c_listen lc fd backlog) w)"

definition socket_close :: "'k libc \<Rightarrow> int \<Rightarrow> 'k os \<Rightarrow> 'k os" where
  "socket_close lc fd w =
     (case sys (c_shutdown lc fd) w of (_, _, w1) \<Rightarrow>
        case ignore_eintr (c_close lc fd) w1 of (_, _, w2) \<Rightarrow> w2\<lparr>os_errno := os_errno w\<rparr>)"

text \<open>\<open>want\<close> tells whether the caller passed a place for the peer's address.\<close>

definition socket_accept :: "'k libc \<Rightarrow> int \<Rightarrow> bool \<Rightarrow> 'k os \<Rightarrow> (int \<times> SockAddress option \<times> 'k os) option" where
  "socket_accept lc fd want w =
     do { (ret, sa, w1) \<leftarrow> qsocket_call (c_accept lc fd) w;
          if ret < 0 then Some (fix_errno, None, w1)
          else if want
          then do { (r, a, w2) \<leftarrow> read_bsd sa w1;
                    Some (if r < 0 then (-1, None, socket_close lc ret w2) else (ret, a, w2)) }
          else Some (ret, None, w1) }"

subsection \<open>Options\<close>

definition socket_getoption :: "'k libc \<Rightarrow> int \<Rightarrow> int \<Rightarrow> int \<Rightarrow> int \<Rightarrow> 'k os \<Rightarrow> (int \<times> 'k os) option" where
  "socket_getoption lc fd domain opt defaut w =
     do { (ret, v, w1) \<leftarrow> handle_eintr (c_getsockopt lc fd domain opt) w;
          Some (if ret = 0 then v else defaut, w1) }"

definition socket_get_type :: "'k libc \<Rightarrow> int \<Rightarrow> 'k os \<Rightarrow> (SocketType \<times> 'k os) option" where
  "socket_get_type lc fd w = do { (t, w1) \<leftarrow> socket_getoption lc fd 1 3 (-1) w; Some (socket_type_from_bsd t, w1) }"

definition socket_get_error :: "'k libc \<Rightarrow> int \<Rightarrow> 'k os \<Rightarrow> (int \<times> 'k os) option" where
  "socket_get_error lc fd w = socket_getoption lc fd 1 4 (-1) w"

definition c_int :: "int \<Rightarrow> u8 list" where
  "c_int v = le32 (word_of_int v)"

definition socket_setoption :: "'k libc \<Rightarrow> int \<Rightarrow> int \<Rightarrow> int \<Rightarrow> int \<Rightarrow> 'k os \<Rightarrow> int \<times> 'k os" where
  "socket_setoption lc fd domain opt flag w =
     (case sys (c_setsockopt lc fd domain opt (c_int flag)) w of (ret, _, w1) \<Rightarrow> (ret, w1))"

definition socket_set_nonblock :: "'k libc \<Rightarrow> int \<Rightarrow> 'k os \<Rightarrow> int \<times> 'k os" where
  "socket_set_nonblock lc fd w =
     (case sys (c_getfl lc fd) w of (flags, _, w1) \<Rightarrow>
        case sys (c_setfl lc fd (flags OR 0x800)) w1 of (ret, _, w2) \<Rightarrow> (ret, w2))"

definition socket_set_blocking :: "'k libc \<Rightarrow> int \<Rightarrow> 'k os \<Rightarrow> int \<times> 'k os" where
  "socket_set_blocking lc fd w =
     (case sys (c_getfl lc fd) w of (flags, _, w1) \<Rightarrow>
        case sys (c_setfl lc fd (flags AND NOT 0x800)) w1 of (ret, _, w2) \<Rightarrow> (ret, w2))"

definition socket_set_xreuseaddr where "socket_set_xreuseaddr lc fd w = socket_setoption lc fd 1 2 1 w"
definition socket_set_oobinline where "socket_set_oobinline lc fd w = socket_setoption lc fd 1 10 1 w"
definition socket_set_cork1 where "socket_set_cork1 lc fd v w = socket_setoption lc fd 6 3 v w"
definition socket_set_nodelay1 where "socket_set_nodelay1 lc fd w = socket_setoption lc fd 6 1 1 w"
definition socket_set_ipv6only where "socket_set_ipv6only lc fd w = socket_setoption lc fd 41 26 1 w"

definition mcast_request :: "u32 \<Rightarrow> u8 list" where
  "mcast_request ip = be32 ip @ be32 0"

definition socket_mcast_inet_add_membership :: "'k libc \<Rightarrow> int \<Rightarrow> u32 \<Rightarrow> 'k os \<Rightarrow> int \<times> 'k os" where
  "socket_mcast_inet_add_membership lc s ip w =
     (case sys (c_setsockopt lc s 0 35 (mcast_request ip)) w of (ret, _, w1) \<Rightarrow> (if ret < 0 then fix_errno else 0, w1))"

definition socket_mcast_inet_drop_membership :: "'k libc \<Rightarrow> int \<Rightarrow> u32 \<Rightarrow> 'k os \<Rightarrow> int \<times> 'k os" where
  "socket_mcast_inet_drop_membership lc s ip w =
     (case sys (c_setsockopt lc s 0 36 (mcast_request ip)) w of (ret, _, w1) \<Rightarrow> (if ret < 0 then fix_errno else 0, w1))"

definition socket_mcast_inet_set_loop where
  "socket_mcast_inet_set_loop lc s enabled w = socket_setoption lc s 0 34 (if enabled \<noteq> (0 :: int) then 1 else 0) w"

definition socket_mcast_inet_set_ttl where
  "socket_mcast_inet_set_ttl lc s ttl w = socket_setoption lc s 0 33 ttl w"

subsection \<open>Servers and clients\<close>

definition socket_bind_server :: "'k libc \<Rightarrow> int \<Rightarrow> SockAddress \<Rightarrow> SocketType \<Rightarrow> 'k os \<Rightarrow> (int \<times> 'k os) option" where
  "socket_bind_server lc s to type w =
     (let w1 = snd (socket_set_xreuseaddr lc s w) in
      do { (r, w2) \<leftarrow> socket_bind lc s to w1;
           if r < 0 then Some (-1, socket_close lc s w2)
           else if type = SOCKET_STREAM
           then do { (r2, w3) \<leftarrow> socket_listen1 lc s 4 w2;
                     Some (if r2 < 0 then (-1, socket_close lc s w3) else (s, w3)) }
           else Some (s, w2) })"

definition socket_connect_client :: "'k libc \<Rightarrow> int \<Rightarrow> SockAddress \<Rightarrow> 'k os \<Rightarrow> (int \<times> 'k os) option" where
  "socket_connect_client lc s to w =
     do { (r, w1) \<leftarrow> socket_connect1 lc s to w;
          Some (if r < 0 then (-1, socket_close lc s w1) else (s, snd (socket_set_nonblock lc s w1))) }"

definition socket_in_server :: "'k libc \<Rightarrow> u32 \<Rightarrow> u16 \<Rightarrow> SocketType \<Rightarrow> 'k os \<Rightarrow> (int \<times> 'k os) option" where
  "socket_in_server lc address port type w =
     do { (s, w1) \<leftarrow> socket_create_inet lc type w;
          if s < 0 then Some (-1, w1)
          else socket_bind_server lc s (sock_address_init_inet address port) type w1 }"

definition socket_in_client :: "'k libc \<Rightarrow> SockAddress \<Rightarrow> SocketType \<Rightarrow> 'k os \<Rightarrow> (int \<times> 'k os) option" where
  "socket_in_client lc to type w =
     do { (s, w1) \<leftarrow> socket_create_inet lc type w;
          if s < 0 then Some (-1, w1) else socket_connect_client lc s to w1 }"

definition socket_loopback_server where
  "socket_loopback_server lc port type w = socket_in_server lc 0x7F000001 port type w"

definition socket_loopback_client where
  "socket_loopback_client lc port type w = socket_in_client lc (sock_address_init_inet 0x7F000001 port) type w"

definition socket_anyaddr_server where
  "socket_anyaddr_server lc port type w = socket_in_server lc 0 port type w"

definition socket_network_client where
  "socket_network_client lc getaddrinfo host port type w =
     do { r \<leftarrow> sock_address_init_resolve getaddrinfo host port False;
          case r of Inl code \<Rightarrow> Some (-1, w\<lparr>os_errno := code\<rparr>) | Inr a \<Rightarrow> socket_in_client lc a type w }"

definition socket_accept_any :: "'k libc \<Rightarrow> int \<Rightarrow> 'k os \<Rightarrow> (int \<times> 'k os) option" where
  "socket_accept_any lc server_fd w =
     do { (fd, _, w1) \<leftarrow> qsocket_call (c_accept lc server_fd) w;
          Some (if fd < 0 then (-1, w1) else (fd, snd (socket_set_nonblock lc fd w1))) }"

definition socket_unix_server :: "'k libc \<Rightarrow> u8 list \<Rightarrow> SocketType \<Rightarrow> 'k os \<Rightarrow> (int \<times> 'k os) option" where
  "socket_unix_server lc name type w =
     do { (s, w1) \<leftarrow> socket_create_unix lc type w;
          if s < 0 then Some (-1, w1)
          else do { (_, _, w2) \<leftarrow> handle_eintr (c_unlink lc name) w1;
                    socket_bind_server lc s (sock_address_init_unix (Some name)) type w2 } }"

definition socket_unix_client :: "'k libc \<Rightarrow> u8 list \<Rightarrow> SocketType \<Rightarrow> 'k os \<Rightarrow> (int \<times> 'k os) option" where
  "socket_unix_client lc name type w =
     do { (s, w1) \<leftarrow> socket_create_unix lc type w;
          if s < 0 then Some (-1, w1)
          else socket_connect_client lc s (sock_address_init_unix (Some name)) w1 }"

definition socket_pair :: "'k libc \<Rightarrow> 'k os \<Rightarrow> int \<times> (int \<times> int) option \<times> 'k os" where
  "socket_pair lc w =
     (case sys (c_socketpair lc) w of (ret, (fd1, fd2), w1) \<Rightarrow>
        if ret = 0
        then (ret, Some (fd1, fd2), snd (socket_set_nonblock lc fd2 (snd (socket_set_nonblock lc fd1 w1))))
        else (ret, None, w1))"

text \<open>The address of an IPv4 socket is passed to \<open>getnameinfo\<close> as if it were a \<open>sockaddr\<close>.\<close>

definition sock_address_get_numeric_info ::
  "(u8 list \<Rightarrow> int \<times> u8 list \<times> u8 list) \<Rightarrow> SockAddress \<Rightarrow> (int option \<times> int) \<times> u8 list \<times> u8 list" where
  "sock_address_get_numeric_info getnameinfo a =
     (case a of
        SA_inet port ip \<Rightarrow>
          (case getnameinfo (le32 ip) of (ret, host, serv) \<Rightarrow>
             ((None, if ret = 0 then 0 else if ret = -3 then EAGAIN else EINVAL), host, serv))
      | _ \<Rightarrow> ((Some EINVAL, -1), [], []))"

end
