(* ===== verification/AsyncUtils.thy ===== *)
theory AsyncUtils
  imports LoopIo Sockets
begin

text \<open>
  The asynchronous helpers of \<open>host-qemu/android/async-utils.c\<close> on top of an event loop whose
  state is \<open>'s\<close>. The \<open>io\<close> field of the C structures is passed as an argument: it points to the
  \<open>LoopIo\<close> of the owner, which does not change. The bodies of the three transfer functions are
  commented out in the source; they are modelled as they are.
\<close>

datatype AsyncStatus = ASYNC_COMPLETE | ASYNC_ERROR | ASYNC_NEED_MORE

subsection \<open>Readers and writers\<close>

record AsyncReader =
  ar_buffsize :: nat
  ar_pos :: nat

definition asyncReader_init :: "nat \<Rightarrow> 's LoopIo \<Rightarrow> 's \<Rightarrow> (AsyncReader \<times> 's) option" where
  "asyncReader_init buffsize io s =
     do { s1 \<leftarrow> (if buffsize > 0 then loopIo_wantRead io s else Some s);
          Some (\<lparr>ar_buffsize = buffsize, ar_pos = 0\<rparr>, s1) }"

definition asyncReader_read :: "AsyncReader \<Rightarrow> AsyncStatus" where
  "asyncReader_read ar = ASYNC_COMPLETE"

record AsyncWriter =
  aw_buffsize :: nat
  aw_pos :: nat

definition asyncWriter_init :: "nat \<Rightarrow> 's LoopIo \<Rightarrow> 's \<Rightarrow> (AsyncWriter \<times> 's) option" where
  "asyncWriter_init buffsize io s =
     do { s1 \<leftarrow> (if buffsize > 0 then loopIo_wantWrite io s else Some s);
          Some (\<lparr>aw_buffsize = buffsize, aw_pos = 0\<rparr>, s1) }"

definition asyncWriter_write :: "AsyncWriter \<Rightarrow> AsyncStatus" where
  "asyncWriter_write aw = ASYNC_COMPLETE"

subsection \<open>Lines\<close>

record AsyncLineReader =
  alr_buffer :: "u8 list"
  alr_buffsize :: nat
  alr_pos :: nat
  alr_eol :: u8

definition asyncLineReader_init ::
  "u8 list \<Rightarrow> nat \<Rightarrow> 's LoopIo \<Rightarrow> 's \<Rightarrow> (AsyncLineReader \<times> 's) option" where
  "asyncLineReader_init buffer buffsize io s =
     do { s1 \<leftarrow> (if buffsize > 0 then loopIo_wantRead io s else Some s);
          Some (\<lparr>alr_buffer = buffer, alr_buffsize = buffsize, alr_pos = 0, alr_eol = 10\<rparr>, s1) }"

definition asyncLineReader_read :: "AsyncLineReader \<Rightarrow> AsyncStatus" where
  "asyncLineReader_read alr = ASYNC_ERROR"

text \<open>The buffer and its length, or null.\<close>

definition asyncLineReader_getLineRaw :: "AsyncLineReader \<Rightarrow> (u8 list \<times> nat) option" where
  "asyncLineReader_getLineRaw alr =
     (if alr_pos alr = 0 \<or> alr_pos alr > alr_buffsize alr then None
      else Some (alr_buffer alr, alr_pos alr))"

text \<open>The outer option is a read outside the buffer, the inner one a null result.\<close>

definition asyncLineReader_getLine :: "AsyncLineReader \<Rightarrow> (u8 list option \<times> AsyncLineReader) option" where
  "asyncLineReader_getLine alr =
     (let pos = alr_pos alr; buffer = alr_buffer alr in
      if pos = 0 \<or> pos > alr_buffsize alr then Some (None, alr)
      else let pos1 = pos - 1 in
      if alr_eol alr = 10
      then if pos1 \<ge> length buffer then None
           else if buffer ! pos1 \<noteq> 10 then Some (None, alr)
           else let buffer1 = buffer[pos1 := 0] in
                let buffer2 = (if pos1 > 0 \<and> buffer1 ! (pos1 - 1) = 13 then buffer1[pos1 - 1 := 0] else buffer1)
                in Some (Some buffer2, alr\<lparr>alr_buffer := buffer2\<rparr>)
      else Some (Some buffer, alr))"

subsection \<open>Connecting\<close>

datatype connect_state = CONNECT_ERROR | CONNECT_CONNECTING | CONNECT_COMPLETED

record AsyncConnector =
  ac_error :: int
  ac_state :: connect_state

definition asyncConnector_init ::
  "'k libc \<Rightarrow> SockAddress \<Rightarrow> 's LoopIo \<Rightarrow> 's \<Rightarrow> 'k os \<Rightarrow> (AsyncStatus \<times> AsyncConnector \<times> 's \<times> 'k os) option" where
  "asyncConnector_init lc address io s w =
     do { (ret, w1) \<leftarrow> socket_connect1 lc (io_fd io) address w;
          if ret = 0 then Some (ASYNC_COMPLETE, \<lparr>ac_error = 0, ac_state = CONNECT_COMPLETED\<rparr>, s, w1)
          else if os_errno w1 = EINPROGRESS \<or> os_errno w1 = EWOULDBLOCK \<or> os_errno w1 = EAGAIN
          then do { s1 \<leftarrow> loopIo_wantWrite io s;
                    Some (ASYNC_NEED_MORE, \<lparr>ac_error = 0, ac_state = CONNECT_CONNECTING\<rparr>, s1, w1) }
          else Some (ASYNC_ERROR, \<lparr>ac_error = os_errno w1, ac_state = CONNECT_ERROR\<rparr>, s, w1) }"

definition asyncConnector_run ::
  "'k libc \<Rightarrow> 's LoopIo \<Rightarrow> AsyncConnector \<Rightarrow> 's \<Rightarrow> 'k os \<Rightarrow> (AsyncStatus \<times> AsyncConnector \<times> 's \<times> 'k os) option" where
  "asyncConnector_run lc io ac s w =
     (case ac_state ac of
        CONNECT_ERROR \<Rightarrow> Some (ASYNC_ERROR, ac, s, w\<lparr>os_errno := ac_error ac\<rparr>)
      | CONNECT_CONNECTING \<Rightarrow>
          do { s1 \<leftarrow> loopIo_dontWantWrite io s;
               (err, w1) \<leftarrow> socket_get_error lc (io_fd io) w;
               if err = 0 then Some (ASYNC_COMPLETE, \<lparr>ac_error = 0, ac_state = CONNECT_COMPLETED\<rparr>, s1, w1)
               else Some (ASYNC_ERROR, \<lparr>ac_error = err, ac_state = CONNECT_ERROR\<rparr>, s1, w1\<lparr>os_errno := err\<rparr>) }
      | CONNECT_COMPLETED \<Rightarrow> Some (ASYNC_COMPLETE, ac, s, w))"

definition asyncConnector_stop :: "'s LoopIo \<Rightarrow> AsyncConnector \<Rightarrow> 's \<Rightarrow> (int \<times> AsyncConnector \<times> 's) option" where
  "asyncConnector_stop io ac s =
     (if ac_state ac = CONNECT_CONNECTING
      then do { s1 \<leftarrow> loopIo_dontWantWrite io s; Some (0, ac\<lparr>ac_state := CONNECT_COMPLETED\<rparr>, s1) }
      else Some (-1, ac, s))"

subsection \<open>Lines without their terminator\<close>

lemma getLine_text:
  assumes "alr_buffer alr = line @ eol @ rest" and "alr_pos alr = length line + length eol" and "alr_pos alr \<le> alr_buffsize alr"
    and "alr_eol alr = 10" and "0 \<notin> set line" and "eol = [10] \<and> (line = [] \<or> last line \<noteq> 13) \<or> eol = [13, 10]"
  shows "\<exists>b. asyncLineReader_getLine alr = Some (Some b, alr\<lparr>alr_buffer := b\<rparr>) \<and> c_str b = line"
proof (rule disjE [OF assms(6)])
  assume "eol = [10] \<and> (line = [] \<or> last line \<noteq> 13)"
  then have e: "eol = [10]" and l: "line = [] \<or> last line \<noteq> 13" by simp_all
  have "(line @ 10 # rest)[length line := 0] = line @ 0 # rest" by simp
  moreover have "\<not> (0 < length line \<and> (line @ 0 # rest) ! (length line - 1) = 13)"
    using l by (cases line rule: rev_cases) (auto simp: nth_append)
  ultimately show ?thesis using assms(1-5) e c_str_terminated [OF assms(5), of rest]
    by (auto simp: asyncLineReader_getLine_def Let_def)
next
  assume e: "eol = [13, 10]"
  have "(line @ 13 # 10 # rest)[Suc (length line) := 0, length line := 0] = line @ 0 # 0 # rest"
    by (simp add: list_update_append)
  then show ?thesis using assms(1-5) e c_str_terminated [OF assms(5), of "0 # rest"]
    by (simp add: asyncLineReader_getLine_def Let_def nth_append)
qed

subsection \<open>The connector over any event loop\<close>

context loop_io
begin

lemma connector_init:
  assumes "ok s" and "wanted s a = Some e" and "io = \<lparr>io_clazz = Some cl, io_impl = a, io_fd = fd\<rparr>"
    and "socket_connect1 lc fd address w = Some (ret, w1)"
  shows "\<exists>st ac s'. asyncConnector_init lc address io s w = Some (st, ac, s', w1) \<and> ok s' \<and>
    (st = ASYNC_COMPLETE \<longleftrightarrow> ret = 0) \<and>
    wanted s' = (if st = ASYNC_NEED_MORE then (wanted s)(a \<mapsto> e OR LOOP_IO_WRITE) else wanted s) \<and>
    ac_state ac = (case st of ASYNC_COMPLETE \<Rightarrow> CONNECT_COMPLETED | ASYNC_ERROR \<Rightarrow> CONNECT_ERROR
      | ASYNC_NEED_MORE \<Rightarrow> CONNECT_CONNECTING)"
  using wantWrite [OF assms(1,2)] assms by (auto simp: asyncConnector_init_def loopIo_defs)

lemma connector_run:
  assumes "ok s" and "wanted s a = Some e" and "io = \<lparr>io_clazz = Some cl, io_impl = a, io_fd = fd\<rparr>"
    and "socket_get_error lc fd w = Some (err, w1)"
  shows "\<exists>st ac' s' w'. asyncConnector_run lc io ac s w = Some (st, ac', s', w') \<and> ok s' \<and> st \<noteq> ASYNC_NEED_MORE \<and>
    wanted s' = (if ac_state ac = CONNECT_CONNECTING then (wanted s)(a \<mapsto> e AND NOT LOOP_IO_WRITE) else wanted s) \<and>
    os_kernel w' = (if ac_state ac = CONNECT_CONNECTING then os_kernel w1 else os_kernel w) \<and>
    (st = ASYNC_COMPLETE \<longleftrightarrow> ac_state ac = CONNECT_COMPLETED \<or> ac_state ac = CONNECT_CONNECTING \<and> err = 0) \<and>
    ac_state ac' = (if st = ASYNC_COMPLETE then CONNECT_COMPLETED else CONNECT_ERROR)"
  using dontWantWrite [OF assms(1,2)] assms
  by (cases "ac_state ac") (auto simp: asyncConnector_run_def loopIo_defs)

end

subsection \<open>Properties\<close>

text \<open>A complete line in the buffer is returned as a string without its terminator, whether that is a
  newline or a carriage return and a newline.\<close>

theorem line_is_stripped:
  assumes "alr_buffer alr = line @ eol @ rest" and "alr_pos alr = length line + length eol" and "alr_pos alr \<le> alr_buffsize alr"
    and "alr_eol alr = 10" and "0 \<notin> set line" and "eol = [10] \<and> (line = [] \<or> last line \<noteq> 13) \<or> eol = [13, 10]"
  shows "\<exists>b. asyncLineReader_getLine alr = Some (Some b, alr\<lparr>alr_buffer := b\<rparr>) \<and> c_str b = line"
  using assms by (rule getLine_text)

theorem line_is_stripped_witness:
  "\<exists>b alr. asyncLineReader_getLine \<lparr>alr_buffer = bytes ''OK'' @ [13, 10, 99], alr_buffsize = 5, alr_pos = 4, alr_eol = 10\<rparr> =
     Some (Some b, alr) \<and> c_str b = bytes ''OK''"
  using line_is_stripped [of "\<lparr>alr_buffer = bytes ''OK'' @ [13, 10, 99], alr_buffsize = 5, alr_pos = 4, alr_eol = 10\<rparr>"
      "bytes ''OK''" "[13, 10]" "[99]"] by (simp add: bytes_def) blast

end
