(* ===== verification/OpenGLES.thy ===== *)
theory OpenGLES
  imports Prelude
begin

text \<open>
  The OpenGLES glue of \<open>host-qemu/android/opengles.c\<close>: the state of the renderer and its socket
  address, and the string helpers. The renderer library is the parameter \<open>renderer\<close>. The
  functions that load it are stubs in this code base, and are modelled as such.
\<close>

subsection \<open>State\<close>

text \<open>
  The functions of the renderer library, on its state \<open>'r\<close>. \<open>initOpenGLRenderer\<close> may also store
  a new server address; the rotation is the bit pattern of a float; \<open>getHardwareStrings\<close> gives three strings or null pointers.
\<close>

record 'r renderer =
  r_initLibrary :: "'r \<Rightarrow> int \<times> 'r"
  r_setStreamMode :: "int \<Rightarrow> 'r \<Rightarrow> 'r"
  r_initOpenGLRenderer :: "int \<Rightarrow> int \<Rightarrow> u8 list \<Rightarrow> 'r \<Rightarrow> int \<times> u8 list \<times> 'r"
  r_getHardwareStrings :: "'r \<Rightarrow> (u8 list option \<times> u8 list option \<times> u8 list option) \<times> 'r"
  r_setPostCallback :: "addr \<Rightarrow> addr \<Rightarrow> 'r \<Rightarrow> 'r"
  r_createOpenGLSubwindow :: "u32 \<Rightarrow> int \<Rightarrow> int \<Rightarrow> int \<Rightarrow> int \<Rightarrow> u32 \<Rightarrow> 'r \<Rightarrow> int \<times> 'r"
  r_destroyOpenGLSubwindow :: "'r \<Rightarrow> int \<times> 'r"
  r_repaintOpenGLDisplay :: "'r \<Rightarrow> 'r"
  r_stopOpenGLRenderer :: "'r \<Rightarrow> 'r"

record 'r gles =
  gl_fast_pipes :: bool
  gl_rendererLib :: addr
  gl_rendererStarted :: bool
  gl_rendererAddress :: "u8 list"
  gl_opengles_init :: bool
  gl_renderer :: 'r

abbreviation (input) STREAM_MODE_TCP :: int where "STREAM_MODE_TCP \<equiv> 1"
abbreviation (input) STREAM_MODE_UNIX :: int where "STREAM_MODE_UNIX \<equiv> 2"

subsection \<open>Strings\<close>

text \<open>\<open>strncpy\<close> fills the rest of the \<open>n\<close> bytes with zeros; \<open>dst\<close> has at least \<open>n\<close> bytes.\<close>

definition strncpy :: "u8 list \<Rightarrow> u8 list \<Rightarrow> nat \<Rightarrow> u8 list option" where
  "strncpy dst src n =
     (if length dst < n then None
      else Some (take n (src @ replicate n 0) @ drop n dst))"

definition strncpy_safe :: "u8 list \<Rightarrow> u8 list \<Rightarrow> nat \<Rightarrow> u8 list option" where
  "strncpy_safe dst src n =
     (if n = 0 then None else do { dst1 \<leftarrow> strncpy dst src n; Some (dst1[n - 1 := 0]) })"

fun find_first :: "u8 \<Rightarrow> u8 list \<Rightarrow> nat option" where
  "find_first c [] = None"
| "find_first c (b # bs) = (if b = c then Some 0 else map_option Suc (find_first c bs))"

fun find_last :: "u8 \<Rightarrow> u8 list \<Rightarrow> nat option" where
  "find_last c [] = None"
| "find_last c (b # bs) =
     (case find_last c bs of Some i \<Rightarrow> Some (Suc i) | None \<Rightarrow> if b = c then Some 0 else None)"

text \<open>
  Positions in \<open>src\<close>. The comparison is unsigned, so a closing parenthesis before the opening
  one counts as a large distance.
\<close>

definition extractBaseString :: "u8 list \<Rightarrow> u8 list \<Rightarrow> nat \<Rightarrow> u8 list option" where
  "extractBaseString dst src dstSize =
     (case (find_first 40 src, find_last 41 src) of
        (Some b, Some e) \<Rightarrow>
          (let start = b + 1;
               stop = (if e + 1 < start \<or> e + 1 - start > dstSize then start + dstSize - 1 else e)
           in strncpy_safe dst (drop start src) (stop + 1 - start))
      | _ \<Rightarrow> strncpy_safe dst src dstSize)"

definition is_prefix_of :: "u8 list \<Rightarrow> u8 list \<Rightarrow> bool" where
  "is_prefix_of p s \<longleftrightarrow> take (length p) s = p"

definition android_getOpenglesHardwareStrings ::
  "'r renderer \<Rightarrow> u8 list \<Rightarrow> u8 list \<Rightarrow> u8 list \<Rightarrow> 'r gles \<Rightarrow>
   ((u8 list \<times> u8 list \<times> u8 list) \<times> 'r gles) option" where
  "android_getOpenglesHardwareStrings lib vendor renderer version g =
     (if vendor = [] \<or> renderer = [] \<or> version = [] then None
      else if \<not> gl_rendererStarted g then Some ((vendor[0 := 0], renderer[0 := 0], version[0 := 0]), g)
      else case r_getHardwareStrings lib (gl_renderer g) of ((v, r, s), k) \<Rightarrow>
        (let v1 = (case v of None \<Rightarrow> [] | Some x \<Rightarrow> x); r1 = (case r of None \<Rightarrow> [] | Some x \<Rightarrow> x);
             s1 = (case s of None \<Rightarrow> [] | Some x \<Rightarrow> x);
             copy = (if is_prefix_of (bytes ''Google'') v1 \<and>
                        is_prefix_of (bytes ''Android Emulator OpenGL ES Translator'') r1
                     then extractBaseString else strncpy_safe)
         in do { v2 \<leftarrow> copy vendor v1 (length vendor); r2 \<leftarrow> copy renderer r1 (length renderer);
                 s2 \<leftarrow> copy version s1 (length version);
                 Some ((v2, r2, s2), g\<lparr>gl_renderer := k\<rparr>) }))"

definition android_gles_server_path :: "u8 list \<Rightarrow> 'r gles \<Rightarrow> u8 list option" where
  "android_gles_server_path buff g = strncpy_safe buff (c_str (gl_rendererAddress g)) (length buff)"

subsection \<open>The library\<close>

definition adynamicLibrary_open :: "u8 list \<Rightarrow> addr" where
  "adynamicLibrary_open name = NULL"

definition adynamicLibrary_findSymbol :: "addr \<Rightarrow> u8 list \<Rightarrow> addr" where
  "adynamicLibrary_findSymbol lib name = NULL"

definition renderer_functions :: "u8 list list" where
  "renderer_functions = map bytes [''initLibrary'', ''setStreamMode'', ''initOpenGLRenderer'', ''getHardwareStrings'',
     ''setPostCallback'', ''createOpenGLSubwindow'', ''destroyOpenGLSubwindow'', ''setOpenGLDisplayRotation'',
     ''repaintOpenGLDisplay'', ''stopOpenGLRenderer'']"

definition initOpenglesEmulationFuncs :: "addr \<Rightarrow> int" where
  "initOpenglesEmulationFuncs lib =
     (if \<exists>f \<in> set renderer_functions. adynamicLibrary_findSymbol lib f = NULL then -1 else 0)"

definition android_init_opengles_pipes :: "'r gles \<Rightarrow> int \<times> 'r gles" where
  "android_init_opengles_pipes g = (0, g\<lparr>gl_opengles_init := True\<rparr>)"

definition android_initOpenglesEmulation :: "'r renderer \<Rightarrow> 'r gles \<Rightarrow> int \<times> 'r gles" where
  "android_initOpenglesEmulation lib g =
     (if gl_rendererLib g \<noteq> NULL then (0, g)
      else let g1 = g\<lparr>gl_rendererLib := adynamicLibrary_open (bytes ''lib64OpenglRender'')\<rparr> in
      if gl_rendererLib g1 = NULL then (-1, g1)
      else let g2 = snd (android_init_opengles_pipes g1) in
      if initOpenglesEmulationFuncs (gl_rendererLib g2) < 0 then (-1, g2\<lparr>gl_rendererLib := NULL\<rparr>)
      else case r_initLibrary lib (gl_renderer g2) of (ok, k) \<Rightarrow>
        if ok = 0 then (-1, g2\<lparr>gl_renderer := k, gl_rendererLib := NULL\<rparr>)
        else (0, g2\<lparr>gl_renderer := r_setStreamMode lib (if gl_fast_pipes g2 then STREAM_MODE_UNIX else STREAM_MODE_TCP) k\<rparr>))"

definition android_startOpenglesRenderer :: "'r renderer \<Rightarrow> int \<Rightarrow> int \<Rightarrow> 'r gles \<Rightarrow> int \<times> 'r gles" where
  "android_startOpenglesRenderer lib width height g =
     (if gl_rendererLib g = NULL then (-1, g)
      else if gl_rendererStarted g then (0, g)
      else case r_initOpenGLRenderer lib width height (gl_rendererAddress g) (gl_renderer g) of (ok, path, k) \<Rightarrow>
        (let g1 = g\<lparr>gl_rendererAddress := path, gl_renderer := k\<rparr> in
         if ok = 0 then (-1, g1) else (0, g1\<lparr>gl_rendererStarted := True\<rparr>)))"

definition android_setPostCallback :: "'r renderer \<Rightarrow> addr \<Rightarrow> addr \<Rightarrow> 'r gles \<Rightarrow> 'r gles" where
  "android_setPostCallback lib onPost context g =
     (if gl_rendererLib g \<noteq> NULL then g\<lparr>gl_renderer := r_setPostCallback lib onPost context (gl_renderer g)\<rparr> else g)"

definition android_stopOpenglesRenderer :: "'r renderer \<Rightarrow> 'r gles \<Rightarrow> 'r gles" where
  "android_stopOpenglesRenderer lib g =
     (if gl_rendererStarted g
      then g\<lparr>gl_renderer := r_stopOpenGLRenderer lib (gl_renderer g), gl_rendererStarted := False\<rparr> else g)"

definition android_showOpenglesWindow ::
  "'r renderer \<Rightarrow> u32 \<Rightarrow> int \<Rightarrow> int \<Rightarrow> int \<Rightarrow> int \<Rightarrow> u32 \<Rightarrow> 'r gles \<Rightarrow> int \<times> 'r gles" where
  "android_showOpenglesWindow lib window x y width height rotation g =
     (if gl_rendererStarted g
      then case r_createOpenGLSubwindow lib window x y width height rotation (gl_renderer g) of (ok, k) \<Rightarrow>
        (if ok \<noteq> 0 then 0 else -1, g\<lparr>gl_renderer := k\<rparr>)
      else (-1, g))"

definition android_hideOpenglesWindow :: "'r renderer \<Rightarrow> 'r gles \<Rightarrow> int \<times> 'r gles" where
  "android_hideOpenglesWindow lib g =
     (if gl_rendererStarted g
      then case r_destroyOpenGLSubwindow lib (gl_renderer g) of (ok, k) \<Rightarrow> (if ok \<noteq> 0 then 0 else -1, g\<lparr>gl_renderer := k\<rparr>)
      else (-1, g))"

definition android_redrawOpenglesWindow :: "'r renderer \<Rightarrow> 'r gles \<Rightarrow> 'r gles" where
  "android_redrawOpenglesWindow lib g =
     (if gl_rendererStarted g then g\<lparr>gl_renderer := r_repaintOpenGLDisplay lib (gl_renderer g)\<rparr> else g)"

subsection \<open>Correctness of the strings\<close>

lemma update_last: "length t = Suc k \<Longrightarrow> (t @ ys)[k := x] = take k t @ x # ys"
  by (simp add: list_update_append upd_conv_take_nth_drop)

lemma strncpy_safe_spec:
  assumes "0 < n" and "n \<le> length dst" and "0 \<notin> set src"
  shows "\<exists>d. strncpy_safe dst src n = Some d \<and> length d = length dst \<and> c_str d = take (n - 1) src \<and> 0 \<in> set d"
proof -
  obtain k where n: "n = Suc k" using assms(1) by (cases n) auto
  let ?t = "take n (src @ replicate n 0)"
  have t: "length ?t = n" by simp
  have eq: "(?t @ drop n dst)[n - 1 := 0] = take k ?t @ 0 # drop n dst"
    using update_last [of ?t k "drop n dst" 0] t by (simp only: n diff_Suc_1)
  have k: "take k ?t = take k src @ replicate (k - length src) 0" by (simp add: n min_def del: replicate_Suc)
  have "c_str (take k ?t @ 0 # drop n dst) = take k src"
  proof (cases "k \<le> length src")
    case True
    moreover have "0 \<notin> set (take k src)" using assms(3) by (meson in_set_takeD)
    ultimately show ?thesis unfolding k by (simp add: c_str_terminated)
  next
    case False
    then obtain m where "k - length src = Suc m" by (metis Suc_diff_le diff_Suc_Suc not_less_eq_eq)
    with False show ?thesis unfolding k using c_str_terminated [OF assms(3)] by simp
  qed
  moreover have "strncpy_safe dst src n = Some (take k ?t @ 0 # drop n dst)"
    using assms(1,2) eq by (simp add: strncpy_safe_def strncpy_def)
  ultimately show ?thesis using assms(2) by (simp add: n)
qed

lemma find_first_app: "c \<notin> set xs \<Longrightarrow> find_first c (xs @ c # ys) = Some (length xs)"
  by (induction xs) auto

lemma find_first_less: "find_first c xs = Some i \<Longrightarrow> i < length xs"
  by (induction xs arbitrary: i) (auto split: if_splits)

lemma find_last_none: "c \<notin> set xs \<Longrightarrow> find_last c xs = None"
  by (induction xs) auto

lemma find_last_app: "c \<notin> set ys \<Longrightarrow> find_last c (xs @ c # ys) = Some (length xs)"
  by (induction xs) (auto simp: find_last_none)

lemma extract_spec:
  assumes "0 < n" and "n \<le> length dst" and "0 \<notin> set src"
  shows "\<exists>d. extractBaseString dst src n = Some d \<and> length d = length dst \<and> 0 \<in> set d"
proof (cases "find_first 40 src"; cases "find_last 41 src")
  fix b e assume f: "find_first 40 src = Some b" "find_last 41 src = Some e"
  let ?m = "(if e + 1 < b + 1 \<or> e + 1 - (b + 1) > n then b + 1 + n - 1 else e) + 1 - (b + 1)"
  have e: "extractBaseString dst src n = strncpy_safe dst (drop (b + 1) src) ?m"
    by (simp add: extractBaseString_def f Let_def)
  have nz: "0 \<notin> set (drop (b + 1) src)" using assms(3) by (meson in_set_dropD)
  show ?thesis
  proof (cases "e = b")
    case True
    have "find_last 41 xs = Some i \<Longrightarrow> i < length xs \<and> xs ! i = 41" for xs i
      by (induction xs arbitrary: i) (auto split: option.splits if_splits)
    moreover have "find_first 40 xs = Some i \<Longrightarrow> xs ! i = 40" for xs i
      by (induction xs arbitrary: i) (auto split: if_splits)
    ultimately show ?thesis using f True by fastforce
  next
    case False
    then have "0 < ?m" "?m \<le> n" using assms(1) by auto
    then show ?thesis using strncpy_safe_spec [of ?m dst, OF _ _ nz] assms(2) unfolding e by auto
  qed
qed (use strncpy_safe_spec [OF assms] in \<open>auto simp: extractBaseString_def\<close>)

subsection \<open>Properties\<close>

text \<open>From a string with parentheses, \<open>extractBaseString\<close> takes the text between the first opening and
  the last closing one, cut to the buffer and terminated.\<close>

theorem base_string_extracted:
  assumes "0 \<notin> set (pre @ base @ post)" and "40 \<notin> set pre" and "41 \<notin> set post" and "0 < n" and "n \<le> length dst"
  shows "\<exists>d. extractBaseString dst (pre @ 40 # base @ 41 # post) n = Some d \<and> length d = length dst \<and>
    c_str d = take (n - 1) base"
proof -
  let ?src = "pre @ 40 # base @ 41 # post"
  have f: "find_first 40 ?src = Some (length pre)" using assms(2) by (rule find_first_app)
  have l: "find_last 41 ?src = Some (Suc (length pre + length base))"
    using find_last_app [OF assms(3), of "pre @ 40 # base"] by simp
  have nz: "0 \<notin> set (base @ 41 # post)" using assms(1) by auto
  let ?m = "if Suc (length base) > n then n else Suc (length base)"
  have "extractBaseString dst ?src n = strncpy_safe dst (base @ 41 # post) ?m"
    using assms(4) unfolding extractBaseString_def f l by (auto simp: Let_def)
  moreover have "0 < ?m" "?m \<le> length dst" using assms(4,5) by auto
  moreover have "take (?m - 1) (base @ 41 # post) = take (n - 1) base" using assms(4) by auto
  ultimately show ?thesis using strncpy_safe_spec [OF _ _ nz, of ?m dst] by auto
qed

theorem base_string_extracted_witness:
  "\<exists>d. extractBaseString (replicate 8 7) (bytes ''Google (NVIDIA Inc)'') 8 = Some d \<and> c_str d = bytes ''NVIDIA ''"
  using base_string_extracted [of "bytes ''Google ''" "bytes ''NVIDIA Inc''" "[]" 8 "replicate 8 7"]
  by (simp add: bytes_def) blast

text \<open>The three hardware strings are terminated in every case, also when the renderer is not running
  or reports null pointers, and no buffer is overrun.\<close>

theorem hardware_strings_terminated:
  assumes "vendor \<noteq> []" and "renderer \<noteq> []" and "version \<noteq> []"
    and "\<And>s. s \<in> set_option (fst (fst (r_getHardwareStrings lib (gl_renderer g)))) \<union>
        set_option (fst (snd (fst (r_getHardwareStrings lib (gl_renderer g))))) \<union>
        set_option (snd (snd (fst (r_getHardwareStrings lib (gl_renderer g))))) \<Longrightarrow> 0 \<notin> set s"
  shows "\<exists>v r s g'. android_getOpenglesHardwareStrings lib vendor renderer version g = Some ((v, r, s), g') \<and>
    length v = length vendor \<and> length r = length renderer \<and> length s = length version \<and>
    0 \<in> set v \<and> 0 \<in> set r \<and> 0 \<in> set s"
proof (cases "gl_rendererStarted g")
  case False
  have "0 \<in> set (xs[0 := 0])" if "xs \<noteq> []" for xs :: "u8 list" using that by (cases xs) auto
  with False assms(1-3) show ?thesis by (simp add: android_getOpenglesHardwareStrings_def)
next
  case True
  obtain v r s k where h: "r_getHardwareStrings lib (gl_renderer g) = ((v, r, s), k)" by (metis prod.exhaust)
  define str_of :: "u8 list option \<Rightarrow> u8 list" where "str_of x = (case x of None \<Rightarrow> [] | Some y \<Rightarrow> y)" for x
  have nz: "0 \<notin> set (str_of v)" "0 \<notin> set (str_of r)" "0 \<notin> set (str_of s)"
    using assms(4) h by (auto simp: str_of_def split: option.splits)
  define copy where "copy = (if is_prefix_of (bytes ''Google'') (str_of v) \<and>
      is_prefix_of (bytes ''Android Emulator OpenGL ES Translator'') (str_of r) then extractBaseString else strncpy_safe)"
  have c: "\<exists>d. copy dst src (length dst) = Some d \<and> length d = length dst \<and> 0 \<in> set d"
    if "dst \<noteq> []" "0 \<notin> set src" for dst src :: "u8 list"
    using that strncpy_safe_spec [of "length dst" dst src] extract_spec [of "length dst" dst src] by (auto simp: copy_def)
  obtain v2 r2 s2 where "copy vendor (str_of v) (length vendor) = Some v2" "length v2 = length vendor" "0 \<in> set v2"
    "copy renderer (str_of r) (length renderer) = Some r2" "length r2 = length renderer" "0 \<in> set r2"
    "copy version (str_of s) (length version) = Some s2" "length s2 = length version" "0 \<in> set s2"
    using c [OF assms(1) nz(1)] c [OF assms(2) nz(2)] c [OF assms(3) nz(3)] by blast
  then show ?thesis using assms(1-3) True
    by (simp add: android_getOpenglesHardwareStrings_def h Let_def str_of_def [symmetric] copy_def [symmetric])
qed

definition sim_renderer :: "unit renderer" where
  "sim_renderer =
     \<lparr>r_initLibrary = \<lambda>k. (1, k), r_setStreamMode = \<lambda>_ k. k, r_initOpenGLRenderer = \<lambda>_ _ path k. (1, path, k),
      r_getHardwareStrings = \<lambda>k. ((Some (bytes ''Google''), None, Some (bytes ''1.0'')), k),
      r_setPostCallback = \<lambda>_ _ k. k, r_createOpenGLSubwindow = \<lambda>_ _ _ _ _ _ k. (1, k),
      r_destroyOpenGLSubwindow = \<lambda>k. (1, k), r_repaintOpenGLDisplay = \<lambda>k. k, r_stopOpenGLRenderer = \<lambda>k. k\<rparr>"

definition gles0 :: "unit gles" where
  "gles0 = \<lparr>gl_fast_pipes = True, gl_rendererLib = 1, gl_rendererStarted = True,
     gl_rendererAddress = bytes ''/data/qemu-gles'' @ replicate 241 0, gl_opengles_init = False, gl_renderer = ()\<rparr>"

theorem hardware_strings_terminated_witness:
  "\<exists>v r s g'. android_getOpenglesHardwareStrings sim_renderer [1, 2, 3] [1] [1, 2] gles0 = Some ((v, r, s), g') \<and> 0 \<in> set r"
proof -
  have "\<exists>v r s g'. android_getOpenglesHardwareStrings sim_renderer [1, 2, 3] [1] [1, 2] gles0 = Some ((v, r, s), g') \<and>
    length v = length ([1, 2, 3] :: u8 list) \<and> length r = length ([1] :: u8 list) \<and> length s = length ([1, 2] :: u8 list) \<and>
    0 \<in> set v \<and> 0 \<in> set r \<and> 0 \<in> set s"
    by (rule hardware_strings_terminated) (auto simp: sim_renderer_def bytes_def)
  then show ?thesis by blast
qed

end
