(* ===== verification/NetPipe.thy ===== *)
theory NetPipe
  imports PipeSafe QLooperRun AsyncUtils OpenGLES
begin

text \<open>
  The network pipe services of \<open>host-qemu/android/hw-pipe-net.c\<close>: a pipe is forwarded to a TCP
  or Unix socket that is watched by the QEMU event loop. The state of the services is the
  event loop extended with the \<open>NetPipe\<close> objects, the operating system and the OpenGLES state.
  The operating system, with the heap, is the parameter \<open>env\<close>.
\<close>

subsection \<open>Data\<close>

record 'k env =
  e_libc :: "'k libc"
  e_malloc :: "'k \<Rightarrow> addr \<times> 'k"
  e_free :: "addr \<Rightarrow> 'k \<Rightarrow> 'k"

datatype net_state = STATE_INIT | STATE_CONNECTING | STATE_CONNECTED | STATE_CLOSING_GUEST | STATE_CLOSING_SOCKET

text \<open>The only callback given to the event loop, and the only operation table a \<open>LoopIo\<close> points to.\<close>

datatype netcb = NetPipeIoFunc

datatype loop_class = QLooperIoClass

text \<open>
  \<open>np_owner\<close> is a ghost field: the pipe this object was created for. The code never reads it;
  it remembers the owner after \<open>hwpipe\<close> has been cleared.
\<close>

record NetPipe =
  np_hwpipe :: addr
  np_state :: net_state
  np_wakeWanted :: u32
  np_io_clazz :: "loop_class option"
  np_io_impl :: addr
  np_io_fd :: int
  np_connector :: AsyncConnector
  np_owner :: addr

record ('k, 'r) net_world = "netcb QLooper" +
  nw_pipes :: "addr \<rightharpoonup> NetPipe"
  nw_os :: "'k os"
  nw_gles :: "'r gles"

definition np_io :: "NetPipe \<Rightarrow> ('u, 'm) QLooper_scheme LoopIo" where
  "np_io np = \<lparr>io_clazz = map_option (\<lambda>QLooperIoClass \<Rightarrow> qlooper_io_class) (np_io_clazz np),
     io_impl = np_io_impl np, io_fd = np_io_fd np\<rparr>"

definition set_np :: "addr \<Rightarrow> (NetPipe \<Rightarrow> NetPipe) \<Rightarrow> ('k, 'r) net_world \<Rightarrow> ('k, 'r) net_world option" where
  "set_np pipe f w = do { np \<leftarrow> nw_pipes w pipe; Some (w\<lparr>nw_pipes := (nw_pipes w)(pipe \<mapsto> f np)\<rparr>) }"

text \<open>The heap lives in the kernel part of the operating system.\<close>

definition g_malloc :: "'k env \<Rightarrow> ('k, 'r) net_world \<Rightarrow> addr \<times> ('k, 'r) net_world" where
  "g_malloc e w = (case e_malloc e (os_kernel (nw_os w)) of (a, k) \<Rightarrow> (a, w\<lparr>nw_os := (nw_os w)\<lparr>os_kernel := k\<rparr>\<rparr>))"

definition g_free :: "'k env \<Rightarrow> addr \<Rightarrow> ('k, 'r) net_world \<Rightarrow> ('k, 'r) net_world" where
  "g_free e a w = w\<lparr>nw_os := (nw_os w)\<lparr>os_kernel := e_free e a (os_kernel (nw_os w))\<rparr>\<rparr>"

subsection \<open>Freeing, state changes\<close>

text \<open>Finishing the \<open>LoopIo\<close> also frees its watcher.\<close>

definition netPipe_free :: "'k env \<Rightarrow> addr \<Rightarrow> ('k, 'r) net_world \<Rightarrow> ('k, 'r) net_world option" where
  "netPipe_free e pipe w =
     do { np \<leftarrow> nw_pipes w pipe;
          let fd = np_io_fd np;
          w1 \<leftarrow> loopIo_done (np_io np) w;
          let w2 = g_free e (np_io_impl np) w1;
          let w3 = w2\<lparr>nw_os := socket_close (e_libc e) fd (nw_os w2)\<rparr>;
          Some (g_free e pipe (w3\<lparr>nw_pipes := (nw_pipes w3)(pipe := None)\<rparr>)) }"

definition netPipe_resetState :: "addr \<Rightarrow> ('k, 'r) net_world \<Rightarrow> ('k, 'r) net_world option" where
  "netPipe_resetState pipe w =
     do { np \<leftarrow> nw_pipes w pipe;
          w1 \<leftarrow> (if np_wakeWanted np AND PIPE_WAKE_WRITE \<noteq> 0 then loopIo_wantWrite (np_io np) w
                  else loopIo_dontWantWrite (np_io np) w);
          if np_state np = STATE_CONNECTED \<and> np_wakeWanted np AND PIPE_WAKE_READ \<noteq> 0
          then loopIo_wantRead (np_io np) w1 else loopIo_dontWantRead (np_io np) w1 }"

subsection \<open>Connecting\<close>

definition netPipe_initFromAddress ::
  "'k env \<Rightarrow> addr \<Rightarrow> SockAddress \<Rightarrow> ('k, 'r) net_world \<Rightarrow> (('k, 'r) net_world \<times> addr) option" where
  "netPipe_initFromAddress e hwpipe address w0 =
     (case g_malloc e w0 of (pipe, w) \<Rightarrow>
      let np0 = \<lparr>np_hwpipe = hwpipe, np_state = STATE_INIT, np_wakeWanted = 0, np_io_clazz = None, np_io_impl = NULL,
                 np_io_fd = 0, np_connector = \<lparr>ac_error = 0, ac_state = CONNECT_ERROR\<rparr>, np_owner = hwpipe\<rparr>;
          w1 = w\<lparr>nw_pipes := (nw_pipes w)(pipe \<mapsto> np0)\<rparr>
      in do {
        (fd, os1) \<leftarrow> socket_create (e_libc e) (sock_address_get_family address) SOCKET_STREAM (nw_os w1);
        let w2 = w1\<lparr>nw_os := os1\<rparr>;
        if fd < 0 then do { w3 \<leftarrow> netPipe_free e pipe w2; Some (w3, NULL) }
        else case g_malloc e w2 of (io, w3) \<Rightarrow> do {
          (lio, w4) \<leftarrow> qlooper_io_init fd NetPipeIoFunc pipe io w3;
          let w5 = w4\<lparr>nw_os := snd (socket_set_nonblock (e_libc e) fd (nw_os w4))\<rparr>;
          w6 \<leftarrow> set_np pipe (\<lambda>np. np\<lparr>np_io_clazz := Some QLooperIoClass, np_io_impl := io_impl lio, np_io_fd := fd\<rparr>) w5;
          np \<leftarrow> nw_pipes w6 pipe;
          (status, ac, w7, os7) \<leftarrow> asyncConnector_init (e_libc e) address (np_io np) w6 (nw_os w6);
          let w8 = w7\<lparr>nw_os := os7\<rparr>;
          w9 \<leftarrow> set_np pipe (\<lambda>np. np\<lparr>np_connector := ac, np_state := STATE_CONNECTING\<rparr>) w8;
          case status of
            ASYNC_ERROR \<Rightarrow> do { w10 \<leftarrow> netPipe_free e pipe w9; Some (w10, NULL) }
          | ASYNC_COMPLETE \<Rightarrow>
              do { w10 \<leftarrow> set_np pipe (\<lambda>np. np\<lparr>np_state := STATE_CONNECTED\<rparr>) w9;
                   w11 \<leftarrow> netPipe_resetState pipe w10;
                   Some (w11, pipe) }
          | ASYNC_NEED_MORE \<Rightarrow> Some (w9, pipe) } })"

text \<open>\<open>strtol\<close> in base 10: the value, cut to the range of a \<open>long\<close>, and what follows the number.\<close>

definition is_space :: "u8 \<Rightarrow> bool" where
  "is_space c \<longleftrightarrow> c = 32 \<or> 9 \<le> c \<and> c \<le> 13"

definition is_digit :: "u8 \<Rightarrow> bool" where
  "is_digit c \<longleftrightarrow> 48 \<le> c \<and> c \<le> 57"

definition digits_value :: "u8 list \<Rightarrow> int" where
  "digits_value ds = fold (\<lambda>d n. 10 * n + (uint d - 48)) ds 0"

definition clamp_long :: "int \<Rightarrow> int" where
  "clamp_long v = max (- (2 ^ 63)) (min (2 ^ 63 - 1) v)"

definition strtol :: "u8 list \<Rightarrow> int \<times> u8 list" where
  "strtol str =
     (let s1 = dropWhile is_space str;
          neg = (s1 \<noteq> [] \<and> hd s1 = 45);
          s2 = (if s1 \<noteq> [] \<and> (hd s1 = 43 \<or> hd s1 = 45) then tl s1 else s1);
          ds = takeWhile is_digit s2
      in if ds = [] then (0, str)
         else (clamp_long (if neg then - digits_value ds else digits_value ds), dropWhile is_digit s2))"

abbreviation (input) SOCK_ADDRESS_INET_LOOPBACK :: u32 where "SOCK_ADDRESS_INET_LOOPBACK \<equiv> 0x7F000001"

text \<open>An invalid port number is only reported, on the console.\<close>

definition netPipe_initTcp ::
  "'k env \<Rightarrow> addr \<Rightarrow> addr \<Rightarrow> u8 list option \<Rightarrow> ('k, 'r) net_world \<Rightarrow> (('k, 'r) net_world \<times> addr) option" where
  "netPipe_initTcp e hwpipe looper args w =
     (case args of
        None \<Rightarrow> Some (w, NULL)
      | Some str \<Rightarrow>
          (case strtol str of (val, stop) \<Rightarrow>
             netPipe_initFromAddress e hwpipe
               (sock_address_init_inet SOCK_ADDRESS_INET_LOOPBACK (word_of_int val)) w))"

definition netPipe_initUnix ::
  "'k env \<Rightarrow> addr \<Rightarrow> addr \<Rightarrow> u8 list option \<Rightarrow> ('k, 'r) net_world \<Rightarrow> (('k, 'r) net_world \<times> addr) option" where
  "netPipe_initUnix e hwpipe looper args w =
     (case args of
        None \<Rightarrow> Some (w, NULL)
      | Some path \<Rightarrow>
          if path = [] then Some (w, NULL)
          else netPipe_initFromAddress e hwpipe (sock_address_init_unix (Some path)) w)"

definition openglesPipe_init ::
  "'k env \<Rightarrow> addr \<Rightarrow> addr \<Rightarrow> u8 list option \<Rightarrow> ('k, 'r) net_world \<Rightarrow> (('k, 'r) net_world \<times> addr) option" where
  "openglesPipe_init e hwpipe looper args w =
     (if \<not> gl_opengles_init (nw_gles w) then Some (w, NULL)
      else do {
        server_addr \<leftarrow> android_gles_server_path (replicate 4096 0) (nw_gles w);
        (w1, pipe) \<leftarrow> (if gl_fast_pipes (nw_gles w) then netPipe_initUnix e hwpipe looper (Some (c_str server_addr)) w
                        else netPipe_initTcp e hwpipe looper (Some (c_str server_addr)) w);
        if pipe \<noteq> NULL
        then do { np \<leftarrow> nw_pipes w1 pipe;
                  Some (w1\<lparr>nw_os := snd (socket_set_nodelay1 (e_libc e) (np_io_fd np) (nw_os w1))\<rparr>, pipe) }
        else Some (w1, pipe) })"

subsection \<open>Calls from the guest\<close>

definition netPipe_closeFromGuest :: "'k env \<Rightarrow> addr \<Rightarrow> ('k, 'r) net_world \<Rightarrow> ('k, 'r) net_world option" where
  "netPipe_closeFromGuest e pipe w = netPipe_free e pipe w"

definition netPipeReadySend :: "NetPipe \<Rightarrow> u32" where
  "netPipeReadySend np =
     (if np_state np = STATE_CONNECTED then 0
      else if np_state np = STATE_CONNECTING then PIPE_ERROR_AGAIN
      else if np_hwpipe np = NULL then PIPE_ERROR_INVAL
      else PIPE_ERROR_IO)"

text \<open>\<open>count\<close> is an \<open>int\<close>; sizes add up in 32 bits.\<close>

definition int_count :: "nat list \<Rightarrow> int" where
  "int_count sizes = sint (of_nat (sum_list sizes) :: u32)"

definition call_error :: "int \<Rightarrow> 'k os \<Rightarrow> int" where
  "call_error ret w =
     (if ret > 0 then ret else if os_errno w = EAGAIN \<or> os_errno w = EWOULDBLOCK then -2 else -4)"

text \<open>
  The transfer loops: the first buffer with the position \<open>start\<close> in it, the rest, the bytes still
  to transfer and those transferred. A negative length is passed on as an enormous one.
\<close>

partial_function (option) send_loop ::
  "'k libc \<Rightarrow> int \<Rightarrow> u8 list list \<Rightarrow> nat \<Rightarrow> int \<Rightarrow> int \<Rightarrow> 'k os \<Rightarrow> (int \<times> 'k os) option" where
  "send_loop lc fd bufs start count ret w =
     (if count \<le> 0 then Some (ret, w)
      else case bufs of
             [] \<Rightarrow> None
           | buff # rest \<Rightarrow>
               if length buff - start \<ge> 2 ^ 31 then None
               else do {
                 (len, w1) \<leftarrow> socket_send lc fd (drop start buff) w;
                 if len > 0
                 then (if start + nat len \<ge> length buff then send_loop lc fd rest 0 (count - len) (ret + len) w1
                       else send_loop lc fd bufs (start + nat len) (count - len) (ret + len) w1)
                 else if len = 0 then Some (if ret = 0 then -4 else ret, w1)
                 else Some (call_error ret w1, w1) })"

definition netPipe_sendBuffers ::
  "'k env \<Rightarrow> addr \<Rightarrow> u8 list list \<Rightarrow> ('k, 'r) net_world \<Rightarrow> (('k, 'r) net_world \<times> u32) option" where
  "netPipe_sendBuffers e pipe buffers w =
     do { np \<leftarrow> nw_pipes w pipe;
          let ret = netPipeReadySend np;
          if ret \<noteq> 0 then Some (w, ret)
          else do { (r, os1) \<leftarrow> send_loop (e_libc e) (np_io_fd np) buffers 0 (int_count (map length buffers)) 0 (nw_os w);
                    Some (w\<lparr>nw_os := os1\<rparr>, word_of_int r) } }"

text \<open>What the receiving loop wrote: the finished buffers, the current one, nothing in the rest.\<close>

partial_function (option) recv_loop ::
  "'k libc \<Rightarrow> int \<Rightarrow> nat list \<Rightarrow> u8 list \<Rightarrow> u8 list list \<Rightarrow> int \<Rightarrow> int \<Rightarrow> 'k os \<Rightarrow>
   (u8 list list \<times> int \<times> 'k os) option" where
  "recv_loop lc fd sizes cur out count ret w =
     (if count \<le> 0 then Some (out @ (if sizes = [] then [] else [cur]) @ replicate (length sizes - 1) [], ret, w)
      else case sizes of
             [] \<Rightarrow> None
           | n # rest \<Rightarrow>
               if n - length cur \<ge> 2 ^ 31 then None
               else do {
                 (len, data, w1) \<leftarrow> socket_recv lc fd (int (n - length cur)) w;
                 if len > 0
                 then (let cur1 = cur @ data in
                       if length cur1 \<ge> n then recv_loop lc fd rest [] (out @ [cur1]) (count - len) (ret + len) w1
                       else recv_loop lc fd sizes cur1 out (count - len) (ret + len) w1)
                 else Some (out @ [cur] @ replicate (length rest) [],
                            if len = 0 then (if ret = 0 then -4 else ret) else call_error ret w1, w1) })"

definition netPipe_recvBuffers ::
  "'k env \<Rightarrow> addr \<Rightarrow> nat list \<Rightarrow> ('k, 'r) net_world \<Rightarrow> (('k, 'r) net_world \<times> u8 list list \<times> u32) option" where
  "netPipe_recvBuffers e pipe sizes w =
     do { np \<leftarrow> nw_pipes w pipe;
          (out, r, os1) \<leftarrow> recv_loop (e_libc e) (np_io_fd np) sizes [] [] (int_count sizes) 0 (nw_os w);
          Some (w\<lparr>nw_os := os1\<rparr>, out, word_of_int r) }"

definition netPipe_poll :: "addr \<Rightarrow> ('k, 'r) net_world \<Rightarrow> u32 option" where
  "netPipe_poll pipe w =
     do { np \<leftarrow> nw_pipes w pipe;
          m \<leftarrow> loopIo_poll (np_io np) w;
          Some ((if m AND LOOP_IO_READ \<noteq> 0 then PIPE_POLL_IN else 0) OR
                (if m AND LOOP_IO_WRITE \<noteq> 0 then PIPE_POLL_OUT else 0)) }"

definition netPipe_wakeOn :: "addr \<Rightarrow> u32 \<Rightarrow> ('k, 'r) net_world \<Rightarrow> ('k, 'r) net_world option" where
  "netPipe_wakeOn pipe flags w =
     do { w1 \<leftarrow> set_np pipe (\<lambda>np. np\<lparr>np_wakeWanted := np_wakeWanted np OR flags\<rparr>) w;
          netPipe_resetState pipe w1 }"

subsection \<open>Service tables\<close>

definition netPipeTcp_funcs :: "'k env \<Rightarrow> ('k, 'r) net_world GoldfishPipeFuncs" where
  "netPipeTcp_funcs e =
     \<lparr>f_init = netPipe_initTcp e, f_close = Some (netPipe_closeFromGuest e), f_sendBuffers = netPipe_sendBuffers e,
      f_recvBuffers = netPipe_recvBuffers e, f_poll = netPipe_poll, f_wakeOn = netPipe_wakeOn\<rparr>"

definition netPipeUnix_funcs :: "'k env \<Rightarrow> ('k, 'r) net_world GoldfishPipeFuncs" where
  "netPipeUnix_funcs e =
     \<lparr>f_init = netPipe_initUnix e, f_close = Some (netPipe_closeFromGuest e), f_sendBuffers = netPipe_sendBuffers e,
      f_recvBuffers = netPipe_recvBuffers e, f_poll = netPipe_poll, f_wakeOn = netPipe_wakeOn\<rparr>"

definition openglesPipe_funcs :: "'k env \<Rightarrow> ('k, 'r) net_world GoldfishPipeFuncs" where
  "openglesPipe_funcs e =
     \<lparr>f_init = openglesPipe_init e, f_close = Some (netPipe_closeFromGuest e), f_sendBuffers = netPipe_sendBuffers e,
      f_recvBuffers = netPipe_recvBuffers e, f_poll = netPipe_poll, f_wakeOn = netPipe_wakeOn\<rparr>"

text \<open>The services, and the event loop they are given.\<close>

definition android_net_pipes_init ::
  "'k env \<Rightarrow> addr \<Rightarrow> ('k, 'r) net_world PipeService list \<Rightarrow> ('k, 'r) net_world PipeService list" where
  "android_net_pipes_init e looper svcs =
     qemu_pipe_add_type (bytes ''opengles'') looper (openglesPipe_funcs e)
       (qemu_pipe_add_type (bytes ''unix'') looper (netPipeUnix_funcs e)
          (qemu_pipe_add_type (bytes ''tcp'') looper (netPipeTcp_funcs e) svcs))"

subsection \<open>Events from the socket\<close>

definition on_world :: "('w \<Rightarrow> 'w option) \<Rightarrow> 'w pipe_sys \<Rightarrow> 'w pipe_sys option" where
  "on_world f s = do { w \<leftarrow> f (ps_world s); Some (s\<lparr>ps_world := w\<rparr>) }"

definition netPipe_closeFromSocket ::
  "'k env \<Rightarrow> addr \<Rightarrow> ('k, 'r) net_world pipe_sys \<Rightarrow> ('k, 'r) net_world pipe_sys option" where
  "netPipe_closeFromSocket e pipe s =
     do { np \<leftarrow> nw_pipes (ps_world s) pipe;
          if np_state np = STATE_CLOSING_GUEST then on_world (netPipe_free e pipe) s
          else do {
            s1 \<leftarrow> (if np_hwpipe np \<noteq> NULL
                    then do { t \<leftarrow> qemu_pipe_close (np_hwpipe np) s;
                              on_world (set_np pipe (\<lambda>np. np\<lparr>np_hwpipe := NULL\<rparr>)) t }
                    else Some s);
            s2 \<leftarrow> on_world (set_np pipe (\<lambda>np. np\<lparr>np_state := STATE_CLOSING_SOCKET\<rparr>)) s1;
            on_world (netPipe_resetState pipe) s2 } }"

definition netPipe_wakeFlags :: "u32 \<Rightarrow> u32 \<Rightarrow> u32" where
  "netPipe_wakeFlags events wanted =
     (if events AND LOOP_IO_READ \<noteq> 0 \<and> wanted AND PIPE_WAKE_READ \<noteq> 0 then PIPE_WAKE_READ else 0) OR
     (if events AND LOOP_IO_WRITE \<noteq> 0 \<and> wanted AND PIPE_WAKE_WRITE \<noteq> 0 then PIPE_WAKE_WRITE else 0)"

definition netPipe_io_func ::
  "'k env \<Rightarrow> netcb \<Rightarrow> addr \<Rightarrow> int \<Rightarrow> u32 \<Rightarrow> ('k, 'r) net_world pipe_sys \<Rightarrow> ('k, 'r) net_world pipe_sys option" where
  "netPipe_io_func e cb pipe fd events s =
     do { np \<leftarrow> nw_pipes (ps_world s) pipe;
          if np_state np = STATE_CONNECTING
          then do {
            (status, ac, w1, os1) \<leftarrow> asyncConnector_run (e_libc e) (np_io np) (np_connector np) (ps_world s) (nw_os (ps_world s));
            w2 \<leftarrow> set_np pipe (\<lambda>np. np\<lparr>np_connector := ac\<rparr>) (w1\<lparr>nw_os := os1\<rparr>);
            let s1 = s\<lparr>ps_world := w2\<rparr>;
            case status of
              ASYNC_NEED_MORE \<Rightarrow> Some s1
            | ASYNC_ERROR \<Rightarrow> netPipe_closeFromSocket e pipe s1
            | ASYNC_COMPLETE \<Rightarrow>
                do { s2 \<leftarrow> on_world (set_np pipe (\<lambda>np. np\<lparr>np_state := STATE_CONNECTED\<rparr>)) s1;
                     on_world (netPipe_resetState pipe) s2 } }
          else do {
            let flags = netPipe_wakeFlags events (np_wakeWanted np);
            s1 \<leftarrow> (if flags \<noteq> 0
                    then do { t \<leftarrow> qemu_pipe_wake (np_hwpipe np) flags s;
                              on_world (set_np pipe (\<lambda>np. np\<lparr>np_wakeWanted := np_wakeWanted np AND NOT flags\<rparr>)) t }
                    else Some s);
            on_world (netPipe_resetState pipe) s1 } }"

end
