(* ===== verification/SocketLaws.thy ===== *)
theory SocketLaws
  imports Sockets
begin

text \<open>
  What the socket calls promise: interrupted system calls are repeated until they complete, and
  no descriptor leaks. The laws of the kernel that the second part needs are the locale
  \<open>kernel_fds\<close>: which system calls open and close descriptors.
\<close>

subsection \<open>Interrupted calls\<close>

definition interrupted :: "('k, 'x) syscall \<Rightarrow> 'k os \<Rightarrow> bool" where
  "interrupted call w = (case sys call w of (ret, x, w1) \<Rightarrow> ret < 0 \<and> os_errno w1 = EINTR)"

definition after_call :: "('k, 'x) syscall \<Rightarrow> 'k os \<Rightarrow> 'k os" where
  "after_call call w = snd (snd (sys call w))"

lemma handle_eintr_unfold:
  "handle_eintr call w = (if interrupted call w then handle_eintr call (after_call call w) else Some (sys call w))"
  by (subst handle_eintr.simps) (simp add: interrupted_def after_call_def split: prod.splits)

lemma handle_eintr_attempts:
  assumes "\<And>i. i < n \<Longrightarrow> interrupted call ((after_call call ^^ i) w)" and "\<not> interrupted call ((after_call call ^^ n) w)"
  shows "handle_eintr call w = Some (sys call ((after_call call ^^ n) w))"
  using assms
proof (induction n arbitrary: w)
  case 0
  then show ?case by (subst handle_eintr_unfold) simp
next
  case (Suc n)
  have "interrupted call w" using Suc.prems(1) [of 0] by simp
  moreover have "handle_eintr call (after_call call w) = Some (sys call ((after_call call ^^ n) (after_call call w)))"
    using Suc.prems(1) [of "Suc i" for i] Suc.prems(2) by (intro Suc.IH) (simp_all add: funpow_swap1)
  ultimately show ?case by (subst handle_eintr_unfold) (simp add: funpow_swap1)
qed

text \<open>What holds before every attempt still holds before the last one, which is not interrupted.\<close>

lemma handle_eintr_last:
  assumes h: "handle_eintr call w = Some r" and "P w"
    and "\<And>w. P w \<Longrightarrow> interrupted call w \<Longrightarrow> P (after_call call w)"
  shows "\<exists>w0. P w0 \<and> \<not> interrupted call w0 \<and> r = sys call w0"
  using assms(2,3)
proof (induction call w r rule: handle_eintr.raw_induct)
  case (1 rec call w r)
  show ?case
  proof (cases "interrupted call w")
    case True
    with "1"(2) have "rec call (after_call call w) = Some r"
      by (simp add: interrupted_def after_call_def split: prod.splits)
    moreover have "P (after_call call w)" using True "1"(3,4) by blast
    ultimately show ?thesis using "1"(1) "1"(4) by blast
  next
    case False
    with "1"(2) have "r = sys call w" by (auto simp: interrupted_def split: prod.splits if_splits)
    with False "1"(3) show ?thesis by blast
  qed
qed (rule h)

lemma socket_call_last:
  assumes "socket_call call w = Some (ret, x, w')" and "P (os_kernel w)"
    and "\<And>k ret err x k'. P k \<Longrightarrow> call k = (ret, err, x, k') \<Longrightarrow> ret < 0 \<Longrightarrow> P k'"
  shows "\<exists>k ret' err. P k \<and> call k = (ret', err, x, os_kernel w') \<and> ret = (if ret' < 0 then -1 else ret')"
proof -
  from assms(1) obtain ret' where h: "handle_eintr call (w\<lparr>os_errno := 0\<rparr>) = Some (ret', x, w')"
    and r: "ret = (if ret' < 0 then -1 else ret')"
    by (auto simp: socket_call_def qsocket_call_def fix_errno_def bind_eq_Some_conv)
  have "\<exists>w0. P (os_kernel w0) \<and> \<not> interrupted call w0 \<and> (ret', x, w') = sys call w0"
    by (rule handle_eintr_last [OF h, where P = "\<lambda>w. P (os_kernel w)"])
      (use assms(2,3) in \<open>auto simp: interrupted_def after_call_def sys_def split: prod.splits\<close>)
  with r show ?thesis by (fastforce simp: sys_def split: prod.splits)
qed

subsection \<open>Descriptors\<close>

text \<open>The system calls that open a descriptor, the one that closes it, and all the others.\<close>

definition opens_fd :: "('k \<Rightarrow> int set) \<Rightarrow> ('k, 'x) syscall \<Rightarrow> bool" where
  "opens_fd fds call \<longleftrightarrow> (\<forall>k ret err x k'. call k = (ret, err, x, k') \<longrightarrow>
     (if ret < 0 then fds k' = fds k else ret \<notin> fds k \<and> fds k' = insert ret (fds k)))"

definition syscall_keeps :: "('k \<Rightarrow> 'v) \<Rightarrow> ('k, 'x) syscall \<Rightarrow> bool" where
  "syscall_keeps f call \<longleftrightarrow> (\<forall>k. f (snd (snd (snd (call k)))) = f k)"

lemma syscall_keepsD: "syscall_keeps f call \<Longrightarrow> call k = (ret, err, x, k') \<Longrightarrow> f k' = f k"
  unfolding syscall_keeps_def by (metis snd_conv)

lemma opens_fd_fails: "opens_fd fds call \<Longrightarrow> call k = (ret, err, x, k') \<Longrightarrow> ret < 0 \<Longrightarrow> fds k' = fds k"
  unfolding opens_fd_def by presburger

lemma opens_fd_succeeds:
  "opens_fd fds call \<Longrightarrow> call k = (ret, err, x, k') \<Longrightarrow> \<not> ret < 0 \<Longrightarrow> ret \<notin> fds k \<and> fds k' = insert ret (fds k)"
  unfolding opens_fd_def by presburger

lemma after_keeps: "syscall_keeps f call \<Longrightarrow> f (os_kernel (snd (snd (sys call w)))) = f (os_kernel w)"
  unfolding syscall_keeps_def sys_def by (auto split: prod.splits dest: spec [of _ "os_kernel w"])

lemma sys_keeps: "syscall_keeps f call \<Longrightarrow> sys call w = (ret, x, w') \<Longrightarrow> f (os_kernel w') = f (os_kernel w)"
  using after_keeps [of f call w] by simp

lemma eintr_keeps:
  assumes "syscall_keeps f call" and "handle_eintr call w = Some (ret, x, w')"
  shows "f (os_kernel w') = f (os_kernel w)"
proof -
  have "\<exists>w0. f (os_kernel w0) = f (os_kernel w) \<and> \<not> interrupted call w0 \<and> (ret, x, w') = sys call w0"
    by (rule handle_eintr_last [OF assms(2)]) (simp_all add: after_call_def after_keeps [OF assms(1)])
  then show ?thesis using sys_keeps [OF assms(1)] by metis
qed

lemma call_keeps:
  assumes "syscall_keeps f call" and "drop_data (socket_call call w) = Some (ret, w')"
  shows "f (os_kernel w') = f (os_kernel w)"
proof -
  from assms(2) obtain x where "socket_call call w = Some (ret, x, w')" by (auto simp: drop_data_def)
  then have "\<exists>k ret' err. f k = f (os_kernel w) \<and> call k = (ret', err, x, os_kernel w') \<and> ret = (if ret' < 0 then -1 else ret')"
    by (rule socket_call_last) (auto dest: syscall_keepsD [OF assms(1)])
  then show ?thesis using syscall_keepsD [OF assms(1)] by metis
qed

lemma with_bsd_keeps:
  assumes "with_bsd a g w = Some (ret, w')" and "\<And>bs w. g bs w = Some (ret, w') \<Longrightarrow> f (os_kernel w') = f (os_kernel w)"
  shows "f (os_kernel w') = f (os_kernel w)"
  using assms by (auto simp: with_bsd_def set_errno_def split: sum.splits option.splits)

locale kernel_fds =
  fixes lc :: "'k libc" and fds :: "'k \<Rightarrow> int set"
  assumes k_socket: "opens_fd fds (c_socket lc family type)" and k_accept: "opens_fd fds (c_accept lc fd)"
    and k_close: "c_close lc fd k = (ret, err, x, k') \<Longrightarrow> fds k' = fds k - {fd}"
    and k_connect: "syscall_keeps fds (c_connect lc fd sa)" and k_bind: "syscall_keeps fds (c_bind lc fd sa)"
    and k_listen: "syscall_keeps fds (c_listen lc fd backlog)" and k_shutdown: "syscall_keeps fds (c_shutdown lc fd)"
    and k_setsockopt: "syscall_keeps fds (c_setsockopt lc fd domain opt v)"
    and k_getfl: "syscall_keeps fds (c_getfl lc fd)" and k_setfl: "syscall_keeps fds (c_setfl lc fd flags)"
    and k_unlink: "syscall_keeps fds (c_unlink lc path)"
begin

abbreviation open_fds :: "'k os \<Rightarrow> int set" where "open_fds w \<equiv> fds (os_kernel w)"

lemma call_opens:
  assumes "opens_fd fds call" and "drop_data (socket_call call w) = Some (ret, w')"
  shows "if ret < 0 then open_fds w' = open_fds w else ret \<notin> open_fds w \<and> open_fds w' = insert ret (open_fds w)"
proof -
  from assms(2) obtain x where "socket_call call w = Some (ret, x, w')" by (auto simp: drop_data_def)
  then have "\<exists>k ret' err. fds k = open_fds w \<and> call k = (ret', err, x, os_kernel w') \<and> ret = (if ret' < 0 then -1 else ret')"
    by (rule socket_call_last) (simp_all add: opens_fd_fails [OF assms(1)])
  then obtain k ret' err where k: "fds k = open_fds w" "call k = (ret', err, x, os_kernel w')"
    and r: "ret = (if ret' < 0 then -1 else ret')" by blast
  show ?thesis
    by (cases "ret' < 0") (use r k(1) opens_fd_fails [OF assms(1) k(2)] opens_fd_succeeds [OF assms(1) k(2)] in simp_all)
qed

lemma close_fds: "open_fds (socket_close lc fd w) = open_fds w - {fd}"
proof -
  obtain r x w1 where s: "sys (c_shutdown lc fd) w = (r, x, w1)" by (cases "sys (c_shutdown lc fd) w") auto
  obtain r2 x2 w2 where c: "sys (c_close lc fd) w1 = (r2, x2, w2)" by (cases "sys (c_close lc fd) w1") auto
  have "open_fds w2 = open_fds w1 - {fd}" using c k_close by (auto simp: sys_def split: prod.splits)
  with sys_keeps [OF k_shutdown s] s c show ?thesis by (simp add: socket_close_def ignore_eintr_def)
qed

lemma create_fds:
  assumes "socket_create lc family type w = Some (s, w')"
  shows "if s < 0 then open_fds w' = open_fds w else s \<notin> open_fds w \<and> open_fds w' = insert s (open_fds w)"
  using assms call_opens [OF k_socket]
  by (cases "socket_family_to_bsd family < 0 \<or> socket_type_to_bsd type < 0")
    (auto simp: socket_create_def Let_def set_errno_def)

lemma setoption_fds: "open_fds (snd (socket_setoption lc fd domain opt v w)) = open_fds w"
  using sys_keeps [OF k_setsockopt] by (auto simp: socket_setoption_def split: prod.splits)

lemma nonblock_fds: "open_fds (snd (socket_set_nonblock lc fd w)) = open_fds w"
  unfolding socket_set_nonblock_def using sys_keeps [OF k_getfl] sys_keeps [OF k_setfl] by (auto split: prod.splits)

lemma bind_fds: "socket_bind lc s to w = Some (r, w') \<Longrightarrow> open_fds w' = open_fds w"
  unfolding socket_bind_def by (erule with_bsd_keeps) (rule call_keeps [OF k_bind])

lemma connect_fds: "socket_connect1 lc s to w = Some (r, w') \<Longrightarrow> open_fds w' = open_fds w"
  unfolding socket_connect1_def by (erule with_bsd_keeps) (rule call_keeps [OF k_connect])

lemma listen_fds: "socket_listen1 lc s n w = Some (r, w') \<Longrightarrow> open_fds w' = open_fds w"
  unfolding socket_listen1_def by (rule call_keeps [OF k_listen])

lemma bind_server_fds:
  assumes "socket_bind_server lc s to type w = Some (r, w')" and "0 \<le> s"
  shows "if r < 0 then open_fds w' = open_fds w - {s} else r = s \<and> open_fds w' = open_fds w"
proof -
  define w1 where "w1 = snd (socket_set_xreuseaddr lc s w)"
  have w1: "open_fds w1 = open_fds w" by (simp add: w1_def socket_set_xreuseaddr_def setoption_fds)
  obtain r2 w2 where b: "socket_bind lc s to w1 = Some (r2, w2)"
    using assms(1) by (auto simp: socket_bind_server_def w1_def [symmetric] bind_eq_Some_conv)
  have w2: "open_fds w2 = open_fds w" using bind_fds [OF b] w1 by simp
  consider "r2 < 0" | "\<not> r2 < 0" "type = SOCKET_STREAM" | "\<not> r2 < 0" "type \<noteq> SOCKET_STREAM" by blast
  then show ?thesis
  proof cases
    case 1
    with assms(1) b have "r = -1" "w' = socket_close lc s w2" by (simp_all add: socket_bind_server_def w1_def [symmetric])
    with w2 show ?thesis by (simp add: close_fds)
  next
    case 3
    with assms(1) b have "r = s" "w' = w2" by (simp_all add: socket_bind_server_def w1_def [symmetric])
    with w2 assms(2) show ?thesis by simp
  next
    case 2
    with assms(1) b obtain r3 w3 where l: "socket_listen1 lc s 4 w2 = Some (r3, w3)"
      "(r, w') = (if r3 < 0 then (-1, socket_close lc s w3) else (s, w3))"
      by (auto simp: socket_bind_server_def w1_def [symmetric] bind_eq_Some_conv)
    then show ?thesis using listen_fds [OF l(1)] w2 assms(2) by (cases "r3 < 0") (simp_all add: close_fds)
  qed
qed

lemma connect_client_fds:
  assumes "socket_connect_client lc s to w = Some (r, w')" and "0 \<le> s"
  shows "if r < 0 then open_fds w' = open_fds w - {s} else r = s \<and> open_fds w' = open_fds w"
proof -
  obtain r1 w1 where c: "socket_connect1 lc s to w = Some (r1, w1)"
    "(r, w') = (if r1 < 0 then (-1, socket_close lc s w1) else (s, snd (socket_set_nonblock lc s w1)))"
    using assms(1) by (auto simp: socket_connect_client_def bind_eq_Some_conv)
  with connect_fds [OF c(1)] assms(2) show ?thesis by (cases "r1 < 0") (simp_all add: close_fds nonblock_fds)
qed

text \<open>Creating a socket and setting it up, with the clean-up on failure.\<close>

definition fresh_or_same where
  "fresh_or_same w s w' \<longleftrightarrow> (if s < 0 then open_fds w' = open_fds w
     else s \<notin> open_fds w \<and> open_fds w' = insert s (open_fds w))"

lemma create_setup:
  assumes "do { (s, w1) \<leftarrow> socket_create lc family type w; if s < 0 then Some (-1, w1) else f s w1 } = Some (r, w')"
    and "\<And>s w1. 0 \<le> s \<Longrightarrow> f s w1 = Some (r, w') \<Longrightarrow>
      if r < 0 then open_fds w' = open_fds w1 - {s} else r = s \<and> open_fds w' = open_fds w1"
  shows "fresh_or_same w r w'"
proof -
  obtain s w1 where c: "socket_create lc family type w = Some (s, w1)"
    using assms(1) by (cases "socket_create lc family type w") auto
  show ?thesis
  proof (cases "s < 0")
    case True
    with assms(1) c have "r = -1" "w' = w1" by simp_all
    with True create_fds [OF c] show ?thesis by (simp add: fresh_or_same_def)
  next
    case False
    with assms(1) c have f: "f s w1 = Some (r, w')" by simp
    have "0 \<le> s" using False by simp
    from assms(2) [OF this f] create_fds [OF c] False show ?thesis
      by (cases "r < 0") (simp_all add: fresh_or_same_def)
  qed
qed

lemma in_server_fds: "socket_in_server lc address port type w = Some (s, w') \<Longrightarrow> fresh_or_same w s w'"
  unfolding socket_in_server_def socket_create_inet_def by (erule create_setup) (rule bind_server_fds)

lemma in_client_fds: "socket_in_client lc to type w = Some (s, w') \<Longrightarrow> fresh_or_same w s w'"
  unfolding socket_in_client_def socket_create_inet_def by (erule create_setup) (rule connect_client_fds)

lemma unix_client_fds: "socket_unix_client lc name type w = Some (s, w') \<Longrightarrow> fresh_or_same w s w'"
  unfolding socket_unix_client_def socket_create_unix_def by (erule create_setup) (rule connect_client_fds)

lemma unix_server_fds: "socket_unix_server lc name type w = Some (s, w') \<Longrightarrow> fresh_or_same w s w'"
  unfolding socket_unix_server_def socket_create_unix_def
proof (erule create_setup)
  fix a w1
  assume a: "0 \<le> a" and f: "do { (_, _, w2) \<leftarrow> handle_eintr (c_unlink lc name) w1;
    socket_bind_server lc a (sock_address_init_unix (Some name)) type w2 } = Some (s, w')"
  then obtain r x w2 where u: "handle_eintr (c_unlink lc name) w1 = Some (r, x, w2)"
    and b: "socket_bind_server lc a (sock_address_init_unix (Some name)) type w2 = Some (s, w')"
    by (cases "handle_eintr (c_unlink lc name) w1") auto
  show "if s < 0 then open_fds w' = open_fds w1 - {a} else s = a \<and> open_fds w' = open_fds w1"
    using bind_server_fds [OF b a] eintr_keeps [OF k_unlink u] by (cases "s < 0") simp_all
qed

lemma read_bsd_fds:
  assumes "read_bsd bs w = Some (r, a, w')"
  shows "open_fds w' = open_fds w"
proof -
  obtain y where "sock_address_from_bsd bs = Some y" using assms by (cases "sock_address_from_bsd bs") (auto simp: read_bsd_def)
  with assms show ?thesis by (cases y) (auto simp: read_bsd_def)
qed

lemma accept_fds:
  assumes "socket_accept lc fd want w = Some (s, a, w')"
  shows "fresh_or_same w s w'"
proof -
  obtain ret sa w1 where q: "qsocket_call (c_accept lc fd) w = Some (ret, sa, w1)"
    using assms by (cases "qsocket_call (c_accept lc fd) w") (auto simp: socket_accept_def)
  then have "drop_data (socket_call (c_accept lc fd) w) = Some (if ret < 0 then -1 else ret, w1)"
    by (simp add: socket_call_def drop_data_def fix_errno_def)
  note o = call_opens [OF k_accept this]
  consider "ret < 0" | "0 \<le> ret" "\<not> want" | "0 \<le> ret" want by linarith
  then show ?thesis
  proof cases
    case 3
    with assms q obtain r b w2 where rb: "read_bsd sa w1 = Some (r, b, w2)"
      "(s, a, w') = (if r < 0 then (-1, None, socket_close lc ret w2) else (ret, b, w2))"
      by (cases "read_bsd sa w1") (auto simp: socket_accept_def)
    have "open_fds w2 = open_fds w1" by (rule read_bsd_fds [OF rb(1)])
    with o rb(2) 3 show ?thesis by (cases "r < 0") (simp_all add: fresh_or_same_def close_fds)
  qed (use assms q o in \<open>simp_all add: socket_accept_def fresh_or_same_def fix_errno_def\<close>)
qed

end

subsection \<open>A kernel\<close>

text \<open>A kernel whose state is the list of open descriptors; transfers and options always succeed.\<close>

definition next_fd :: "int list \<Rightarrow> int" where
  "next_fd k = foldr max k 2 + 1"

definition sim_libc :: "int list libc" where
  "sim_libc =
     \<lparr>c_socket = \<lambda>_ _ k. (next_fd k, 0, (), next_fd k # k), c_connect = \<lambda>_ _ k. (0, 0, (), k),
      c_bind = \<lambda>_ sa k. (if sa = [1, 0, 0] then (-1, 98, (), k) else (0, 0, (), k)), c_listen = \<lambda>_ _ k. (0, 0, (), k),
      c_accept = \<lambda>_ k. (next_fd k, 0, [1, 0], next_fd k # k), c_send = \<lambda>_ buf _ k. (int (length buf), 0, (), k),
      c_sendto = \<lambda>_ buf _ k. (int (length buf), 0, (), k), c_recv = \<lambda>_ n k. (0, 0, [], k),
      c_recvfrom = \<lambda>_ _ k. (0, 0, ([], [1, 0]), k), c_getsockname = \<lambda>_ k. (0, 0, [1, 0], k),
      c_getpeername = \<lambda>_ k. (0, 0, [1, 0], k), c_getsockopt = \<lambda>_ _ _ k. (0, 0, 0, k),
      c_setsockopt = \<lambda>_ _ _ _ k. (0, 0, (), k), c_getfl = \<lambda>_ k. (0, 0, (), k), c_setfl = \<lambda>_ _ k. (0, 0, (), k),
      c_fionread = \<lambda>_ k. (0, 0, 0, k), c_shutdown = \<lambda>_ k. (0, 0, (), k),
      c_close = \<lambda>fd k. (0, 0, (), filter (\<lambda>x. x \<noteq> fd) k), c_unlink = \<lambda>_ k. (0, 0, (), k),
      c_socketpair = \<lambda>k. (0, 0, (next_fd k, next_fd k + 1), (next_fd k + 1) # next_fd k # k)\<rparr>"

lemma le_next_fd: "x \<in> set k \<Longrightarrow> x < next_fd k"
  unfolding next_fd_def by (induction k) auto

lemma next_fd_nonneg: "0 \<le> next_fd k"
  unfolding next_fd_def by (induction k) auto

lemma next_fd_fresh [simp]: "next_fd k \<notin> set k" "\<not> next_fd k < 0"
  using le_next_fd [of "next_fd k" k] next_fd_nonneg [of k] by auto

interpretation sim: kernel_fds sim_libc set
  by unfold_locales (auto simp: sim_libc_def opens_fd_def syscall_keeps_def)

subsection \<open>Properties\<close>

text \<open>C28: A system call that is interrupted by signals is repeated: if the first \<open>n\<close> attempts are
  interrupted and the next one is not, the wrapper returns the result of that one; and it never
  returns with EINTR.\<close>

theorem eintr_retries:
  assumes "\<forall>i < n. interrupted call ((after_call call ^^ i) w)" and "\<not> interrupted call ((after_call call ^^ n) w)"
  shows "handle_eintr call w = Some (sys call ((after_call call ^^ n) w)) \<and>
    (\<forall>v ret x v'. handle_eintr call v = Some (ret, x, v') \<longrightarrow> \<not> (ret < 0 \<and> os_errno v' = EINTR))"
proof
  show "handle_eintr call w = Some (sys call ((after_call call ^^ n) w))"
    by (rule handle_eintr_attempts) (use assms in auto)
  have "\<not> (ret < 0 \<and> os_errno v' = EINTR)" if "handle_eintr call v = Some (ret, x, v')" for v ret x v'
    using handle_eintr_last [OF that, of "\<lambda>_. True"] by (auto simp: interrupted_def)
  then show "\<forall>v ret x v'. handle_eintr call v = Some (ret, x, v') \<longrightarrow> \<not> (ret < 0 \<and> os_errno v' = EINTR)" by blast
qed

text \<open>A call that is interrupted until its counter is zero.\<close>

definition slow_call :: "(nat, unit) syscall" where
  "slow_call k = (if k = 0 then (7, 0, (), 0) else (-1, EINTR, (), k - 1))"

theorem eintr_retries_witness:
  "handle_eintr slow_call \<lparr>os_errno = 0, os_kernel = 1\<rparr> = Some (7, (), \<lparr>os_errno = EINTR, os_kernel = 0\<rparr>)"
proof -
  let ?w = "\<lparr>os_errno = 0, os_kernel = 1 :: nat\<rparr>"
  have e: "sys slow_call ?w = (-1, (), \<lparr>os_errno = EINTR, os_kernel = 0\<rparr>)"
    "sys slow_call \<lparr>os_errno = EINTR, os_kernel = 0\<rparr> = (7, (), \<lparr>os_errno = EINTR, os_kernel = 0\<rparr>)"
    by (simp_all add: slow_call_def sys_def)
  then have a: "(after_call slow_call ^^ 1) ?w = \<lparr>os_errno = EINTR, os_kernel = 0\<rparr>" by (simp add: after_call_def)
  have "\<forall>i < 1. interrupted slow_call ((after_call slow_call ^^ i) ?w)" using e(1) by (simp add: interrupted_def)
  moreover have "\<not> interrupted slow_call ((after_call slow_call ^^ 1) ?w)" unfolding a using e(2) by (simp add: interrupted_def)
  ultimately show ?thesis using eintr_retries [of 1 slow_call ?w] unfolding a e(2) by blast
qed

text \<open>C27: The servers, clients and the accept call never leak a descriptor: when they fail, exactly the
  descriptors that were open before are open; when they succeed, the returned one is new and is
  the only addition.\<close>

theorem sockets_do_not_leak:
  assumes "kernel_fds lc fds"
    and "socket_in_server lc address port type w = Some (s, w') \<or> socket_in_client lc to type w = Some (s, w') \<or>
      socket_unix_server lc name type w = Some (s, w') \<or> socket_unix_client lc name type w = Some (s, w') \<or>
      socket_accept lc server_fd want w = Some (s, a, w')"
  shows "if s < 0 then fds (os_kernel w') = fds (os_kernel w)
    else s \<notin> fds (os_kernel w) \<and> fds (os_kernel w') = insert s (fds (os_kernel w))"
proof -
  have "kernel_fds.fresh_or_same fds w s w'"
    using assms(2)
    by (elim disjE) (erule kernel_fds.in_server_fds [OF assms(1)] kernel_fds.in_client_fds [OF assms(1)]
      kernel_fds.unix_server_fds [OF assms(1)] kernel_fds.unix_client_fds [OF assms(1)] kernel_fds.accept_fds [OF assms(1)])+
  then show ?thesis by (simp only: kernel_fds.fresh_or_same_def [OF assms(1)])
qed

lemma handle_eintr_sim [simp]:
  "fst (call (os_kernel w)) \<ge> 0 \<Longrightarrow> handle_eintr call w = Some (sys call w)"
  by (subst handle_eintr_unfold) (auto simp: interrupted_def sys_def split: prod.splits)

theorem sockets_do_not_leak_witness:
  "\<exists>s w'. socket_in_server sim_libc 0x7F000001 80 SOCKET_STREAM \<lparr>os_errno = 0, os_kernel = [0, 1, 2]\<rparr> = Some (s, w') \<and>
     s \<notin> {0, 1, 2} \<and> set (os_kernel w') = insert s {0, 1, 2}"
proof -
  let ?w = "\<lparr>os_errno = 0, os_kernel = [0, 1, 2]\<rparr>"
  obtain w' where w': "socket_in_server sim_libc 0x7F000001 80 SOCKET_STREAM ?w = Some (3, w')"
    by (simp add: socket_in_server_def socket_create_inet_def socket_create_def socket_family_to_bsd_def
        socket_type_to_bsd_def socket_call_def qsocket_call_def drop_data_def sys_def sim_libc_def next_fd_def
        socket_bind_server_def socket_set_xreuseaddr_def socket_setoption_def socket_bind_def with_bsd_def
        sock_address_init_inet_def socket_listen1_def be16_def be32_def Let_def)
  from sockets_do_not_leak [OF sim.kernel_fds_axioms disjI1 [OF w']] w' show ?thesis by auto
qed

end
