(* ===== verification/NetOs.thy ===== *)
theory NetOs
  imports NetPipe SocketLaws
begin

text \<open>
  What the network pipes need of the operating system, as the locale \<open>net_os\<close>: interrupted
  calls complete in the end, descriptors and memory are not exhausted, and connected sockets
  are streams. \<open>fds\<close> are the open descriptors and \<open>heap\<close> the allocated addresses of a kernel
  state, \<open>sent\<close> the bytes accepted on a descriptor and \<open>inbox\<close> those that have arrived for it.
  The transfer loops of \<open>netPipe_sendBuffers\<close> and \<open>netPipe_recvBuffers\<close> are proved over it.
\<close>

definition returns :: "('k, 'x) syscall \<Rightarrow> bool" where
  "returns call \<longleftrightarrow> (\<forall>w. handle_eintr call w \<noteq> None)"

lemma returns_call:
  assumes "returns call"
  obtains ret x w' where "socket_call call w = Some (ret, x, w')"
  using assms [unfolded returns_def, rule_format, of "w\<lparr>os_errno := 0\<rparr>"] that
  by (auto simp: socket_call_def qsocket_call_def)

text \<open>The 32-bit sum of the sizes is exact below \<open>2 ^ 31\<close> and negative above.\<close>

lemma int_count_small:
  assumes "sum_list sizes < 2 ^ 31"
  shows "int_count sizes = int (sum_list sizes)"
proof -
  have "uint (of_nat (sum_list sizes) :: u32) = int (sum_list sizes)"
    using assms by (simp add: unsigned_of_nat take_bit_nat_eq_self)
  then show ?thesis using assms
    unfolding int_count_def sint_uint by (simp add: signed_take_bit_int_eq_self)
qed

lemma int_count_large:
  assumes "2 ^ 31 \<le> sum_list sizes" and "sum_list sizes < 2 ^ 32"
  shows "int_count sizes \<le> 0"
proof -
  let ?v = "int (sum_list sizes)"
  have u: "uint (of_nat (sum_list sizes) :: u32) = ?v"
    using assms(2) by (simp add: unsigned_of_nat take_bit_nat_eq_self)
  have "?v div 2 ^ 31 = 1" using assms by (simp add: int_div_pos_eq [where r = "?v - 2 ^ 31"])
  then have "bit ?v 31" by (simp add: bit_iff_odd)
  moreover have "take_bit 32 ?v = ?v" using assms(2) by (simp add: take_bit_int_eq_self)
  ultimately show ?thesis
    using assms(2) unfolding int_count_def sint_uint u by (simp add: signed_take_bit_eq_take_bit_minus)
qed

locale net_os = kernel_fds "e_libc e" fds
  for e :: "'k env" and fds :: "'k \<Rightarrow> int set" +
  fixes heap :: "'k \<Rightarrow> addr set" and sent :: "'k \<Rightarrow> int \<Rightarrow> u8 list" and inbox :: "'k \<Rightarrow> int \<Rightarrow> u8 list"
  assumes malloc: "e_malloc e k = (a, k') \<Longrightarrow> a \<noteq> NULL \<and> a \<notin> heap k \<and> heap k' = insert a (heap k) \<and> fds k' = fds k"
    and free: "heap (e_free e a k) = heap k - {a} \<and> fds (e_free e a k) = fds k"
    and h_socket: "syscall_keeps heap (c_socket (e_libc e) family type)"
    and h_connect: "syscall_keeps heap (c_connect (e_libc e) fd sa)"
    and h_setsockopt: "syscall_keeps heap (c_setsockopt (e_libc e) fd domain opt v)"
    and h_getfl: "syscall_keeps heap (c_getfl (e_libc e) fd)" and h_setfl: "syscall_keeps heap (c_setfl (e_libc e) fd flags)"
    and h_shutdown: "syscall_keeps heap (c_shutdown (e_libc e) fd)" and h_close: "syscall_keeps heap (c_close (e_libc e) fd)"
    and r_getsockopt: "syscall_keeps (\<lambda>k. (fds k, heap k)) (c_getsockopt (e_libc e) fd domain opt)"
    and returning: "returns (c_socket (e_libc e) family type)" "returns (c_connect (e_libc e) fd sa)"
      "returns (c_getsockopt (e_libc e) fd domain opt)" "returns (c_send (e_libc e) fd buf fl)" "returns (c_recv (e_libc e) fd n)"
    and available: "c_socket (e_libc e) family type k = (ret, err, x, k') \<Longrightarrow> ret < 0 \<Longrightarrow> err = EINTR"
    and send: "c_send (e_libc e) fd buf fl k = (ret, err, x, k') \<Longrightarrow>
      ret \<le> int (length buf) \<and> fds k' = fds k \<and> heap k' = heap k \<and> inbox k' = inbox k \<and>
      sent k' = (sent k)(fd := sent k fd @ take (nat ret) buf)"
    and recv: "c_recv (e_libc e) fd n k = (ret, err, data, k') \<Longrightarrow> 0 \<le> n \<Longrightarrow>
      ret \<le> n \<and> length data = nat ret \<and> fds k' = fds k \<and> heap k' = heap k \<and> sent k' = sent k \<and>
      inbox k = (inbox k')(fd := data @ inbox k' fd)"
begin

abbreviation (input) lc where "lc \<equiv> e_libc e"

text \<open>Descriptors and memory stay as they are.\<close>

definition same_res :: "'k os \<Rightarrow> 'k os \<Rightarrow> bool" where
  "same_res w w' \<longleftrightarrow> fds (os_kernel w') = fds (os_kernel w) \<and> heap (os_kernel w') = heap (os_kernel w)"

subsection \<open>Socket calls\<close>

lemma create_ok:
  assumes "0 \<le> socket_family_to_bsd family"
  shows "\<exists>fd w'. socket_create lc family SOCKET_STREAM w = Some (fd, w') \<and> 0 \<le> fd \<and> fd \<notin> fds (os_kernel w) \<and>
    fds (os_kernel w') = insert fd (fds (os_kernel w)) \<and> heap (os_kernel w') = heap (os_kernel w)"
proof -
  let ?call = "c_socket lc (socket_family_to_bsd family) (socket_type_to_bsd SOCKET_STREAM)"
  obtain fd x w' where c: "socket_call ?call w = Some (fd, x, w')" by (rule returns_call [OF returning(1)])
  then have s: "socket_create lc family SOCKET_STREAM w = Some (fd, w')"
    using assms by (simp add: socket_create_def Let_def socket_type_to_bsd_def drop_data_def)
  obtain ret where h: "handle_eintr ?call (w\<lparr>os_errno := 0\<rparr>) = Some (ret, x, w')" and fd: "fd = (if ret < 0 then -1 else ret)"
    using c by (auto simp: socket_call_def qsocket_call_def fix_errno_def bind_eq_Some_conv)
  from handle_eintr_last [OF h, of "\<lambda>_. True"] obtain w0 where "\<not> interrupted ?call w0" "(ret, x, w') = sys ?call w0" by blast
  then have "0 \<le> ret" using available by (auto simp: interrupted_def sys_def split: prod.splits if_splits)
  then have "0 \<le> fd" using fd by simp
  moreover have "heap (os_kernel w') = heap (os_kernel w)"
    by (rule call_keeps [OF h_socket, of _ _ w fd]) (use c in \<open>simp add: drop_data_def\<close>)
  ultimately show ?thesis using s create_fds [OF s] by auto
qed

lemma connect_ok: "\<exists>ret w'. socket_connect1 lc fd address w = Some (ret, w') \<and> same_res w w'"
proof -
  have "\<exists>ret w'. socket_connect1 lc fd address w = Some (ret, w')"
  proof (cases "sock_address_to_bsd address")
    case (Inl x)
    then show ?thesis by (cases x) (auto simp: socket_connect1_def with_bsd_def set_errno_def)
  next
    case (Inr sa)
    obtain r x w' where "socket_call (c_connect lc fd sa) w = Some (r, x, w')" by (rule returns_call [OF returning(2)])
    with Inr show ?thesis by (simp add: socket_connect1_def with_bsd_def drop_data_def)
  qed
  then obtain ret w' where c: "socket_connect1 lc fd address w = Some (ret, w')" by blast
  then have "heap (os_kernel w') = heap (os_kernel w)"
    unfolding socket_connect1_def by (rule with_bsd_keeps) (rule call_keeps [OF h_connect])
  with c connect_fds [OF c] show ?thesis by (simp add: same_res_def)
qed

lemma same_res_set_errno [simp]: "same_res w (w\<lparr>os_errno := c\<rparr>)" "same_res (w\<lparr>os_errno := c\<rparr>) w' = same_res w w'"
  by (simp_all add: same_res_def)

lemma same_res_refl [simp]: "same_res w w"
  by (simp add: same_res_def)

lemma same_res_trans: "same_res w u \<Longrightarrow> same_res u v \<Longrightarrow> same_res w v"
  by (simp add: same_res_def)

lemma nonblock_res: "same_res w (snd (socket_set_nonblock lc fd w))"
  unfolding same_res_def
proof
  show "heap (os_kernel (snd (socket_set_nonblock lc fd w))) = heap (os_kernel w)"
    unfolding socket_set_nonblock_def using sys_keeps [OF h_getfl] sys_keeps [OF h_setfl] by (auto split: prod.splits)
qed (rule nonblock_fds)

lemma nodelay_res: "same_res w (snd (socket_set_nodelay1 lc fd w))"
  unfolding same_res_def socket_set_nodelay1_def
proof
  show "heap (os_kernel (snd (socket_setoption lc fd 6 1 1 w))) = heap (os_kernel w)"
    unfolding socket_setoption_def using sys_keeps [OF h_setsockopt] by (auto split: prod.splits)
qed (rule setoption_fds)

lemma close_heap: "heap (os_kernel (socket_close lc fd w)) = heap (os_kernel w)"
proof -
  obtain r x w1 where s: "sys (c_shutdown lc fd) w = (r, x, w1)" by (cases "sys (c_shutdown lc fd) w") auto
  obtain r2 x2 w2 where c: "sys (c_close lc fd) w1 = (r2, x2, w2)" by (cases "sys (c_close lc fd) w1") auto
  show ?thesis using sys_keeps [OF h_shutdown s] sys_keeps [OF h_close c] s c
    by (simp add: socket_close_def ignore_eintr_def)
qed

lemma get_error_ok: "\<exists>err w'. socket_get_error lc fd w = Some (err, w') \<and> same_res w w'"
proof -
  obtain ret v w' where h: "handle_eintr (c_getsockopt lc fd 1 4) w = Some (ret, v, w')"
    using returning(3) [of fd 1 4, unfolded returns_def, rule_format, of w] by auto
  from eintr_keeps [OF r_getsockopt h] h show ?thesis
    by (simp add: socket_get_error_def socket_getoption_def same_res_def)
qed

subsection \<open>Transfers\<close>

text \<open>The kernel accepted \<open>bs\<close> on \<open>fd\<close>; it handed out \<open>bs\<close>.\<close>

definition accepted :: "int \<Rightarrow> u8 list \<Rightarrow> 'k os \<Rightarrow> 'k os \<Rightarrow> bool" where
  "accepted fd bs w w' \<longleftrightarrow> same_res w w' \<and> inbox (os_kernel w') = inbox (os_kernel w) \<and>
     sent (os_kernel w') = (sent (os_kernel w))(fd := sent (os_kernel w) fd @ bs)"

definition received :: "int \<Rightarrow> u8 list \<Rightarrow> 'k os \<Rightarrow> 'k os \<Rightarrow> bool" where
  "received fd bs w w' \<longleftrightarrow> same_res w w' \<and> sent (os_kernel w') = sent (os_kernel w) \<and>
     inbox (os_kernel w) = (inbox (os_kernel w'))(fd := bs @ inbox (os_kernel w') fd)"

lemma accepted_nil [simp]: "accepted fd [] w w"
  by (simp add: accepted_def)

lemma accepted_append: "accepted fd xs w u \<Longrightarrow> accepted fd ys u v \<Longrightarrow> accepted fd (xs @ ys) w v"
  by (simp add: accepted_def same_res_def)

lemma received_nil [simp]: "received fd [] w w"
  by (simp add: received_def)

lemma received_append: "received fd xs w u \<Longrightarrow> received fd ys u v \<Longrightarrow> received fd (xs @ ys) w v"
  by (simp add: received_def same_res_def)

lemma send_ok:
  "\<exists>len w'. socket_send lc fd buf w = Some (len, w') \<and> len \<le> int (length buf) \<and> accepted fd (take (nat len) buf) w w'"
proof -
  let ?k = "os_kernel w"
  obtain len x w' where c: "socket_call (c_send lc fd buf 0) w = Some (len, x, w')" by (rule returns_call [OF returning(4)])
  have "\<exists>k ret err. (fds k = fds ?k \<and> heap k = heap ?k \<and> inbox k = inbox ?k \<and> sent k = sent ?k) \<and>
      c_send lc fd buf 0 k = (ret, err, x, os_kernel w') \<and> len = (if ret < 0 then -1 else ret)"
    using c by (rule socket_call_last) (use send in \<open>auto simp: fun_upd_idem_iff\<close>)
  then obtain k ret err where k: "fds k = fds ?k" "heap k = heap ?k" "inbox k = inbox ?k" "sent k = sent ?k"
    "c_send lc fd buf 0 k = (ret, err, x, os_kernel w')" "len = (if ret < 0 then -1 else ret)" by blast
  have "take (nat len) buf = take (nat ret) buf" using k(6) by simp
  with send [OF k(5)] k c show ?thesis by (simp add: socket_send_def drop_data_def accepted_def same_res_def)
qed

lemma recv_ok:
  assumes "0 \<le> n"
  shows "\<exists>len data w'. socket_recv lc fd n w = Some (len, data, w') \<and> len \<le> n \<and> length data = nat len \<and> received fd data w w'"
proof -
  let ?k = "os_kernel w"
  obtain len x w' where c: "socket_call (c_recv lc fd n) w = Some (len, x, w')" by (rule returns_call [OF returning(5)])
  have "\<exists>k ret err. (fds k = fds ?k \<and> heap k = heap ?k \<and> inbox k = inbox ?k \<and> sent k = sent ?k) \<and>
      c_recv lc fd n k = (ret, err, x, os_kernel w') \<and> len = (if ret < 0 then -1 else ret)"
    using c
  proof (rule socket_call_last)
    fix k ret err x k'
    assume "fds k = fds ?k \<and> heap k = heap ?k \<and> inbox k = inbox ?k \<and> sent k = sent ?k"
      and "c_recv lc fd n k = (ret, err, x, k')" and "ret < 0"
    with recv [OF this(2) assms] show "fds k' = fds ?k \<and> heap k' = heap ?k \<and> inbox k' = inbox ?k \<and> sent k' = sent ?k"
      by simp
  qed simp
  then obtain k ret err where k: "fds k = fds ?k" "heap k = heap ?k" "inbox k = inbox ?k" "sent k = sent ?k"
    "c_recv lc fd n k = (ret, err, x, os_kernel w')" "len = (if ret < 0 then -1 else ret)" by blast
  from recv [OF k(5) assms] k c show ?thesis
    using assms by (auto simp: socket_recv_def received_def same_res_def)
qed

text \<open>
  The result of a transfer that had moved \<open>ret\<close> bytes and moves \<open>m\<close> more of the \<open>n\<close> that remain: the number
  of bytes moved, or an error if there is none.
\<close>

definition transfer_result :: "int \<Rightarrow> nat \<Rightarrow> nat \<Rightarrow> int \<Rightarrow> bool" where
  "transfer_result ret n m r \<longleftrightarrow> m \<le> n \<and> (if 0 < ret + int m \<or> n = 0 then r = ret + int m else r = -2 \<or> r = -4)"

lemma transfer_result_add: "0 < len \<Longrightarrow> len \<le> int n \<Longrightarrow> 0 \<le> ret \<Longrightarrow> transfer_result (ret + len) (n - nat len) m r \<Longrightarrow>
    transfer_result ret n (nat len + m) r"
  by (auto simp: transfer_result_def split: if_splits)

lemma transfer_result_stop: "0 \<le> ret \<Longrightarrow> 0 < n \<Longrightarrow> transfer_result ret n 0 (if len = 0 then if ret = 0 then -4 else ret else call_error ret w)"
  by (auto simp: transfer_result_def call_error_def)

definition in_buffer :: "nat list \<Rightarrow> nat \<Rightarrow> bool" where
  "in_buffer sizes start \<longleftrightarrow> (case sizes of [] \<Rightarrow> start = 0 | n # _ \<Rightarrow> start \<le> n)"

lemma send_loop_step:
  assumes "0 < count" and "\<not> 2 ^ 31 \<le> length b - start" and "socket_send l fd (drop start b) w = Some (len, w1)"
  shows "send_loop l fd (b # rest) start count ret w =
    (if \<not> 0 < len then Some (if len = 0 then if ret = 0 then -4 else ret else call_error ret w1, w1)
     else if length b \<le> start + nat len then send_loop l fd rest 0 (count - len) (ret + len) w1
     else send_loop l fd (b # rest) (start + nat len) (count - len) (ret + len) w1)"
  by (subst send_loop.simps) (use assms in simp)

lemma send_loop_ok:
  assumes "in_buffer (map length bufs) start" and "length (drop start (concat bufs)) < 2 ^ 31" and "0 \<le> ret"
  shows "\<exists>m r w'. send_loop lc fd bufs start (int (length (drop start (concat bufs)))) ret w = Some (r, w') \<and>
    accepted fd (take m (drop start (concat bufs))) w w' \<and> transfer_result ret (length (drop start (concat bufs))) m r"
  using assms
proof (induction "length (drop start (concat bufs))" arbitrary: bufs start ret w rule: less_induct)
  case less
  let ?d = "drop start (concat bufs)"
  show ?case
  proof (cases "?d = []")
    case True
    then have "send_loop lc fd bufs start (int (length ?d)) ret w = Some (ret, w)" by (subst send_loop.simps) simp
    with True show ?thesis by (rule_tac exI [of _ 0]) (simp add: transfer_result_def)
  next
    case False
    then obtain b rest where b: "bufs = b # rest" by (cases bufs) auto
    have st: "start \<le> length b" using less.prems(1) b by (simp add: in_buffer_def)
    have d: "?d = drop start b @ concat rest" using b st by simp
    obtain len w1 where s: "socket_send lc fd (drop start b) w = Some (len, w1)" "len \<le> int (length (drop start b))"
      "accepted fd (take (nat len) (drop start b)) w w1" using send_ok by blast
    have small: "\<not> 2 ^ 31 \<le> length b - start" using less.prems(2) d by simp
    show ?thesis
    proof (cases "0 < len")
      case False
      have "send_loop lc fd bufs start (int (length ?d)) ret w =
          Some (if len = 0 then if ret = 0 then -4 else ret else call_error ret w1, w1)"
        unfolding b by (subst send_loop_step [OF _ small s(1)]) (use \<open>?d \<noteq> []\<close> b False in auto)
      moreover have "accepted fd (take 0 ?d) w w1" using s(3) False by simp
      ultimately show ?thesis using transfer_result_stop [OF less.prems(3), of "length ?d"] \<open>?d \<noteq> []\<close> by blast
    next
      case True
      define bufs' start' where "bufs' = (if length b \<le> start + nat len then rest else bufs)"
        and "start' = (if length b \<le> start + nat len then 0 else start + nat len)"
      have n: "nat len \<le> length b - start" using s(2) by simp
      have pos: "0 < int (length ?d)" and c: "int (length (drop (nat len) ?d)) = int (length ?d) - len"
        using \<open>?d \<noteq> []\<close> True n d by auto
      have d': "drop start' (concat bufs') = drop (nat len) ?d"
        using n st b by (auto simp: bufs'_def start'_def add.commute)
      have "send_loop lc fd bufs start cnt ret w = send_loop lc fd bufs' start' (cnt - len) (ret + len) w1" if "0 < cnt" for cnt
        using send_loop_step [OF that small s(1), of rest ret] True by (simp add: bufs'_def start'_def b)
      from this [OF pos] have step: "send_loop lc fd bufs start (int (length ?d)) ret w =
          send_loop lc fd bufs' start' (int (length (drop (nat len) ?d))) (ret + len) w1" unfolding c .
      have "in_buffer (map length bufs') start'"
        using b n by (auto simp: in_buffer_def bufs'_def start'_def split: list.splits)
      moreover have "length (drop (nat len) ?d) < length ?d" using True n d \<open>?d \<noteq> []\<close> by simp
      ultimately obtain m r w2 where IH:
        "send_loop lc fd bufs' start' (int (length (drop (nat len) ?d))) (ret + len) w1 = Some (r, w2)"
        "accepted fd (take m (drop (nat len) ?d)) w1 w2" "transfer_result (ret + len) (length (drop (nat len) ?d)) m r"
        using less.hyps [of start' bufs' "ret + len" w1] less.prems(2,3) True unfolding d' by force
      have "take (nat len) (drop start b) = take (nat len) ?d" using n d by simp
      with accepted_append [OF s(3) IH(2)] have "accepted fd (take (nat len + m) ?d) w w2" by (simp only: take_add)
      moreover have "transfer_result ret (length ?d) (nat len + m) r"
        by (rule transfer_result_add [OF True]) (use n d less.prems(3) IH(3) [unfolded length_drop [of "nat len"]] in simp_all)
      ultimately show ?thesis using step IH(1) by auto
    qed
  qed
qed

lemma recv_loop_step:
  assumes "0 < count" and "\<not> 2 ^ 31 \<le> n - length cur" and "socket_recv l fd (int (n - length cur)) w = Some (len, data, w1)"
  shows "recv_loop l fd (n # rest) cur out count ret w =
    (if \<not> 0 < len then Some (out @ [cur] @ replicate (length rest) [],
        if len = 0 then if ret = 0 then -4 else ret else call_error ret w1, w1)
     else if n \<le> length (cur @ data) then recv_loop l fd rest [] (out @ [cur @ data]) (count - len) (ret + len) w1
     else recv_loop l fd (n # rest) (cur @ data) out (count - len) (ret + len) w1)"
  by (subst recv_loop.simps) (use assms in \<open>simp add: Let_def\<close>)

text \<open>The buffers filled so far fit their sizes.\<close>

abbreviation (input) fits :: "u8 list list \<Rightarrow> nat list \<Rightarrow> bool" where
  "fits out sizes \<equiv> list_all2 (\<lambda>bs n. length bs \<le> n) out sizes"

lemma fits_replicate: "fits (replicate (length rest) []) rest"
  by (induction rest) auto

lemma recv_loop_ok:
  assumes "in_buffer sizes (length cur)" and "sum_list sizes - length cur < 2 ^ 31" and "0 \<le> ret" and "fits out pre"
  shows "\<exists>bs out' r w'. recv_loop lc fd sizes cur out (int (sum_list sizes - length cur)) ret w = Some (out', r, w') \<and>
    received fd bs w w' \<and> fits out' (pre @ sizes) \<and> concat out' = concat out @ cur @ bs \<and>
    transfer_result ret (sum_list sizes - length cur) (length bs) r"
  using assms
proof (induction "sum_list sizes - length cur" arbitrary: sizes cur out pre ret w rule: less_induct)
  case less
  let ?c = "sum_list sizes - length cur"
  have fit: "fits (out @ cur # replicate (length rest) []) (pre @ n # rest)" if "length cur \<le> n" for n rest
    using that less.prems(4) fits_replicate by (auto intro: list_all2_appendI)
  show ?case
  proof (cases "?c = 0")
    case True
    then have "recv_loop lc fd sizes cur out (int ?c) ret w =
        Some (out @ (if sizes = [] then [] else [cur]) @ replicate (length sizes - 1) [], ret, w)"
      by (subst recv_loop.simps) simp
    moreover have "fits (out @ (if sizes = [] then [] else [cur]) @ replicate (length sizes - 1) []) (pre @ sizes)"
      using fit less.prems(1,4) by (cases sizes) (auto simp: in_buffer_def)
    ultimately show ?thesis using True less.prems(1)
      by (intro exI [of _ "[]"] exI [of _ "out @ (if sizes = [] then [] else [cur]) @ replicate (length sizes - 1) []"] exI [of _ ret] exI [of _ w])
        (cases sizes; simp add: transfer_result_def in_buffer_def)
  next
    case False
    then obtain n rest where n: "sizes = n # rest" by (cases sizes) auto
    have cur: "length cur \<le> n" using less.prems(1) n by (simp add: in_buffer_def)
    obtain len data w1 where s: "socket_recv lc fd (int (n - length cur)) w = Some (len, data, w1)" "len \<le> int (n - length cur)"
      "length data = nat len" "received fd data w w1" using recv_ok [of "int (n - length cur)" fd w] by auto
    have small: "\<not> 2 ^ 31 \<le> n - length cur" using less.prems(2) n by simp
    have pos: "0 < int ?c" using False by simp
    show ?thesis
    proof (cases "0 < len")
      case False
      let ?out = "out @ [cur] @ replicate (length rest) []"
      have "recv_loop lc fd sizes cur out (int ?c) ret w =
          Some (?out, if len = 0 then if ret = 0 then -4 else ret else call_error ret w1, w1)"
        using recv_loop_step [OF pos small s(1), of rest out ret] False n by simp
      moreover have "received fd [] w w1" using s(3,4) False by simp
      moreover have "fits ?out (pre @ sizes)" using fit [OF cur] n by simp
      moreover have "concat ?out = concat out @ cur @ []" by simp
      moreover have "transfer_result ret ?c (length []) (if len = 0 then if ret = 0 then -4 else ret else call_error ret w1)"
        unfolding list.size(3) by (rule transfer_result_stop [OF less.prems(3)]) (use pos in simp)
      ultimately show ?thesis by blast
    next
      case True
      define sizes' cur' out' pre' where "sizes' = (if n \<le> length (cur @ data) then rest else sizes)"
        and "cur' = (if n \<le> length (cur @ data) then [] else cur @ data)"
        and "out' = (if n \<le> length (cur @ data) then out @ [cur @ data] else out)"
        and "pre' = (if n \<le> length (cur @ data) then pre @ [n] else pre)"
      note defs = sizes'_def cur'_def out'_def pre'_def
      have c: "sum_list sizes' - length cur' = ?c - nat len"
        using s(2,3) True cur by (auto simp: defs n)
      have "recv_loop lc fd sizes cur out cnt ret w = recv_loop lc fd sizes' cur' out' (cnt - len) (ret + len) w1" if "0 < cnt" for cnt
        using recv_loop_step [OF that small s(1), of rest out ret] True by (simp add: defs n)
      moreover have "int ?c - len = int (?c - nat len)" using s(2) True cur n by auto
      ultimately have step: "recv_loop lc fd sizes cur out (int ?c) ret w =
          recv_loop lc fd sizes' cur' out' (int (?c - nat len)) (ret + len) w1" using pos by metis
      have a: "in_buffer sizes' (length cur')" "fits out' pre'"
        using n s(2,3) cur less.prems(4) by (auto simp: in_buffer_def defs intro: list_all2_appendI split: list.splits)
      have lt: "?c - nat len < ?c" using True pos by simp
      from less.hyps [of sizes' cur' "ret + len" out' pre' w1, unfolded c, OF lt a(1) _ _ a(2)] less.prems(2,3) True
      obtain bs out2 r w2 where IH: "recv_loop lc fd sizes' cur' out' (int (?c - nat len)) (ret + len) w1 = Some (out2, r, w2)"
        "received fd bs w1 w2" "fits out2 (pre' @ sizes')" "concat out2 = concat out' @ cur' @ bs"
        "transfer_result (ret + len) (?c - nat len) (length bs) r" by force
      have "transfer_result ret ?c (length (data @ bs)) r"
        using transfer_result_add [OF True _ less.prems(3) IH(5)] s(2,3) n cur by simp
      moreover have "fits out2 (pre @ sizes)" "concat out2 = concat out @ cur @ data @ bs"
        using IH(3,4) by (auto simp: defs n split: if_splits)
      ultimately show ?thesis using step IH(1) received_append [OF s(4) IH(2)] by (auto intro!: exI [of _ "data @ bs"])
    qed
  qed
qed

lemma sendBuffers_ok:
  assumes p: "nw_pipes w pipe = Some np" and c: "np_state np = STATE_CONNECTED" and len: "length (concat bufs) < 2 ^ 31"
  shows "\<exists>m r os'. netPipe_sendBuffers e pipe bufs w = Some (w\<lparr>nw_os := os'\<rparr>, word_of_int r) \<and>
    accepted (np_io_fd np) (take m (concat bufs)) (nw_os w) os' \<and> transfer_result 0 (length (concat bufs)) m r"
proof -
  have "in_buffer (map length bufs) 0" by (cases bufs) (auto simp: in_buffer_def)
  from send_loop_ok [OF this, of 0 "np_io_fd np" "nw_os w"] len obtain m r os' where
    "send_loop lc (np_io_fd np) bufs 0 (int (length (concat bufs))) 0 (nw_os w) = Some (r, os')"
    "accepted (np_io_fd np) (take m (concat bufs)) (nw_os w) os'" "transfer_result 0 (length (concat bufs)) m r" by auto
  moreover have "int_count (map length bufs) = int (length (concat bufs))"
    using len by (simp add: int_count_small length_concat)
  ultimately show ?thesis using p c by (auto simp: netPipe_sendBuffers_def netPipeReadySend_def)
qed

lemma recvBuffers_ok:
  assumes p: "nw_pipes w pipe = Some np" and len: "sum_list sizes < 2 ^ 31"
  shows "\<exists>bs out r os'. netPipe_recvBuffers e pipe sizes w = Some (w\<lparr>nw_os := os'\<rparr>, out, word_of_int r) \<and>
    received (np_io_fd np) bs (nw_os w) os' \<and> fits out sizes \<and> concat out = bs \<and> transfer_result 0 (sum_list sizes) (length bs) r"
proof -
  have "in_buffer sizes (length [])" by (cases sizes) (auto simp: in_buffer_def)
  from recv_loop_ok [OF this, of 0 "[]" "[]" "np_io_fd np" "nw_os w"] len int_count_small [OF len] p
  show ?thesis by (fastforce simp: netPipe_recvBuffers_def)
qed

text \<open>A result as the device reports it.\<close>

lemma transfer_result_word:
  assumes "transfer_result 0 n m r" and "n < 2 ^ 31"
  shows "m \<le> n" and "if 0 < m \<or> n = 0 then unat (word_of_int r :: u32) = m
    else (word_of_int r :: u32) = PIPE_ERROR_AGAIN \<or> (word_of_int r :: u32) = PIPE_ERROR_IO"
  using assms by (auto simp: transfer_result_def unsigned_of_nat unsigned_of_int take_bit_nat_eq_self split: if_splits)

end

subsection \<open>A machine\<close>

text \<open>
  A kernel with the open descriptors, the allocated addresses and the streams; a connection takes
  a while if \<open>mk_slow\<close>, and then ends with \<open>err\<close>.
\<close>

record machine =
  mk_fds :: "int list"
  mk_heap :: "nat list"
  mk_sent :: "int \<Rightarrow> u8 list"
  mk_inbox :: "int \<Rightarrow> u8 list"
  mk_slow :: bool

definition machine_libc :: "int \<Rightarrow> machine libc" where
  "machine_libc err =
     \<lparr>c_socket = \<lambda>_ _ k. (next_fd (mk_fds k), 0, (), k\<lparr>mk_fds := next_fd (mk_fds k) # mk_fds k\<rparr>),
      c_connect = \<lambda>_ _ k. (if mk_slow k then -1 else 0, EINPROGRESS, (), k),
      c_bind = \<lambda>_ _ k. (0, 0, (), k), c_listen = \<lambda>_ _ k. (0, 0, (), k),
      c_accept = \<lambda>_ k. (next_fd (mk_fds k), 0, [1, 0], k\<lparr>mk_fds := next_fd (mk_fds k) # mk_fds k\<rparr>),
      c_send = \<lambda>fd buf _ k. (int (length buf), 0, (), k\<lparr>mk_sent := (mk_sent k)(fd := mk_sent k fd @ buf)\<rparr>),
      c_sendto = \<lambda>_ buf _ k. (int (length buf), 0, (), k),
      c_recv = \<lambda>fd n k. (if mk_inbox k fd = [] then (-1, EAGAIN, [], k)
        else (int (length (take (nat n) (mk_inbox k fd))), 0, take (nat n) (mk_inbox k fd),
              k\<lparr>mk_inbox := (mk_inbox k)(fd := drop (nat n) (mk_inbox k fd))\<rparr>)),
      c_recvfrom = \<lambda>_ _ k. (0, 0, ([], [1, 0]), k), c_getsockname = \<lambda>_ k. (0, 0, [1, 0], k),
      c_getpeername = \<lambda>_ k. (0, 0, [1, 0], k), c_getsockopt = \<lambda>_ _ _ k. (0, 0, err, k),
      c_setsockopt = \<lambda>_ _ _ _ k. (0, 0, (), k), c_getfl = \<lambda>_ k. (0, 0, (), k), c_setfl = \<lambda>_ _ k. (0, 0, (), k),
      c_fionread = \<lambda>_ k. (0, 0, 0, k), c_shutdown = \<lambda>_ k. (0, 0, (), k),
      c_close = \<lambda>fd k. (0, 0, (), k\<lparr>mk_fds := filter (\<lambda>x. x \<noteq> fd) (mk_fds k)\<rparr>), c_unlink = \<lambda>_ k. (0, 0, (), k),
      c_socketpair = \<lambda>k. (-1, EINVAL, (0, 0), k)\<rparr>"

definition next_addr :: "nat list \<Rightarrow> nat" where
  "next_addr h = foldr max h 0 + 1"

definition machine_env :: "int \<Rightarrow> machine env" where
  "machine_env err = \<lparr>e_libc = machine_libc err,
     e_malloc = \<lambda>k. (next_addr (mk_heap k), k\<lparr>mk_heap := next_addr (mk_heap k) # mk_heap k\<rparr>),
     e_free = \<lambda>a k. k\<lparr>mk_heap := filter (\<lambda>x. x \<noteq> a) (mk_heap k)\<rparr>\<rparr>"

lemma next_addr_fresh [simp]: "next_addr h \<notin> set h" "0 < next_addr h"
proof -
  have "x \<in> set h \<Longrightarrow> x < next_addr h" for x unfolding next_addr_def by (induction h) auto
  then show "next_addr h \<notin> set h" by blast
qed (simp add: next_addr_def)

lemma handle_eintr_once: "\<not> interrupted call w \<Longrightarrow> handle_eintr call w = Some (sys call w)"
  by (subst handle_eintr_unfold) simp

interpretation machine: net_os "machine_env err" "\<lambda>k. set (mk_fds k)" "\<lambda>k. set (mk_heap k)" mk_sent mk_inbox for err
proof unfold_locales
  fix family type fd domain opt fl n sa and buf :: "u8 list"
  show "returns (c_socket (e_libc (machine_env err)) family type)" "returns (c_connect (e_libc (machine_env err)) fd sa)"
    "returns (c_getsockopt (e_libc (machine_env err)) fd domain opt)" "returns (c_send (e_libc (machine_env err)) fd buf fl)"
    "returns (c_recv (e_libc (machine_env err)) fd n)"
    unfolding returns_def by (auto simp: handle_eintr_once interrupted_def sys_def machine_env_def machine_libc_def)
qed (auto simp: machine_env_def machine_libc_def opens_fd_def syscall_keeps_def split: if_splits)

text \<open>A connected network pipe on descriptor 3 with four bytes waiting.\<close>

definition machine0 :: machine where
  "machine0 = \<lparr>mk_fds = [0, 1, 2, 3], mk_heap = [1, 2], mk_sent = (\<lambda>_. []), mk_inbox = (\<lambda>_. [])(3 := [7, 8, 9, 10]),
     mk_slow = False\<rparr>"

definition net_pipe1 :: NetPipe where
  "net_pipe1 = \<lparr>np_hwpipe = 9, np_state = STATE_CONNECTED, np_wakeWanted = 0, np_io_clazz = Some QLooperIoClass,
     np_io_impl = 2, np_io_fd = 3, np_connector = \<lparr>ac_error = 0, ac_state = CONNECT_COMPLETED\<rparr>, np_owner = 9\<rparr>"

definition net_world1 :: "(machine, unit) net_world" where
  "net_world1 = QLooper.extend (looper_newCore 10 [] ctx0)
     \<lparr>nw_pipes = [1 \<mapsto> net_pipe1], nw_os = \<lparr>os_errno = 0, os_kernel = machine0\<rparr>, nw_gles = gles0\<rparr>"

subsection \<open>Properties\<close>

text \<open>C22: Sending on a connected network pipe terminates, and moves a prefix of the buffers to the socket, in
  order and without loss: the number of bytes reported is the number of bytes the kernel accepted,
  and an error is reported only if it accepted none.\<close>

theorem net_send_transfers:
  assumes "net_os e fds heap sent inbox" and "nw_pipes w pipe = Some np" and "np_state np = STATE_CONNECTED"
    and "length (concat bufs) < 2 ^ 31"
  shows "\<exists>w' r m. netPipe_sendBuffers e pipe bufs w = Some (w', r) \<and> m \<le> length (concat bufs) \<and>
    sent (os_kernel (nw_os w')) = (sent (os_kernel (nw_os w)))
      (np_io_fd np := sent (os_kernel (nw_os w)) (np_io_fd np) @ take m (concat bufs)) \<and>
    (if 0 < m \<or> concat bufs = [] then unat r = m else r = PIPE_ERROR_AGAIN \<or> r = PIPE_ERROR_IO)"
proof -
  obtain m r os' where t: "netPipe_sendBuffers e pipe bufs w = Some (w\<lparr>nw_os := os'\<rparr>, word_of_int r)"
    "net_os.accepted fds heap sent inbox (np_io_fd np) (take m (concat bufs)) (nw_os w) os'"
    "net_os.transfer_result 0 (length (concat bufs)) m r"
    using net_os.sendBuffers_ok [OF assms] by blast
  show ?thesis
    using t(1) t(2) [unfolded net_os.accepted_def [OF assms(1)]] net_os.transfer_result_word [OF assms(1) t(3) assms(4)]
    by (intro exI [of _ "w\<lparr>nw_os := os'\<rparr>"] exI [of _ "word_of_int r"] exI [of _ m]) simp
qed

lemma net_world1_pipe: "nw_pipes net_world1 1 = Some net_pipe1"
  by (simp add: net_world1_def QLooper.defs)

theorem net_send_transfers_witness:
  "\<exists>w' r m. netPipe_sendBuffers (machine_env 0) 1 [[1, 2], [3]] net_world1 = Some (w', r) \<and> m \<le> length (concat [[1, 2], [3 :: u8]]) \<and>
     mk_sent (os_kernel (nw_os w')) = (mk_sent (os_kernel (nw_os net_world1)))
       (np_io_fd net_pipe1 := mk_sent (os_kernel (nw_os net_world1)) (np_io_fd net_pipe1) @ take m (concat [[1, 2], [3]])) \<and>
     (if 0 < m \<or> concat [[1, 2], [3 :: u8]] = [] then unat r = m else r = PIPE_ERROR_AGAIN \<or> r = PIPE_ERROR_IO)"
  by (rule net_send_transfers [OF machine.net_os_axioms net_world1_pipe]) (simp_all add: net_pipe1_def)

text \<open>C23: Receiving on a network pipe terminates, and moves bytes from the socket to the buffers, in order, without
  loss and without overrunning a buffer: what is in the buffers, one after the other, is what the
  kernel had for the socket, and the number of bytes reported is their number; an error is
  reported only if there is none.\<close>

theorem net_recv_transfers:
  assumes "net_os e fds heap sent inbox" and "nw_pipes w pipe = Some np" and "sum_list sizes < 2 ^ 31"
  shows "\<exists>w' out r. netPipe_recvBuffers e pipe sizes w = Some (w', out, r) \<and>
    list_all2 (\<lambda>bs n. length bs \<le> n) out sizes \<and>
    inbox (os_kernel (nw_os w)) (np_io_fd np) = concat out @ inbox (os_kernel (nw_os w')) (np_io_fd np) \<and>
    (if concat out \<noteq> [] \<or> sum_list sizes = 0 then unat r = length (concat out)
     else r = PIPE_ERROR_AGAIN \<or> r = PIPE_ERROR_IO)"
proof -
  obtain bs out r os' where t: "netPipe_recvBuffers e pipe sizes w = Some (w\<lparr>nw_os := os'\<rparr>, out, word_of_int r)"
    "net_os.received fds heap sent inbox (np_io_fd np) bs (nw_os w) os'" "list_all2 (\<lambda>bs n. length bs \<le> n) out sizes"
    "concat out = bs" "net_os.transfer_result 0 (sum_list sizes) (length bs) r"
    using net_os.recvBuffers_ok [OF assms] by blast
  have "inbox (os_kernel (nw_os w)) (np_io_fd np) = bs @ inbox (os_kernel os') (np_io_fd np)"
    using t(2) [unfolded net_os.received_def [OF assms(1)]] by (metis fun_upd_same)
  then show ?thesis
    using t(1,3,4) net_os.transfer_result_word [OF assms(1) t(5) assms(3)]
    by (intro exI [of _ "w\<lparr>nw_os := os'\<rparr>"] exI [of _ out] exI [of _ "word_of_int r"]) auto
qed

theorem net_recv_transfers_witness:
  "\<exists>w' out r. netPipe_recvBuffers (machine_env 0) 1 [3, 3] net_world1 = Some (w', out, r) \<and>
     list_all2 (\<lambda>bs n. length bs \<le> n) out [3, 3] \<and>
     mk_inbox (os_kernel (nw_os net_world1)) (np_io_fd net_pipe1) = concat out @ mk_inbox (os_kernel (nw_os w')) (np_io_fd net_pipe1) \<and>
     (if concat out \<noteq> [] \<or> sum_list [3, 3 :: nat] = 0 then unat r = length (concat out)
      else r = PIPE_ERROR_AGAIN \<or> r = PIPE_ERROR_IO)"
  by (rule net_recv_transfers [OF machine.net_os_axioms net_world1_pipe]) simp

end
