(* ===== verification/NetPipeInv.thy ===== *)
theory NetPipeInv
  imports NetOs
begin

text \<open>
  The invariant of the network pipes: every pipe object has one watcher in the event loop, with
  its descriptor and with the object as its user pointer, and every watcher belongs to a pipe
  object. Both live in allocated memory and the descriptor is open. Over it, the operations of
  \<open>hw-pipe-net.c\<close> that the pipe device calls never fault.
\<close>

subsection \<open>Steps of the event loop inside the larger state\<close>

lemma ql_outer_net:
  assumes "ql_outer w t"
  shows "nw_pipes t = nw_pipes w" and "nw_os t = nw_os w" and "nw_gles t = nw_gles w"
  using assms by (cases w; cases t; simp add: ql_outer_def)+

lemma ql_inv_net [simp]:
  "ql_inv (w\<lparr>nw_pipes := p\<rparr>) = ql_inv w" "ql_inv (w\<lparr>nw_os := os\<rparr>) = ql_inv w"
  by (simp_all add: ql_inv_def ql_good_def ql_rep_def ql_bh_ok_def)

lemma ql_watch_net [simp]:
  "ql_watch (w\<lparr>nw_pipes := p\<rparr>) = ql_watch w" "ql_watch (w\<lparr>nw_os := os\<rparr>) = ql_watch w"
  by (simp_all add: ql_watch_def fun_eq_iff)

lemma ql_ready_net [simp]:
  "ql_ready (w\<lparr>nw_pipes := p\<rparr>) = ql_ready w" "ql_ready (w\<lparr>nw_os := os\<rparr>) = ql_ready w"
  by (simp_all add: ql_ready_def)

lemma ql_watch_live: "ql_watch l a = Some x \<Longrightarrow> \<exists>i. ql_ios l a = Some i"
  by (auto simp: ql_watch_def)

text \<open>A new watcher.\<close>

lemma ql_inv_new:
  assumes inv: "ql_inv l" and new: "a \<noteq> NULL" "ql_watch l a = None" and fd: "0 \<le> fd"
    and fdn: "\<And>b fd' x. ql_watch l b = Some (fd', x) \<Longrightarrow> fd' \<noteq> fd"
  shows "\<exists>t. qlooper_io_init fd cb opq a l = Some (\<lparr>io_clazz = Some qlooper_io_class, io_impl = a, io_fd = fd\<rparr>, t) \<and>
    ql_inv t \<and> ql_outer l t \<and> ql_watch t = (ql_watch l)(a \<mapsto> (fd, cb, opq))"
proof -
  obtain xs ps D where g: "ql_good l xs ps D" using inv by (auto simp: ql_inv_def)
  then have r: "ql_rep l xs ps D" by (simp add: ql_good_def)
  have n: "a \<notin> dom (ql_ios l)" using new(2) by (auto simp: ql_watch_def)
  have fdj: "qi_fd j \<noteq> fd" if "D b = Some j" for b j
    using fdn [of b "qi_fd j"] that by (simp add: ql_watch_rep [OF r])
  let ?i = "\<lparr>qi_fd = fd, qi_user_callback = cb, qi_user_opaque = opq, qi_wanted = 0, qi_ready = 0,
        qi_pendingNext = NULL, qi_next = NULL\<rparr>"
  have "\<exists>t. qloopio_new fd cb opq a l = Some t \<and> ql_good t (a # xs) ps (D(a \<mapsto> ?i)) \<and> ql_outer l t"
    by (rule qloopio_new_ok [OF g new(1) n fd _ refl]) (rule fdj)
  then obtain t where t: "qloopio_new fd cb opq a l = Some t" "ql_good t (a # xs) ps (D(a \<mapsto> ?i))" "ql_outer l t" by blast
  then have "ql_rep t (a # xs) ps (D(a \<mapsto> ?i))" by (simp add: ql_good_def)
  then have "ql_watch t = (ql_watch l)(a \<mapsto> (fd, cb, opq))"
    using ql_watch_rep [OF r] ql_watch_rep by (fastforce simp: fun_eq_iff)
  with t show ?thesis unfolding ql_inv_def qlooper_io_init_def by auto
qed

text \<open>The operations on a watcher through the \<open>LoopIo\<close> of a pipe object.\<close>

lemma np_io_ops:
  assumes inv: "ql_inv l" and np: "np_io_clazz np = Some QLooperIoClass" "ql_watch l (np_io_impl np) = Some x"
  shows "\<exists>t. loopIo_wantRead (np_io np) l = Some t \<and> ql_step l t"
    and "\<exists>t. loopIo_wantWrite (np_io np) l = Some t \<and> ql_step l t"
    and "\<exists>t. loopIo_dontWantRead (np_io np) l = Some t \<and> ql_step l t"
    and "\<exists>t. loopIo_dontWantWrite (np_io np) l = Some t \<and> ql_step l t"
    and "\<exists>m. loopIo_poll (np_io np) l = Some m"
proof -
  obtain i where i: "ql_ios l (np_io_impl np) = Some i" using ql_watch_live [OF np(2)] by blast
  note m = ql_inv_modify [OF inv i]
  show "\<exists>t. loopIo_wantRead (np_io np) l = Some t \<and> ql_step l t"
    using m [of "qi_wanted i OR LOOP_IO_READ"] i inv np(1)
    by (auto simp: loopIo_defs np_io_def qlooper_io_class_def qloopio_wantRead_def intro: ql_step_refl)
  show "\<exists>t. loopIo_wantWrite (np_io np) l = Some t \<and> ql_step l t"
    using m [of "qi_wanted i OR LOOP_IO_WRITE"] i inv np(1)
    by (auto simp: loopIo_defs np_io_def qlooper_io_class_def qloopio_wantWrite_def intro: ql_step_refl)
  show "\<exists>t. loopIo_dontWantRead (np_io np) l = Some t \<and> ql_step l t"
    using m [of "qi_wanted i AND NOT LOOP_IO_READ"] i inv np(1)
    by (auto simp: loopIo_defs np_io_def qlooper_io_class_def qloopio_dontWantRead_def intro: ql_step_refl)
  show "\<exists>t. loopIo_dontWantWrite (np_io np) l = Some t \<and> ql_step l t"
    using m [of "qi_wanted i AND NOT LOOP_IO_WRITE"] i inv np(1)
    by (auto simp: loopIo_defs np_io_def qlooper_io_class_def qloopio_dontWantWrite_def intro: ql_step_refl)
  show "\<exists>m. loopIo_poll (np_io np) l = Some m"
    using i np(1) by (simp add: loopIo_defs np_io_def qlooper_io_class_def qloopio_poll_def)
qed

lemma resetState_ok:
  assumes inv: "ql_inv w" and a: "nw_pipes w a = Some np"
    and np: "np_io_clazz np = Some QLooperIoClass" "ql_watch w (np_io_impl np) = Some x"
  shows "\<exists>t. netPipe_resetState a w = Some t \<and> ql_step w t"
proof -
  obtain t where t: "(if np_wakeWanted np AND PIPE_WAKE_WRITE \<noteq> 0 then loopIo_wantWrite (np_io np) w
      else loopIo_dontWantWrite (np_io np) w) = Some t" "ql_step w t"
    using np_io_ops(2,4) [OF inv np] by (cases "np_wakeWanted np AND PIPE_WAKE_WRITE \<noteq> 0") auto
  then have "ql_inv t" "ql_watch t (np_io_impl np) = Some x" using np(2) by (simp_all add: ql_step_def)
  note ops = np_io_ops(1,3) [OF this(1) np(1) this(2)]
  obtain u where "(if np_state np = STATE_CONNECTED \<and> np_wakeWanted np AND PIPE_WAKE_READ \<noteq> 0
      then loopIo_wantRead (np_io np) t else loopIo_dontWantRead (np_io np) t) = Some u" "ql_step t u"
    using ops by (cases "np_state np = STATE_CONNECTED \<and> np_wakeWanted np AND PIPE_WAKE_READ \<noteq> 0") auto
  with t a ql_step_trans show ?thesis by (auto simp: netPipe_resetState_def)
qed

subsection \<open>The invariant\<close>

definition np_ok :: "(addr \<rightharpoonup> int \<times> netcb \<times> addr) \<Rightarrow> addr \<Rightarrow> NetPipe \<Rightarrow> bool" where
  "np_ok W a np \<longleftrightarrow> np_io_clazz np = Some QLooperIoClass \<and> W (np_io_impl np) = Some (np_io_fd np, NetPipeIoFunc, a) \<and>
     np_owner np \<noteq> NULL \<and> (if np_hwpipe np = NULL then np_wakeWanted np = 0 else np_hwpipe np = np_owner np) \<and>
     (np_state np = STATE_CONNECTING \<longrightarrow> ac_state (np_connector np) = CONNECT_CONNECTING)"

definition net_ok ::
  "(addr \<rightharpoonup> int \<times> netcb \<times> addr) \<Rightarrow> (addr \<rightharpoonup> NetPipe) \<Rightarrow> int set \<Rightarrow> addr set \<Rightarrow> bool" where
  "net_ok W P F H \<longleftrightarrow> (\<forall>a np. P a = Some np \<longrightarrow> a \<noteq> NULL \<and> np_ok W a np) \<and>
     (\<forall>b fd cb a. W b = Some (fd, cb, a) \<longrightarrow> fd \<in> F \<and> (\<exists>np. P a = Some np \<and> np_io_impl np = b)) \<and>
     dom P \<subseteq> H \<and> dom W \<subseteq> H \<and> dom P \<inter> dom W = {}"

lemma net_ok_pipe: "net_ok W P F H \<Longrightarrow> P a = Some np \<Longrightarrow> a \<noteq> NULL \<and> np_ok W a np"
  by (simp add: net_ok_def)

lemma net_ok_watch: "net_ok W P F H \<Longrightarrow> W b = Some (fd, cb, a) \<Longrightarrow> fd \<in> F \<and> (\<exists>np. P a = Some np \<and> np_io_impl np = b)"
  unfolding net_ok_def by blast

lemma net_ok_dom: "net_ok W P F H \<Longrightarrow> dom P \<subseteq> H" "net_ok W P F H \<Longrightarrow> dom W \<subseteq> H" "net_ok W P F H \<Longrightarrow> dom P \<inter> dom W = {}"
  by (simp_all add: net_ok_def)

lemma net_ok_upd:
  assumes ok: "net_ok W P F H" and a: "P a = Some np" and n: "np_ok W a np'" "np_io_impl np' = np_io_impl np"
  shows "net_ok W (P(a \<mapsto> np')) F H"
proof -
  have "dom (P(a \<mapsto> np')) = dom P" using a by auto
  moreover have "\<exists>np. (P(a \<mapsto> np')) c = Some np \<and> np_io_impl np = b" if "W b = Some (fd, cb, c)" for b fd cb c
    using net_ok_watch [OF ok that] a n(2) by auto
  ultimately show ?thesis using assms unfolding net_ok_def by auto
qed

lemma net_ok_new:
  assumes ok: "net_ok W P F H" and new: "a \<notin> H" "b \<notin> H" "a \<noteq> b" "a \<noteq> NULL"
    and n: "np_ok (W(b \<mapsto> (fd, cb, a))) a np" "np_io_impl np = b"
  shows "net_ok (W(b \<mapsto> (fd, cb, a))) (P(a \<mapsto> np)) (insert fd F) (insert b (insert a H))"
proof -
  have nd: "P a = None" "W b = None" "W a = None" "P b = None" using net_ok_dom [OF ok] new by auto
  have "np_ok (W(b \<mapsto> (fd, cb, a))) c np'" if "P c = Some np'" for c np'
    using net_ok_pipe [OF ok that] nd by (auto simp: np_ok_def)
  moreover have "\<exists>np'. (P(a \<mapsto> np)) c = Some np' \<and> np_io_impl np' = b'" if "W b' = Some (fd', cb', c)" for b' fd' cb' c
    using net_ok_watch [OF ok that] nd by auto
  ultimately show ?thesis using ok n new nd unfolding net_ok_def by (auto split: if_splits)
qed

lemma net_ok_free:
  assumes ok: "net_ok W P F H" and a: "P a = Some np"
    and inj: "\<And>b b' fd x x'. W b = Some (fd, x) \<Longrightarrow> W b' = Some (fd, x') \<Longrightarrow> b = b'"
  shows "net_ok (W(np_io_impl np := None)) (P(a := None)) (F - {np_io_fd np}) (H - {np_io_impl np} - {a})"
proof -
  have w: "W (np_io_impl np) = Some (np_io_fd np, NetPipeIoFunc, a)" using net_ok_pipe [OF ok a] by (simp add: np_ok_def)
  have d: "P (np_io_impl np) = None" "W a = None" using net_ok_dom(3) [OF ok] w a by auto
  have 1: "c \<noteq> NULL \<and> np_ok (W(np_io_impl np := None)) c np'" if "P c = Some np'" "c \<noteq> a" for c np'
  proof -
    have n: "c \<noteq> NULL" "np_ok W c np'" using net_ok_pipe [OF ok that(1)] by simp_all
    then have "np_io_impl np' \<noteq> np_io_impl np" using w that(2) by (auto simp: np_ok_def)
    with n show ?thesis by (auto simp: np_ok_def)
  qed
  have 2: "fd \<noteq> np_io_fd np \<and> c \<noteq> a \<and> fd \<in> F \<and> (\<exists>np. P c = Some np \<and> np_io_impl np = b)"
    if "W b = Some (fd, cb, c)" "b \<noteq> np_io_impl np" for b fd cb c
    using net_ok_watch [OF ok that(1)] inj [OF that(1)] w a that(2) by auto
  show ?thesis using 1 2 net_ok_dom [OF ok] d unfolding net_ok_def by (auto split: if_splits)
qed

end
