(* ===== verification/NetPipeSafe.thy ===== *)
theory NetPipeSafe
  imports NetPipeInv
begin

text \<open>
  The network pipes are services of the pipe device: they satisfy its contract \<open>pipe_backend\<close>, so
  with them no access of the guest to the device registers can fault.
\<close>

definition net_peer :: "('k, 'r) net_world \<Rightarrow> addr \<Rightarrow> addr \<Rightarrow> bool" where
  "net_peer w h a \<longleftrightarrow> (\<exists>np. nw_pipes w a = Some np \<and> np_owner np = h)"

definition net_dead :: "('k, 'r) net_world \<Rightarrow> addr \<Rightarrow> bool" where
  "net_dead w a \<longleftrightarrow> (\<exists>np. nw_pipes w a = Some np \<and> np_hwpipe np = NULL)"

lemma net_views_cong: "nw_pipes t = nw_pipes w \<Longrightarrow> net_peer t = net_peer w \<and> net_dead t = net_dead w"
  by (simp add: net_peer_def net_dead_def fun_eq_iff)

lemma net_views_upd:
  assumes "nw_pipes w a = Some np" and "np_owner np' = np_owner np" and "np_hwpipe np' = np_hwpipe np"
  shows "net_peer (w\<lparr>nw_pipes := (nw_pipes w)(a \<mapsto> np')\<rparr>) = net_peer w"
    and "net_dead (w\<lparr>nw_pipes := (nw_pipes w)(a \<mapsto> np')\<rparr>) = net_dead w"
  using assms by (auto simp: net_peer_def net_dead_def fun_eq_iff)

lemma io_fd_np_io [simp]: "io_fd (np_io np) = np_io_fd np"
  by (simp add: np_io_def)

text \<open>What follows the creation of the watcher in \<open>netPipe_initFromAddress\<close>.\<close>

definition net_connect ::
  "'k env \<Rightarrow> addr \<Rightarrow> SockAddress \<Rightarrow> ('k, 'r) net_world \<Rightarrow> (('k, 'r) net_world \<times> addr) option" where
  "net_connect e pipe address w6 =
     do { np \<leftarrow> nw_pipes w6 pipe;
          (status, ac, w7, os7) \<leftarrow> asyncConnector_init (e_libc e) address (np_io np) w6 (nw_os w6);
          let w8 = w7\<lparr>nw_os := os7\<rparr>;
          w9 \<leftarrow> set_np pipe (\<lambda>np. np\<lparr>np_connector := ac, np_state := STATE_CONNECTING\<rparr>) w8;
          case status of
            ASYNC_ERROR \<Rightarrow> do { w10 \<leftarrow> netPipe_free e pipe w9; Some (w10, NULL) }
          | ASYNC_COMPLETE \<Rightarrow>
              do { w10 \<leftarrow> set_np pipe (\<lambda>np. np\<lparr>np_state := STATE_CONNECTED\<rparr>) w9;
                   w11 \<leftarrow> netPipe_resetState pipe w10;
                   Some (w11, pipe) }
          | ASYNC_NEED_MORE \<Rightarrow> Some (w9, pipe) }"

text \<open>The new object, once its watcher exists.\<close>

definition opened_np :: "addr \<Rightarrow> addr \<Rightarrow> int \<Rightarrow> NetPipe" where
  "opened_np hw io fd = \<lparr>np_hwpipe = hw, np_state = STATE_INIT, np_wakeWanted = 0, np_io_clazz = Some QLooperIoClass,
     np_io_impl = io, np_io_fd = fd, np_connector = \<lparr>ac_error = 0, ac_state = CONNECT_ERROR\<rparr>, np_owner = hw\<rparr>"

lemma opened_np_sel: "np_owner (opened_np hw io fd) = hw" "np_hwpipe (opened_np hw io fd) = hw"
  by (simp_all add: opened_np_def)

context net_os
begin

abbreviation wfds :: "('k, 'r) net_world \<Rightarrow> int set" where "wfds w \<equiv> fds (os_kernel (nw_os w))"
abbreviation wheap :: "('k, 'r) net_world \<Rightarrow> addr set" where "wheap w \<equiv> heap (os_kernel (nw_os w))"

definition wok :: "('k, 'r) net_world \<Rightarrow> bool" where
  "wok w \<longleftrightarrow> net_ok (ql_watch w) (nw_pipes w) (wfds w) (wheap w)"

definition winv :: "('k, 'r) net_world \<Rightarrow> bool" where
  "winv w \<longleftrightarrow> ql_inv w \<and> wok w"

lemma winv_np:
  assumes "winv w" and "nw_pipes w a = Some np"
  shows "ql_inv w" "np_ok (ql_watch w) a np" "np_io_clazz np = Some QLooperIoClass"
    "ql_watch w (np_io_impl np) = Some (np_io_fd np, NetPipeIoFunc, a)" "a \<noteq> NULL"
  using net_ok_pipe [OF assms(1) [unfolded winv_def wok_def, THEN conjunct2] assms(2)] assms(1)
  by (simp_all add: np_ok_def winv_def)

lemma winv_os: "winv w \<Longrightarrow> same_res (nw_os w) os' \<Longrightarrow> winv (w\<lparr>nw_os := os'\<rparr>)"
  by (simp add: winv_def wok_def same_res_def)

lemma winv_step:
  assumes "winv w" and "ql_step w t"
  shows "winv t" and "nw_pipes t = nw_pipes w" and "nw_os t = nw_os w"
  using assms ql_outer_net [of w t] by (simp_all add: winv_def wok_def ql_step_def)

lemma winv_upd:
  assumes "winv w" and "nw_pipes w a = Some np" and "np_ok (ql_watch w) a np'" and "np_io_impl np' = np_io_impl np"
  shows "winv (w\<lparr>nw_pipes := (nw_pipes w)(a \<mapsto> np')\<rparr>)"
  using assms(1) net_ok_upd [of "ql_watch w" "nw_pipes w", OF _ assms(2-4)] by (simp add: winv_def wok_def)

lemma winv_reset:
  assumes "winv w" and "nw_pipes w a = Some np"
  shows "\<exists>t. netPipe_resetState a w = Some t \<and> ql_step w t \<and> winv t \<and> nw_pipes t = nw_pipes w"
  using resetState_ok [OF winv_np(1) [OF assms] assms(2) winv_np(3,4) [OF assms]] winv_step [OF assms(1)] by blast

subsection \<open>Freeing\<close>

text \<open>Only the \<open>LoopIo\<close> of the object matters.\<close>

lemma free_ok:
  assumes inv: "winv (w\<lparr>nw_pipes := (nw_pipes w)(a \<mapsto> np')\<rparr>)" and a: "nw_pipes w a = Some np"
    and eq: "np_io_clazz np = np_io_clazz np'" "np_io_impl np = np_io_impl np'" "np_io_fd np = np_io_fd np'"
  shows "\<exists>t. netPipe_free e a w = Some t \<and> winv t \<and> nw_pipes t = (nw_pipes w)(a := None) \<and> nw_gles t = nw_gles w"
proof -
  let ?w' = "w\<lparr>nw_pipes := (nw_pipes w)(a \<mapsto> np')\<rparr>"
  have "nw_pipes ?w' a = Some np'" by simp
  note n = winv_np [OF inv this]
  have i: "ql_inv w" using n(1) by simp
  obtain i where "ql_ios w (np_io_impl np') = Some i" using n(4) ql_watch_live by fastforce
  from ql_inv_free [OF i this] obtain t where t: "qloopio_free (np_io_impl np') w = Some t" "ql_inv t" "ql_outer w t"
    "ql_watch t = (ql_watch w)(np_io_impl np' := None)" by blast
  let ?k = "os_kernel (socket_close lc (np_io_fd np') ((nw_os t)\<lparr>os_kernel := e_free e (np_io_impl np') (os_kernel (nw_os t))\<rparr>))"
  have k: "fds ?k = wfds w - {np_io_fd np'}" "heap ?k = wheap w - {np_io_impl np'}"
    using close_fds close_heap free ql_outer_net(2) [OF t(3)] by simp_all
  have "net_ok (ql_watch w) ((nw_pipes w)(a \<mapsto> np')) (wfds w) (wheap w)" using inv by (simp add: winv_def wok_def)
  from net_ok_free [OF this, of a np'] ql_watch_inj [OF i]
  have "net_ok ((ql_watch w)(np_io_impl np' := None)) ((nw_pipes w)(a := None)) (wfds w - {np_io_fd np'})
    (wheap w - {np_io_impl np'} - {a})" by fastforce
  moreover have "loopIo_done (np_io np) w = Some t"
    using t(1) eq n(3) by (simp add: loopIo_defs np_io_def qlooper_io_class_def)
  ultimately show ?thesis
    using a t(2-4) eq k free ql_outer_net [OF t(3)] by (simp add: netPipe_free_def g_free_def Let_def winv_def wok_def)
qed

lemma free_peer:
  assumes "winv w" and "nw_pipes w a = Some np"
  shows "\<exists>t. netPipe_free e a w = Some t \<and> winv t \<and> nw_pipes t = (nw_pipes w)(a := None)"
proof -
  have "(nw_pipes w)(a \<mapsto> np) = nw_pipes w" using assms(2) by auto
  with free_ok [of w a np np] assms show ?thesis by auto
qed

subsection \<open>Connecting\<close>

lemma np_ok_fields:
  assumes "np_ok W a np" and "np_io_clazz np' = np_io_clazz np" "np_io_impl np' = np_io_impl np" "np_io_fd np' = np_io_fd np"
    "np_hwpipe np' = np_hwpipe np" "np_owner np' = np_owner np" "np_wakeWanted np' = np_wakeWanted np \<or> np_hwpipe np \<noteq> NULL"
    "np_state np' = STATE_CONNECTING \<longrightarrow> ac_state (np_connector np') = CONNECT_CONNECTING"
  shows "np_ok W a np'"
  using assms by (auto simp: np_ok_def split: if_splits)

lemma connector_ok:
  assumes inv: "winv w" and a: "nw_pipes w a = Some np"
  shows "\<exists>st ac t os'. asyncConnector_init lc address (np_io np) w (nw_os w) = Some (st, ac, t, os') \<and> ql_step w t \<and>
    same_res (nw_os w) os' \<and> (st = ASYNC_NEED_MORE \<longrightarrow> ac_state ac = CONNECT_CONNECTING)"
proof -
  obtain ret os' where "socket_connect1 lc (np_io_fd np) address (nw_os w) = Some (ret, os')" "same_res (nw_os w) os'"
    using connect_ok by blast
  moreover obtain t where "loopIo_wantWrite (np_io np) w = Some t" "ql_step w t"
    using np_io_ops(2) [OF winv_np(1,3,4) [OF inv a]] by blast
  ultimately show ?thesis using ql_step_refl [OF winv_np(1) [OF inv a]] by (auto simp: asyncConnector_init_def)
qed

lemma net_connect_ok:
  assumes inv: "winv w" and a: "nw_pipes w a = Some np" and live: "np_hwpipe np \<noteq> NULL"
  shows "\<exists>t r. net_connect e a address w = Some (t, r) \<and> winv t \<and>
    (if r = NULL then nw_pipes t = (nw_pipes w)(a := None)
     else r = a \<and> (\<exists>np'. nw_pipes t = (nw_pipes w)(a \<mapsto> np') \<and> np_owner np' = np_owner np \<and> np_hwpipe np' = np_hwpipe np))"
proof -
  obtain st ac t os' where c: "asyncConnector_init lc address (np_io np) w (nw_os w) = Some (st, ac, t, os')" "ql_step w t"
    "same_res (nw_os w) os'" "st = ASYNC_NEED_MORE \<longrightarrow> ac_state ac = CONNECT_CONNECTING"
    using connector_ok [OF inv a] by blast
  define w8 where "w8 = t\<lparr>nw_os := os'\<rparr>"
  have w8: "winv w8" "nw_pipes w8 = nw_pipes w"
    using winv_step [OF inv c(2)] winv_os [of t os'] c(3) by (simp_all add: w8_def)
  with a have a8: "nw_pipes w8 a = Some np" by simp
  note ok = winv_np(2) [OF w8(1) a8] and a0 = winv_np(5) [OF w8(1) a8]
  let ?np9 = "np\<lparr>np_connector := ac, np_state := STATE_CONNECTING\<rparr>"
  let ?w9 = "w8\<lparr>nw_pipes := (nw_pipes w8)(a \<mapsto> ?np9)\<rparr>"
  let ?np10 = "?np9\<lparr>np_state := STATE_CONNECTED\<rparr>"
  let ?w10 = "w8\<lparr>nw_pipes := (nw_pipes w8)(a \<mapsto> ?np10)\<rparr>"
  have eq: "net_connect e a address w = (case st of
      ASYNC_ERROR \<Rightarrow> do { w10 \<leftarrow> netPipe_free e a ?w9; Some (w10, NULL) }
    | ASYNC_COMPLETE \<Rightarrow> do { w11 \<leftarrow> netPipe_resetState a ?w10; Some (w11, a) }
    | ASYNC_NEED_MORE \<Rightarrow> Some (?w9, a))"
    using a a8 c(1) by (simp add: net_connect_def Let_def w8_def set_np_def split: AsyncStatus.split)
  show ?thesis
  proof (cases st)
    case ASYNC_ERROR
    have "\<exists>t. netPipe_free e a ?w9 = Some t \<and> winv t \<and> nw_pipes t = (nw_pipes ?w9)(a := None) \<and> nw_gles t = nw_gles ?w9"
      by (rule free_ok [where np' = np and np = ?np9]) (use w8(1) a8 in \<open>simp_all add: fun_upd_idem\<close>)
    with eq ASYNC_ERROR w8(2) show ?thesis by auto
  next
    case ASYNC_COMPLETE
    have "np_ok (ql_watch w8) a ?np10" by (rule np_ok_fields [OF ok]) simp_all
    from winv_upd [OF w8(1) a8 this] have "winv ?w10" by simp
    from winv_reset [OF this, of a ?np10] obtain u where
      "netPipe_resetState a ?w10 = Some u" "winv u" "nw_pipes u = nw_pipes ?w10" by auto
    with eq ASYNC_COMPLETE w8(2) a0 show ?thesis by auto
  next
    case ASYNC_NEED_MORE
    have "np_ok (ql_watch w8) a ?np9" by (rule np_ok_fields [OF ok]) (use c(4) ASYNC_NEED_MORE in simp_all)
    from winv_upd [OF w8(1) a8 this] have "winv ?w9" by simp
    with eq ASYNC_NEED_MORE w8(2) a0 show ?thesis by auto
  qed
qed

lemma init_opened:
  assumes inv: "winv w" and hw: "hw \<noteq> NULL" and fam: "0 \<le> socket_family_to_bsd (sock_address_get_family address)"
  shows "\<exists>a io fd t. netPipe_initFromAddress e hw address w = net_connect e a address t \<and> winv t \<and>
    nw_pipes w a = None \<and> nw_pipes t = (nw_pipes w)(a \<mapsto> opened_np hw io fd)"
proof -
  have ok: "net_ok (ql_watch w) (nw_pipes w) (wfds w) (wheap w)" and q: "ql_inv w" using inv by (simp_all add: winv_def wok_def)
  obtain a k1 where m1: "e_malloc e (os_kernel (nw_os w)) = (a, k1)" by fastforce
  note a = malloc [OF m1]
  let ?o1 = "(nw_os w)\<lparr>os_kernel := k1\<rparr>"
  obtain fd o2 where c: "socket_create lc (sock_address_get_family address) SOCKET_STREAM ?o1 = Some (fd, o2)" "0 \<le> fd"
    "fd \<notin> wfds w" "fds (os_kernel o2) = insert fd (wfds w)" "heap (os_kernel o2) = insert a (wheap w)"
    using create_ok [OF fam, of ?o1] a by auto
  obtain io k3 where m3: "e_malloc e (os_kernel o2) = (io, k3)" by fastforce
  note io = malloc [OF m3]
  define np0 where "np0 = (opened_np hw 0 0)\<lparr>np_io_clazz := None\<rparr>"
  define w3 where "w3 = w\<lparr>nw_pipes := (nw_pipes w)(a \<mapsto> np0), nw_os := o2\<lparr>os_kernel := k3\<rparr>\<rparr>"
  have w3: "ql_inv w3" "ql_watch w3 = ql_watch w" using q by (simp_all add: w3_def)
  have "ql_watch w3 io = None" "io \<noteq> NULL" using net_ok_dom(2) [OF ok] io c(5) w3(2) by auto
  moreover have "fd' \<noteq> fd" if "ql_watch w3 b = Some (fd', x)" for b fd' x
    using net_ok_watch [OF ok, of b fd'] that c(3) w3(2) by (cases x) auto
  ultimately obtain w4 where w4: "qlooper_io_init fd NetPipeIoFunc a io w3 =
      Some (\<lparr>io_clazz = Some qlooper_io_class, io_impl = io, io_fd = fd\<rparr>, w4)"
    "ql_inv w4" "ql_outer w3 w4" "ql_watch w4 = (ql_watch w)(io \<mapsto> (fd, NetPipeIoFunc, a))"
    using ql_inv_new [OF w3(1), of io fd NetPipeIoFunc a] c(2) w3(2) by auto
  note o = ql_outer_net [OF w4(3)]
  define t where "t = w4\<lparr>nw_os := snd (socket_set_nonblock lc fd (nw_os w4)), nw_pipes := (nw_pipes w)(a \<mapsto> opened_np hw io fd)\<rparr>"
  have "net_ok (ql_watch w4) ((nw_pipes w)(a \<mapsto> opened_np hw io fd)) (insert fd (wfds w)) (insert io (insert a (wheap w)))"
    unfolding w4(4) by (rule net_ok_new [OF ok]) (use a io c(5) hw in \<open>auto simp: np_ok_def opened_np_def\<close>)
  moreover have "same_res (o2\<lparr>os_kernel := k3\<rparr>) (nw_os t)" using nonblock_res [of "nw_os w4" fd] o by (simp add: t_def w3_def)
  ultimately have "winv t" using w4(2) io c(4,5) by (simp add: winv_def wok_def t_def same_res_def)
  moreover have "nw_pipes w a = None" using net_ok_dom(1) [OF ok] a by auto
  moreover have "netPipe_initFromAddress e hw address w = net_connect e a address t"
    using m1 c(1,2) m3 w4(1) o
    by (simp add: netPipe_initFromAddress_def g_malloc_def net_connect_def t_def w3_def np0_def opened_np_def set_np_def Let_def)
  moreover have "nw_pipes t = (nw_pipes w)(a \<mapsto> opened_np hw io fd)" by (simp add: t_def)
  ultimately show ?thesis by blast
qed

lemma init_ok:
  assumes inv: "winv w" and hw: "hw \<noteq> NULL" and fam: "0 \<le> socket_family_to_bsd (sock_address_get_family address)"
  shows "\<exists>t r. netPipe_initFromAddress e hw address w = Some (t, r) \<and> winv t \<and>
    (if r = NULL then nw_pipes t = nw_pipes w
     else nw_pipes w r = None \<and> (\<exists>np. nw_pipes t = (nw_pipes w)(r \<mapsto> np) \<and> np_owner np = hw \<and> np_hwpipe np = hw))"
proof -
  obtain a io fd u where u: "netPipe_initFromAddress e hw address w = net_connect e a address u" "winv u"
    "nw_pipes w a = None" "nw_pipes u = (nw_pipes w)(a \<mapsto> opened_np hw io fd)"
    using init_opened [OF assms] by blast
  then have "nw_pipes u a = Some (opened_np hw io fd)" by simp
  from net_connect_ok [OF u(2) this, of address, unfolded opened_np_sel] hw obtain t r where t: "net_connect e a address u = Some (t, r)" "winv t"
    "if r = NULL then nw_pipes t = (nw_pipes u)(a := None)
     else r = a \<and> (\<exists>np'. nw_pipes t = (nw_pipes u)(a \<mapsto> np') \<and> np_owner np' = hw \<and> np_hwpipe np' = hw)"
    by blast
  have "(nw_pipes w)(a := None) = nw_pipes w" using u(3) by auto
  with t u show ?thesis by (auto split: if_splits)
qed

subsection \<open>The services\<close>

text \<open>What \<open>init\<close> does, whatever the service.\<close>

definition init_result :: "addr \<Rightarrow> ('k, 'r) net_world \<Rightarrow> (('k, 'r) net_world \<times> addr) option \<Rightarrow> bool" where
  "init_result hw w x \<longleftrightarrow> (\<exists>t r. x = Some (t, r) \<and> winv t \<and>
     (if r = NULL then nw_pipes t = nw_pipes w
      else nw_pipes w r = None \<and> (\<exists>np. nw_pipes t = (nw_pipes w)(r \<mapsto> np) \<and> np_owner np = hw \<and> np_hwpipe np = hw)))"

lemma init_none: "winv w \<Longrightarrow> init_result hw w (Some (w, NULL))"
  by (simp add: init_result_def)

lemma init_address:
  "winv w \<Longrightarrow> hw \<noteq> NULL \<Longrightarrow> 0 \<le> socket_family_to_bsd (sock_address_get_family address) \<Longrightarrow>
   init_result hw w (netPipe_initFromAddress e hw address w)"
  unfolding init_result_def by (rule init_ok)

lemma initTcp_ok:
  assumes "winv w" and "hw \<noteq> NULL"
  shows "init_result hw w (netPipe_initTcp e hw lo args w)"
proof (cases args)
  case (Some str)
  have "init_result hw w (netPipe_initFromAddress e hw (sock_address_init_inet SOCK_ADDRESS_INET_LOOPBACK p) w)" for p
    by (rule init_address [OF assms]) (simp add: sock_address_init_inet_def sock_address_get_family_def socket_family_to_bsd_def)
  with Some show ?thesis by (simp add: netPipe_initTcp_def split: prod.split)
qed (use init_none [OF assms(1)] in \<open>simp add: netPipe_initTcp_def\<close>)

lemma initUnix_ok:
  assumes "winv w" and "hw \<noteq> NULL"
  shows "init_result hw w (netPipe_initUnix e hw lo args w)"
proof (cases args)
  case (Some path)
  have "init_result hw w (netPipe_initFromAddress e hw (sock_address_init_unix (Some path)) w)"
    by (rule init_address [OF assms]) (simp add: sock_address_init_unix_def sock_address_get_family_def socket_family_to_bsd_def)
  with Some init_none [OF assms(1)] show ?thesis by (simp add: netPipe_initUnix_def)
qed (use init_none [OF assms(1)] in \<open>simp add: netPipe_initUnix_def\<close>)

lemma initGles_ok:
  assumes inv: "winv w" and hw: "hw \<noteq> NULL"
  shows "init_result hw w (openglesPipe_init e hw lo args w)"
proof (cases "gl_opengles_init (nw_gles w)")
  case True
  obtain addr where addr: "android_gles_server_path (replicate 4096 0) (nw_gles w) = Some addr"
    by (simp add: android_gles_server_path_def strncpy_safe_def strncpy_def)
  let ?x = "if gl_fast_pipes (nw_gles w) then netPipe_initUnix e hw lo (Some (c_str addr)) w
    else netPipe_initTcp e hw lo (Some (c_str addr)) w"
  have "init_result hw w ?x" using initTcp_ok [OF assms] initUnix_ok [OF assms] by simp
  then obtain t r where t: "?x = Some (t, r)" "winv t"
    "if r = NULL then nw_pipes t = nw_pipes w
     else nw_pipes w r = None \<and> (\<exists>np. nw_pipes t = (nw_pipes w)(r \<mapsto> np) \<and> np_owner np = hw \<and> np_hwpipe np = hw)"
    unfolding init_result_def by blast
  have eq: "openglesPipe_init e hw lo args w = (if r \<noteq> NULL
      then do { np \<leftarrow> nw_pipes t r; Some (t\<lparr>nw_os := snd (socket_set_nodelay1 lc (np_io_fd np) (nw_os t))\<rparr>, r) }
      else Some (t, r))"
    using t(1) True addr by (cases "gl_fast_pipes (nw_gles w)") (simp_all add: openglesPipe_init_def)
  show ?thesis
  proof (cases "r = NULL")
    case True
    with t eq show ?thesis by (simp add: init_result_def)
  next
    case False
    with t(3) obtain np where np: "nw_pipes w r = None" "nw_pipes t = (nw_pipes w)(r \<mapsto> np)" "np_owner np = hw" "np_hwpipe np = hw"
      by auto
    with False eq winv_os [OF t(2) nodelay_res, of "np_io_fd np"] show ?thesis by (simp add: init_result_def) blast
  qed
qed (use init_none [OF inv] in \<open>simp add: openglesPipe_init_def\<close>)

text \<open>The transfers, for the single buffer of at most 32-bit size that the device passes.\<close>

lemma send_law:
  assumes inv: "winv w" and a: "nw_pipes w a = Some np" and len: "length buf < 2 ^ 32"
  shows "\<exists>t r. netPipe_sendBuffers e a [buf] w = Some (t, r) \<and> winv t \<and> nw_pipes t = nw_pipes w"
proof -
  consider "np_state np \<noteq> STATE_CONNECTED" | "np_state np = STATE_CONNECTED" "length (concat [buf]) < 2 ^ 31"
    | "np_state np = STATE_CONNECTED" "2 ^ 31 \<le> length buf" by fastforce
  then show ?thesis
  proof cases
    case 1
    then have "netPipeReadySend np \<noteq> 0" by (simp add: netPipeReadySend_def)
    with a inv show ?thesis by (simp add: netPipe_sendBuffers_def Let_def)
  next
    case 2
    from sendBuffers_ok [OF a 2] winv_os [OF inv] show ?thesis unfolding accepted_def by fastforce
  next
    case 3
    have "int_count (map length [buf]) \<le> 0" by (rule int_count_large) (use 3 len in simp_all)
    then have "send_loop lc (np_io_fd np) [buf] 0 (int_count (map length [buf])) 0 (nw_os w) = Some (0, nw_os w)"
      by (subst send_loop.simps) simp
    with 3 a inv show ?thesis by (simp add: netPipe_sendBuffers_def netPipeReadySend_def)
  qed
qed

lemma recv_law:
  assumes inv: "winv w" and a: "nw_pipes w a = Some np" and len: "n < 2 ^ 32"
  shows "\<exists>t out r. netPipe_recvBuffers e a [n] w = Some (t, out, r) \<and> winv t \<and> fits out [n] \<and> nw_pipes t = nw_pipes w"
proof (cases "n < 2 ^ 31")
  case True
  from recvBuffers_ok [OF a, of "[n]"] True winv_os [OF inv] show ?thesis unfolding received_def by fastforce
next
  case False
  have "int_count [n] \<le> 0" by (rule int_count_large) (use False len in simp_all)
  then have "recv_loop lc (np_io_fd np) [n] [] [] (int_count [n]) 0 (nw_os w) = Some ([[]], 0, nw_os w)"
    by (subst recv_loop.simps) simp
  with a inv show ?thesis by (simp add: netPipe_recvBuffers_def)
qed

lemma wakeOn_law:
  assumes inv: "winv w" and a: "nw_pipes w a = Some np" and live: "np_hwpipe np \<noteq> NULL"
  shows "\<exists>t np'. netPipe_wakeOn a flags w = Some t \<and> winv t \<and> nw_pipes t = (nw_pipes w)(a \<mapsto> np') \<and>
    np_owner np' = np_owner np \<and> np_hwpipe np' = np_hwpipe np"
proof -
  let ?np = "np\<lparr>np_wakeWanted := np_wakeWanted np OR flags\<rparr>"
  let ?w = "w\<lparr>nw_pipes := (nw_pipes w)(a \<mapsto> ?np)\<rparr>"
  have "np_ok (ql_watch w) a ?np"
    by (rule np_ok_fields [OF winv_np(2) [OF inv a]]) (use live winv_np(2) [OF inv a] in \<open>simp_all add: np_ok_def\<close>)
  from winv_upd [OF inv a this] have "winv ?w" by simp
  from winv_reset [OF this, of a ?np] obtain u where "netPipe_resetState a ?w = Some u" "winv u" "nw_pipes u = nw_pipes ?w" by auto
  with a show ?thesis by (auto simp: netPipe_wakeOn_def set_np_def)
qed

lemma init_law:
  assumes "init_result hw w x" and "hw \<noteq> NULL"
  shows "\<exists>w' a. x = Some (w', a) \<and> winv w' \<and> net_dead w' = net_dead w \<and>
    (if a = NULL then net_peer w' = net_peer w
     else (\<forall>h. \<not> net_peer w h a) \<and> \<not> net_dead w a \<and> net_peer w' = (\<lambda>h b. net_peer w h b \<or> h = hw \<and> b = a))"
proof -
  obtain t r where t: "x = Some (t, r)" "winv t"
    "if r = NULL then nw_pipes t = nw_pipes w
     else nw_pipes w r = None \<and> (\<exists>np. nw_pipes t = (nw_pipes w)(r \<mapsto> np) \<and> np_owner np = hw \<and> np_hwpipe np = hw)"
    using assms(1) unfolding init_result_def by blast
  show ?thesis
  proof (cases "r = NULL")
    case True
    with t net_views_cong [of t w] show ?thesis by simp
  next
    case False
    with t(3) obtain np where np: "nw_pipes w r = None" "nw_pipes t = (nw_pipes w)(r \<mapsto> np)" "np_owner np = hw" "np_hwpipe np = hw"
      by auto
    then have "\<forall>h. \<not> net_peer w h r" "\<not> net_dead w r" "net_peer t = (\<lambda>h b. net_peer w h b \<or> h = hw \<and> b = r)"
      "net_dead t = net_dead w" using assms(2) by (auto simp: net_peer_def net_dead_def fun_eq_iff)
    with t(1,2) False show ?thesis by simp
  qed
qed

lemma close_law:
  assumes "winv w" and "net_peer w hw a"
  shows "\<exists>w'. netPipe_closeFromGuest e a w = Some w' \<and> winv w' \<and>
    net_peer w' = (\<lambda>h b. net_peer w h b \<and> b \<noteq> a) \<and> (\<forall>b. net_dead w' b \<longrightarrow> net_dead w b)"
proof -
  obtain np where "nw_pipes w a = Some np" using assms(2) by (auto simp: net_peer_def)
  from free_peer [OF assms(1) this] obtain t where
    t: "netPipe_free e a w = Some t" "winv t" "nw_pipes t = (nw_pipes w)(a := None)" by blast
  then have "net_peer t = (\<lambda>h b. net_peer w h b \<and> b \<noteq> a)" "\<forall>b. net_dead t b \<longrightarrow> net_dead w b"
    by (auto simp: net_peer_def net_dead_def fun_eq_iff)
  with t show ?thesis by (auto simp: netPipe_closeFromGuest_def)
qed

lemma service_funcs:
  assumes "svc \<in> set (android_net_pipes_init e looper [])"
  shows "f_close (svc_funcs svc) = Some (netPipe_closeFromGuest e)" "f_sendBuffers (svc_funcs svc) = netPipe_sendBuffers e"
    "f_recvBuffers (svc_funcs svc) = netPipe_recvBuffers e" "f_poll (svc_funcs svc) = netPipe_poll"
    "f_wakeOn (svc_funcs svc) = netPipe_wakeOn"
    "f_init (svc_funcs svc) = netPipe_initTcp e \<or> f_init (svc_funcs svc) = netPipe_initUnix e \<or>
     f_init (svc_funcs svc) = openglesPipe_init e"
  using assms by (auto simp: android_net_pipes_init_def qemu_pipe_add_type_def netPipeTcp_funcs_def netPipeUnix_funcs_def
      openglesPipe_funcs_def split: if_splits)

end

sublocale net_os \<subseteq> netb: pipe_backend "android_net_pipes_init e looper []" net_peer net_dead winv for looper
proof unfold_locales
  fix svc :: "('k, 'a) net_world PipeService" and w :: "('k, 'a) net_world" and hw a args buf n flags h h'
  assume svc: "svc \<in> set (android_net_pipes_init e looper [])" and w: "winv w"
  note f = service_funcs [OF svc]
  { assume "hw \<noteq> NULL"
    then have "init_result hw w (f_init (svc_funcs svc) hw (svc_opaque svc) args w)"
      using f(6) initTcp_ok [OF w] initUnix_ok [OF w] initGles_ok [OF w] by auto
    from init_law [OF this \<open>hw \<noteq> NULL\<close>]
    show "\<exists>w' a. f_init (svc_funcs svc) hw (svc_opaque svc) args w = Some (w', a) \<and> winv w' \<and> net_dead w' = net_dead w \<and>
        (if a = NULL then net_peer w' = net_peer w
         else (\<forall>h. \<not> net_peer w h a) \<and> \<not> net_dead w a \<and> net_peer w' = (\<lambda>h b. net_peer w h b \<or> h = hw \<and> b = a))" . }
  assume p: "net_peer w hw a"
  then obtain np where np: "nw_pipes w a = Some np" by (auto simp: net_peer_def)
  show "length buf < 2 ^ 32 \<Longrightarrow> \<exists>w' r. f_sendBuffers (svc_funcs svc) a [buf] w = Some (w', r) \<and> winv w' \<and>
      net_peer w' = net_peer w \<and> net_dead w' = net_dead w"
    using send_law [OF w np] net_views_cong unfolding f by metis
  show "n < 2 ^ 32 \<Longrightarrow> \<exists>w' out r. f_recvBuffers (svc_funcs svc) a [n] w = Some (w', out, r) \<and> winv w' \<and>
      list_all2 (\<lambda>bs n. length bs \<le> n) out [n] \<and> net_peer w' = net_peer w \<and> net_dead w' = net_dead w"
    using recv_law [OF w np] net_views_cong unfolding f by metis
  show "\<exists>r. f_poll (svc_funcs svc) a w = Some r"
    using np_io_ops(5) [OF winv_np(1,3,4) [OF w np]] np unfolding f by (auto simp: netPipe_poll_def)
  show "\<exists>cl w'. f_close (svc_funcs svc) = Some cl \<and> cl a w = Some w' \<and> winv w' \<and>
      net_peer w' = (\<lambda>h b. net_peer w h b \<and> b \<noteq> a) \<and> (\<forall>b. net_dead w' b \<longrightarrow> net_dead w b)"
    using close_law [OF w p] unfolding f by simp
  assume "\<not> net_dead w a"
  then have "np_hwpipe np \<noteq> NULL" using np by (simp add: net_dead_def)
  from wakeOn_law [OF w np this, of flags] obtain t np' where t: "netPipe_wakeOn a flags w = Some t" "winv t"
    "nw_pipes t = (nw_pipes w)(a \<mapsto> np')" "np_owner np' = np_owner np" "np_hwpipe np' = np_hwpipe np" by blast
  then have "net_peer t = net_peer w" "net_dead t = net_dead w"
    using np by (auto simp: net_peer_def net_dead_def fun_eq_iff)
  with t show "\<exists>w'. f_wakeOn (svc_funcs svc) a flags w = Some w' \<and> winv w' \<and> net_peer w' = net_peer w \<and> net_dead w' = net_dead w"
    unfolding f by blast
qed (auto simp: net_peer_def)

end
