(* ===== verification/NetPipeRun.thy ===== *)
theory NetPipeRun
  imports NetPipeSafe
begin

text \<open>
  The events of the network pipes: the callback \<open>netPipe_io_func\<close> that the event loop runs for a
  ready socket satisfies the contract \<open>io_client\<close> of the event loop's bottom half. With the
  services of the pipe device this closes the system: guest accesses, descriptor events and
  bottom halves, in any order, never fault.
\<close>

text \<open>Between two states of the world no watcher becomes ready and the loop keeps its context.\<close>

definition io_quiet :: "('k, 'r) net_world \<Rightarrow> ('k, 'r) net_world \<Rightarrow> bool" where
  "io_quiet w t \<longleftrightarrow> ql_ready t \<subseteq> ql_ready w \<and> ql_ctx t = ql_ctx w \<and> ql_io_bh t = ql_io_bh w"

lemma io_quiet_refl [simp]: "io_quiet w w"
  by (simp add: io_quiet_def)

lemma io_quiet_trans: "io_quiet w u \<Longrightarrow> io_quiet u t \<Longrightarrow> io_quiet w t"
  unfolding io_quiet_def by auto

lemma io_quiet_step: "ql_step w t \<Longrightarrow> io_quiet w t"
  by (simp add: io_quiet_def ql_step_def ql_outer_def)

lemma io_quiet_net [simp]:
  "io_quiet w (t\<lparr>nw_pipes := p\<rparr>) = io_quiet w t" "io_quiet w (t\<lparr>nw_os := os\<rparr>) = io_quiet w t"
  "io_quiet (w\<lparr>nw_pipes := p\<rparr>) t = io_quiet w t" "io_quiet (w\<lparr>nw_os := os\<rparr>) t = io_quiet w t"
  by (simp_all add: io_quiet_def)

lemma ql_watch_ctx: "ql_watch (w\<lparr>ql_ctx := c\<rparr>) = ql_watch w"
  by (simp add: ql_watch_def fun_eq_iff)

context net_os
begin

text \<open>Setting fields of a pipe object and bringing its watcher in line.\<close>

lemma set_reset:
  assumes inv: "winv w" and a: "nw_pipes w a = Some np" and n: "np_ok (ql_watch w) a np'" "np_io_impl np' = np_io_impl np"
    "np_owner np' = np_owner np"
  shows "\<exists>t. netPipe_resetState a (w\<lparr>nw_pipes := (nw_pipes w)(a \<mapsto> np')\<rparr>) = Some t \<and> winv t \<and> io_quiet w t \<and>
    nw_pipes t = (nw_pipes w)(a \<mapsto> np') \<and> net_peer t = net_peer w \<and> nw_os t = nw_os w"
proof -
  let ?w = "w\<lparr>nw_pipes := (nw_pipes w)(a \<mapsto> np')\<rparr>"
  have "winv ?w" by (rule winv_upd [OF inv a n(1,2)])
  from winv_reset [OF this, of a np'] obtain t where t: "netPipe_resetState a ?w = Some t" "ql_step ?w t" "winv t"
    "nw_pipes t = nw_pipes ?w" by auto
  have "net_peer t = net_peer w" using t(4) a n(3) by (auto simp: net_peer_def fun_eq_iff)
  with t io_quiet_step [OF t(2)] winv_step(3) [OF \<open>winv ?w\<close> t(2)] show ?thesis by auto
qed

text \<open>
  An attempt to connect that ends well.
\<close>

lemma io_func_connected:
  assumes inv: "pipe_inv net_peer net_dead winv svcs s" and a: "nw_pipes (ps_world s) a = Some np"
    and st: "np_state np = STATE_CONNECTING"
    and err: "\<And>err os'. socket_get_error lc (np_io_fd np) (nw_os (ps_world s)) = Some (err, os') \<Longrightarrow> err = 0"
  shows "\<exists>t. netPipe_io_func e cb a fd ev s = Some t \<and> pipe_inv net_peer net_dead winv svcs t \<and> io_quiet (ps_world s) (ps_world t)"
proof -
  let ?w = "ps_world s"
  have w: "winv ?w" using inv by (simp add: pipe_inv_def)
  have ac: "ac_state (np_connector np) = CONNECT_CONNECTING" using winv_np(2) [OF w a] st by (simp add: np_ok_def)
  obtain os' where os': "socket_get_error lc (np_io_fd np) (nw_os ?w) = Some (0, os')" "same_res (nw_os ?w) os'"
    using get_error_ok err by metis
  obtain w1 where w1: "loopIo_dontWantWrite (np_io np) ?w = Some w1" "ql_step ?w w1"
    using np_io_ops(4) [OF winv_np(1,3,4) [OF w a]] by blast
  let ?w1 = "w1\<lparr>nw_os := os'\<rparr>"
  have i1: "winv ?w1" "nw_pipes ?w1 = nw_pipes ?w" "io_quiet ?w ?w1"
    using winv_step [OF w w1(2)] winv_os [of w1 os'] os'(2) io_quiet_step [OF w1(2)] by simp_all
  let ?np = "np\<lparr>np_connector := \<lparr>ac_error = 0, ac_state = CONNECT_COMPLETED\<rparr>, np_state := STATE_CONNECTED\<rparr>"
  have a1: "nw_pipes ?w1 a = Some np" using a i1(2) by simp
  have "np_ok (ql_watch ?w1) a ?np" by (rule np_ok_fields [OF winv_np(2) [OF i1(1) a1]]) simp_all
  from set_reset [OF i1(1) a1 this] obtain t where
    t: "netPipe_resetState a (?w1\<lparr>nw_pipes := (nw_pipes ?w1)(a \<mapsto> ?np)\<rparr>) = Some t" "winv t" "io_quiet ?w1 t"
      "nw_pipes t = (nw_pipes ?w1)(a \<mapsto> ?np)" "net_peer t = net_peer ?w1" by auto
  have "net_peer ?w1 = net_peer ?w" using net_views_cong [of ?w1 ?w] i1(2) by simp
  moreover have "net_dead t b \<Longrightarrow> net_dead ?w b" for b using t(4) i1(2) a by (auto simp: net_dead_def split: if_splits)
  ultimately have "pipe_inv net_peer net_dead winv svcs (s\<lparr>ps_world := t\<rparr>)"
    using pipe_inv_world [OF inv t(2)] t(5) by simp
  moreover have "netPipe_io_func e cb a fd ev s = Some (s\<lparr>ps_world := t\<rparr>)"
    using a st ac w1(1) os'(1) t(1) i1(2)
    by (simp add: netPipe_io_func_def asyncConnector_run_def set_np_def on_world_def Let_def)
  ultimately show ?thesis using io_quiet_trans [OF i1(3) t(3)] by simp
qed

text \<open>An event on a pipe that is not being connected wakes the guest, if it wants that.\<close>

lemma io_func_wake:
  assumes inv: "pipe_inv net_peer net_dead winv (android_net_pipes_init e looper []) s"
    and a: "nw_pipes (ps_world s) a = Some np" and st: "np_state np \<noteq> STATE_CONNECTING"
  shows "\<exists>t. netPipe_io_func e cb a fd ev s = Some t \<and>
    pipe_inv net_peer net_dead winv (android_net_pipes_init e looper []) t \<and> io_quiet (ps_world s) (ps_world t) \<and>
    (let f = netPipe_wakeFlags ev (np_wakeWanted np)
     in f \<noteq> 0 \<longrightarrow> (\<exists>u. qemu_pipe_wake (np_owner np) f s = Some u \<and> t = u\<lparr>ps_world := ps_world t\<rparr>))"
proof -
  let ?w = "ps_world s" and ?inv = "pipe_inv net_peer net_dead winv (android_net_pipes_init e looper [])"
  let ?f = "netPipe_wakeFlags ev (np_wakeWanted np)"
  define np1 where "np1 = (if ?f = 0 then np else np\<lparr>np_wakeWanted := np_wakeWanted np AND NOT ?f\<rparr>)"
  have w: "winv ?w" using inv by (simp add: pipe_inv_def)
  have ok: "np_ok (ql_watch ?w) a np" by (rule winv_np(2) [OF w a])
  have hw: "np_hwpipe np = np_owner np" if "?f \<noteq> 0"
    using ok that by (auto simp: np_ok_def netPipe_wakeFlags_def split: if_splits)
  have "\<exists>t. (if ?f \<noteq> 0 then qemu_pipe_wake (np_hwpipe np) ?f s else Some s) = Some t \<and> ?inv t \<and> ps_world t = ?w"
  proof (cases "?f = 0")
    case False
    then have "np_hwpipe np = np_owner np" by (rule hw)
    moreover have "net_peer ?w (np_owner np) a" using a by (simp add: net_peer_def)
    ultimately obtain p where "ps_pipe s (np_hwpipe np) = Some p"
      using pipe_owns_peer [OF pipe_invD(1) [OF inv]] by metis
    from netb.pipe_inv_wake [OF inv this, of ?f] False show ?thesis by auto
  qed (use inv in simp)
  then obtain s1 where s1: "(if ?f \<noteq> 0 then qemu_pipe_wake (np_hwpipe np) ?f s else Some s) = Some s1" "?inv s1" "ps_world s1 = ?w"
    by blast
  have n1: "np_ok (ql_watch ?w) a np1" "np_io_impl np1 = np_io_impl np" "np_owner np1 = np_owner np"
    using ok st by (auto simp: np1_def np_ok_def split: if_splits)
  from set_reset [OF w a n1] obtain t where
    t: "netPipe_resetState a (?w\<lparr>nw_pipes := (nw_pipes ?w)(a \<mapsto> np1)\<rparr>) = Some t" "winv t" "io_quiet ?w t"
      "nw_pipes t = (nw_pipes ?w)(a \<mapsto> np1)" "net_peer t = net_peer ?w" by blast
  have "net_dead t b \<Longrightarrow> net_dead ?w b" for b using t(4) a by (auto simp: net_dead_def np1_def split: if_splits)
  then have "?inv (s1\<lparr>ps_world := t\<rparr>)" using pipe_inv_world [OF s1(2) t(2)] t(5) s1(3) by simp
  moreover have "netPipe_io_func e cb a fd ev s = Some (s1\<lparr>ps_world := t\<rparr>)"
  proof (cases "?f = 0")
    case True
    have "?w\<lparr>nw_pipes := (nw_pipes ?w)(a \<mapsto> np)\<rparr> = ?w" using a by (simp add: fun_upd_idem)
    with True t(1) s1(1) a st np1_def show ?thesis by (simp add: netPipe_io_func_def on_world_def Let_def)
  next
    case False
    with t(1) s1(1,3) a st np1_def show ?thesis by (simp add: netPipe_io_func_def on_world_def set_np_def Let_def)
  qed
  moreover have "?f \<noteq> 0 \<longrightarrow> qemu_pipe_wake (np_owner np) ?f s = Some s1" using s1(1) hw by auto
  ultimately show ?thesis using t(3) by (auto simp: Let_def)
qed

end

subsection \<open>Late failures\<close>

text \<open>A kernel on which a connection that has been started always succeeds.\<close>

locale net_connects = net_os e fds heap sent inbox
  for e :: "'k env" and fds heap sent inbox +
  assumes connects: "socket_get_error (e_libc e) fd w = Some (err, w') \<Longrightarrow> err = 0"

sublocale net_connects \<subseteq> netio: io_client ps_world "\<lambda>l s. s\<lparr>ps_world := l\<rparr>" "netPipe_io_func e"
  "pipe_inv net_peer net_dead wok (android_net_pipes_init e looper [])" for looper
proof unfold_locales
  fix s :: "('k, 'a) net_world pipe_sys" and c
  let ?cinv = "pipe_inv net_peer net_dead wok (android_net_pipes_init e looper [])"
  assume cinv: "?cinv s"
  let ?w = "ps_world s"
  have wok: "wok ?w" using cinv by (simp add: pipe_inv_def)
  have "wok (?w\<lparr>ql_ctx := c\<rparr>)" "net_peer (?w\<lparr>ql_ctx := c\<rparr>) = net_peer ?w" "net_dead (?w\<lparr>ql_ctx := c\<rparr>) = net_dead ?w"
    using wok by (simp_all add: wok_def net_peer_def net_dead_def ql_watch_ctx fun_eq_iff)
  then show "?cinv (s\<lparr>ps_world := ?w\<lparr>ql_ctx := c\<rparr>\<rparr>)" by (intro pipe_inv_world [OF cinv]) simp_all
  { fix l assume l: "ql_watch l = ql_watch ?w" "ql_outer ?w l"
    note o = ql_outer_net [OF l(2)]
    have "wok l" "net_peer l = net_peer ?w" "net_dead l = net_dead ?w"
      using wok l(1) o net_views_cong [OF o(1)] by (simp_all add: wok_def)
    then show "?cinv (s\<lparr>ps_world := l\<rparr>)" by (intro pipe_inv_world [OF cinv]) simp_all }
  fix b fd cb a rd
  assume q: "ql_inv ?w" and b: "ql_watch ?w b = Some (fd, cb, a)"
  have inv: "pipe_inv net_peer net_dead winv (android_net_pipes_init e looper []) s"
    using cinv q by (auto simp: pipe_inv_def winv_def)
  obtain np where np: "nw_pipes ?w a = Some np" using net_ok_watch [OF wok [unfolded wok_def] b] by blast
  have "\<exists>t. netPipe_io_func e cb a fd rd s = Some t \<and>
      pipe_inv net_peer net_dead winv (android_net_pipes_init e looper []) t \<and> io_quiet ?w (ps_world t)"
  proof (cases "np_state np = STATE_CONNECTING")
    case True
    show ?thesis by (rule io_func_connected [OF inv np True]) (rule connects)
  qed (use io_func_wake [OF inv np, of cb fd rd] in blast)
  then show "\<exists>t. netPipe_io_func e cb a fd rd s = Some t \<and> ?cinv t \<and> ql_inv (ps_world t) \<and>
      ql_ready (ps_world t) \<subseteq> ql_ready ?w \<and> ql_ctx (ps_world t) = ql_ctx ?w \<and> ql_io_bh (ps_world t) = ql_io_bh ?w"
    by (auto simp: pipe_inv_def winv_def io_quiet_def)
qed simp_all

subsection \<open>The whole system\<close>

text \<open>
  From power-on: the guest writes and reads device registers, the kernel reports descriptors, the
  main loop runs the bottom half, and meanwhile the rest of the emulator and the network change
  the kernel, but neither close a descriptor nor free memory that is in use.
\<close>

inductive net_reach :: "'k env \<Rightarrow> ('k \<Rightarrow> int set) \<Rightarrow> ('k \<Rightarrow> addr set) \<Rightarrow> addr \<Rightarrow> ('k, 'r) net_world pipe_sys \<Rightarrow> bool"
  for e fds heap looper where
  nr_boot: "ioh_inv hs \<Longrightarrow> fd_handlers hs = Map.empty \<Longrightarrow>
    w = QLooper.extend (looper_newCore bh hs ctx) \<lparr>nw_pipes = Map.empty, nw_os = os, nw_gles = gl\<rparr> \<Longrightarrow>
    net_reach e fds heap looper (qemu_pipe_initfn (android_net_pipes_init e looper []) ram w)"
| nr_write: "net_reach e fds heap looper s \<Longrightarrow> fresh_for np nc s \<Longrightarrow> pipe_dev_write pm np nc off v s = Some t \<Longrightarrow>
    net_reach e fds heap looper t"
| nr_read: "net_reach e fds heap looper s \<Longrightarrow> pipe_dev_read off s = Some (v, t) \<Longrightarrow> net_reach e fds heap looper t"
| nr_event: "net_reach e fds heap looper s \<Longrightarrow> fd_handlers (ql_handlers (ps_world s)) fd = Some (r, w, a) \<Longrightarrow>
    h \<in> set_option r \<union> set_option w \<Longrightarrow> run_qhandler h a (ps_world s) = Some l \<Longrightarrow>
    net_reach e fds heap looper (s\<lparr>ps_world := l\<rparr>)"
| nr_bh: "net_reach e fds heap looper s \<Longrightarrow>
    qlooper_handle_io_bh ps_world (\<lambda>l s. s\<lparr>ps_world := l\<rparr>) (netPipe_io_func e) s = Some t \<Longrightarrow> net_reach e fds heap looper t"
| nr_kernel: "net_reach e fds heap looper s \<Longrightarrow> fds (os_kernel (nw_os (ps_world s))) \<subseteq> fds (os_kernel os) \<Longrightarrow>
    heap (os_kernel (nw_os (ps_world s))) \<subseteq> heap (os_kernel os) \<Longrightarrow>
    net_reach e fds heap looper (s\<lparr>ps_world := (ps_world s)\<lparr>nw_os := os\<rparr>\<rparr>)"

lemma net_ok_mono: "net_ok W P F H \<Longrightarrow> F \<subseteq> F' \<Longrightarrow> H \<subseteq> H' \<Longrightarrow> net_ok W P F' H'"
  unfolding net_ok_def by (meson subset_iff subset_trans)

lemma boot_inv:
  assumes "ioh_inv hs" and "fd_handlers hs = Map.empty"
  shows "ql_inv (QLooper.extend (looper_newCore bh hs ctx :: 'u QLooper) m)" and "ql_watch (QLooper.extend (looper_newCore bh hs ctx :: 'u QLooper) m) = Map.empty"
proof -
  have "ql_ok (looper_newCore bh hs ctx :: 'u QLooper)" by (rule newCore_ok [OF assms])
  then show "ql_inv (QLooper.extend (looper_newCore bh hs ctx :: 'u QLooper) m)"
    by (simp add: ql_ok_def ql_inv_def ql_good_def ql_rep_def ql_bh_ok_def QLooper.defs looper_newCore_def)
  show "ql_watch (QLooper.extend (looper_newCore bh hs ctx :: 'u QLooper) m) = Map.empty"
    by (simp add: ql_watch_def QLooper.defs looper_newCore_def fun_eq_iff)
qed

context net_connects
begin

abbreviation sys_inv where "sys_inv looper \<equiv> pipe_inv net_peer net_dead winv (android_net_pipes_init e looper [])"

lemma sys_write:
  "sys_inv looper s \<Longrightarrow> fresh_for np nc s \<Longrightarrow> \<exists>t. pipe_dev_write pm np nc off v s = Some t \<and> sys_inv looper t"
  by (rule netb.pipe_dev_write_ok)

lemma sys_handler:
  assumes inv: "sys_inv looper s" and h: "fd_handlers (ql_handlers (ps_world s)) fd = Some (r, w, a)"
  shows "\<exists>l. run_qhandler h a (ps_world s) = Some l \<and> sys_inv looper (s\<lparr>ps_world := l\<rparr>)"
proof -
  let ?w = "ps_world s"
  have w: "ql_inv ?w" "wok ?w" using inv by (simp_all add: pipe_inv_def winv_def)
  obtain xs ps D where g: "ql_good ?w xs ps D" using w(1) by (auto simp: ql_inv_def)
  with h obtain j where "D a = Some j" unfolding ql_good_def ql_handlers_ok_def by metis
  then obtain i where "ql_ios ?w a = Some i" using g by (auto simp: ql_good_def ql_rep_def qi_data_def)
  from run_qhandler_pending [OF w(1) this, of h] obtain l where l: "run_qhandler h a ?w = Some l" "ql_inv l"
    "ql_watch l = ql_watch ?w" "QLooper.more l = QLooper.more ?w" by blast
  from l(4) have n: "nw_pipes l = nw_pipes ?w" "nw_os l = nw_os ?w" by (cases l; cases ?w; simp)+
  have "winv l" using w l(2,3) n by (simp add: winv_def wok_def)
  with net_views_cong [OF n(1)] have "sys_inv looper (s\<lparr>ps_world := l\<rparr>)" by (intro pipe_inv_world [OF inv]) simp_all
  with l(1) show ?thesis by blast
qed

lemma sys_bh:
  assumes inv: "sys_inv looper s"
  shows "\<exists>t. qlooper_handle_io_bh ps_world (\<lambda>l s. s\<lparr>ps_world := l\<rparr>) (netPipe_io_func e) s = Some t \<and> sys_inv looper t \<and>
    ql_io_pending (ps_world t) = NULL"
proof -
  have c: "pipe_inv net_peer net_dead wok (android_net_pipes_init e looper []) s" and "ql_inv (ps_world s)"
    using inv by (auto simp: pipe_inv_def winv_def)
  then obtain xs ps D where "ql_good (ps_world s) xs ps D" by (auto simp: ql_inv_def)
  from netio.handle_io_bh_ok [OF c this] obtain t xs' D' where
    t: "qlooper_handle_io_bh ps_world (\<lambda>l s. s\<lparr>ps_world := l\<rparr>) (netPipe_io_func e) s = Some t"
      "pipe_inv net_peer net_dead wok (android_net_pipes_init e looper []) t" "ql_good (ps_world t) xs' [] D'" by blast
  then have "sys_inv looper t" by (auto simp: pipe_inv_def winv_def ql_inv_def)
  moreover have "ql_io_pending (ps_world t) = NULL" using t(3) by (simp add: ql_good_def ql_rep_def)
  ultimately show ?thesis using t(1) by blast
qed

lemma reach_inv: "net_reach e fds heap looper s \<Longrightarrow> sys_inv looper s"
proof (induction rule: net_reach.induct)
  case (nr_boot hs w bh ctx os gl ram)
  have n: "nw_pipes w = Map.empty" by (simp add: nr_boot(3) QLooper.defs)
  have "ql_inv w" "ql_watch w = Map.empty" unfolding nr_boot(3) by (rule boot_inv [OF nr_boot(1,2)])+
  with n have "winv w" by (simp add: winv_def wok_def net_ok_def)
  then show ?case using n
    by (auto simp: pipe_inv_def qemu_pipe_initfn_def pipe_lists_def pipe_chans_def pipe_owns_def net_peer_def)
next
  case (nr_write s np nc pm off v t)
  with sys_write [of looper s np nc pm off v] show ?case by auto
next
  case (nr_read s off v t)
  with pipe_inv_read [OF nr_read(3), of off] show ?case by auto
next
  case (nr_event s fd r w a h l)
  with sys_handler [OF nr_event(5) nr_event(2), of h] show ?case by auto
next
  case (nr_bh s t)
  with sys_bh [OF nr_bh(3)] show ?case by auto
next
  case (nr_kernel s os)
  let ?w = "(ps_world s)\<lparr>nw_os := os\<rparr>"
  have "winv (ps_world s)" using nr_kernel(4) by (simp add: pipe_inv_def)
  then have "winv ?w" using net_ok_mono [OF _ nr_kernel(2,3)] by (simp add: winv_def wok_def)
  with net_views_cong [of ?w "ps_world s"] show ?case by (intro pipe_inv_world [OF nr_kernel(4)]) simp_all
qed

end

subsection \<open>A connection that fails late\<close>

lemma inv_null: "pipe_inv peer dead winv svcs s \<Longrightarrow> ps_pipe s NULL = None"
proof -
  assume "pipe_inv peer dead winv svcs s"
  then obtain xs ws where "pipe_lists s xs ws" by (rule pipe_invE)
  then have "dom (ps_pipe s) = set xs" "NULL \<notin> set xs" using is_list_nonnull unfolding pipe_lists_def by blast+
  then show ?thesis by blast
qed

lemma qemu_pipe_close_world:
  "qemu_pipe_close hw (s\<lparr>ps_world := w\<rparr>) = map_option (\<lambda>t. t\<lparr>ps_world := w\<rparr>) (qemu_pipe_close hw s)"
  by (simp add: qemu_pipe_close_def qemu_pipe_wake_def pipe_list_findp_waked_def Let_def split: Option.bind_splits)

context net_os
begin

lemma late_failure:
  assumes inv: "pipe_inv net_peer net_dead winv (android_net_pipes_init e looper []) s"
    and a: "nw_pipes (ps_world s) a = Some np" and st: "np_state np = STATE_CONNECTING"
    and err: "socket_get_error lc (np_io_fd np) (nw_os (ps_world s)) = Some (err, os')" "err \<noteq> 0"
    and want: "np_wakeWanted np AND PIPE_WAKE_WRITE \<noteq> 0" and ev': "ev' AND LOOP_IO_WRITE \<noteq> 0"
  shows "\<exists>t. netPipe_io_func e cb a fd ev s = Some t \<and> netPipe_io_func e cb a fd ev' t = None"
proof -
  let ?w = "ps_world s"
  have w: "winv ?w" using inv by (simp add: pipe_inv_def)
  note np = winv_np [OF w a]
  have ac: "ac_state (np_connector np) = CONNECT_CONNECTING" using np(2) st by (simp add: np_ok_def)
  have hw: "np_hwpipe np = np_owner np" "np_hwpipe np \<noteq> NULL" using np(2) want by (auto simp: np_ok_def split: if_splits)
  then obtain p where "ps_pipe s (np_hwpipe np) = Some p"
    using pipe_owns_peer [OF pipe_invD(1) [OF inv], of "np_owner np" a] a by (auto simp: net_peer_def)
  from netb.pipe_inv_close [OF inv this] obtain t0 where
    t0: "qemu_pipe_close (np_hwpipe np) s = Some t0" "pipe_inv net_peer net_dead winv (android_net_pipes_init e looper []) t0" by blast
  obtain w1 where w1: "loopIo_dontWantWrite (np_io np) ?w = Some w1" "ql_step ?w w1"
    using np_io_ops(4) [OF np(1,3,4)] by blast
  note o = winv_step [OF w w1(2)]
  let ?np2 = "np\<lparr>np_connector := \<lparr>ac_error = err, ac_state = CONNECT_ERROR\<rparr>\<rparr>"
  let ?np3 = "?np2\<lparr>np_hwpipe := NULL, np_state := STATE_CLOSING_SOCKET\<rparr>"
  let ?w3 = "w1\<lparr>nw_os := os'\<lparr>os_errno := err\<rparr>, nw_pipes := (nw_pipes ?w)(a \<mapsto> ?np3)\<rparr>"
  have q: "ql_inv ?w3" "ql_watch ?w3 (np_io_impl ?np3) = Some (np_io_fd np, NetPipeIoFunc, a)"
    using w1(2) np(4) by (simp_all add: ql_step_def)
  obtain w4 where w4: "netPipe_resetState a ?w3 = Some w4" "ql_step ?w3 w4"
    using resetState_ok [OF q(1), of a ?np3] q(2) np(3) by auto
  have p4: "nw_pipes w4 a = Some ?np3" using ql_outer_net(1) [of ?w3 w4] w4(2) by (simp add: ql_step_def)
  let ?t = "t0\<lparr>ps_world := w4\<rparr>"
  have "netPipe_io_func e cb a fd ev s = Some ?t"
    using a st ac err w1(1) o(2,3) hw(2) t0(1) w4(1)
    by (simp add: netPipe_io_func_def asyncConnector_run_def set_np_def on_world_def Let_def netPipe_closeFromSocket_def
        qemu_pipe_close_world)
  moreover have "netPipe_io_func e cb a fd ev' ?t = None"
    using p4 want ev' inv_null [OF t0(2)]
    by (simp add: netPipe_io_func_def netPipe_wakeFlags_def qemu_pipe_wake_def)
  ultimately show ?thesis by blast
qed

end

end
