(* ===== verification/NetSystem.thy ===== *)
theory NetSystem
  imports NetPipeRun
begin

text \<open>
  The properties of the composed system: pipe device, network pipes, event loop and sockets.
\<close>

subsection \<open>Concrete systems\<close>

interpretation steady: net_connects "machine_env 0" "\<lambda>k. set (mk_fds k)" "\<lambda>k. set (mk_heap k)" mk_sent mk_inbox
  by unfold_locales
    (auto simp: machine_env_def machine_libc_def socket_get_error_def socket_getoption_def handle_eintr_once
      interrupted_def sys_def)

definition sys0 :: "(machine, unit) net_world pipe_sys" where
  "sys0 = qemu_pipe_initfn (android_net_pipes_init (machine_env 0) 5 []) (\<lambda>_. 0)
     (QLooper.extend (looper_newCore 10 [] ctx0)
        \<lparr>nw_pipes = Map.empty, nw_os = \<lparr>os_errno = 0, os_kernel = machine0\<rparr>, nw_gles = gles0\<rparr>)"

lemma sys0_reach: "net_reach (machine_env 0) fds heap 5 sys0"
  unfolding sys0_def by (rule nr_boot [OF _ _ refl]) (simp_all add: ioh_inv_def fd_handlers_def fun_eq_iff)

text \<open>One network pipe, at address 1 with its watcher at 2, for the device's pipe at address 9.\<close>

definition np1 :: "net_state \<Rightarrow> NetPipe" where
  "np1 st = \<lparr>np_hwpipe = 9, np_state = st, np_wakeWanted = PIPE_WAKE_WRITE, np_io_clazz = Some QLooperIoClass,
     np_io_impl = 2, np_io_fd = 3, np_connector = \<lparr>ac_error = 0, ac_state = CONNECT_CONNECTING\<rparr>, np_owner = 9\<rparr>"

definition world1 :: "net_state \<Rightarrow> (machine, unit) net_world" where
  "world1 st = snd (the (qlooper_io_init 3 NetPipeIoFunc 1 2 (QLooper.extend (looper_newCore 10 [] ctx0)
     \<lparr>nw_pipes = [1 \<mapsto> np1 st], nw_os = \<lparr>os_errno = 0, os_kernel = machine0\<rparr>, nw_gles = gles0\<rparr>)))"

definition sys1 :: "int \<Rightarrow> net_state \<Rightarrow> (machine, unit) net_world pipe_sys" where
  "sys1 err st = (qemu_pipe_initfn (android_net_pipes_init (machine_env err) 5 []) (\<lambda>_. 0) (world1 st))
     \<lparr>pd_pipes := 9, ps_pipe := [9 \<mapsto> \<lparr>p_next = NULL, p_next_waked = NULL, p_channel = 77, p_opaque = 1,
        p_funcs = ServiceFuncs 0, p_service = Some 0, p_args = None, p_wanted = 0, p_closed = False\<rparr>]\<rparr>"

lemma world1_props:
  "ql_inv (world1 st)" "ql_watch (world1 st) = [2 \<mapsto> (3, NetPipeIoFunc, 1)]" "nw_pipes (world1 st) = [1 \<mapsto> np1 st]"
  "nw_os (world1 st) = \<lparr>os_errno = 0, os_kernel = machine0\<rparr>"
proof -
  let ?w = "QLooper.extend (looper_newCore 10 [] ctx0)
     \<lparr>nw_pipes = [1 \<mapsto> np1 st], nw_os = \<lparr>os_errno = 0, os_kernel = machine0\<rparr>, nw_gles = gles0\<rparr> :: (machine, unit) net_world"
  have i: "ql_inv ?w" "ql_watch ?w = Map.empty" by (rule boot_inv; simp add: ioh_inv_def fd_handlers_def fun_eq_iff)+
  from ql_inv_new [OF i(1), of 2 3 NetPipeIoFunc 1] i(2) obtain t where
    t: "qlooper_io_init 3 NetPipeIoFunc 1 2 ?w = Some (\<lparr>io_clazz = Some qlooper_io_class, io_impl = 2, io_fd = 3\<rparr>, t)"
      "ql_inv t" "ql_outer ?w t" "ql_watch t = (ql_watch ?w)(2 \<mapsto> (3, NetPipeIoFunc, 1))" by auto
  have "world1 st = t" using t(1) by (simp add: world1_def)
  with t i(2) ql_outer_net [OF t(3)] show "ql_inv (world1 st)" "ql_watch (world1 st) = [2 \<mapsto> (3, NetPipeIoFunc, 1)]"
    "nw_pipes (world1 st) = [1 \<mapsto> np1 st]" "nw_os (world1 st) = \<lparr>os_errno = 0, os_kernel = machine0\<rparr>"
    by (simp_all add: QLooper.defs)
qed

lemma sys1_inv:
  "pipe_inv net_peer net_dead (net_os.winv (\<lambda>k. set (mk_fds k)) (\<lambda>k. set (mk_heap k)))
     (android_net_pipes_init (machine_env err) 5 []) (sys1 err st)"
proof -
  have "machine.winv (world1 st)"
    using world1_props [of st]
    by (auto simp: machine.winv_def machine.wok_def net_ok_def np_ok_def np1_def machine0_def split: if_splits)
  moreover have "pipe_owns net_peer net_dead (sys1 err st)"
    using world1_props(3) [of st]
    by (auto simp: sys1_def qemu_pipe_initfn_def pipe_owns_def endpoint_ok_def service_pipe_def net_peer_def net_dead_def
        np1_def android_net_pipes_init_def qemu_pipe_add_type_def bytes_def split: if_splits)
  moreover have "pipe_lists (sys1 err st) [9] []" "pipe_chans (sys1 err st)"
    by (auto simp: sys1_def qemu_pipe_initfn_def pipe_lists_def pipe_chans_def)
  ultimately show ?thesis by (auto simp: pipe_inv_def sys1_def qemu_pipe_initfn_def)
qed

subsection \<open>Properties\<close>





text \<open>C36: A connection that fails late crashes the emulator: if the attempt fails after the guest has asked to be
  woken when it can write, the first socket event closes the pipe but keeps that request, and the
  next one makes the callback wake a pipe through a null pointer.\<close>

theorem late_connect_failure_crashes:
  assumes "net_os e fds heap sent inbox"
    and "pipe_inv net_peer net_dead (net_os.winv fds heap) (android_net_pipes_init e looper []) s"
    and "nw_pipes (ps_world s) a = Some np" and "np_state np = STATE_CONNECTING"
    and "socket_get_error (e_libc e) (np_io_fd np) (nw_os (ps_world s)) = Some (err, os')" and "err \<noteq> 0"
    and "np_wakeWanted np AND PIPE_WAKE_WRITE \<noteq> 0" and "ev' AND LOOP_IO_WRITE \<noteq> 0"
  shows "\<exists>t. netPipe_io_func e cb a fd ev s = Some t \<and> netPipe_io_func e cb a fd ev' t = None"
  by (rule net_os.late_failure [OF assms])

theorem late_connect_failure_crashes_witness:
  "\<exists>t. netPipe_io_func (machine_env 111) NetPipeIoFunc 1 3 LOOP_IO_WRITE (sys1 111 STATE_CONNECTING) = Some t \<and>
     netPipe_io_func (machine_env 111) NetPipeIoFunc 1 3 LOOP_IO_WRITE t = None"
proof -
  have s: "ps_world (sys1 111 STATE_CONNECTING) = world1 STATE_CONNECTING" by (simp add: sys1_def qemu_pipe_initfn_def)
  show ?thesis
  proof (rule late_connect_failure_crashes [OF machine.net_os_axioms sys1_inv])
    show "nw_pipes (ps_world (sys1 111 STATE_CONNECTING)) 1 = Some (np1 STATE_CONNECTING)" by (simp add: s world1_props(3))
    show "socket_get_error (e_libc (machine_env 111)) (np_io_fd (np1 STATE_CONNECTING))
        (nw_os (ps_world (sys1 111 STATE_CONNECTING))) = Some (111, nw_os (ps_world (sys1 111 STATE_CONNECTING)))"
      by (simp add: socket_get_error_def socket_getoption_def handle_eintr_once interrupted_def sys_def machine_env_def
          machine_libc_def s world1_props(4))
  qed (simp_all add: np1_def)
qed

text \<open>C39: Without a descriptor left the emulator crashes: when the socket cannot be created, the new pipe object is
  freed through an event loop object that was never initialised.\<close>

theorem net_init_without_socket_crashes:
  assumes "socket_create (e_libc e) (sock_address_get_family address) SOCKET_STREAM (nw_os (snd (g_malloc e w))) = Some (fd, os')"
    and "fd < 0"
  shows "netPipe_initFromAddress e hw address w = None"
  using assms
  by (simp add: netPipe_initFromAddress_def netPipe_free_def np_io_def loopIo_done_def g_malloc_def Let_def split: prod.splits)

text \<open>A kernel that has no descriptor left.\<close>

definition exhausted_env :: "machine env" where
  "exhausted_env = (machine_env 0)\<lparr>e_libc := (machine_libc 0)\<lparr>c_socket := \<lambda>_ _ k. (-1, 24, (), k)\<rparr>\<rparr>"

theorem net_init_without_socket_crashes_witness:
  "netPipe_initFromAddress exhausted_env 9 (sock_address_init_inet SOCK_ADDRESS_INET_LOOPBACK 80) net_world1 = None"
proof -
  have "\<exists>os'. socket_create (e_libc exhausted_env) (sock_address_get_family (sock_address_init_inet SOCK_ADDRESS_INET_LOOPBACK 80))
      SOCKET_STREAM (nw_os (snd (g_malloc exhausted_env net_world1))) = Some (-1, os')"
    by (simp add: exhausted_env_def socket_create_def sock_address_get_family_def sock_address_init_inet_def
        socket_family_to_bsd_def socket_type_to_bsd_def Let_def drop_data_def socket_call_def qsocket_call_def
        handle_eintr_once interrupted_def sys_def fix_errno_def)
  then show ?thesis using net_init_without_socket_crashes by fastforce
qed

end
