(* ===== verification/RenderStream.thy ===== *)
theory RenderStream
  imports NetOs
begin

text \<open>
  The byte stream between the guest and a render thread: the output buffering of \<open>IOStream\<close>
  (\<open>IOStream.h\<close>), the socket under it (\<open>SocketStream.cpp\<close>) and the input buffer of a render
  thread (\<open>ReadBuffer.cpp\<close>). A heap block is its list of bytes; \<open>size_t\<close> values are natural
  numbers with their wrap-around written out, and the conversions to \<open>int\<close> are kept.
\<close>

subsection \<open>Machine arithmetic and memory blocks\<close>

definition size_sub :: "nat \<Rightarrow> nat \<Rightarrow> nat" where
  "size_sub a b = nat ((int a - int b) mod 2 ^ 64)"

definition int32 :: "int \<Rightarrow> int" where
  "int32 i = sint (word_of_int i :: u32)"

lemma size_sub_le [simp]: "b \<le> a \<Longrightarrow> a < 2 ^ 64 \<Longrightarrow> size_sub a b = a - b"
  by (simp add: size_sub_def nat_diff_distrib)

lemma int32_small [simp]: "- (2 ^ 31) \<le> i \<Longrightarrow> i < 2 ^ 31 \<Longrightarrow> int32 i = i"
  by (simp add: int32_def signed_of_int signed_take_bit_int_eq_self)

text \<open>Writing \<open>bs\<close> into a block at offset \<open>off\<close>; a write past the end is undefined.\<close>

definition block_write :: "nat \<Rightarrow> u8 list \<Rightarrow> u8 list \<Rightarrow> u8 list option" where
  "block_write off bs mem =
     (if off + length bs \<le> length mem then Some (take off mem @ bs @ drop (off + length bs) mem) else None)"

definition block_read :: "nat \<Rightarrow> nat \<Rightarrow> u8 list \<Rightarrow> u8 list option" where
  "block_read off n mem = (if off + n \<le> length mem then Some (take n (drop off mem)) else None)"

lemma block_write_length: "block_write off bs mem = Some mem' \<Longrightarrow> length mem' = length mem"
  by (auto simp: block_write_def split: if_splits)

lemma block_write_Some: "block_write off bs mem \<noteq> None \<longleftrightarrow> off + length bs \<le> length mem"
  by (simp add: block_write_def)

lemma block_read_write: "block_write off bs mem = Some mem' \<Longrightarrow> block_read off (length bs) mem' = Some bs"
  by (auto simp: block_write_def block_read_def split: if_splits)

subsection \<open>Sockets\<close>

text \<open>
  The environment of the renderer: the socket calls, and the allocator, which may fail and
  says nothing about the contents of a new block.
\<close>

record 'k render_env =
  re_libc :: "'k libc"
  re_malloc :: "nat \<Rightarrow> 'k \<Rightarrow> u8 list option \<times> 'k"
  re_realloc :: "u8 list \<Rightarrow> nat \<Rightarrow> 'k \<Rightarrow> u8 list option \<times> 'k"

text \<open>
  \<open>io_buf\<close>, \<open>io_bufsize\<close> and \<open>io_free\<close> are the fields of the base class \<open>IOStream\<close>: its \<open>m_buf\<close> is
  \<open>NULL\<close> or the block of the subclass.
\<close>

record 'k SocketStream =
  io_buf :: bool
  io_bufsize :: nat
  io_free :: nat
  m_sock :: int
  m_bufsize :: nat
  m_buf :: "u8 list option"
  st_os :: "'k os"

definition SocketStream_new :: "int \<Rightarrow> nat \<Rightarrow> 'k os \<Rightarrow> 'k SocketStream" where
  "SocketStream_new sock bufSize w =
     \<lparr>io_buf = False, io_bufsize = bufSize, io_free = 0, m_sock = sock, m_bufsize = bufSize, m_buf = None, st_os = w\<rparr>"

definition SocketStream_free :: "'k render_env \<Rightarrow> 'k SocketStream \<Rightarrow> 'k SocketStream" where
  "SocketStream_free e st =
     (let st1 = (if m_sock st \<ge> 0
                 then st\<lparr>st_os := snd (snd (sys (c_close (re_libc e) (m_sock st)) (st_os st))), m_sock := -1\<rparr>
                 else st)
      in st1\<lparr>m_buf := None\<rparr>)"

definition allocate :: "('k \<Rightarrow> u8 list option \<times> 'k) \<Rightarrow> 'k SocketStream \<Rightarrow> u8 list option \<times> 'k SocketStream" where
  "allocate f st = (case f (os_kernel (st_os st)) of (b, k) \<Rightarrow> (b, st\<lparr>st_os := st_os st\<lparr>os_kernel := k\<rparr>\<rparr>))"

definition allocBuffer :: "'k render_env \<Rightarrow> nat \<Rightarrow> 'k SocketStream \<Rightarrow> 'k SocketStream" where
  "allocBuffer e minSize st =
     (let allocSize = (if m_bufsize st < minSize then minSize else m_bufsize st) in
      case m_buf st of
        None \<Rightarrow> (case allocate (re_malloc e allocSize) st of (b, st1) \<Rightarrow> st1\<lparr>m_buf := b\<rparr>)
      | Some mem \<Rightarrow>
          if m_bufsize st < allocSize
          then (case allocate (re_realloc e mem allocSize) st of
                  (Some p, st1) \<Rightarrow> st1\<lparr>m_buf := Some p, m_bufsize := allocSize\<rparr>
                | (None, st1) \<Rightarrow> st1\<lparr>m_buf := None, m_bufsize := 0\<rparr>)
          else st)"

definition valid :: "'k SocketStream \<Rightarrow> bool" where
  "valid st \<longleftrightarrow> m_sock st \<ge> 0"

text \<open>The bytes still to send are \<open>buffer + (size - res)\<close>, of length \<open>res\<close>.\<close>

partial_function (option) write_loop :: "'k libc \<Rightarrow> int \<Rightarrow> u8 list \<Rightarrow> 'k os \<Rightarrow> (int \<times> 'k os) option" where
  "write_loop lc sock buf w =
     (if buf = [] then Some (0, w)
      else case sys (c_send lc sock buf 0) w of (stat, x, w1) \<Rightarrow>
        if stat < 0 then (if os_errno w1 \<noteq> EINTR then Some (int32 stat, w1) else write_loop lc sock buf w1)
        else if nat stat > length buf then None
        else write_loop lc sock (drop (nat stat) buf) w1)"

definition writeFully :: "'k render_env \<Rightarrow> u8 list \<Rightarrow> 'k SocketStream \<Rightarrow> (int \<times> 'k SocketStream) option" where
  "writeFully e buffer st =
     (if \<not> valid st then Some (-1, st)
      else do { (r, w) \<leftarrow> write_loop (re_libc e) (m_sock st) buffer (st_os st);
                Some (r, st\<lparr>st_os := w\<rparr>) })"

definition commitBuffer :: "'k render_env \<Rightarrow> nat \<Rightarrow> 'k SocketStream \<Rightarrow> (int \<times> 'k SocketStream) option" where
  "commitBuffer e n st =
     (if \<not> valid st then Some (-1, st)
      else do { mem \<leftarrow> m_buf st;
                bs \<leftarrow> block_read 0 n mem;
                writeFully e bs st })"

partial_function (option) read_full_loop ::
  "'k libc \<Rightarrow> int \<Rightarrow> nat \<Rightarrow> u8 list \<Rightarrow> 'k os \<Rightarrow> (u8 list option \<times> 'k os) option" where
  "read_full_loop lc sock res got w =
     (if res = 0 then Some (Some got, w)
      else case sys (c_recv lc sock (int res)) w of (stat, data, w1) \<Rightarrow>
        if stat > 0
        then (if nat stat > res then None else read_full_loop lc sock (res - nat stat) (got @ data) w1)
        else if stat = 0 \<or> os_errno w1 \<noteq> EINTR then Some (None, w1)
        else read_full_loop lc sock res got w1)"

definition readFully :: "'k render_env \<Rightarrow> nat \<Rightarrow> 'k SocketStream \<Rightarrow> (u8 list option \<times> 'k SocketStream) option" where
  "readFully e len st =
     (if \<not> valid st then Some (None, st)
      else do { (r, w) \<leftarrow> read_full_loop (re_libc e) (m_sock st) len [] (st_os st);
                Some (r, st\<lparr>st_os := w\<rparr>) })"

partial_function (option) recv_int :: "'k libc \<Rightarrow> int \<Rightarrow> nat \<Rightarrow> 'k os \<Rightarrow> (int \<times> u8 list \<times> 'k os) option" where
  "recv_int lc sock len w =
     (case sys (c_recv lc sock (int len)) w of (r, data, w1) \<Rightarrow>
        if int32 r < 0 \<and> os_errno w1 = EINTR then recv_int lc sock len w1 else Some (int32 r, data, w1))"

definition stream_recv :: "'k render_env \<Rightarrow> nat \<Rightarrow> 'k SocketStream \<Rightarrow> (int \<times> u8 list \<times> 'k SocketStream) option" where
  "stream_recv e len st =
     (if \<not> valid st then Some (-1000, [], st)
      else do { (r, data, w) \<leftarrow> recv_int (re_libc e) (m_sock st) len (st_os st);
                Some (r, data, st\<lparr>st_os := w\<rparr>) })"

text \<open>\<open>None\<close> inside the result is the null pointer the C++ code returns.\<close>

partial_function (option) read_retry ::
  "'k render_env \<Rightarrow> nat \<Rightarrow> 'k SocketStream \<Rightarrow> (int \<times> u8 list \<times> 'k SocketStream) option" where
  "read_retry e len st =
     do { (n, data, st1) \<leftarrow> stream_recv e len st;
          if n < 0 \<and> os_errno (st_os st1) = EINTR then read_retry e len st1 else Some (n, data, st1) }"

definition stream_read :: "'k render_env \<Rightarrow> nat \<Rightarrow> 'k SocketStream \<Rightarrow> (u8 list option \<times> 'k SocketStream) option" where
  "stream_read e len st =
     (if \<not> valid st then Some (None, st)
      else do { (n, data, st1) \<leftarrow> read_retry e len st;
                Some (if n > 0 then Some data else None, st1) })"

subsection \<open>Buffered output\<close>

definition flush :: "'k render_env \<Rightarrow> 'k SocketStream \<Rightarrow> (int \<times> 'k SocketStream) option" where
  "flush e st =
     (if \<not> io_buf st \<or> io_free st = io_bufsize st then Some (0, st)
      else do { (stat, st1) \<leftarrow> commitBuffer e (size_sub (io_bufsize st) (io_free st)) st;
                Some (stat, st1\<lparr>io_buf := False, io_free := 0\<rparr>) })"

text \<open>The second half of \<open>alloc\<close>; the result is an offset in the block, or \<open>None\<close> for \<open>NULL\<close>.\<close>

definition alloc_room :: "'k render_env \<Rightarrow> nat \<Rightarrow> 'k SocketStream \<Rightarrow> nat option \<times> 'k SocketStream" where
  "alloc_room e len st =
     (let st1 =
        (if \<not> io_buf st \<or> len > io_bufsize st
         then let allocLen = int32 (int (if io_bufsize st < len then len else io_bufsize st));
                  st2 = allocBuffer e (nat (allocLen mod 2 ^ 64)) st
              in if m_buf st2 = None then st2\<lparr>io_buf := False\<rparr>
                 else st2\<lparr>io_buf := True, io_bufsize := nat (allocLen mod 2 ^ 64), io_free := nat (allocLen mod 2 ^ 64)\<rparr>
         else st)
      in if \<not> io_buf st1 then (None, st1)
         else (Some (size_sub (io_bufsize st1) (io_free st1)), st1\<lparr>io_free := size_sub (io_free st1) len\<rparr>))"

definition alloc :: "'k render_env \<Rightarrow> nat \<Rightarrow> 'k SocketStream \<Rightarrow> (nat option \<times> 'k SocketStream) option" where
  "alloc e len st =
     do { (stat, st1) \<leftarrow> (if io_buf st \<and> len > io_free st then flush e st else Some (0, st));
          Some (if stat < 0 then (None, st1) else alloc_room e len st1) }"

definition readback :: "'k render_env \<Rightarrow> nat \<Rightarrow> 'k SocketStream \<Rightarrow> (u8 list option \<times> 'k SocketStream) option" where
  "readback e len st = do { (stat, st1) \<leftarrow> flush e st; readFully e len st1 }"

subsection \<open>The input buffer\<close>

record ReadBuffer =
  rb_buf :: "u8 list option"
  rb_size :: nat
  rb_validData :: nat
  rb_readPtr :: nat

definition ReadBuffer_new :: "'k render_env \<Rightarrow> nat \<Rightarrow> 'k SocketStream \<Rightarrow> ReadBuffer \<times> 'k SocketStream" where
  "ReadBuffer_new e bufsize st =
     (case allocate (re_malloc e bufsize) st of (b, st1) \<Rightarrow>
        (\<lparr>rb_buf = b, rb_size = bufsize, rb_validData = 0, rb_readPtr = 0\<rparr>, st1))"

text \<open>Moving the unread bytes to the front of the block.\<close>

definition rb_compact :: "ReadBuffer \<Rightarrow> ReadBuffer option" where
  "rb_compact rb =
     (if rb_validData rb > 0 \<and> rb_readPtr rb > 0
      then do { mem \<leftarrow> rb_buf rb;
                bs \<leftarrow> block_read (rb_readPtr rb) (rb_validData rb) mem;
                mem1 \<leftarrow> block_write 0 bs mem;
                Some (rb\<lparr>rb_buf := Some mem1\<rparr>) }
      else Some rb)"

text \<open>Doubling a full block; \<open>False\<close> when the allocation fails.\<close>

definition rb_grow :: "'k render_env \<Rightarrow> ReadBuffer \<Rightarrow> 'k SocketStream \<Rightarrow> bool \<times> ReadBuffer \<times> 'k SocketStream" where
  "rb_grow e rb st =
     (if size_sub (rb_size rb) (rb_validData rb) = 0
      then let doubled = rb_size rb * 2 mod 2 ^ 64;
               new_size = (if doubled < rb_size rb then 2 ^ 31 - 1 else doubled) in
           (case allocate (case rb_buf rb of None \<Rightarrow> re_malloc e new_size | Some mem \<Rightarrow> re_realloc e mem new_size) st of
              (None, st1) \<Rightarrow> (False, rb, st1)
            | (Some p, st1) \<Rightarrow> (True, rb\<lparr>rb_buf := Some p, rb_size := new_size\<rparr>, st1))
      else (True, rb, st))"

definition getData :: "'k render_env \<Rightarrow> ReadBuffer \<Rightarrow> 'k SocketStream \<Rightarrow> (int \<times> ReadBuffer \<times> 'k SocketStream) option" where
  "getData e rb st =
     do { rb1 \<leftarrow> rb_compact rb;
          case rb_grow e rb1 st of
            (False, rb2, st2) \<Rightarrow> Some (-1, rb2, st2)
          | (True, rb2, st2) \<Rightarrow>
              let len = size_sub (rb_size rb2) (rb_validData rb2);
                  rb3 = rb2\<lparr>rb_readPtr := 0\<rparr> in
              case rb_buf rb3 of
                None \<Rightarrow> if rb_validData rb3 = 0 then Some (-1, rb3, st2) else None
              | Some mem \<Rightarrow>
                  if rb_validData rb3 + len > length mem then None
                  else do { (r, st3) \<leftarrow> stream_read e len st2;
                            case r of
                              None \<Rightarrow> Some (-1, rb3, st3)
                            | Some data \<Rightarrow>
                                do { mem1 \<leftarrow> block_write (rb_validData rb3) data mem;
                                     Some (int32 (int (length data)),
                                       rb3\<lparr>rb_buf := Some mem1, rb_validData := rb_validData rb3 + length data\<rparr>, st3) } } }"

definition consume :: "nat \<Rightarrow> ReadBuffer \<Rightarrow> ReadBuffer option" where
  "consume amount rb =
     (if amount \<le> rb_validData rb
      then Some (rb\<lparr>rb_validData := rb_validData rb - amount, rb_readPtr := rb_readPtr rb + amount\<rparr>)
      else None)"

text \<open>The unread bytes, and the invariant of the buffer.\<close>

definition rb_data :: "ReadBuffer \<Rightarrow> u8 list" where
  "rb_data rb = (case rb_buf rb of None \<Rightarrow> [] | Some mem \<Rightarrow> take (rb_validData rb) (drop (rb_readPtr rb) mem))"

definition rb_ok :: "ReadBuffer \<Rightarrow> bool" where
  "rb_ok rb = (case rb_buf rb of None \<Rightarrow> False | Some mem \<Rightarrow>
     length mem = rb_size rb \<and> rb_readPtr rb + rb_validData rb \<le> rb_size rb \<and> 0 < rb_size rb \<and> rb_size rb < 2 ^ 31)"

lemma rb_data_length: "rb_ok rb \<Longrightarrow> length (rb_data rb) = rb_validData rb"
  by (auto simp: rb_ok_def rb_data_def split: option.splits)

lemma consume_ok:
  assumes "rb_ok rb" and "n \<le> length (rb_data rb)"
  shows "\<exists>rb'. consume n rb = Some rb' \<and> rb_ok rb' \<and> rb_data rb' = drop n (rb_data rb) \<and> rb_size rb' = rb_size rb"
  using assms by (auto simp: consume_def rb_ok_def rb_data_def drop_take add.commute split: option.splits)

subsection \<open>Interrupted calls\<close>

text \<open>A loop that repeats a call while it is interrupted continues with the result of the last attempt.\<close>

lemma eintr_peel:
  assumes "handle_eintr call w = Some (ret, x, w')"
    and F: "\<And>w. F w = (case sys call w of (r, y, w1) \<Rightarrow> if r < 0 \<and> os_errno w1 = EINTR then F w1 else K r y w1)"
  shows "F w = K ret x w'"
proof -
  have step: "F v = F w \<Longrightarrow> interrupted call v \<Longrightarrow> F (after_call call v) = F w" for v
    by (subst (asm) F) (auto simp: interrupted_def after_call_def split: prod.splits)
  from handle_eintr_last [OF assms(1), of "\<lambda>v. F v = F w"] step
  obtain w0 where "F w0 = F w" "\<not> interrupted call w0" "(ret, x, w') = sys call w0" by blast
  then show ?thesis by (subst (asm) F) (auto simp: interrupted_def split: prod.splits)
qed

subsection \<open>Laws of the operating system\<close>

text \<open>
  A connected stream socket, and an allocator that returns blocks of the size asked for and
  keeps the bytes of a block it grows, or returns \<open>NULL\<close>. \<open>room\<close> is a number of bytes that the
  allocator can still hand out: a request for no more succeeds, a request uses up at most its
  size, and the socket calls use none. Any allocator has the laws with \<open>room\<close> always 0.
\<close>

locale stream_os =
  fixes e :: "'k render_env" and sent :: "'k \<Rightarrow> int \<Rightarrow> u8 list" and inbox :: "'k \<Rightarrow> int \<Rightarrow> u8 list" and room :: "'k \<Rightarrow> nat"
  assumes returning: "returns (c_send (re_libc e) fd buf fl)" "returns (c_recv (re_libc e) fd n)"
    and send: "c_send (re_libc e) fd buf fl k = (ret, err, x, k') \<Longrightarrow> buf \<noteq> [] \<Longrightarrow>
      ret \<noteq> 0 \<and> - 1 \<le> ret \<and> ret \<le> int (length buf) \<and> room k \<le> room k' \<and> inbox k' = inbox k \<and> sent k' = (sent k)(fd := sent k fd @ take (nat ret) buf)"
    and recv: "c_recv (re_libc e) fd n k = (ret, err, data, k') \<Longrightarrow> 0 \<le> n \<Longrightarrow>
      - 1 \<le> ret \<and> ret \<le> n \<and> length data = nat ret \<and> room k \<le> room k' \<and> sent k' = sent k \<and> inbox k = (inbox k')(fd := data @ inbox k' fd)"
    and malloc: "re_malloc e sz k = (b, k') \<Longrightarrow>
      (\<forall>mem. b = Some mem \<longrightarrow> length mem = sz) \<and> (0 < sz \<and> sz \<le> room k \<longrightarrow> b \<noteq> None) \<and> room k \<le> room k' + sz \<and> sent k' = sent k \<and> inbox k' = inbox k"
    and realloc: "re_realloc e mem sz k = (b, k') \<Longrightarrow>
      (\<forall>p. b = Some p \<longrightarrow> length p = sz \<and> take (min sz (length mem)) p = take sz mem) \<and> (0 < sz \<and> sz \<le> room k \<longrightarrow> b \<noteq> None) \<and>
      room k \<le> room k' + sz \<and> sent k' = sent k \<and> inbox k' = inbox k"
begin

abbreviation (input) out_of where "out_of st \<equiv> sent (os_kernel (st_os st))"
abbreviation (input) in_of where "in_of st \<equiv> inbox (os_kernel (st_os st))"
abbreviation (input) room_of where "room_of st \<equiv> room (os_kernel (st_os st))"

text \<open>An interrupted \<open>send\<close> is repeated until one is not; each moves a prefix of the bytes.\<close>

lemma send_final:
  assumes "buf \<noteq> []"
  obtains ret x w' where "handle_eintr (c_send (re_libc e) fd buf fl) w = Some (ret, x, w')"
    and "ret \<noteq> 0" "-1 \<le> ret" "ret \<le> int (length buf)" "inbox (os_kernel w') = inbox (os_kernel w)" "room (os_kernel w) \<le> room (os_kernel w')"
    and "sent (os_kernel w') = (sent (os_kernel w))(fd := sent (os_kernel w) fd @ take (nat ret) buf)"
    and "ret < 0 \<longrightarrow> os_errno w' \<noteq> EINTR"
proof -
  let ?call = "c_send (re_libc e) fd buf fl"
  obtain ret x w' where h: "handle_eintr ?call w = Some (ret, x, w')"
    using returning(1) [of fd buf fl] unfolding returns_def by (metis not_None_eq prod_cases3)
  let ?P = "\<lambda>v. sent (os_kernel v) = sent (os_kernel w) \<and> inbox (os_kernel v) = inbox (os_kernel w) \<and> room (os_kernel w) \<le> room (os_kernel v)"
  have "?P (after_call ?call v)" if "?P v" "interrupted ?call v" for v
    using that send [of fd buf fl "os_kernel v"] assms
    by (fastforce simp: interrupted_def after_call_def sys_def split: prod.splits)
  from handle_eintr_last [OF h, of ?P] this obtain w0 where "?P w0" "\<not> interrupted ?call w0" "(ret, x, w') = sys ?call w0"
    by blast
  then show ?thesis using send [of fd buf fl "os_kernel w0"] assms that [OF h]
    by (fastforce simp: interrupted_def sys_def split: prod.splits)
qed

lemma recv_final:
  obtains ret data w' where "handle_eintr (c_recv (re_libc e) fd (int n)) w = Some (ret, data, w')"
    and "-1 \<le> ret" "ret \<le> int n" "length data = nat ret" "sent (os_kernel w') = sent (os_kernel w)"
    and "inbox (os_kernel w) = (inbox (os_kernel w'))(fd := data @ inbox (os_kernel w') fd)"
    and "ret < 0 \<longrightarrow> os_errno w' \<noteq> EINTR" and "room (os_kernel w) \<le> room (os_kernel w')"
    and "ret \<le> 0 \<longrightarrow> (\<exists>k err k'. c_recv (re_libc e) fd (int n) k = (ret, err, data, k') \<and> inbox k = inbox (os_kernel w) \<and> (ret < 0 \<longrightarrow> err \<noteq> EINTR))"
proof -
  let ?call = "c_recv (re_libc e) fd (int n)"
  obtain ret x w' where h: "handle_eintr ?call w = Some (ret, x, w')"
    using returning(2) [of fd "int n"] unfolding returns_def by (metis not_None_eq prod_cases3)
  let ?P = "\<lambda>v. sent (os_kernel v) = sent (os_kernel w) \<and> inbox (os_kernel v) = inbox (os_kernel w) \<and> room (os_kernel w) \<le> room (os_kernel v)"
  have "?P (after_call ?call v)" if "?P v" "interrupted ?call v" for v
  proof -
    obtain ret err data k' where c: "?call (os_kernel v) = (ret, err, data, k')" by (cases "?call (os_kernel v)") auto
    from recv [OF c] that c show ?thesis by (fastforce simp: interrupted_def after_call_def sys_def)
  qed
  from handle_eintr_last [OF h, of ?P] this obtain w0 where w0: "?P w0" "\<not> interrupted ?call w0" "(ret, x, w') = sys ?call w0"
    by blast
  obtain r err data k' where c: "?call (os_kernel w0) = (r, err, data, k')" by (cases "?call (os_kernel w0)") auto
  then have e: "ret = r" "x = data" "os_kernel w' = k'" "r < 0 \<longrightarrow> os_errno w' = err" using w0(3) by (auto simp: sys_def)
  have n: "r < 0 \<longrightarrow> err \<noteq> EINTR" using w0(2) c by (auto simp: interrupted_def sys_def)
  show ?thesis
  proof (rule that [OF h])
    show "ret \<le> 0 \<longrightarrow> (\<exists>k err k'. ?call k = (ret, err, x, k') \<and> inbox k = inbox (os_kernel w) \<and> (ret < 0 \<longrightarrow> err \<noteq> EINTR))"
      using c e n w0(1) by blast
  qed (use recv [OF c] w0(1) e n in auto)
qed

lemma write_loop_step:
  assumes "buf \<noteq> []" and "handle_eintr (c_send (re_libc e) fd buf 0) w = Some (stat, x, w1)"
  shows "write_loop (re_libc e) fd buf w =
    (if stat < 0 then Some (int32 stat, w1) else if nat stat > length buf then None
     else write_loop (re_libc e) fd (drop (nat stat) buf) w1)"
  by (rule eintr_peel [OF assms(2)]) (subst write_loop.simps, auto simp: assms(1) split: prod.splits)

lemma write_loop_ok:
  "\<exists>r n w'. write_loop (re_libc e) fd buf w = Some (r, w') \<and> n \<le> length buf \<and>
     (r = 0 \<longrightarrow> n = length buf) \<and> inbox (os_kernel w') = inbox (os_kernel w) \<and> room (os_kernel w) \<le> room (os_kernel w') \<and>
     sent (os_kernel w') = (sent (os_kernel w))(fd := sent (os_kernel w) fd @ take n buf)"
proof (induction buf arbitrary: w rule: length_induct)
  case (1 buf)
  show ?case
  proof (cases "buf = []")
    case True
    then show ?thesis by (subst write_loop.simps) simp
  next
    case False
    obtain ret x w1 where h: "handle_eintr (c_send (re_libc e) fd buf 0) w = Some (ret, x, w1)"
      and ret: "ret \<noteq> 0" "-1 \<le> ret" "ret \<le> int (length buf)" and i: "inbox (os_kernel w1) = inbox (os_kernel w)" "room (os_kernel w) \<le> room (os_kernel w1)"
      and o: "sent (os_kernel w1) = (sent (os_kernel w))(fd := sent (os_kernel w) fd @ take (nat ret) buf)"
      by (rule send_final [OF False, of fd 0 w])
    note step = write_loop_step [OF False h]
    show ?thesis
    proof (cases "ret < 0")
      case True
      then have "ret = -1" using ret by simp
      then show ?thesis using step i o by (intro exI [of _ "-1 :: int"] exI [of _ "0 :: nat"] exI [of _ w1]) simp
    next
      case pos: False
      let ?rest = "drop (nat ret) buf"
      from pos ret have "length ?rest < length buf" by auto
      from "1"(1) [rule_format, OF this, of w1] obtain r n w' where
        l: "write_loop (re_libc e) fd ?rest w1 = Some (r, w')" and n: "n \<le> length ?rest" "r = 0 \<longrightarrow> n = length ?rest"
        and i': "inbox (os_kernel w') = inbox (os_kernel w1)" "room (os_kernel w1) \<le> room (os_kernel w')"
        and o': "sent (os_kernel w') = (sent (os_kernel w1))(fd := sent (os_kernel w1) fd @ take n ?rest)" by metis
      have k: "nat ret \<le> length buf" using ret by simp
      have "write_loop (re_libc e) fd buf w = Some (r, w')" using step pos k l by simp
      moreover have "nat ret + n \<le> length buf \<and> (r = 0 \<longrightarrow> nat ret + n = length buf)" using n k by auto
      moreover have "sent (os_kernel w') = (sent (os_kernel w))(fd := sent (os_kernel w) fd @ take (nat ret + n) buf)"
        using o o' by (simp add: take_add)
      moreover have "inbox (os_kernel w') = inbox (os_kernel w)" "room (os_kernel w) \<le> room (os_kernel w')" using i i' by simp_all
      ultimately show ?thesis by metis
    qed
  qed
qed

lemma recv_int_step:
  assumes "handle_eintr (c_recv (re_libc e) fd (int len)) w = Some (ret, data, w1)" and "len < 2 ^ 31"
  shows "recv_int (re_libc e) fd len w = Some (ret, data, w1)"
proof -
  let ?call = "c_recv (re_libc e) fd (int len)"
  have small: "int32 r = r" if "sys ?call v = (r, y, v1)" for r y v v1
  proof -
    obtain r' err data k' where c: "?call (os_kernel v) = (r', err, data, k')" by (cases "?call (os_kernel v)") auto
    with recv [OF c] that assms(2) show ?thesis by (auto simp: sys_def)
  qed
  show ?thesis
    by (rule eintr_peel [OF assms(1)]) (subst recv_int.simps, auto simp: small split: prod.splits)
qed

text \<open>The socket has no data for a read: the end of the stream, or an error.\<close>

definition refused :: "nat \<Rightarrow> 'k SocketStream \<Rightarrow> bool" where
  "refused len st \<longleftrightarrow> (\<exists>k ret err data k'. c_recv (re_libc e) (m_sock st) (int len) k = (ret, err, data, k') \<and> inbox k = in_of st \<and>
     ret \<le> 0 \<and> (ret < 0 \<longrightarrow> err \<noteq> EINTR))"

lemma stream_read_ok:
  assumes "valid st" and "len < 2 ^ 31"
  shows "\<exists>r w. stream_read e len st = Some (r, st\<lparr>st_os := w\<rparr>) \<and> sent (os_kernel w) = out_of st \<and> room_of st \<le> room (os_kernel w) \<and>
    (case r of None \<Rightarrow> inbox (os_kernel w) = in_of st \<and> refused len st
     | Some d \<Rightarrow> d \<noteq> [] \<and> length d \<le> len \<and> in_of st = (inbox (os_kernel w))(m_sock st := d @ inbox (os_kernel w) (m_sock st)))"
proof -
  obtain ret data w where h: "handle_eintr (c_recv (re_libc e) (m_sock st) (int len)) (st_os st) = Some (ret, data, w)"
    and r: "-1 \<le> ret" "ret \<le> int len" "length data = nat ret" and o: "sent (os_kernel w) = out_of st"
    and i: "in_of st = (inbox (os_kernel w))(m_sock st := data @ inbox (os_kernel w) (m_sock st))"
    and n: "ret < 0 \<longrightarrow> os_errno w \<noteq> EINTR" and m: "room_of st \<le> room (os_kernel w)"
    and f: "ret \<le> 0 \<longrightarrow> (\<exists>k err k'. c_recv (re_libc e) (m_sock st) (int len) k = (ret, err, data, k') \<and> inbox k = in_of st \<and> (ret < 0 \<longrightarrow> err \<noteq> EINTR))"
    by (rule recv_final [of "m_sock st" len "st_os st"])
  have "stream_recv e len st = Some (ret, data, st\<lparr>st_os := w\<rparr>)"
    using recv_int_step [OF h assms(2)] assms(1) by (simp add: stream_recv_def)
  then have "read_retry e len st = Some (ret, data, st\<lparr>st_os := w\<rparr>)"
    using n by (subst read_retry.simps) auto
  then have "stream_read e len st = Some (if ret > 0 then Some data else None, st\<lparr>st_os := w\<rparr>)"
    using assms(1) by (simp add: stream_read_def)
  moreover have "ret \<le> 0 \<Longrightarrow> refused len st" using f unfolding refused_def by blast
  ultimately show ?thesis using r o i m by auto
qed

subsubsection \<open>The input buffer\<close>

lemma allocate_ok:
  assumes "allocate f st = (b, st')" and "\<And>k b k'. f k = (b, k') \<Longrightarrow> sent k' = sent k \<and> inbox k' = inbox k"
  shows "st' = st\<lparr>st_os := st_os st'\<rparr> \<and> out_of st' = out_of st \<and> in_of st' = in_of st"
  using assms by (auto simp: allocate_def split: prod.splits)

text \<open>Compacting keeps the unread bytes and puts them at the front.\<close>

lemma rb_compact_ok:
  assumes "rb_ok rb"
  shows "\<exists>rb'. rb_compact rb = Some rb' \<and> rb_ok rb' \<and> rb_ok (rb'\<lparr>rb_readPtr := 0\<rparr>) \<and>
    rb_data (rb'\<lparr>rb_readPtr := 0\<rparr>) = rb_data rb \<and>
    rb_size rb' = rb_size rb \<and> rb_validData rb' = rb_validData rb \<and> rb_readPtr rb' = rb_readPtr rb"
  using assms
  by (auto simp: rb_compact_def rb_ok_def rb_data_def block_read_def block_write_def min_def split: option.splits)

text \<open>A full block is doubled; the front of the block is kept.\<close>

lemma rb_grow_ok:
  assumes g: "rb_grow e rb st = (ok, rb', st')" and ok: "rb_ok rb"
    and small: "rb_validData rb = rb_size rb \<longrightarrow> rb_size rb < 2 ^ 30"
  shows "st' = st\<lparr>st_os := st_os st'\<rparr> \<and> out_of st' = out_of st \<and> in_of st' = in_of st \<and>
    (if ok then rb_ok (rb'\<lparr>rb_readPtr := 0\<rparr>) \<and> rb_data (rb'\<lparr>rb_readPtr := 0\<rparr>) = rb_data (rb\<lparr>rb_readPtr := 0\<rparr>) \<and>
       rb_validData rb' = rb_validData rb \<and> rb_validData rb' < rb_size rb' \<and>
       rb_size rb' = (if rb_validData rb = rb_size rb then 2 * rb_size rb else rb_size rb) \<and>
       room_of st \<le> room_of st' + (if rb_validData rb = rb_size rb then 2 * rb_size rb else 0)
     else rb' = rb \<and> rb_readPtr rb = 0 \<and> rb_validData rb = rb_size rb \<and> room_of st < 2 * rb_size rb)"
proof -
  obtain mem where mem: "rb_buf rb = Some mem" "length mem = rb_size rb" "rb_readPtr rb + rb_validData rb \<le> rb_size rb" "0 < rb_size rb"
    using ok by (auto simp: rb_ok_def split: option.splits)
  have room: "size_sub (rb_size rb) (rb_validData rb) = rb_size rb - rb_validData rb"
    using mem ok by (simp add: rb_ok_def)
  show ?thesis
  proof (cases "rb_validData rb = rb_size rb")
    case False
    with g room mem have "ok" "rb' = rb" "st' = st" by (auto simp: rb_grow_def)
    then show ?thesis using mem ok False by (auto simp: rb_ok_def)
  next
    case True
    let ?n = "2 * rb_size rb"
    have n: "rb_size rb * 2 mod 18446744073709551616 = ?n" using small True by simp
    obtain b k where r: "re_realloc e mem ?n (os_kernel (st_os st)) = (b, k)" by fastforce
    note law = realloc [OF r]
    have g': "rb_grow e rb st = (case b of None \<Rightarrow> (False, rb, st\<lparr>st_os := (st_os st)\<lparr>os_kernel := k\<rparr>\<rparr>)
      | Some p \<Rightarrow> (True, rb\<lparr>rb_buf := Some p, rb_size := ?n\<rparr>, st\<lparr>st_os := (st_os st)\<lparr>os_kernel := k\<rparr>\<rparr>))"
      using True room r by (simp add: rb_grow_def Let_def n mem allocate_def split: option.splits)
    show ?thesis
    proof (cases b)
      case None
      then show ?thesis using g g' law mem True by (auto simp: not_le)
    next
      case (Some p)
      with law mem have p: "length p = ?n" "take (rb_size rb) p = mem" by auto
      have "rb' = rb\<lparr>rb_buf := Some p, rb_size := ?n\<rparr>" "ok" "st' = st\<lparr>st_os := (st_os st)\<lparr>os_kernel := k\<rparr>\<rparr>"
        using g g' Some by auto
      then show ?thesis using law mem p True small by (auto simp: rb_ok_def rb_data_def)
    qed
  qed
qed

text \<open>
  Fetching data appends what was received to the unread bytes, or fails and leaves them as
  they are.
\<close>

lemma getData_ok:
  assumes ok: "rb_ok rb" and small: "rb_validData rb = rb_size rb \<longrightarrow> rb_size rb < 2 ^ 30" and v: "valid st"
  shows "\<exists>n rb' w. getData e rb st = Some (n, rb', st\<lparr>st_os := w\<rparr>) \<and> rb_ok rb' \<and> sent (os_kernel w) = out_of st \<and>
    (n = -1 \<and> rb_data rb' = rb_data rb \<and> inbox (os_kernel w) = in_of st \<and>
       (rb_validData rb = rb_size rb \<and> room_of st < 2 * rb_size rb \<or> (\<exists>len > 0. refused len st)) \<or>
     (\<exists>d. d \<noteq> [] \<and> n = int (length d) \<and> rb_data rb' = rb_data rb @ d \<and>
          rb_size rb' = (if rb_validData rb = rb_size rb then 2 * rb_size rb else rb_size rb) \<and>
          room_of st \<le> room (os_kernel w) + (if rb_validData rb = rb_size rb then 2 * rb_size rb else 0) \<and>
          in_of st = (inbox (os_kernel w))(m_sock st := d @ inbox (os_kernel w) (m_sock st))))"
proof -
  obtain rb1 where c: "rb_compact rb = Some rb1" "rb_ok rb1" "rb_ok (rb1\<lparr>rb_readPtr := 0\<rparr>)"
    "rb_data (rb1\<lparr>rb_readPtr := 0\<rparr>) = rb_data rb" "rb_size rb1 = rb_size rb" "rb_validData rb1 = rb_validData rb"
    using rb_compact_ok [OF ok] by blast
  obtain g rb2 st2 where g: "rb_grow e rb1 st = (g, rb2, st2)" by (cases "rb_grow e rb1 st") auto
  have s1: "rb_validData rb1 = rb_size rb1 \<longrightarrow> rb_size rb1 < 2 ^ 30" using small c(5,6) by simp
  note grow = rb_grow_ok [OF g c(2) s1]
  then obtain w2 where st2: "st2 = st\<lparr>st_os := w2\<rparr>" by metis
  show ?thesis
  proof (cases g)
    case False
    then have r: "rb2 = rb1" and p: "rb_readPtr rb1 = 0" using grow by auto
    have "rb1\<lparr>rb_readPtr := 0\<rparr> = rb1" using p by simp
    then have d: "rb_data rb1 = rb_data rb" using c(4) by simp
    have "getData e rb st = Some (-1, rb1, st\<lparr>st_os := w2\<rparr>)" using False g c(1) r st2 by (simp add: getData_def)
    then show ?thesis using grow st2 c(2,5,6) d False by (intro exI [of _ "-1 :: int"] exI [of _ rb1] exI [of _ w2]) simp
  next
    case True
    let ?rb3 = "rb2\<lparr>rb_readPtr := 0\<rparr>"
    let ?len = "rb_size rb2 - rb_validData rb2"
    have ok3: "rb_ok ?rb3" and d3: "rb_data ?rb3 = rb_data rb" and room: "0 < ?len"
      and sz: "rb_size rb2 = (if rb_validData rb = rb_size rb then 2 * rb_size rb else rb_size rb)"
      and rm: "room_of st \<le> room_of st2 + (if rb_validData rb = rb_size rb then 2 * rb_size rb else 0)" using True grow c(4-6) by auto
    obtain mem where mem: "rb_buf rb2 = Some mem" "length mem = rb_size rb2" "rb_validData rb2 \<le> rb_size rb2" "rb_size rb2 < 2 ^ 31"
      using ok3 by (auto simp: rb_ok_def split: option.splits)
    have len: "size_sub (rb_size rb2) (rb_validData rb2) = ?len" "?len < 2 ^ 31" using mem by auto
    have v2: "valid st2" using v st2 by (simp add: valid_def)
    have same: "out_of st2 = out_of st" "in_of st2 = in_of st" "m_sock st2 = m_sock st" using grow st2 by auto
    obtain r w where rd: "stream_read e ?len st2 = Some (r, st2\<lparr>st_os := w\<rparr>)" "sent (os_kernel w) = out_of st" "room_of st2 \<le> room (os_kernel w)"
      and rc: "case r of None \<Rightarrow> inbox (os_kernel w) = in_of st \<and> refused ?len st2
        | Some d \<Rightarrow> d \<noteq> [] \<and> length d \<le> ?len \<and> in_of st = (inbox (os_kernel w))(m_sock st := d @ inbox (os_kernel w) (m_sock st))"
      using stream_read_ok [OF v2 len(2)] unfolding same by blast
    show ?thesis
    proof (cases r)
      case None
      then have "getData e rb st = Some (-1, ?rb3, st\<lparr>st_os := w\<rparr>)"
        using True g c(1) rd mem len st2 by (simp add: getData_def)
      moreover have "refused ?len st" using None rc same by (simp add: refused_def)
      moreover from this have "\<exists>len > 0. refused len st" using room by blast
      ultimately show ?thesis using None ok3 d3 rd(2) rc
        by (intro exI [of _ "-1 :: int"] exI [of _ ?rb3] exI [of _ w]) simp
    next
      case (Some d)
      then have d: "d \<noteq> []" "length d \<le> ?len" using rc by auto
      have fits: "rb_validData rb2 + length d \<le> rb_size rb2" using d mem(3) by simp
      let ?mem = "take (rb_validData rb2) mem @ d @ drop (rb_validData rb2 + length d) mem"
      let ?rb4 = "?rb3\<lparr>rb_buf := Some ?mem, rb_validData := rb_validData rb2 + length d\<rparr>"
      have "getData e rb st = Some (int (length d), ?rb4, st\<lparr>st_os := w\<rparr>)"
        using True g c(1) rd mem len st2 Some d fits by (simp add: getData_def block_write_def Let_def)
      moreover have "rb_ok ?rb4" using ok3 mem fits by (simp add: rb_ok_def)
      moreover have "rb_data ?rb3 = take (rb_validData rb2) mem" "rb_data ?rb4 = take (rb_validData rb2) mem @ d"
        using mem fits by (simp_all add: rb_data_def)
      then have "rb_data ?rb4 = rb_data rb @ d" using d3 by simp
      moreover have "room_of st \<le> room (os_kernel w) + (if rb_validData rb = rb_size rb then 2 * rb_size rb else 0)" using rm rd(3) by simp
      ultimately show ?thesis using d sz rd rc Some by auto
    qed
  qed
qed

end

subsection \<open>The output buffer\<close>

text \<open>Between two replies nothing is pending, and the blocks are as large as the classes record.\<close>

definition stream_ok :: "'k SocketStream \<Rightarrow> bool" where
  "stream_ok st \<longleftrightarrow> valid st \<and> (io_buf st \<longrightarrow> io_free st = io_bufsize st) \<and> io_bufsize st < 2 ^ 31 \<and> m_bufsize st < 2 ^ 31 \<and>
     (case m_buf st of None \<Rightarrow> \<not> io_buf st
      | Some mem \<Rightarrow> m_bufsize st \<le> length mem \<and> (io_buf st \<longrightarrow> io_bufsize st \<le> length mem))"

lemma stream_ok_os [simp]: "stream_ok (st\<lparr>st_os := w\<rparr>) = stream_ok st"
  by (simp add: stream_ok_def valid_def split: option.split)

text \<open>Whether \<open>alloc\<close> finds memory for a reply of \<open>n\<close> bytes; the decoder does not ask.\<close>

definition granted :: "'k render_env \<Rightarrow> nat \<Rightarrow> 'k SocketStream \<Rightarrow> bool" where
  "granted e n st \<longleftrightarrow> n = 0 \<or> (case alloc e n st of Some (Some off, st1) \<Rightarrow> True | _ \<Rightarrow> False)"

definition sized :: "nat \<Rightarrow> 'k SocketStream \<Rightarrow> bool" where
  "sized B st \<longleftrightarrow> io_bufsize st = B \<and> m_bufsize st = B"

lemma sized_os [simp]: "sized B (st\<lparr>st_os := w\<rparr>) = sized B st"
  by (simp add: sized_def)

lemma stream_ok_flushed: "stream_ok st \<Longrightarrow> alloc e len st = Some (alloc_room e len st)"
  by (auto simp: alloc_def flush_def stream_ok_def)

lemma granted_cases:
  assumes "stream_ok st"
  shows "granted e n st \<or> (\<exists>st1. alloc e n st = Some (None, st1))"
  using stream_ok_flushed [OF assms, of e n] by (cases "alloc_room e n st") (auto simp: granted_def split: option.splits)

context stream_os
begin

lemma allocBuffer_ok:
  assumes ok: "stream_ok st" and n: "n < 2 ^ 31" and got: "m_buf (allocBuffer e n st) \<noteq> None"
  shows "\<exists>mem m w. allocBuffer e n st = st\<lparr>m_buf := Some mem, m_bufsize := m, st_os := w\<rparr> \<and> m < 2 ^ 31 \<and> m \<le> length mem \<and>
    n \<le> length mem \<and> sent (os_kernel w) = out_of st \<and> inbox (os_kernel w) = in_of st \<and>
    (n \<le> m_bufsize st \<longrightarrow> m = m_bufsize st \<and> room_of st \<le> room (os_kernel w) + (if m_buf st = None then m_bufsize st else 0))"
proof (cases "m_buf st")
  case None
  let ?n = "if m_bufsize st < n then n else m_bufsize st"
  obtain b k where r: "re_malloc e ?n (os_kernel (st_os st)) = (b, k)" by fastforce
  with got None obtain mem where "b = Some mem" by (cases b) (auto simp: allocBuffer_def allocate_def)
  with r malloc [OF r] ok None show ?thesis
    by (intro exI [of _ mem] exI [of _ "m_bufsize st"] exI [of _ "(st_os st)\<lparr>os_kernel := k\<rparr>"])
       (auto simp: allocBuffer_def allocate_def stream_ok_def)
next
  case (Some mem)
  show ?thesis
  proof (cases "m_bufsize st < n")
    case True
    obtain b k where r: "re_realloc e mem n (os_kernel (st_os st)) = (b, k)" by fastforce
    with got Some True obtain mem' where "b = Some mem'" by (cases b) (auto simp: allocBuffer_def allocate_def)
    with r realloc [OF r] True Some n show ?thesis
      by (intro exI [of _ mem'] exI [of _ n] exI [of _ "(st_os st)\<lparr>os_kernel := k\<rparr>"])
         (simp add: allocBuffer_def allocate_def)
  next
    case False
    with Some ok show ?thesis
      by (intro exI [of _ mem] exI [of _ "m_bufsize st"] exI [of _ "st_os st"]) (auto simp: allocBuffer_def stream_ok_def)
  qed
qed

text \<open>Room for a reply, at the front of a block that holds it.\<close>

lemma alloc_ok:
  assumes ok: "stream_ok st" and n: "len < 2 ^ 31" "0 < len" and got: "granted e len st"
  shows "\<exists>mem m b w. alloc e len st =
      Some (Some 0, st\<lparr>io_buf := True, io_bufsize := b, io_free := b - len, m_buf := Some mem, m_bufsize := m, st_os := w\<rparr>) \<and>
    len \<le> b \<and> b \<le> length mem \<and> b < 2 ^ 31 \<and> m \<le> length mem \<and> m < 2 ^ 31 \<and>
    sent (os_kernel w) = out_of st \<and> inbox (os_kernel w) = in_of st \<and>
    (\<forall>B. sized B st \<and> len \<le> B \<longrightarrow> b = B \<and> m = B \<and> room_of st \<le> room (os_kernel w) + (if m_buf st = None then B else 0))"
proof -
  note a = stream_ok_flushed [OF ok, of e len]
  show ?thesis
  proof (cases "\<not> io_buf st \<or> len > io_bufsize st")
    case False
    then obtain mem where "m_buf st = Some mem" using ok by (auto simp: stream_ok_def split: option.splits)
    with False ok a show ?thesis
      by (intro exI [of _ mem] exI [of _ "m_bufsize st"] exI [of _ "io_bufsize st"] exI [of _ "st_os st"])
         (auto simp: alloc_room_def stream_ok_def sized_def)
  next
    case True
    let ?n = "if io_bufsize st < len then len else io_bufsize st"
    have n': "?n < 2 ^ 31" using n ok by (simp add: stream_ok_def)
    then have i: "int32 (int ?n) = int ?n" "int ?n mod 2 ^ 64 = int ?n" by auto
    have r0: "alloc_room e len st = (let st2 = allocBuffer e ?n st in
        if m_buf st2 = None then (None, st2\<lparr>io_buf := False\<rparr>)
        else (Some 0, st2\<lparr>io_buf := True, io_bufsize := ?n, io_free := ?n - len\<rparr>))"
      using True n' unfolding alloc_room_def Let_def i by (simp only: nat_int if_True) simp
    with got n(2) a have got2: "m_buf (allocBuffer e ?n st) \<noteq> None" by (auto simp: granted_def Let_def split: if_splits)
    obtain mem m w where b: "allocBuffer e ?n st = st\<lparr>m_buf := Some mem, m_bufsize := m, st_os := w\<rparr>"
      and r: "m < 2 ^ 31" "m \<le> length mem" "?n \<le> length mem" "sent (os_kernel w) = out_of st" "inbox (os_kernel w) = in_of st"
        "?n \<le> m_bufsize st \<longrightarrow> m = m_bufsize st \<and> room_of st \<le> room (os_kernel w) + (if m_buf st = None then m_bufsize st else 0)"
      using allocBuffer_ok [OF ok n' got2] by metis
    have "alloc_room e len st = (Some 0,
        st\<lparr>m_buf := Some mem, m_bufsize := m, st_os := w, io_buf := True, io_bufsize := ?n, io_free := ?n - len\<rparr>)"
      unfolding r0 b Let_def by simp
    moreover have "\<forall>B. sized B st \<and> len \<le> B \<longrightarrow> ?n = B \<and> m = B \<and> room_of st \<le> room (os_kernel w) + (if m_buf st = None then B else 0)"
      using r(6) by (auto simp: sized_def)
    ultimately show ?thesis using a r(1-5) n'
      by (intro exI [of _ mem] exI [of _ m] exI [of _ ?n] exI [of _ w]) simp
  qed
qed

text \<open>What the allocator can hand out and what the stream has already.\<close>

definition funds :: "'k SocketStream \<Rightarrow> nat" where
  "funds st = room_of st + (if m_buf st = None then 0 else m_bufsize st)"

lemma funds_grant:
  assumes ok: "stream_ok st" and B: "sized B st" "len \<le> B" "B \<le> funds st"
  shows "granted e len st"
proof (cases "len = 0 \<or> m_buf st \<noteq> None")
  case True
  moreover have "B < 2 ^ 31" using ok B(1) by (simp add: stream_ok_def sized_def)
  ultimately show ?thesis using stream_ok_flushed [OF ok, of e len] B(1,2)
    by (auto simp: granted_def alloc_room_def allocBuffer_def sized_def Let_def split: prod.splits)
next
  case False
  obtain b k where r: "re_malloc e B (os_kernel (st_os st)) = (b, k)" by fastforce
  have "B < 2 ^ 31" using ok B(1) by (simp add: stream_ok_def sized_def)
  moreover have "b \<noteq> None" using malloc [OF r] False B by (auto simp: funds_def)
  ultimately show ?thesis using stream_ok_flushed [OF ok, of e len] B(1,2) False ok r
    by (auto simp: granted_def alloc_room_def allocBuffer_def sized_def allocate_def Let_def stream_ok_def split: prod.splits)
qed

text \<open>Flushing a reply sends it, or a prefix of it if the socket fails, and leaves nothing pending.\<close>

lemma flush_ok:
  assumes "valid st" and "io_buf st" and b: "io_free st = io_bufsize st - len" "len \<le> io_bufsize st" "io_bufsize st < 2 ^ 31"
    and m: "m_buf st = Some mem" "io_bufsize st \<le> length mem" "m_bufsize st \<le> length mem" "m_bufsize st < 2 ^ 31"
  shows "\<exists>r st' n. flush e st = Some (r, st') \<and> stream_ok st' \<and> m_sock st' = m_sock st \<and> in_of st' = in_of st \<and>
    n \<le> len \<and> (r = 0 \<longrightarrow> n = len) \<and> out_of st' = (out_of st)(m_sock st := out_of st (m_sock st) @ take n mem) \<and>
    io_bufsize st' = io_bufsize st \<and> m_bufsize st' = m_bufsize st \<and> m_buf st' = m_buf st \<and> room_of st \<le> room_of st'"
proof (cases "len = 0")
  case True
  then show ?thesis using assms
    by (intro exI [of _ "0 :: int"] exI [of _ st] exI [of _ "0 :: nat"]) (simp add: flush_def stream_ok_def)
next
  case False
  have s: "size_sub (io_bufsize st) (io_free st) = len" using b by simp
  have "len \<le> length mem" using b m by simp
  then have c: "block_read 0 len mem = Some (take len mem)" by (simp add: block_read_def)
  obtain r n w where l: "write_loop (re_libc e) (m_sock st) (take len mem) (st_os st) = Some (r, w)"
    "n \<le> length (take len mem)" "r = 0 \<longrightarrow> n = length (take len mem)" "inbox (os_kernel w) = in_of st" "room_of st \<le> room (os_kernel w)"
    "sent (os_kernel w) = (out_of st)(m_sock st := out_of st (m_sock st) @ take n (take len mem))"
    using write_loop_ok by metis
  then have n: "n \<le> len" "r = 0 \<longrightarrow> n = len" using \<open>len \<le> length mem\<close> by auto
  have "io_free st \<noteq> io_bufsize st" using False b by simp
  then have "flush e st = Some (r, st\<lparr>st_os := w, io_buf := False, io_free := 0\<rparr>)"
    using assms(1,2) s c l(1) m(1) by (simp add: flush_def commitBuffer_def writeFully_def)
  moreover have "stream_ok (st\<lparr>st_os := w, io_buf := False, io_free := 0\<rparr>)"
    using assms by (simp add: stream_ok_def valid_def)
  moreover have "take n (take len mem) = take n mem" using n by (simp add: min_def)
  ultimately show ?thesis using l(4-6) n
    by (intro exI [of _ r] exI [of _ "st\<lparr>st_os := w, io_buf := False, io_free := 0\<rparr>"] exI [of _ n]) simp
qed

end

subsection \<open>On the machine\<close>

definition machine_render :: "machine render_env" where
  "machine_render = \<lparr>re_libc = machine_libc 0, re_malloc = \<lambda>n k. (Some (replicate n 0), k),
     re_realloc = \<lambda>mem n k. (Some (take n mem @ replicate (n - length mem) 0), k)\<rparr>"

text \<open>A socket that has data gives some of it to a reader, unless a signal interrupts the call.\<close>

locale stream_live = stream_os +
  assumes delivers: "c_recv (re_libc e) fd n k = (ret, err, data, k') \<Longrightarrow> 0 < n \<Longrightarrow> inbox k fd \<noteq> [] \<Longrightarrow> 0 < ret \<or> ret < 0 \<and> err = EINTR"
begin

lemma refused_empty: "refused len st \<Longrightarrow> 0 < len \<Longrightarrow> in_of st (m_sock st) = []"
  using delivers [of "m_sock st" "int len"] by (fastforce simp: refused_def)

end

text \<open>The machine's allocator always has memory.\<close>

interpretation rsim: stream_live machine_render mk_sent mk_inbox "\<lambda>k. 2 ^ 40"
proof unfold_locales
  show "returns (c_send (re_libc machine_render) fd buf fl)" "returns (c_recv (re_libc machine_render) fd n)" for fd buf fl n
    unfolding returns_def by (auto simp: handle_eintr_once interrupted_def sys_def machine_render_def machine_libc_def)
qed (auto simp: machine_render_def machine_libc_def min_def split: if_splits)

end
