(* ===== verification/RenderObjects.thy ===== *)
theory RenderObjects
  imports RenderStream
begin

text \<open>
  The objects of the renderer: colour buffers (\<open>ColorBuffer.cpp\<close>), rendering contexts
  (\<open>RenderContext.cpp\<close>), window surfaces (\<open>WindowSurface.cpp\<close>) and the reference-counted
  pointers that own them (\<open>smart_ptr.cpp\<close>). The EGL and GL libraries are the parameter \<open>gl_api\<close>:
  every call the code makes is a value of \<open>gl_op\<close>, and the library maps a thread, a call and its
  own state to a result and a new state. Using an object that has been deleted is undefined.
\<close>

subsection \<open>EGL and GL\<close>

text \<open>The entry points of GLES 1 and 2 the renderer calls itself, with the arguments that vary.\<close>

datatype gl_cmd =
    GenTextures | DeleteTextures u32 | BindTexture u32 | TexImage2D u32 u32 u32 | TexParameteri u32 u32 | TexEnv u32
  | TexSubImage2D u32 u32 u32 u32 u32 u32 "u8 list" | PixelStorei u32 u32 | GetTextureBinding
  | GenFramebuffers | DeleteFramebuffers u32 | BindFramebuffer u32 | FramebufferTexture2D u32 | CheckFramebufferStatus
  | EGLImageTargetTexture2D nat | EGLImageTargetRenderbufferStorage nat
  | Viewport "u32 list" | Enable u32 | Clear u32 | ClientActiveTexture u32 | EnableClientState u32
  | TexCoordPointer | VertexPointer | DrawArrays
  | PushMatrix | PopMatrix | Rotatef u32 | MatrixMode u32 | LoadIdentity | Orthof

datatype gl_op =
    EglGetCurrentContext | EglGetReadSurface | EglGetDrawSurface | EglMakeCurrent nat nat nat
  | EglCreatePbufferSurface nat u32 u32 | EglCreateWindowSurface nat | EglDestroySurface nat | EglSwapBuffers nat
  | EglCreateContext nat nat nat | EglDestroyContext nat | EglCreateImage nat u32 | EglDestroyImage nat
  | CreateSubWindow nat "u32 list" | DestroySubWindow nat
  | Gl1 gl_cmd | Gl2 gl_cmd

record 'g gl_api =
  gl_call :: "nat \<Rightarrow> gl_op \<Rightarrow> 'g \<Rightarrow> nat \<times> 'g"
  gl_viewport :: "nat \<Rightarrow> 'g \<Rightarrow> u32 list"
  gl_pixels :: "nat \<Rightarrow> u32 \<Rightarrow> u32 \<Rightarrow> u32 \<Rightarrow> 'g \<Rightarrow> u8 list"
  gl_string :: "bool \<Rightarrow> u32 \<Rightarrow> 'g \<Rightarrow> u8 list option"
  egl_string :: "u32 \<Rightarrow> 'g \<Rightarrow> u8 list option"
  egl_configs :: "'g \<Rightarrow> nat list option"
  egl_choose :: "u32 list \<Rightarrow> 'g \<Rightarrow> nat list option"
  egl_attrib :: "nat \<Rightarrow> u32 \<Rightarrow> 'g \<Rightarrow> u32 option"
  gl_image_size :: "u32 \<Rightarrow> u32 \<Rightarrow> u32 \<Rightarrow> u32 \<Rightarrow> nat"
  on_post :: "u32 \<Rightarrow> u32 \<Rightarrow> u8 list \<Rightarrow> 'g \<Rightarrow> 'g"

subsection \<open>Objects\<close>

text \<open>Each object carries the count of the \<open>RefCount\<close> its smart pointers share.\<close>

record ColorBuffer =
  cb_count :: nat
  cb_tex :: u32
  cb_blitTex :: u32
  cb_eglImage :: nat
  cb_width :: u32
  cb_height :: u32
  cb_fbo :: u32
  cb_internalFormat :: u32

record RenderContext =
  rc_count :: nat
  rc_ctx :: nat
  rc_config :: u32
  rc_isGL2 :: bool

record WindowSurface =
  ws_count :: nat
  ws_eglSurface :: nat
  ws_attachedColorBuffer :: addr
  ws_readContext :: addr
  ws_drawContext :: addr
  ws_width :: u32
  ws_height :: u32
  ws_pbufWidth :: u32
  ws_pbufHeight :: u32
  ws_fbo :: u32
  ws_blitTex :: u32
  ws_blitEGLImage :: nat
  ws_fbconf :: nat

record FBConfig =
  fc_eglConfig :: nat
  fc_attribValues :: "u32 list"

text \<open>What a render thread holds; \<open>ti_glData\<close> and \<open>ti_gl2Data\<close> name the context whose decoder data its decoders point to.\<close>

record RenderThreadInfo =
  ti_currContext :: addr
  ti_currDrawSurf :: addr
  ti_currReadSurf :: addr
  ti_glData :: addr
  ti_gl2Data :: addr

record FrameBuffer =
  fb_width :: u32
  fb_height :: u32
  fb_eglMajor :: u32
  fb_eglMinor :: u32
  fb_has_eglimage_texture_2d :: bool
  m_contexts :: "u32 \<Rightarrow> addr option"
  m_windows :: "u32 \<Rightarrow> addr option"
  m_colorbuffers :: "u32 \<Rightarrow> (addr \<times> u32) option"
  fb_eglSurface :: nat
  fb_eglContext :: nat
  fb_pbufSurface :: nat
  fb_pbufContext :: nat
  fb_prevContext :: nat
  fb_prevReadSurf :: nat
  fb_prevDrawSurf :: nat
  fb_subWin :: nat
  fb_lastPosted :: u32
  fb_zRot :: u32
  fb_eglContextInitialized :: bool
  fb_onPost :: bool
  fb_image :: "u8 list option"

record 'g world =
  w_gl :: 'g
  w_next :: addr
  w_cbs :: "addr \<Rightarrow> ColorBuffer option"
  w_ctxs :: "addr \<Rightarrow> RenderContext option"
  w_wins :: "addr \<Rightarrow> WindowSurface option"
  w_threads :: "nat \<Rightarrow> RenderThreadInfo option"
  w_configs :: "FBConfig list"
  w_fb :: "FrameBuffer option"
  s_nextHandle :: u32

definition ask :: "'g gl_api \<Rightarrow> nat \<Rightarrow> gl_op \<Rightarrow> 'g world \<Rightarrow> nat \<times> 'g world" where
  "ask gl t call w = (case gl_call gl t call (w_gl w) of (r, g) \<Rightarrow> (r, w\<lparr>w_gl := g\<rparr>))"

definition tell :: "'g gl_api \<Rightarrow> nat \<Rightarrow> gl_op list \<Rightarrow> 'g world \<Rightarrow> 'g world" where
  "tell gl t calls w = fold (\<lambda>call w. snd (ask gl t call w)) calls w"

definition set_fb :: "(FrameBuffer \<Rightarrow> FrameBuffer) \<Rightarrow> 'g world \<Rightarrow> 'g world" where
  "set_fb f w = w\<lparr>w_fb := map_option f (w_fb w)\<rparr>"

definition set_cb :: "addr \<Rightarrow> (ColorBuffer \<Rightarrow> ColorBuffer) \<Rightarrow> 'g world \<Rightarrow> 'g world option" where
  "set_cb a f w = do { cb \<leftarrow> w_cbs w a; Some (w\<lparr>w_cbs := (w_cbs w)(a \<mapsto> f cb)\<rparr>) }"

definition set_ctx :: "addr \<Rightarrow> (RenderContext \<Rightarrow> RenderContext) \<Rightarrow> 'g world \<Rightarrow> 'g world option" where
  "set_ctx a f w = do { c \<leftarrow> w_ctxs w a; Some (w\<lparr>w_ctxs := (w_ctxs w)(a \<mapsto> f c)\<rparr>) }"

definition set_win :: "addr \<Rightarrow> (WindowSurface \<Rightarrow> WindowSurface) \<Rightarrow> 'g world \<Rightarrow> 'g world option" where
  "set_win a f w = do { v \<leftarrow> w_wins w a; Some (w\<lparr>w_wins := (w_wins w)(a \<mapsto> f v)\<rparr>) }"

definition set_thread :: "nat \<Rightarrow> (RenderThreadInfo \<Rightarrow> RenderThreadInfo) \<Rightarrow> 'g world \<Rightarrow> 'g world option" where
  "set_thread t f w = do { ti \<leftarrow> w_threads w t; Some (w\<lparr>w_threads := (w_threads w)(t \<mapsto> f ti)\<rparr>) }"

subsection \<open>Switching to the frame buffer's context\<close>

definition bind_locked :: "'g gl_api \<Rightarrow> nat \<Rightarrow> 'g world \<Rightarrow> (bool \<times> 'g world) option" where
  "bind_locked gl t w =
     do { fb \<leftarrow> w_fb w;
          let (prevContext, w1) = ask gl t EglGetCurrentContext w;
              (prevReadSurf, w2) = ask gl t EglGetReadSurface w1;
              (prevDrawSurf, w3) = ask gl t EglGetDrawSurface w2;
              (ok, w4) = ask gl t (EglMakeCurrent (fb_pbufSurface fb) (fb_pbufSurface fb) (fb_pbufContext fb)) w3
          in if ok = 0 then Some (False, w4)
             else Some (True, set_fb (\<lambda>fb. fb\<lparr>fb_prevContext := prevContext, fb_prevReadSurf := prevReadSurf,
                                            fb_prevDrawSurf := prevDrawSurf\<rparr>) w4) }"

definition unbind_locked :: "'g gl_api \<Rightarrow> nat \<Rightarrow> 'g world \<Rightarrow> (bool \<times> 'g world) option" where
  "unbind_locked gl t w =
     do { fb \<leftarrow> w_fb w;
          let (ok, w1) = ask gl t (EglMakeCurrent (fb_prevDrawSurf fb) (fb_prevReadSurf fb) (fb_prevContext fb)) w
          in if ok = 0 then Some (False, w1)
             else Some (True, set_fb (\<lambda>fb. fb\<lparr>fb_prevContext := 0, fb_prevReadSurf := 0, fb_prevDrawSurf := 0\<rparr>) w1) }"

subsection \<open>Colour buffers\<close>

definition tex_format :: "u32 \<Rightarrow> u32 option" where
  "tex_format p_internalFormat =
     (if p_internalFormat \<in> {0x1907, 0x8D62} then Some 0x1907
      else if p_internalFormat \<in> {0x1908, 0x8057, 0x8056} then Some 0x1908
      else None)"

definition tex_setup :: "u32 \<Rightarrow> u32 \<Rightarrow> u32 \<Rightarrow> u32 \<Rightarrow> gl_op list" where
  "tex_setup tex format width height =
     [Gl1 (BindTexture tex), Gl1 (TexImage2D format width height),
      Gl1 (TexParameteri 0x2800 0x2601), Gl1 (TexParameteri 0x2801 0x2601),
      Gl1 (TexParameteri 0x2802 0x812F), Gl1 (TexParameteri 0x2803 0x812F), Gl1 (TexEnv 0x1E01)]"

text \<open>The result is the address of the new object, or \<open>NULL\<close>.\<close>

definition ColorBuffer_create :: "'g gl_api \<Rightarrow> nat \<Rightarrow> u32 \<Rightarrow> u32 \<Rightarrow> u32 \<Rightarrow> 'g world \<Rightarrow> (addr \<times> 'g world) option" where
  "ColorBuffer_create gl t p_width p_height p_internalFormat w =
     (case tex_format p_internalFormat of
        None \<Rightarrow> Some (NULL, w)
      | Some format \<Rightarrow>
          do { (ok, w1) \<leftarrow> bind_locked gl t w;
               if \<not> ok then Some (NULL, w1)
               else do {
                 fb \<leftarrow> w_fb w1;
                 let (tex, w2) = ask gl t (Gl1 GenTextures) w1;
                     w3 = tell gl t (tex_setup (of_nat tex) format p_width p_height) w2;
                     (blitTex, w4) = ask gl t (Gl1 GenTextures) w3;
                     w5 = tell gl t (tex_setup (of_nat blitTex) format p_width p_height) w4;
                     (image, w6) =
                       (if fb_has_eglimage_texture_2d fb
                        then (let (ctx, v) = ask gl t EglGetCurrentContext w5 in ask gl t (EglCreateImage ctx (of_nat tex)) v)
                        else (0, w5));
                     a = w_next w6;
                     cb = \<lparr>cb_count = 0, cb_tex = of_nat tex, cb_blitTex = of_nat blitTex, cb_eglImage = image,
                           cb_width = p_width, cb_height = p_height, cb_fbo = 0, cb_internalFormat = format\<rparr>
                 in do { (r, w7) \<leftarrow> unbind_locked gl t (w6\<lparr>w_next := a + 1, w_cbs := (w_cbs w6)(a \<mapsto> cb)\<rparr>);
                         Some (a, w7) } } })"

text \<open>The destructor: the object's fields are read, the texture \<open>m_tex\<close> is not deleted.\<close>

definition ColorBuffer_delete :: "'g gl_api \<Rightarrow> nat \<Rightarrow> addr \<Rightarrow> 'g world \<Rightarrow> 'g world option" where
  "ColorBuffer_delete gl t a w =
     do { cb \<leftarrow> w_cbs w a;
          (r, w1) \<leftarrow> bind_locked gl t w;
          let w2 = tell gl t ((if cb_eglImage cb \<noteq> 0 then [EglDestroyImage (cb_eglImage cb)] else []) @
                              (if cb_fbo cb \<noteq> 0 then [Gl1 (DeleteFramebuffers (cb_fbo cb))] else []) @
                              [Gl1 (DeleteTextures (cb_blitTex cb))]) w1
          in do { (r2, w3) \<leftarrow> unbind_locked gl t w2;
                  Some (w3\<lparr>w_cbs := (w_cbs w3)(a := None)\<rparr>) } }"

text \<open>\<open>pixels\<close> are the bytes the library reads, \<open>None\<close> if they do not lie in one block.\<close>

definition subUpdate :: "'g gl_api \<Rightarrow> nat \<Rightarrow> addr \<Rightarrow> u32 \<Rightarrow> u32 \<Rightarrow> u32 \<Rightarrow> u32 \<Rightarrow> u32 \<Rightarrow> u32 \<Rightarrow> u8 list option \<Rightarrow> 'g world \<Rightarrow> 'g world option" where
  "subUpdate gl t a x y width height p_format p_type pixels w =
     do { (ok, w1) \<leftarrow> bind_locked gl t w;
          if \<not> ok then Some w1
          else do { cb \<leftarrow> w_cbs w1 a;
                    px \<leftarrow> pixels;
                    (r, w2) \<leftarrow> unbind_locked gl t
                      (tell gl t [Gl1 (BindTexture (cb_tex cb)), Gl1 (PixelStorei 0x0CF5 1),
                                  Gl1 (TexSubImage2D x y width height p_format p_type px)] w1);
                    Some w2 } }"

definition cb_bind_fbo :: "'g gl_api \<Rightarrow> nat \<Rightarrow> addr \<Rightarrow> 'g world \<Rightarrow> (bool \<times> 'g world) option" where
  "cb_bind_fbo gl t a w =
     do { cb \<leftarrow> w_cbs w a;
          if cb_fbo cb \<noteq> 0 then Some (True, tell gl t [Gl1 (BindFramebuffer (cb_fbo cb))] w)
          else let (fbo, w1) = ask gl t (Gl1 GenFramebuffers) w;
                   w2 = tell gl t [Gl1 (BindFramebuffer (of_nat fbo)), Gl1 (FramebufferTexture2D (cb_tex cb))] w1;
                   (status, w3) = ask gl t (Gl1 CheckFramebufferStatus) w2
               in if status \<noteq> 0x8CD5
                  then do { w4 \<leftarrow> set_cb a (\<lambda>cb. cb\<lparr>cb_fbo := 0\<rparr>)
                                    (tell gl t [Gl1 (BindFramebuffer 0), Gl1 (DeleteFramebuffers (of_nat fbo))] w3);
                            Some (False, w4) }
                  else do { w4 \<leftarrow> set_cb a (\<lambda>cb. cb\<lparr>cb_fbo := of_nat fbo\<rparr>) w3; Some (True, w4) } }"

definition drawTexQuad :: "gl_op list" where
  "drawTexQuad =
     [Gl1 (ClientActiveTexture 0x84C0), Gl1 (EnableClientState 0x8078), Gl1 TexCoordPointer,
      Gl1 (EnableClientState 0x8074), Gl1 VertexPointer, Gl1 DrawArrays]"

text \<open>The current context of a thread; a thread without \<open>RenderThreadInfo\<close> has none to ask.\<close>

definition curr_context :: "nat \<Rightarrow> 'g world \<Rightarrow> RenderContext option option" where
  "curr_context t w =
     do { ti \<leftarrow> w_threads w t;
          if ti_currContext ti = NULL then Some None
          else do { c \<leftarrow> w_ctxs w (ti_currContext ti); Some (Some c) } }"

definition blitFromCurrentReadBuffer :: "'g gl_api \<Rightarrow> nat \<Rightarrow> addr \<Rightarrow> nat \<Rightarrow> 'g world \<Rightarrow> (bool \<times> 'g world) option" where
  "blitFromCurrentReadBuffer gl t a blitEGLImage w =
     do { ctx \<leftarrow> curr_context t w;
          if ctx = None then Some (False, w)
          else do {
            (ok, w1) \<leftarrow> bind_locked gl t w;
            if \<not> ok then Some (True, w1)
            else do {
              (bound, w2) \<leftarrow> cb_bind_fbo gl t a w1;
              cb \<leftarrow> w_cbs w2 a;
              let w3 = (if bound
                        then tell gl t ([Gl1 (Viewport [0, 0, cb_width cb, cb_height cb]), Gl1 (BindTexture (cb_blitTex cb)),
                                         Gl1 (EGLImageTargetTexture2D blitEGLImage), Gl1 (Enable 0x0DE1), Gl1 (TexEnv 0x1E01)] @
                                        drawTexQuad @ [Gl1 (BindFramebuffer 0), Gl1 (Viewport (gl_viewport gl t (w_gl w2)))]) w2
                        else w2)
              in do { (r, w4) \<leftarrow> unbind_locked gl t w3; Some (True, w4) } } } }"

definition bindToTexture :: "'g gl_api \<Rightarrow> nat \<Rightarrow> addr \<Rightarrow> 'g world \<Rightarrow> (bool \<times> 'g world) option" where
  "bindToTexture gl t a w =
     do { cb \<leftarrow> w_cbs w a;
          if cb_eglImage cb = 0 then Some (False, w)
          else do { ctx \<leftarrow> curr_context t w;
                    case ctx of
                      None \<Rightarrow> Some (False, w)
                    | Some c \<Rightarrow> Some (True, tell gl t [(if rc_isGL2 c then Gl2 else Gl1) (EGLImageTargetTexture2D (cb_eglImage cb))] w) } }"

definition bindToRenderbuffer :: "'g gl_api \<Rightarrow> nat \<Rightarrow> addr \<Rightarrow> 'g world \<Rightarrow> (bool \<times> 'g world) option" where
  "bindToRenderbuffer gl t a w =
     do { cb \<leftarrow> w_cbs w a;
          if cb_eglImage cb = 0 then Some (False, w)
          else do { ctx \<leftarrow> curr_context t w;
                    case ctx of
                      None \<Rightarrow> Some (False, w)
                    | Some c \<Rightarrow> Some (True, tell gl t [(if rc_isGL2 c then Gl2 else Gl1) (EGLImageTargetRenderbufferStorage (cb_eglImage cb))] w) } }"

definition cb_post :: "'g gl_api \<Rightarrow> nat \<Rightarrow> addr \<Rightarrow> 'g world \<Rightarrow> (bool \<times> 'g world) option" where
  "cb_post gl t a w =
     do { cb \<leftarrow> w_cbs w a;
          Some (True, tell gl t ([Gl1 (BindTexture (cb_tex cb)), Gl1 (Enable 0x0DE1), Gl1 (TexEnv 0x1E01)] @ drawTexQuad) w) }"

text \<open>The pixels of the whole colour buffer are written to \<open>img\<close>, whatever the size of \<open>img\<close> is.\<close>

definition cb_readback :: "'g gl_api \<Rightarrow> nat \<Rightarrow> addr \<Rightarrow> u8 list option \<Rightarrow> 'g world \<Rightarrow> (u8 list option \<times> 'g world) option" where
  "cb_readback gl t a img w =
     do { (ok, w1) \<leftarrow> bind_locked gl t w;
          if \<not> ok then Some (img, w1)
          else do {
            (bound, w2) \<leftarrow> cb_bind_fbo gl t a w1;
            cb \<leftarrow> w_cbs w2 a;
            (img1, w3) \<leftarrow>
              (if bound
               then do { mem \<leftarrow> img;
                         mem1 \<leftarrow> block_write 0 (gl_pixels gl t (cb_width cb) (cb_height cb) (cb_internalFormat cb) (w_gl w2)) mem;
                         Some (Some mem1, tell gl t [Gl1 (BindFramebuffer 0)] w2) }
               else Some (img, w2));
            (r, w4) \<leftarrow> unbind_locked gl t w3;
            Some (img1, w4) } }"

subsection \<open>Reference counting\<close>

text \<open>
  A new smart pointer to an object adds one to its count; releasing one subtracts one and
  deletes the object when none is left. \<open>NULL\<close> is not counted. Assigning \<open>q\<close> to \<open>p\<close> counts \<open>q\<close>,
  stores it and releases the old value of \<open>p\<close>; \<open>copyFrom\<close> subtracts before it adds and deletes
  at the end, which is the same since \<open>q\<close> itself keeps its object alive.
\<close>

definition cb_ref :: "addr \<Rightarrow> 'g world \<Rightarrow> 'g world option" where
  "cb_ref a w = (if a = NULL then Some w else set_cb a (\<lambda>cb. cb\<lparr>cb_count := cb_count cb + 1\<rparr>) w)"

definition cb_unref :: "'g gl_api \<Rightarrow> nat \<Rightarrow> addr \<Rightarrow> 'g world \<Rightarrow> 'g world option" where
  "cb_unref gl t a w =
     (if a = NULL then Some w
      else do { cb \<leftarrow> w_cbs w a;
                w1 \<leftarrow> set_cb a (\<lambda>cb. cb\<lparr>cb_count := cb_count cb - 1\<rparr>) w;
                if cb_count cb = 1 then ColorBuffer_delete gl t a w1 else Some w1 })"

definition ctx_ref :: "addr \<Rightarrow> 'g world \<Rightarrow> 'g world option" where
  "ctx_ref a w = (if a = NULL then Some w else set_ctx a (\<lambda>c. c\<lparr>rc_count := rc_count c + 1\<rparr>) w)"

definition RenderContext_delete :: "'g gl_api \<Rightarrow> nat \<Rightarrow> addr \<Rightarrow> 'g world \<Rightarrow> 'g world option" where
  "RenderContext_delete gl t a w =
     do { c \<leftarrow> w_ctxs w a;
          w1 \<leftarrow> (if rc_ctx c \<noteq> 0
                  then do { fb \<leftarrow> w_fb w; Some (tell gl t [EglDestroyContext (rc_ctx c)] w) }
                  else Some w);
          Some (w1\<lparr>w_ctxs := (w_ctxs w1)(a := None)\<rparr>) }"

definition ctx_unref :: "'g gl_api \<Rightarrow> nat \<Rightarrow> addr \<Rightarrow> 'g world \<Rightarrow> 'g world option" where
  "ctx_unref gl t a w =
     (if a = NULL then Some w
      else do { c \<leftarrow> w_ctxs w a;
                w1 \<leftarrow> set_ctx a (\<lambda>c. c\<lparr>rc_count := rc_count c - 1\<rparr>) w;
                if rc_count c = 1 then RenderContext_delete gl t a w1 else Some w1 })"

text \<open>The body of the destructor, then the members in reverse order.\<close>

definition WindowSurface_delete :: "'g gl_api \<Rightarrow> nat \<Rightarrow> addr \<Rightarrow> 'g world \<Rightarrow> 'g world option" where
  "WindowSurface_delete gl t a w =
     do { v \<leftarrow> w_wins w a;
          fb \<leftarrow> w_fb w;
          let w1 = tell gl t [EglDestroyImage (ws_blitEGLImage v), EglDestroySurface (ws_eglSurface v)] w;
              w2 = w1\<lparr>w_wins := (w_wins w1)(a := None)\<rparr>
          in do { w3 \<leftarrow> ctx_unref gl t (ws_drawContext v) w2;
                  w4 \<leftarrow> ctx_unref gl t (ws_readContext v) w3;
                  cb_unref gl t (ws_attachedColorBuffer v) w4 } }"

definition win_ref :: "addr \<Rightarrow> 'g world \<Rightarrow> 'g world option" where
  "win_ref a w = (if a = NULL then Some w else set_win a (\<lambda>v. v\<lparr>ws_count := ws_count v + 1\<rparr>) w)"

definition win_unref :: "'g gl_api \<Rightarrow> nat \<Rightarrow> addr \<Rightarrow> 'g world \<Rightarrow> 'g world option" where
  "win_unref gl t a w =
     (if a = NULL then Some w
      else do { v \<leftarrow> w_wins w a;
                w1 \<leftarrow> set_win a (\<lambda>v. v\<lparr>ws_count := ws_count v - 1\<rparr>) w;
                if ws_count v = 1 then WindowSurface_delete gl t a w1 else Some w1 })"

subsection \<open>Contexts\<close>

definition FBConfig_get :: "u32 \<Rightarrow> 'g world \<Rightarrow> FBConfig option" where
  "FBConfig_get p_config w =
     (if 0 \<le> sint p_config \<and> sint p_config < int (length (w_configs w)) then Some (w_configs w ! unat p_config) else None)"

definition RenderContext_create :: "'g gl_api \<Rightarrow> nat \<Rightarrow> u32 \<Rightarrow> addr \<Rightarrow> bool \<Rightarrow> 'g world \<Rightarrow> (addr \<times> 'g world) option" where
  "RenderContext_create gl t p_config p_shareContext p_isGL2 w =
     (case FBConfig_get p_config w of
        None \<Rightarrow> Some (NULL, w)
      | Some fbconf \<Rightarrow>
          do { share \<leftarrow> (if p_shareContext = NULL then Some 0 else map_option rc_ctx (w_ctxs w p_shareContext));
               fb \<leftarrow> w_fb w;
               let (ctx, w1) = ask gl t (EglCreateContext (fc_eglConfig fbconf) share (if p_isGL2 then 2 else 1)) w;
                   a = w_next w1
               in if ctx = 0 then Some (NULL, w1)
                  else Some (a, w1\<lparr>w_next := a + 1, w_ctxs := (w_ctxs w1)(a \<mapsto>
                         \<lparr>rc_count = 0, rc_ctx = ctx, rc_config = p_config, rc_isGL2 = p_isGL2\<rparr>)\<rparr>) })"

subsection \<open>Window surfaces\<close>

definition unbind_fbo :: "'g gl_api \<Rightarrow> nat \<Rightarrow> 'g world \<Rightarrow> 'g world option" where
  "unbind_fbo gl t w =
     do { ctx \<leftarrow> curr_context t w;
          Some (case ctx of None \<Rightarrow> w | Some c \<Rightarrow> tell gl t [(if rc_isGL2 c then Gl2 else Gl1) (BindFramebuffer 0)] w) }"

text \<open>
  \<open>create_fbo_api1\<close> and \<open>create_fbo_api2\<close> are the same text over the two libraries, \<open>G\<close> here.
\<close>

definition create_fbo :: "(gl_cmd \<Rightarrow> gl_op) \<Rightarrow> 'g gl_api \<Rightarrow> nat \<Rightarrow> addr \<Rightarrow> 'g world \<Rightarrow> 'g world option" where
  "create_fbo G gl t a w =
     do { v \<leftarrow> w_wins w a;
          if ws_fbo v \<noteq> 0
          then set_win a (\<lambda>v. v\<lparr>ws_fbo := 0, ws_blitEGLImage := 0, ws_blitTex := 0\<rparr>)
                 (tell gl t [G (BindFramebuffer 0), G (DeleteFramebuffers (ws_fbo v)), EglDestroyImage (ws_blitEGLImage v)] w)
          else if ws_attachedColorBuffer v = NULL then Some w
          else do {
            cb \<leftarrow> w_cbs w (ws_attachedColorBuffer v);
            let (bound, w1) = ask gl t (G GetTextureBinding) w;
                (blitTex, w2) = ask gl t (G GenTextures) w1;
                w3 = tell gl t [G (BindTexture (of_nat blitTex)), G (TexImage2D (cb_internalFormat cb) (cb_width cb) (cb_height cb)),
                       G (TexParameteri 0x2800 0x2601), G (TexParameteri 0x2801 0x2601),
                       G (TexParameteri 0x2802 0x812F), G (TexParameteri 0x2803 0x812F), G (BindTexture (of_nat bound))] w2;
                (ctx, w4) = ask gl t EglGetCurrentContext w3;
                (image, w5) = ask gl t (EglCreateImage ctx (of_nat blitTex)) w4
            in if image = 0
               then set_win a (\<lambda>v. v\<lparr>ws_blitEGLImage := 0, ws_blitTex := 0\<rparr>) (tell gl t [G (DeleteTextures (of_nat blitTex))] w5)
               else let (fbo, w6) = ask gl t (G GenFramebuffers) w5 in
                    if fbo = 0
                    then set_win a (\<lambda>v. v\<lparr>ws_blitEGLImage := 0, ws_blitTex := 0\<rparr>) (tell gl t [EglDestroyImage image] w6)
                    else let (status, w7) = ask gl t (G CheckFramebufferStatus)
                               (tell gl t [G (BindFramebuffer (of_nat fbo)), G (FramebufferTexture2D (of_nat blitTex))] w6)
                         in if status \<noteq> 0x8CD5
                            then set_win a (\<lambda>v. v\<lparr>ws_fbo := 0, ws_blitEGLImage := 0, ws_blitTex := 0\<rparr>)
                                   (tell gl t [G (BindFramebuffer 0), G (DeleteFramebuffers (of_nat fbo)), EglDestroyImage image] w7)
                            else set_win a (\<lambda>v. v\<lparr>ws_fbo := of_nat fbo, ws_blitEGLImage := image, ws_blitTex := of_nat blitTex\<rparr>) w7 } }"

definition create_fbo_api1 :: "'g gl_api \<Rightarrow> nat \<Rightarrow> addr \<Rightarrow> 'g world \<Rightarrow> 'g world option" where
  "create_fbo_api1 = create_fbo Gl1"

definition create_fbo_api2 :: "'g gl_api \<Rightarrow> nat \<Rightarrow> addr \<Rightarrow> 'g world \<Rightarrow> 'g world option" where
  "create_fbo_api2 = create_fbo Gl2"

definition bind_fbo :: "'g gl_api \<Rightarrow> nat \<Rightarrow> addr \<Rightarrow> 'g world \<Rightarrow> 'g world option" where
  "bind_fbo gl t a w =
     do { ctx \<leftarrow> curr_context t w;
          case ctx of
            None \<Rightarrow> Some w
          | Some c \<Rightarrow>
              do { v \<leftarrow> w_wins w a;
                   if ws_fbo v \<noteq> 0 then Some (tell gl t [(if rc_isGL2 c then Gl2 else Gl1) (BindFramebuffer (ws_fbo v))] w)
                   else if rc_isGL2 c then create_fbo_api2 gl t a w
                   else create_fbo_api1 gl t a w } }"

definition resizePbuffer :: "'g gl_api \<Rightarrow> nat \<Rightarrow> addr \<Rightarrow> u32 \<Rightarrow> u32 \<Rightarrow> 'g world \<Rightarrow> (bool \<times> 'g world) option" where
  "resizePbuffer gl t a p_width p_height w =
     do { v \<leftarrow> w_wins w a;
          if ws_eglSurface v \<noteq> 0 \<and> ws_pbufWidth v = p_width \<and> ws_pbufHeight v = p_height then Some (True, w)
          else do {
            fb \<leftarrow> w_fb w;
            let (prevContext, w1) = ask gl t EglGetCurrentContext w;
                (prevReadSurf, w2) = ask gl t EglGetReadSurface w1;
                (prevDrawSurf, w3) = ask gl t EglGetDrawSurface w2;
                prevPbuf = ws_eglSurface v;
                needRebindContext = (prevPbuf \<noteq> 0 \<and> (prevReadSurf = prevPbuf \<or> prevDrawSurf = prevPbuf));
                w4 = (if needRebindContext then tell gl t [EglMakeCurrent 0 0 0] w3 else w3);
                w5 = (if prevPbuf \<noteq> 0 then tell gl t [EglDestroySurface prevPbuf] w4 else w4);
                (surface, w6) = ask gl t (EglCreatePbufferSurface (ws_fbconf v) p_width p_height) w5
            in if surface = 0
               then do { w7 \<leftarrow> set_win a (\<lambda>v. v\<lparr>ws_eglSurface := 0\<rparr>) w6; Some (False, w7) }
               else do {
                 w7 \<leftarrow> set_win a (\<lambda>v. v\<lparr>ws_eglSurface := surface, ws_pbufWidth := p_width, ws_pbufHeight := p_height\<rparr>) w6;
                 Some (True, if needRebindContext
                             then tell gl t [EglMakeCurrent (if prevDrawSurf = prevPbuf then surface else prevDrawSurf)
                                               (if prevReadSurf = prevPbuf then surface else prevReadSurf) prevContext] w7
                             else w7) } } }"

definition WindowSurface_create :: "'g gl_api \<Rightarrow> nat \<Rightarrow> u32 \<Rightarrow> u32 \<Rightarrow> u32 \<Rightarrow> 'g world \<Rightarrow> (addr \<times> 'g world) option" where
  "WindowSurface_create gl t p_config p_width p_height w =
     (case FBConfig_get p_config w of
        None \<Rightarrow> Some (NULL, w)
      | Some fbconf \<Rightarrow>
          let a = w_next w;
              v = \<lparr>ws_count = 0, ws_eglSurface = 0, ws_attachedColorBuffer = NULL, ws_readContext = NULL, ws_drawContext = NULL,
                   ws_width = 0, ws_height = 0, ws_pbufWidth = 0, ws_pbufHeight = 0, ws_fbo = 0, ws_blitTex = 0, ws_blitEGLImage = 0,
                   ws_fbconf = fc_eglConfig fbconf\<rparr>
          in do { (ok, w1) \<leftarrow> resizePbuffer gl t a p_width p_height (w\<lparr>w_next := a + 1, w_wins := (w_wins w)(a \<mapsto> v)\<rparr>);
                  if \<not> ok then do { w2 \<leftarrow> WindowSurface_delete gl t a w1; Some (NULL, w2) }
                  else do { w2 \<leftarrow> set_win a (\<lambda>v. v\<lparr>ws_width := p_width, ws_height := p_height\<rparr>) w1; Some (a, w2) } })"

definition blitToColorBuffer :: "'g gl_api \<Rightarrow> nat \<Rightarrow> addr \<Rightarrow> 'g world \<Rightarrow> (bool \<times> 'g world) option" where
  "blitToColorBuffer gl t a w =
     do { v \<leftarrow> w_wins w a;
          if ws_width v = 0 \<or> ws_height v = 0 \<or> ws_blitEGLImage v = 0 then Some (False, w)
          else do { w1 \<leftarrow> unbind_fbo gl t w;
                    (r, w2) \<leftarrow> blitFromCurrentReadBuffer gl t (ws_attachedColorBuffer v) (ws_blitEGLImage v) w1;
                    w3 \<leftarrow> bind_fbo gl t a w2;
                    Some (True, w3) } }"

definition flushColorBuffer :: "'g gl_api \<Rightarrow> nat \<Rightarrow> addr \<Rightarrow> 'g world \<Rightarrow> (bool \<times> 'g world) option" where
  "flushColorBuffer gl t a w =
     do { v \<leftarrow> w_wins w a;
          if ws_attachedColorBuffer v \<noteq> NULL then blitToColorBuffer gl t a w else Some (True, w) }"

definition setColorBuffer :: "'g gl_api \<Rightarrow> nat \<Rightarrow> addr \<Rightarrow> addr \<Rightarrow> 'g world \<Rightarrow> 'g world option" where
  "setColorBuffer gl t a p_colorBuffer w =
     do { v \<leftarrow> w_wins w a;
          w1 \<leftarrow> cb_ref p_colorBuffer w;
          w2 \<leftarrow> set_win a (\<lambda>v. v\<lparr>ws_attachedColorBuffer := p_colorBuffer\<rparr>) w1;
          w3 \<leftarrow> cb_unref gl t (ws_attachedColorBuffer v) w2;
          cb \<leftarrow> w_cbs w3 p_colorBuffer;
          v3 \<leftarrow> w_wins w3 a;
          if cb_width cb \<noteq> ws_width v3 \<or> cb_height cb \<noteq> ws_height v3
          then do {
            w4 \<leftarrow> (if ws_pbufWidth v3 \<noteq> 0 \<and> ws_pbufHeight v3 \<noteq> 0
                    then do { (r, w4) \<leftarrow> resizePbuffer gl t a (cb_width cb) (cb_height cb) w3; Some w4 }
                    else Some w3);
            set_win a (\<lambda>v. v\<lparr>ws_width := cb_width cb, ws_height := cb_height cb\<rparr>) w4 }
          else Some w3 }"

definition set_readContext :: "'g gl_api \<Rightarrow> nat \<Rightarrow> addr \<Rightarrow> addr \<Rightarrow> 'g world \<Rightarrow> 'g world option" where
  "set_readContext gl t a p_ctx w =
     do { v \<leftarrow> w_wins w a;
          w1 \<leftarrow> ctx_ref p_ctx w;
          w2 \<leftarrow> set_win a (\<lambda>v. v\<lparr>ws_readContext := p_ctx\<rparr>) w1;
          ctx_unref gl t (ws_readContext v) w2 }"

definition set_drawContext :: "'g gl_api \<Rightarrow> nat \<Rightarrow> addr \<Rightarrow> addr \<Rightarrow> 'g world \<Rightarrow> 'g world option" where
  "set_drawContext gl t a p_ctx w =
     do { v \<leftarrow> w_wins w a;
          w1 \<leftarrow> ctx_ref p_ctx w;
          w2 \<leftarrow> set_win a (\<lambda>v. v\<lparr>ws_drawContext := p_ctx\<rparr>) w1;
          ctx_unref gl t (ws_drawContext v) w2 }"

datatype SurfaceBindType = SURFACE_BIND_READ | SURFACE_BIND_DRAW | SURFACE_BIND_READDRAW

definition win_bind :: "'g gl_api \<Rightarrow> nat \<Rightarrow> addr \<Rightarrow> addr \<Rightarrow> SurfaceBindType \<Rightarrow> 'g world \<Rightarrow> 'g world option" where
  "win_bind gl t a p_ctx p_bindType w =
     do { w1 \<leftarrow> (case p_bindType of
                   SURFACE_BIND_READ \<Rightarrow> set_readContext gl t a p_ctx w
                 | SURFACE_BIND_DRAW \<Rightarrow> set_drawContext gl t a p_ctx w
                 | SURFACE_BIND_READDRAW \<Rightarrow> do { v \<leftarrow> set_readContext gl t a p_ctx w; set_drawContext gl t a p_ctx v });
          bind_fbo gl t a w1 }"

end
