(* ===== verification/RenderDec.thy ===== *)
theory RenderDec
  imports RenderStream
begin

text \<open>
  The command decoders of the renderer. The three generated decoders (\<open>GLDecoder.cpp\<close>,
  \<open>GL2Decoder.cpp\<close>, \<open>renderControl_dec.cpp\<close>) share one loop and differ in their switch; the loop
  is \<open>decode_loop\<close>, with the switch as an argument, and the switch of \<open>renderControl_dec.cpp\<close> is
  \<open>rc_switch\<close>, with one definition for each of its cases. A read of a byte that was not received
  and a write outside the reply block are undefined.
\<close>

subsection \<open>Fields of a packet\<close>

definition get32 :: "u8 list \<Rightarrow> nat \<Rightarrow> u32 option" where
  "get32 buf off = (if off + 4 \<le> length buf then Some (get_le32 buf off) else None)"

definition put32 :: "nat \<Rightarrow> u32 \<Rightarrow> u8 list \<Rightarrow> u8 list option" where
  "put32 off v mem = block_write off (le32 v) mem"

definition memset4 :: "nat \<Rightarrow> u8 list \<Rightarrow> u8 list option" where
  "memset4 off mem = block_write off (replicate 4 0) mem"

text \<open>The \<open>k\<close>-th 32-bit argument of the packet at \<open>ptr\<close>.\<close>

definition arg :: "nat \<Rightarrow> nat \<Rightarrow> u8 list \<Rightarrow> u32 option" where
  "arg k ptr buf = get32 buf (ptr + 8 + 4 * k)"

subsection \<open>The loop\<close>

type_synonym ('k, 's) dec_state = "u8 list \<times> 'k SocketStream \<times> 's"
type_synonym ('k, 's) dec_case = "nat \<Rightarrow> ('k, 's) dec_state \<Rightarrow> ('k, 's) dec_state option"
type_synonym ('k, 's) dec_switch = "u32 \<Rightarrow> ('k, 's) dec_case option"

text \<open>
  The packet length is compared as unsigned and added as signed, as in the C++ code; a switch
  that has no case for an opcode ends the loop.
\<close>

partial_function (option) decode_loop ::
  "('k, 's) dec_switch \<Rightarrow> nat \<Rightarrow> ('k, 's) dec_state \<Rightarrow> (nat \<times> ('k, 's) dec_state) option" where
  "decode_loop sw pos ds =
     (if size_sub (length (fst ds)) pos < 8 then Some (pos, ds)
      else do {
        opcode \<leftarrow> get32 (fst ds) pos;
        packetLen \<leftarrow> get32 (fst ds) (pos + 4);
        if size_sub (length (fst ds)) pos < unat packetLen then Some (pos, ds)
        else case sw opcode of
               None \<Rightarrow> Some (pos, ds)
             | Some body \<Rightarrow> do {
                 ds1 \<leftarrow> body pos ds;
                 n \<leftarrow> get32 (fst ds1) (pos + 4);
                 if int pos + sint n < 0 then None else decode_loop sw (nat (int pos + sint n)) ds1 } })"

definition decode :: "('k, 's) dec_switch \<Rightarrow> ('k, 's) dec_state \<Rightarrow> (nat \<times> ('k, 's) dec_state) option" where
  "decode sw ds = (if length (fst ds) < 8 then Some (0, ds) else decode_loop sw 0 ds)"

subsection \<open>Replies\<close>

text \<open>
  A case with a result reserves room in the stream, calls the function, writes the result
  behind the output arguments and flushes; the result of the flush is ignored.
\<close>

definition with_reply ::
  "'k render_env \<Rightarrow> nat \<Rightarrow> (nat \<Rightarrow> u8 list \<Rightarrow> 's \<Rightarrow> (u8 list \<times> 's) option) \<Rightarrow> 'k SocketStream \<times> 's \<Rightarrow> ('k SocketStream \<times> 's) option" where
  "with_reply e totalTmpSize body = (\<lambda>(st, s).
     do { (p, st1) \<leftarrow> alloc e totalTmpSize st;
          tmpBuf \<leftarrow> p;
          mem \<leftarrow> m_buf st1;
          (mem1, s1) \<leftarrow> body tmpBuf mem s;
          (r, st2) \<leftarrow> flush e (st1\<lparr>m_buf := Some mem1\<rparr>);
          Some (st2, s1) })"

definition value_reply :: "'k render_env \<Rightarrow> ('s \<Rightarrow> (u32 \<times> 's) option) \<Rightarrow> 'k SocketStream \<times> 's \<Rightarrow> ('k SocketStream \<times> 's) option" where
  "value_reply e f = with_reply e 4 (\<lambda>tmpBuf mem s.
     do { (r, s1) \<leftarrow> f s; mem1 \<leftarrow> put32 tmpBuf r mem; Some (mem1, s1) })"

definition out_reply ::
  "'k render_env \<Rightarrow> nat \<Rightarrow> (nat \<Rightarrow> u8 list \<Rightarrow> 's \<Rightarrow> (u32 \<times> u8 list \<times> 's) option) \<Rightarrow> 'k SocketStream \<times> 's \<Rightarrow> ('k SocketStream \<times> 's) option" where
  "out_reply e n f = with_reply e (n + 4) (\<lambda>tmpBuf mem s.
     do { mem1 \<leftarrow> memset4 tmpBuf mem;
          (r, mem2, s1) \<leftarrow> f tmpBuf mem1 s;
          mem3 \<leftarrow> put32 (tmpBuf + n) r mem2;
          Some (mem3, s1) })"

definition keep_buf :: "u8 list \<Rightarrow> ('k SocketStream \<times> 's) option \<Rightarrow> ('k, 's) dec_state option" where
  "keep_buf buf r = map_option (\<lambda>(st, s). (buf, st, s)) r"

subsection \<open>The functions behind the cases\<close>

text \<open>
  \<open>renderControl_server_context_t\<close>: the entry points the decoder calls. A pointer argument is an
  offset into the reply block or the input buffer that is passed with it.
\<close>

record 's rc_ops =
  rcGetRendererVersion :: "'s \<Rightarrow> (u32 \<times> 's) option"
  rcGetEGLVersion :: "nat \<Rightarrow> nat \<Rightarrow> u8 list \<Rightarrow> 's \<Rightarrow> (u32 \<times> u8 list \<times> 's) option"
  rcQueryEGLString :: "u32 \<Rightarrow> nat \<Rightarrow> u32 \<Rightarrow> u8 list \<Rightarrow> 's \<Rightarrow> (u32 \<times> u8 list \<times> 's) option"
  rcGetGLString :: "u32 \<Rightarrow> nat \<Rightarrow> u32 \<Rightarrow> u8 list \<Rightarrow> 's \<Rightarrow> (u32 \<times> u8 list \<times> 's) option"
  rcGetNumConfigs :: "nat \<Rightarrow> u8 list \<Rightarrow> 's \<Rightarrow> (u32 \<times> u8 list \<times> 's) option"
  rcGetConfigs :: "u32 \<Rightarrow> nat \<Rightarrow> u8 list \<Rightarrow> 's \<Rightarrow> (u32 \<times> u8 list \<times> 's) option"
  rcChooseConfig :: "nat \<Rightarrow> u32 \<Rightarrow> nat option \<Rightarrow> u32 \<Rightarrow> u8 list \<Rightarrow> u8 list \<Rightarrow> 's \<Rightarrow> (u32 \<times> u8 list \<times> u8 list \<times> 's) option"
  rcGetFBParam :: "u32 \<Rightarrow> 's \<Rightarrow> (u32 \<times> 's) option"
  rcCreateContext :: "u32 \<Rightarrow> u32 \<Rightarrow> u32 \<Rightarrow> 's \<Rightarrow> (u32 \<times> 's) option"
  rcDestroyContext :: "u32 \<Rightarrow> 's \<Rightarrow> 's option"
  rcCreateWindowSurface :: "u32 \<Rightarrow> u32 \<Rightarrow> u32 \<Rightarrow> 's \<Rightarrow> (u32 \<times> 's) option"
  rcDestroyWindowSurface :: "u32 \<Rightarrow> 's \<Rightarrow> 's option"
  rcCreateColorBuffer :: "u32 \<Rightarrow> u32 \<Rightarrow> u32 \<Rightarrow> 's \<Rightarrow> (u32 \<times> 's) option"
  rcOpenColorBuffer :: "u32 \<Rightarrow> 's \<Rightarrow> 's option"
  rcCloseColorBuffer :: "u32 \<Rightarrow> 's \<Rightarrow> 's option"
  rcSetWindowColorBuffer :: "u32 \<Rightarrow> u32 \<Rightarrow> 's \<Rightarrow> 's option"
  rcFlushWindowColorBuffer :: "u32 \<Rightarrow> 's \<Rightarrow> (u32 \<times> 's) option"
  rcMakeCurrent :: "u32 \<Rightarrow> u32 \<Rightarrow> u32 \<Rightarrow> 's \<Rightarrow> (u32 \<times> 's) option"
  rcFBPost :: "u32 \<Rightarrow> 's \<Rightarrow> 's option"
  rcFBSetSwapInterval :: "u32 \<Rightarrow> 's \<Rightarrow> 's option"
  rcBindTexture :: "u32 \<Rightarrow> 's \<Rightarrow> 's option"
  rcBindRenderbuffer :: "u32 \<Rightarrow> 's \<Rightarrow> 's option"
  rcColorBufferCacheFlush :: "u32 \<Rightarrow> u32 \<Rightarrow> u32 \<Rightarrow> 's \<Rightarrow> (u32 \<times> 's) option"
  rcReadColorBuffer :: "u32 \<Rightarrow> u32 list \<Rightarrow> nat \<Rightarrow> u8 list \<Rightarrow> 's \<Rightarrow> (u8 list \<times> 's) option"
  rcUpdateColorBuffer :: "u32 \<Rightarrow> u32 list \<Rightarrow> nat \<Rightarrow> u8 list \<Rightarrow> 's \<Rightarrow> (u32 \<times> 's) option"
  rcOpenColorBuffer2 :: "u32 \<Rightarrow> 's \<Rightarrow> (u32 \<times> 's) option"

subsection \<open>The cases\<close>

definition case_rcGetRendererVersion :: "'k render_env \<Rightarrow> 's rc_ops \<Rightarrow> ('k, 's) dec_case" where
  "case_rcGetRendererVersion e rc = (\<lambda>ptr (buf, st, s).
     keep_buf buf (value_reply e (rcGetRendererVersion rc) (st, s)))"

definition case_rcGetEGLVersion :: "'k render_env \<Rightarrow> 's rc_ops \<Rightarrow> ('k, 's) dec_case" where
  "case_rcGetEGLVersion e rc = (\<lambda>ptr (buf, st, s).
     do { tmpPtr0Size \<leftarrow> arg 0 ptr buf;
          tmpPtr1Size \<leftarrow> arg 1 ptr buf;
          let z0 = unat tmpPtr0Size; z1 = unat tmpPtr1Size in
          keep_buf buf (with_reply e (z0 + z1 + 4) (\<lambda>tmpBuf mem s.
            do { mem1 \<leftarrow> memset4 tmpBuf mem;
                 mem2 \<leftarrow> memset4 (tmpBuf + z0) mem1;
                 (r, mem3, s1) \<leftarrow> rcGetEGLVersion rc tmpBuf (tmpBuf + z0) mem2 s;
                 mem4 \<leftarrow> put32 (tmpBuf + z0 + z1) r mem3;
                 Some (mem4, s1) }) (st, s)) })"

definition case_rcQueryEGLString :: "'k render_env \<Rightarrow> 's rc_ops \<Rightarrow> ('k, 's) dec_case" where
  "case_rcQueryEGLString e rc = (\<lambda>ptr (buf, st, s).
     do { name \<leftarrow> arg 0 ptr buf;
          tmpPtr1Size \<leftarrow> arg 1 ptr buf;
          bufferSize \<leftarrow> arg 2 ptr buf;
          keep_buf buf (out_reply e (unat tmpPtr1Size) (\<lambda>p. rcQueryEGLString rc name p bufferSize) (st, s)) })"

definition case_rcGetGLString :: "'k render_env \<Rightarrow> 's rc_ops \<Rightarrow> ('k, 's) dec_case" where
  "case_rcGetGLString e rc = (\<lambda>ptr (buf, st, s).
     do { name \<leftarrow> arg 0 ptr buf;
          tmpPtr1Size \<leftarrow> arg 1 ptr buf;
          bufferSize \<leftarrow> arg 2 ptr buf;
          keep_buf buf (out_reply e (unat tmpPtr1Size) (\<lambda>p. rcGetGLString rc name p bufferSize) (st, s)) })"

definition case_rcGetNumConfigs :: "'k render_env \<Rightarrow> 's rc_ops \<Rightarrow> ('k, 's) dec_case" where
  "case_rcGetNumConfigs e rc = (\<lambda>ptr (buf, st, s).
     do { tmpPtr0Size \<leftarrow> arg 0 ptr buf;
          keep_buf buf (out_reply e (unat tmpPtr0Size) (rcGetNumConfigs rc) (st, s)) })"

definition case_rcGetConfigs :: "'k render_env \<Rightarrow> 's rc_ops \<Rightarrow> ('k, 's) dec_case" where
  "case_rcGetConfigs e rc = (\<lambda>ptr (buf, st, s).
     do { bufSize \<leftarrow> arg 0 ptr buf;
          tmpPtr1Size \<leftarrow> arg 1 ptr buf;
          keep_buf buf (out_reply e (unat tmpPtr1Size) (rcGetConfigs rc bufSize) (st, s)) })"

text \<open>The attribute list is edited in place, so the input buffer is part of the state here.\<close>

definition case_rcChooseConfig :: "'k render_env \<Rightarrow> 's rc_ops \<Rightarrow> ('k, 's) dec_case" where
  "case_rcChooseConfig e rc = (\<lambda>ptr (buf, st, s).
     do { attribs \<leftarrow> arg 0 ptr buf;
          let q = ptr + 8 + 4 + unat attribs in
          do { attribs_size \<leftarrow> get32 buf q;
               tmpPtr2Size \<leftarrow> get32 buf (q + 4);
               configs_size \<leftarrow> get32 buf (q + 4 + 4);
               (st1, buf1, s1) \<leftarrow> out_reply e (unat tmpPtr2Size) (\<lambda>p mem (buf, s).
                 do { (r, buf1, mem1, s1) \<leftarrow>
                        rcChooseConfig rc (ptr + 8 + 4) attribs_size (if tmpPtr2Size = 0 then None else Some p) configs_size buf mem s;
                      Some (r, mem1, buf1, s1) }) (st, buf, s);
               Some (buf1, st1, s1) } })"

definition case_rcGetFBParam :: "'k render_env \<Rightarrow> 's rc_ops \<Rightarrow> ('k, 's) dec_case" where
  "case_rcGetFBParam e rc = (\<lambda>ptr (buf, st, s).
     do { param \<leftarrow> arg 0 ptr buf; keep_buf buf (value_reply e (rcGetFBParam rc param) (st, s)) })"

definition case_rcCreateContext :: "'k render_env \<Rightarrow> 's rc_ops \<Rightarrow> ('k, 's) dec_case" where
  "case_rcCreateContext e rc = (\<lambda>ptr (buf, st, s).
     do { config \<leftarrow> arg 0 ptr buf; share \<leftarrow> arg 1 ptr buf; glVersion \<leftarrow> arg 2 ptr buf;
          keep_buf buf (value_reply e (rcCreateContext rc config share glVersion) (st, s)) })"

text \<open>A case that only calls its function.\<close>

definition call1 :: "(u32 \<Rightarrow> 's \<Rightarrow> 's option) \<Rightarrow> ('k, 's) dec_case" where
  "call1 f = (\<lambda>ptr (buf, st, s). do { a \<leftarrow> arg 0 ptr buf; s1 \<leftarrow> f a s; Some (buf, st, s1) })"

definition case_rcDestroyContext :: "'s rc_ops \<Rightarrow> ('k, 's) dec_case" where
  "case_rcDestroyContext rc = call1 (rcDestroyContext rc)"

definition case_rcCreateWindowSurface :: "'k render_env \<Rightarrow> 's rc_ops \<Rightarrow> ('k, 's) dec_case" where
  "case_rcCreateWindowSurface e rc = (\<lambda>ptr (buf, st, s).
     do { config \<leftarrow> arg 0 ptr buf; width \<leftarrow> arg 1 ptr buf; height \<leftarrow> arg 2 ptr buf;
          keep_buf buf (value_reply e (rcCreateWindowSurface rc config width height) (st, s)) })"

definition case_rcDestroyWindowSurface :: "'s rc_ops \<Rightarrow> ('k, 's) dec_case" where
  "case_rcDestroyWindowSurface rc = call1 (rcDestroyWindowSurface rc)"

definition case_rcCreateColorBuffer :: "'k render_env \<Rightarrow> 's rc_ops \<Rightarrow> ('k, 's) dec_case" where
  "case_rcCreateColorBuffer e rc = (\<lambda>ptr (buf, st, s).
     do { width \<leftarrow> arg 0 ptr buf; height \<leftarrow> arg 1 ptr buf; internalFormat \<leftarrow> arg 2 ptr buf;
          keep_buf buf (value_reply e (rcCreateColorBuffer rc width height internalFormat) (st, s)) })"

definition case_rcOpenColorBuffer :: "'s rc_ops \<Rightarrow> ('k, 's) dec_case" where
  "case_rcOpenColorBuffer rc = call1 (rcOpenColorBuffer rc)"

definition case_rcCloseColorBuffer :: "'s rc_ops \<Rightarrow> ('k, 's) dec_case" where
  "case_rcCloseColorBuffer rc = call1 (rcCloseColorBuffer rc)"

definition case_rcSetWindowColorBuffer :: "'s rc_ops \<Rightarrow> ('k, 's) dec_case" where
  "case_rcSetWindowColorBuffer rc = (\<lambda>ptr (buf, st, s).
     do { windowSurface \<leftarrow> arg 0 ptr buf; colorBuffer \<leftarrow> arg 1 ptr buf;
          s1 \<leftarrow> rcSetWindowColorBuffer rc windowSurface colorBuffer s; Some (buf, st, s1) })"

definition case_rcFlushWindowColorBuffer :: "'k render_env \<Rightarrow> 's rc_ops \<Rightarrow> ('k, 's) dec_case" where
  "case_rcFlushWindowColorBuffer e rc = (\<lambda>ptr (buf, st, s).
     do { windowSurface \<leftarrow> arg 0 ptr buf; keep_buf buf (value_reply e (rcFlushWindowColorBuffer rc windowSurface) (st, s)) })"

definition case_rcMakeCurrent :: "'k render_env \<Rightarrow> 's rc_ops \<Rightarrow> ('k, 's) dec_case" where
  "case_rcMakeCurrent e rc = (\<lambda>ptr (buf, st, s).
     do { context \<leftarrow> arg 0 ptr buf; drawSurf \<leftarrow> arg 1 ptr buf; readSurf \<leftarrow> arg 2 ptr buf;
          keep_buf buf (value_reply e (rcMakeCurrent rc context drawSurf readSurf) (st, s)) })"

definition case_rcFBPost :: "'s rc_ops \<Rightarrow> ('k, 's) dec_case" where
  "case_rcFBPost rc = call1 (rcFBPost rc)"

definition case_rcFBSetSwapInterval :: "'s rc_ops \<Rightarrow> ('k, 's) dec_case" where
  "case_rcFBSetSwapInterval rc = call1 (rcFBSetSwapInterval rc)"

definition case_rcBindTexture :: "'s rc_ops \<Rightarrow> ('k, 's) dec_case" where
  "case_rcBindTexture rc = call1 (rcBindTexture rc)"

definition case_rcBindRenderbuffer :: "'s rc_ops \<Rightarrow> ('k, 's) dec_case" where
  "case_rcBindRenderbuffer rc = call1 (rcBindRenderbuffer rc)"

definition case_rcColorBufferCacheFlush :: "'k render_env \<Rightarrow> 's rc_ops \<Rightarrow> ('k, 's) dec_case" where
  "case_rcColorBufferCacheFlush e rc = (\<lambda>ptr (buf, st, s).
     do { colorBuffer \<leftarrow> arg 0 ptr buf; postCount \<leftarrow> arg 1 ptr buf; forRead \<leftarrow> arg 2 ptr buf;
          keep_buf buf (value_reply e (rcColorBufferCacheFlush rc colorBuffer postCount forRead) (st, s)) })"

text \<open>The arguments \<open>x\<close>, \<open>y\<close>, \<open>width\<close>, \<open>height\<close>, \<open>format\<close>, \<open>type\<close> of a pixel transfer.\<close>

definition pixel_args :: "nat \<Rightarrow> u8 list \<Rightarrow> u32 list option" where
  "pixel_args ptr buf =
     do { x \<leftarrow> arg 1 ptr buf; y \<leftarrow> arg 2 ptr buf; width \<leftarrow> arg 3 ptr buf; height \<leftarrow> arg 4 ptr buf;
          format \<leftarrow> arg 5 ptr buf; type \<leftarrow> arg 6 ptr buf;
          Some [x, y, width, height, format, type] }"

definition case_rcReadColorBuffer :: "'k render_env \<Rightarrow> 's rc_ops \<Rightarrow> ('k, 's) dec_case" where
  "case_rcReadColorBuffer e rc = (\<lambda>ptr (buf, st, s).
     do { colorBuffer \<leftarrow> arg 0 ptr buf; px \<leftarrow> pixel_args ptr buf; tmpPtr7Size \<leftarrow> arg 7 ptr buf;
          keep_buf buf (with_reply e (unat tmpPtr7Size) (\<lambda>tmpBuf mem s.
            do { mem1 \<leftarrow> memset4 tmpBuf mem; rcReadColorBuffer rc colorBuffer px tmpBuf mem1 s }) (st, s)) })"

definition case_rcUpdateColorBuffer :: "'k render_env \<Rightarrow> 's rc_ops \<Rightarrow> ('k, 's) dec_case" where
  "case_rcUpdateColorBuffer e rc = (\<lambda>ptr (buf, st, s).
     do { colorBuffer \<leftarrow> arg 0 ptr buf; px \<leftarrow> pixel_args ptr buf;
          keep_buf buf (value_reply e (rcUpdateColorBuffer rc colorBuffer px (ptr + 8 + 32) buf) (st, s)) })"

definition case_rcOpenColorBuffer2 :: "'k render_env \<Rightarrow> 's rc_ops \<Rightarrow> ('k, 's) dec_case" where
  "case_rcOpenColorBuffer2 e rc = (\<lambda>ptr (buf, st, s).
     do { colorbuffer \<leftarrow> arg 0 ptr buf; keep_buf buf (value_reply e (rcOpenColorBuffer2 rc colorbuffer) (st, s)) })"

definition rc_switch :: "'k render_env \<Rightarrow> 's rc_ops \<Rightarrow> ('k, 's) dec_switch" where
  "rc_switch e rc = map_of
     [(10000, case_rcGetRendererVersion e rc), (10001, case_rcGetEGLVersion e rc), (10002, case_rcQueryEGLString e rc),
      (10003, case_rcGetGLString e rc), (10004, case_rcGetNumConfigs e rc), (10005, case_rcGetConfigs e rc),
      (10006, case_rcChooseConfig e rc), (10007, case_rcGetFBParam e rc), (10008, case_rcCreateContext e rc),
      (10009, case_rcDestroyContext rc), (10010, case_rcCreateWindowSurface e rc), (10011, case_rcDestroyWindowSurface rc),
      (10012, case_rcCreateColorBuffer e rc), (10013, case_rcOpenColorBuffer rc), (10014, case_rcCloseColorBuffer rc),
      (10015, case_rcSetWindowColorBuffer rc), (10016, case_rcFlushWindowColorBuffer e rc), (10017, case_rcMakeCurrent e rc),
      (10018, case_rcFBPost rc), (10019, case_rcFBSetSwapInterval rc), (10020, case_rcBindTexture rc),
      (10021, case_rcBindRenderbuffer rc), (10022, case_rcColorBufferCacheFlush e rc), (10023, case_rcReadColorBuffer e rc),
      (10024, case_rcUpdateColorBuffer e rc), (10025, case_rcOpenColorBuffer2 e rc)]"

subsection \<open>A packet alone\<close>

text \<open>
  A case that runs on a packet alone runs in the same way on the packet inside a longer
  buffer. For the two functions that get a pointer into the input this is a law of the
  functions.
\<close>

definition local_case :: "('k, 's) dec_case \<Rightarrow> bool" where
  "local_case body \<longleftrightarrow> (\<forall>pre pk post st s pk' st' s'. body 0 (pk, st, s) = Some (pk', st', s') \<longrightarrow>
     body (length pre) (pre @ pk @ post, st, s) = Some (pre @ pk' @ post, st', s'))"

lemma get_le32_append: "off + 4 \<le> length pk \<Longrightarrow> get_le32 (pre @ pk @ post) (length pre + off) = get_le32 pk off"
  by (simp add: get_le32_def nth_append)

lemma get32_append: "get32 pk off = Some v \<Longrightarrow> get32 (pre @ pk @ post) (length pre + off) = Some v"
  by (auto simp: get32_def get_le32_append split: if_splits)

lemma arg_append: "arg k 0 pk = Some v \<Longrightarrow> arg k (length pre) (pre @ pk @ post) = Some v"
  unfolding arg_def by (drule get32_append [where pre = pre and post = post]) (simp add: add.assoc)

lemma pixel_args_append: "pixel_args 0 pk = Some v \<Longrightarrow> pixel_args (length pre) (pre @ pk @ post) = Some v"
  by (auto simp: pixel_args_def bind_eq_Some_conv dest!: arg_append [where pre = pre and post = post])

lemma append_eq:
  "arg k 0 pk \<noteq> None \<Longrightarrow> arg k (length pre) (pre @ pk @ post) = arg k 0 pk"
  "pixel_args 0 pk \<noteq> None \<Longrightarrow> pixel_args (length pre) (pre @ pk @ post) = pixel_args 0 pk"
  using arg_append pixel_args_append by fastforce+

lemma keep_buf_Some [simp]: "keep_buf buf r = Some (buf', st, s) \<longleftrightarrow> buf' = buf \<and> r = Some (st, s)"
  by (auto simp: keep_buf_def)

lemma with_reply_Some:
  "with_reply e n body (st, s) = Some (st', s') \<longleftrightarrow>
     (\<exists>p st1 mem mem1 r. alloc e n st = Some (Some p, st1) \<and> m_buf st1 = Some mem \<and> body p mem s = Some (mem1, s') \<and>
        flush e (st1\<lparr>m_buf := Some mem1\<rparr>) = Some (r, st'))"
  by (simp add: with_reply_def bind_eq_Some_conv) blast

text \<open>The same reply with the state of the function mapped by \<open>f\<close>.\<close>

lemma with_reply_map:
  assumes "with_reply e n body (st, x) = Some (st', x')"
    and "\<And>t mem mem' x1. body t mem x = Some (mem', x1) \<Longrightarrow> body' t mem y = Some (mem', f x1)"
  shows "with_reply e n body' (st, y) = Some (st', f x')"
  using assms(1) unfolding with_reply_Some using assms(2) by blast

lemma out_reply_map:
  assumes "out_reply e n g (st, x) = Some (st', x')"
    and "\<And>t mem r mem' x1. g t mem x = Some (r, mem', x1) \<Longrightarrow> g' t mem y = Some (r, mem', f x1)"
  shows "out_reply e n g' (st, y) = Some (st', f x')"
  unfolding out_reply_def
proof (rule with_reply_map [OF assms(1) [unfolded out_reply_def]])
  fix t mem mem' x1
  assume "memset4 t mem \<bind> (\<lambda>mem1. g t mem1 x \<bind> (\<lambda>(r, mem2, s1). put32 (t + n) r mem2 \<bind> (\<lambda>mem3. Some (mem3, s1)))) = Some (mem', x1)"
  then obtain m1 r m2 where "memset4 t mem = Some m1" "g t m1 x = Some (r, m2, x1)" "put32 (t + n) r m2 = Some mem'"
    by (auto simp: bind_eq_Some_conv)
  with assms(2) [OF this(2)]
  show "memset4 t mem \<bind> (\<lambda>mem1. g' t mem1 y \<bind> (\<lambda>(r, mem2, s1). put32 (t + n) r mem2 \<bind> (\<lambda>mem3. Some (mem3, s1)))) = Some (mem', f x1)"
    by simp
qed

locale rc_local =
  fixes rc :: "'s rc_ops"
  assumes choose_local: "rcChooseConfig rc off n p m pk mem s = Some (r, pk', mem', s') \<Longrightarrow>
      rcChooseConfig rc (length pre + off) n p m (pre @ pk @ post) mem s = Some (r, pre @ pk' @ post, mem', s')"
    and choose_length: "rcChooseConfig rc off n p m pk mem s = Some (r, pk', mem', s') \<Longrightarrow> length pk' = length pk \<and> take off pk' = take off pk"
    and update_local: "rcUpdateColorBuffer rc c px off pk s = Some v \<Longrightarrow>
      rcUpdateColorBuffer rc c px (length pre + off) (pre @ pk @ post) s = Some v"
begin

lemma local_call1: "local_case (call1 f)"
  by (auto simp: local_case_def call1_def bind_eq_Some_conv append_eq)

lemma local_choose: "local_case (case_rcChooseConfig e rc)"
  unfolding local_case_def
proof (intro allI impI)
  fix pre pk post :: "u8 list" and st st' s s' pk'
  assume "case_rcChooseConfig e rc 0 (pk, st, s) = Some (pk', st', s')"
  then obtain a as n2 cs where a: "arg 0 0 pk = Some a" and q: "get32 pk (12 + unat a) = Some as"
      "get32 pk (16 + unat a) = Some n2" "get32 pk (20 + unat a) = Some cs"
    and r: "out_reply e (unat n2) (\<lambda>p mem (buf, s). do { (r, buf1, mem1, s1) \<leftarrow>
        rcChooseConfig rc 12 as (if n2 = 0 then None else Some p) cs buf mem s; Some (r, mem1, buf1, s1) }) (st, pk, s) = Some (st', pk', s')"
    by (auto simp: case_rcChooseConfig_def bind_eq_Some_conv Let_def add.commute add.assoc)
  have "out_reply e (unat n2) (\<lambda>p mem (buf, s). do { (r, buf1, mem1, s1) \<leftarrow>
        rcChooseConfig rc (length pre + 12) as (if n2 = 0 then None else Some p) cs buf mem s; Some (r, mem1, buf1, s1) })
      (st, pre @ pk @ post, s) = Some (st', (\<lambda>(b, s). (pre @ b @ post, s)) (pk', s'))"
  proof (rule out_reply_map [OF r])
    fix t :: nat and mem v mem' x1
    let ?p = "if n2 = 0 then None else Some t"
    assume "(\<lambda>(buf, s). rcChooseConfig rc 12 as ?p cs buf mem s \<bind> (\<lambda>(r, buf1, mem1, s1). Some (r, mem1, buf1, s1))) (pk, s) =
      Some (v, mem', x1)"
    then obtain b1 s1 where "x1 = (b1, s1)" "rcChooseConfig rc 12 as ?p cs pk mem s = Some (v, b1, mem', s1)"
      by (auto simp: bind_eq_Some_conv)
    with choose_local [OF this(2), of pre post]
    show "(\<lambda>(buf, s). rcChooseConfig rc (length pre + 12) as ?p cs buf mem s \<bind> (\<lambda>(r, buf1, mem1, s1). Some (r, mem1, buf1, s1)))
      (pre @ pk @ post, s) = Some (v, mem', (\<lambda>(b, s). (pre @ b @ post, s)) x1)"
      by simp
  qed
  with q [THEN get32_append, of pre post] arg_append [OF a, of pre post]
  show "case_rcChooseConfig e rc (length pre) (pre @ pk @ post, st, s) = Some (pre @ pk' @ post, st', s')"
    by (simp add: case_rcChooseConfig_def Let_def add.commute add.left_commute)
qed

lemma local_update: "local_case (case_rcUpdateColorBuffer e rc)"
  unfolding local_case_def
proof (intro allI impI)
  fix pre pk post :: "u8 list" and st st' s s' pk'
  assume "case_rcUpdateColorBuffer e rc 0 (pk, st, s) = Some (pk', st', s')"
  then obtain c px where a: "arg 0 0 pk = Some c" "pixel_args 0 pk = Some px" and pk: "pk' = pk"
    and r: "value_reply e (rcUpdateColorBuffer rc c px 40 pk) (st, s) = Some (st', s')"
    by (auto simp: case_rcUpdateColorBuffer_def bind_eq_Some_conv)
  have "value_reply e (rcUpdateColorBuffer rc c px (length pre + 40) (pre @ pk @ post)) (st, s) = Some (st', id s')"
    unfolding value_reply_def
    by (rule with_reply_map [OF r [unfolded value_reply_def]]) (auto simp: bind_eq_Some_conv dest: update_local)
  with arg_append [OF a(1), of pre post] pixel_args_append [OF a(2), of pre post] pk
  show "case_rcUpdateColorBuffer e rc (length pre) (pre @ pk @ post, st, s) = Some (pre @ pk' @ post, st', s')"
    by (simp add: case_rcUpdateColorBuffer_def add.commute)
qed

lemmas reply_case_defs =
  case_rcGetRendererVersion_def case_rcGetEGLVersion_def case_rcQueryEGLString_def case_rcGetGLString_def
  case_rcGetNumConfigs_def case_rcGetConfigs_def case_rcGetFBParam_def case_rcCreateContext_def
  case_rcCreateWindowSurface_def case_rcCreateColorBuffer_def case_rcSetWindowColorBuffer_def
  case_rcFlushWindowColorBuffer_def case_rcMakeCurrent_def case_rcColorBufferCacheFlush_def
  case_rcReadColorBuffer_def case_rcOpenColorBuffer2_def

lemmas call_case_defs =
  case_rcDestroyContext_def case_rcDestroyWindowSurface_def case_rcOpenColorBuffer_def case_rcCloseColorBuffer_def
  case_rcFBPost_def case_rcFBSetSwapInterval_def case_rcBindTexture_def case_rcBindRenderbuffer_def

lemma local_reply:
  "local_case (case_rcGetRendererVersion e rc)" "local_case (case_rcGetEGLVersion e rc)" "local_case (case_rcQueryEGLString e rc)"
  "local_case (case_rcGetGLString e rc)" "local_case (case_rcGetNumConfigs e rc)" "local_case (case_rcGetConfigs e rc)"
  "local_case (case_rcGetFBParam e rc)" "local_case (case_rcCreateContext e rc)" "local_case (case_rcCreateWindowSurface e rc)"
  "local_case (case_rcCreateColorBuffer e rc)" "local_case (case_rcSetWindowColorBuffer rc)"
  "local_case (case_rcFlushWindowColorBuffer e rc)" "local_case (case_rcMakeCurrent e rc)"
  "local_case (case_rcColorBufferCacheFlush e rc)" "local_case (case_rcReadColorBuffer e rc)" "local_case (case_rcOpenColorBuffer2 e rc)"
  by (auto simp: local_case_def reply_case_defs bind_eq_Some_conv Let_def append_eq)

lemma local_cases:
  assumes "rc_switch e rc opcode = Some body"
  shows "local_case body"
  using map_of_SomeD [OF assms [unfolded rc_switch_def]] local_choose local_update local_reply local_call1
  by (auto simp: call_case_defs)

end

definition packet :: "u32 \<Rightarrow> u8 list \<Rightarrow> u8 list" where
  "packet opcode payload = le32 opcode @ le32 (of_nat (8 + length payload)) @ payload"

subsection \<open>Progress of the loop\<close>

text \<open>One complete packet: the loop runs its case and goes on behind it.\<close>

definition framed :: "u8 list \<Rightarrow> bool" where
  "framed pk \<longleftrightarrow> 8 \<le> length pk \<and> length pk < 2 ^ 31 \<and> get_le32 pk 4 = of_nat (length pk)"

lemma decode_loop_packet:
  assumes pk: "framed pk" and sw: "sw (get_le32 pk 0) = Some body" and "local_case body"
    and b: "body 0 (pk, st, s) = Some (pk', st', s')" and pk': "length pk' = length pk" "get_le32 pk' 4 = get_le32 pk 4"
    and n: "length (pre @ pk @ post) < 2 ^ 64"
  shows "decode_loop sw (length pre) (pre @ pk @ post, st, s) = decode_loop sw (length (pre @ pk)) (pre @ pk' @ post, st', s')"
proof -
  let ?buf = "pre @ pk @ post"
  have l: "size_sub (length ?buf) (length pre) = length pk + length post" using n by simp
  have u: "unat (of_nat (length pk) :: u32) = length pk" "sint (of_nat (length pk) :: u32) = int (length pk)"
    using pk by (simp_all add: framed_def unsigned_of_nat take_bit_nat_eq_self signed_of_nat signed_take_bit_int_eq_self)
  have h: "get32 ?buf (length pre) = Some (get_le32 pk 0)" "get32 ?buf (length pre + 4) = Some (of_nat (length pk))"
    using pk get_le32_append [of 0 pk pre post] get_le32_append [of 4 pk pre post] by (simp_all add: get32_def framed_def)
  have h': "get32 (pre @ pk' @ post) (length pre + 4) = Some (of_nat (length pk))"
    using pk pk' get_le32_append [of 4 pk' pre post] by (simp add: get32_def framed_def)
  have b': "body (length pre) (?buf, st, s) = Some (pre @ pk' @ post, st', s')"
    using assms(3) b by (simp add: local_case_def)
  have i: "nat (int (length pre) + int (length pk)) = length pre + length pk" by simp
  show ?thesis
    by (subst decode_loop.simps) (use l u h h' b' sw pk i in \<open>simp add: framed_def\<close>)
qed

text \<open>
  The loop stops at an incomplete packet, and at one whose opcode the switch does not know.
\<close>

definition incomplete :: "u8 list \<Rightarrow> bool" where
  "incomplete part \<longleftrightarrow> length part < 8 \<or> length part < unat (get_le32 part 4)"

lemma decode_loop_stop:
  assumes "incomplete part \<or> sw (get_le32 part 0) = None" and "length (pre @ part) < 2 ^ 64"
  shows "decode_loop sw (length pre) (pre @ part, st, s) = Some (length pre, (pre @ part, st, s))"
proof -
  have l: "size_sub (length pre + length part) (length pre) = length part" using assms(2) by simp
  show ?thesis
  proof (cases "length part < 8")
    case True
    then show ?thesis by (subst decode_loop.simps) (simp add: l)
  next
    case False
    then have "get32 (pre @ part) (length pre) = Some (get_le32 part 0)" "get32 (pre @ part) (length pre + 4) = Some (get_le32 part 4)"
      using get_le32_append [of 0 part pre "[]"] get_le32_append [of 4 part pre "[]"] by (simp_all add: get32_def)
    with False assms(1) show ?thesis by (subst decode_loop.simps) (auto simp: l incomplete_def)
  qed
qed

text \<open>A packet of length zero is never passed: the loop runs its case for ever.\<close>

lemma decode_loop_stuck:
  assumes "decode_loop sw pos ds = Some r"
    and "pos = 0" and "Q ds" and Q: "\<And>ds. Q ds \<Longrightarrow> 8 \<le> length (fst ds) \<and> length (fst ds) < 2 ^ 64 \<and>
      get_le32 (fst ds) 4 = 0 \<and> (\<exists>body. sw (get_le32 (fst ds) 0) = Some body \<and> (\<forall>ds'. body 0 ds = Some ds' \<longrightarrow> Q ds'))"
  shows False
  using assms(2-4)
proof (induction sw pos ds r rule: decode_loop.raw_induct)
  case (1 loop sw pos ds r)
  note Q = "1.prems"(3)
  obtain body where b: "sw (get_le32 (fst ds) 0) = Some body" "\<And>ds'. body 0 ds = Some ds' \<Longrightarrow> Q ds'"
    and l: "8 \<le> length (fst ds)" "length (fst ds) < 2 ^ 64" "get_le32 (fst ds) 4 = 0"
    using Q [OF "1.prems"(2)] by blast
  have g: "get32 (fst ds) 0 = Some (get_le32 (fst ds) 0)" "get32 (fst ds) 4 = Some 0" using l by (simp_all add: get32_def)
  from "1"(2) "1.prems"(1) l b(1) g obtain ds1 n where c: "body 0 ds = Some ds1" "get32 (fst ds1) 4 = Some n"
    "\<not> sint n < 0" "loop sw (nat (sint n)) ds1 = Some r"
    by (auto simp: bind_eq_Some_conv split: if_splits)
  have q: "Q ds1" using b(2) c(1) by blast
  then have "n = 0" using Q [OF q] c(2) by (auto simp: get32_def split: if_splits)
  then have "loop sw 0 ds1 = Some r" using c(4) by simp
  from "1"(1) [OF this refl q Q] show ?case .
qed (rule assms(1))

lemma length_packet [simp]: "length (packet opcode payload) = 8 + length payload"
  by (simp add: packet_def)

lemma packet_fields:
  "get_le32 (packet opcode payload) 0 = opcode" "get_le32 (packet opcode payload) 4 = of_nat (8 + length payload)"
  using get_le32_le32 [of "[]" opcode "le32 (of_nat (8 + length payload)) @ payload"]
    get_le32_le32 [of "le32 opcode" "of_nat (8 + length payload)" payload] by (simp_all add: packet_def)

lemma framed_packet: "8 + length payload < 2 ^ 31 \<Longrightarrow> framed (packet opcode payload)"
  by (simp add: framed_def packet_fields)

end
