(* ===== verification/RenderConfig.thy ===== *)
theory RenderConfig
  imports RenderObjects RenderDec
begin

text \<open>
  The configurations the renderer offers (\<open>FBConfig.cpp\<close>): the list made at start, the table the
  guest reads, and the choice of configurations for a list of attributes. A frame buffer that
  exists has an EGL display, so the checks for a missing one are left out. Reading a variable
  the library was to set in a call that failed is undefined.
\<close>

unbundle bit_operations_syntax

subsection \<open>Attributes\<close>

definition s_configAttribs :: "u32 list" where
  "s_configAttribs =
     [0x3025, 0x3026, 0x3040, 0x3033, 0x3028, 0x3020, 0x3021, 0x3022, 0x3023, 0x3024, 0x3027, 0x3029, 0x302A, 0x302B, 0x302C, 0x302D,
      0x302E, 0x302F, 0x3031, 0x3032, 0x3034, 0x3035, 0x3036, 0x3037, 0x3039, 0x303A, 0x303B, 0x303C, 0x303D, 0x303E, 0x303F, 0x3042]"

abbreviation (input) EGL_NONE :: u32 where "EGL_NONE \<equiv> 0x3038"
abbreviation (input) EGL_SURFACE_TYPE :: u32 where "EGL_SURFACE_TYPE \<equiv> 0x3033"
abbreviation (input) EGL_CONFIG_ID :: u32 where "EGL_CONFIG_ID \<equiv> 0x3028"
abbreviation (input) EGL_PBUFFER_BIT :: u32 where "EGL_PBUFFER_BIT \<equiv> 1"
abbreviation (input) EGL_WINDOW_BIT :: u32 where "EGL_WINDOW_BIT \<equiv> 4"

definition FBConfig_new :: "'g gl_api \<Rightarrow> nat \<Rightarrow> 'g world \<Rightarrow> FBConfig" where
  "FBConfig_new gl p_eglCfg w =
     \<lparr>fc_eglConfig = p_eglCfg,
      fc_attribValues = map (\<lambda>a. (case egl_attrib gl p_eglCfg a (w_gl w) of None \<Rightarrow> 0 | Some v \<Rightarrow> v) OR
        (if a = EGL_SURFACE_TYPE then EGL_WINDOW_BIT else 0)) s_configAttribs\<rparr>"

subsection \<open>The list\<close>

definition usable_config :: "'g gl_api \<Rightarrow> nat \<Rightarrow> 'g world \<Rightarrow> bool option" where
  "usable_config gl cfg w =
     do { surfaceType \<leftarrow> egl_attrib gl cfg EGL_SURFACE_TYPE (w_gl w);
          if surfaceType AND EGL_PBUFFER_BIT = 0 then Some False
          else do {
            redSize \<leftarrow> egl_attrib gl cfg 0x3024 (w_gl w);
            blueSize \<leftarrow> egl_attrib gl cfg 0x3022 (w_gl w);
            greenSize \<leftarrow> egl_attrib gl cfg 0x3023 (w_gl w);
            Some (\<not> (redSize = 0 \<or> greenSize = 0 \<or> blueSize = 0)) } }"

fun config_list :: "'g gl_api \<Rightarrow> nat list \<Rightarrow> 'g world \<Rightarrow> FBConfig list option" where
  "config_list gl [] w = Some []"
| "config_list gl (cfg # cfgs) w =
     do { ok \<leftarrow> usable_config gl cfg w;
          rest \<leftarrow> config_list gl cfgs w;
          Some (if ok then FBConfig_new gl cfg w # rest else rest) }"

text \<open>The result tells whether there is a configuration; a failed query leaves the list as it is.\<close>

definition initConfigList :: "'g gl_api \<Rightarrow> 'g world \<Rightarrow> (bool \<times> 'g world) option" where
  "initConfigList gl w =
     (case egl_configs gl (w_gl w) of
        None \<Rightarrow> Some (False, w)
      | Some cfgs \<Rightarrow> do { l \<leftarrow> config_list gl cfgs w; Some (l \<noteq> [], w\<lparr>w_configs := l\<rparr>) })"

definition getNumConfigs :: "'g world \<Rightarrow> nat" where
  "getNumConfigs w = length (w_configs w)"

text \<open>The attribute numbers, then a row for each configuration; \<open>s_numConfigAttribs\<close> is 32.\<close>

definition packConfigsInfo :: "nat \<Rightarrow> u8 list \<Rightarrow> 'g world \<Rightarrow> u8 list option" where
  "packConfigsInfo p mem w = block_write p (concat (map le32 (s_configAttribs @ concat (map fc_attribValues (w_configs w))))) mem"

subsection \<open>Choosing\<close>

text \<open>
  The attribute list lies in the input buffer at \<open>off\<close>: a surface type in it is replaced in
  place, and the loop has no other end than \<open>EGL_NONE\<close>. The result has the number of words read,
  whether a surface type is still missing, and the buffer.
\<close>

function scan_attribs :: "nat \<Rightarrow> bool \<Rightarrow> nat \<Rightarrow> u8 list \<Rightarrow> (nat \<times> bool \<times> u8 list) option" where
  "scan_attribs off needToAddPbufAttr attribCnt buf =
     (case get32 buf off of
        None \<Rightarrow> None
      | Some a \<Rightarrow>
          if a = EGL_NONE then Some (attribCnt, needToAddPbufAttr, buf)
          else if a = EGL_SURFACE_TYPE
          then (case put32 (off + 4) EGL_PBUFFER_BIT buf of
                  None \<Rightarrow> None
                | Some buf1 \<Rightarrow> scan_attribs (off + 8) False (attribCnt + 2) buf1)
          else scan_attribs (off + 8) needToAddPbufAttr (attribCnt + 2) buf)"
  by auto

termination
  by (relation "measure (\<lambda>(off, need, cnt, buf). length buf - off)")
     (auto simp: get32_def put32_def dest: block_write_length split: if_splits)

declare scan_attribs.simps [simp del]

definition read_words :: "nat \<Rightarrow> nat \<Rightarrow> u8 list \<Rightarrow> u32 list" where
  "read_words off n buf = map (\<lambda>i. get_le32 buf (off + 4 * i)) [0 ..< n]"

fun find_config :: "u32 \<Rightarrow> FBConfig list \<Rightarrow> nat option" where
  "find_config sCfgId [] = None"
| "find_config sCfgId (c # cs) = (if sCfgId = fc_attribValues c ! 4 then Some 0 else map_option Suc (find_config sCfgId cs))"

text \<open>The matched configurations that are on the list, written to \<open>configs\<close> as long as it has room.\<close>

fun verify_configs ::
  "'g gl_api \<Rightarrow> nat list \<Rightarrow> nat option \<Rightarrow> u32 \<Rightarrow> nat \<Rightarrow> u8 list \<Rightarrow> 'g world \<Rightarrow> (nat \<times> u8 list) option" where
  "verify_configs gl [] configs configs_size nVerifiedCfgs mem w = Some (nVerifiedCfgs, mem)"
| "verify_configs gl (m # ms) configs configs_size nVerifiedCfgs mem w =
     (if configs \<noteq> None \<and> configs_size > 0 \<and> nVerifiedCfgs \<ge> unat configs_size then Some (nVerifiedCfgs, mem)
      else do {
        sCfgId \<leftarrow> egl_attrib gl m EGL_CONFIG_ID (w_gl w);
        case find_config sCfgId (w_configs w) of
          None \<Rightarrow> verify_configs gl ms configs configs_size nVerifiedCfgs mem w
        | Some fbIdx \<Rightarrow> do {
            mem1 \<leftarrow> (case configs of
                        None \<Rightarrow> Some mem
                      | Some p \<Rightarrow> if nVerifiedCfgs < unat configs_size then put32 (p + 4 * nVerifiedCfgs) (of_nat fbIdx) mem else Some mem);
            verify_configs gl ms configs configs_size (nVerifiedCfgs + 1) mem1 w } })"

text \<open>
  \<open>attribs\<close> is an offset into the input buffer, \<open>configs\<close> one into the reply block. The library
  returns at most as many matches as there are configurations.
\<close>

definition chooseConfig ::
  "'g gl_api \<Rightarrow> nat \<Rightarrow> nat option \<Rightarrow> u32 \<Rightarrow> u8 list \<Rightarrow> u8 list \<Rightarrow> 'g world \<Rightarrow> (u32 \<times> u8 list \<times> u8 list) option" where
  "chooseConfig gl attribs configs configs_size buf mem w =
     (case egl_configs gl (w_gl w) of
        None \<Rightarrow> Some (0, buf, mem)
      | Some all \<Rightarrow> do {
          (attribCnt, needToAddPbufAttr, buf1) \<leftarrow> scan_attribs attribs True 0 buf;
          let newAttribs = (if needToAddPbufAttr then [EGL_SURFACE_TYPE, EGL_PBUFFER_BIT] else []) @
                read_words attribs attribCnt buf1 @ [EGL_NONE];
              matched = (case egl_choose gl newAttribs (w_gl w) of None \<Rightarrow> [] | Some ms \<Rightarrow> take (length all) ms) in
          do { (n, mem1) \<leftarrow> verify_configs gl matched configs configs_size 0 mem w;
               Some (of_nat n, buf1, mem1) } })"

end
