(* ===== verification/FrameBufferOps.thy ===== *)
theory FrameBufferOps
  imports RenderObjects
begin

text \<open>
  The operations of the frame buffer (\<open>FrameBuffer.cpp\<close>): handles for contexts, window surfaces
  and colour buffers, the counts of client references to colour buffers, binding a context to a
  thread, and posting to the subwindow. Every operation takes the lock for its whole run, so an
  operation is one step of the thread \<open>t\<close> that calls it. \<open>find\<close> on the handle maps and \<open>erase\<close>
  are lookup and update of the maps.
\<close>

subsection \<open>Handles\<close>

text \<open>The loop does not end when every handle is taken.\<close>

partial_function (option) genHandle :: "FrameBuffer \<Rightarrow> u32 \<Rightarrow> u32 option" where
  "genHandle fb next =
     (let id = next + 1 in
      if id = 0 \<or> m_contexts fb id \<noteq> None \<or> m_windows fb id \<noteq> None then genHandle fb id else Some id)"

declare genHandle.simps [code]

definition new_handle :: "'g world \<Rightarrow> (u32 \<times> 'g world) option" where
  "new_handle w = do { fb \<leftarrow> w_fb w; id \<leftarrow> genHandle fb (s_nextHandle w); Some (id, w\<lparr>s_nextHandle := id\<rparr>) }"

subsection \<open>Creation\<close>

text \<open>The smart pointer of the caller is released at the end, after the map has its own.\<close>

definition createColorBuffer :: "'g gl_api \<Rightarrow> nat \<Rightarrow> u32 \<Rightarrow> u32 \<Rightarrow> u32 \<Rightarrow> 'g world \<Rightarrow> (u32 \<times> 'g world) option" where
  "createColorBuffer gl t p_width p_height p_internalFormat w =
     do { (a, w1) \<leftarrow> ColorBuffer_create gl t p_width p_height p_internalFormat w;
          if a = NULL then Some (0, w1)
          else do {
            w2 \<leftarrow> cb_ref a w1;
            (ret, w3) \<leftarrow> new_handle w2;
            fb \<leftarrow> w_fb w3;
            let old = (case m_colorbuffers fb ret of None \<Rightarrow> NULL | Some (b, n) \<Rightarrow> b) in
            do { w4 \<leftarrow> cb_ref a w3;
                 w5 \<leftarrow> cb_unref gl t old (set_fb (\<lambda>fb. fb\<lparr>m_colorbuffers := (m_colorbuffers fb)(ret \<mapsto> (a, 1))\<rparr>) w4);
                 w6 \<leftarrow> cb_unref gl t a w5;
                 Some (ret, w6) } } }"

definition createRenderContext :: "'g gl_api \<Rightarrow> nat \<Rightarrow> u32 \<Rightarrow> u32 \<Rightarrow> bool \<Rightarrow> 'g world \<Rightarrow> (u32 \<times> 'g world) option" where
  "createRenderContext gl t p_config p_share p_isGL2 w =
     do { fb \<leftarrow> w_fb w;
          case (if p_share = 0 then Some NULL else m_contexts fb p_share) of
            None \<Rightarrow> Some (0, w)
          | Some share \<Rightarrow>
              do { (a, w1) \<leftarrow> RenderContext_create gl t p_config share p_isGL2 w;
                   if a = NULL then Some (0, w1)
                   else do {
                     w2 \<leftarrow> ctx_ref a w1;
                     (ret, w3) \<leftarrow> new_handle w2;
                     fb3 \<leftarrow> w_fb w3;
                     let old = (case m_contexts fb3 ret of None \<Rightarrow> NULL | Some b \<Rightarrow> b) in
                     do { w4 \<leftarrow> ctx_ref a w3;
                          w5 \<leftarrow> ctx_unref gl t old (set_fb (\<lambda>fb. fb\<lparr>m_contexts := (m_contexts fb)(ret \<mapsto> a)\<rparr>) w4);
                          w6 \<leftarrow> ctx_unref gl t a w5;
                          Some (ret, w6) } } } }"

definition createWindowSurface :: "'g gl_api \<Rightarrow> nat \<Rightarrow> u32 \<Rightarrow> u32 \<Rightarrow> u32 \<Rightarrow> 'g world \<Rightarrow> (u32 \<times> 'g world) option" where
  "createWindowSurface gl t p_config p_width p_height w =
     do { (a, w1) \<leftarrow> WindowSurface_create gl t p_config p_width p_height w;
          if a = NULL then Some (0, w1)
          else do {
            w2 \<leftarrow> win_ref a w1;
            (ret, w3) \<leftarrow> new_handle w2;
            fb \<leftarrow> w_fb w3;
            let old = (case m_windows fb ret of None \<Rightarrow> NULL | Some b \<Rightarrow> b) in
            do { w4 \<leftarrow> win_ref a w3;
                 w5 \<leftarrow> win_unref gl t old (set_fb (\<lambda>fb. fb\<lparr>m_windows := (m_windows fb)(ret \<mapsto> a)\<rparr>) w4);
                 w6 \<leftarrow> win_unref gl t a w5;
                 Some (ret, w6) } } }"

subsection \<open>Destruction and client references\<close>

definition DestroyRenderContext :: "'g gl_api \<Rightarrow> nat \<Rightarrow> u32 \<Rightarrow> 'g world \<Rightarrow> 'g world option" where
  "DestroyRenderContext gl t p_context w =
     do { fb \<leftarrow> w_fb w;
          case m_contexts fb p_context of
            None \<Rightarrow> Some w
          | Some a \<Rightarrow> ctx_unref gl t a (set_fb (\<lambda>fb. fb\<lparr>m_contexts := (m_contexts fb)(p_context := None)\<rparr>) w) }"

definition DestroyWindowSurface :: "'g gl_api \<Rightarrow> nat \<Rightarrow> u32 \<Rightarrow> 'g world \<Rightarrow> 'g world option" where
  "DestroyWindowSurface gl t p_surface w =
     do { fb \<leftarrow> w_fb w;
          case m_windows fb p_surface of
            None \<Rightarrow> Some w
          | Some a \<Rightarrow> win_unref gl t a (set_fb (\<lambda>fb. fb\<lparr>m_windows := (m_windows fb)(p_surface := None)\<rparr>) w) }"

definition openColorBuffer :: "u32 \<Rightarrow> 'g world \<Rightarrow> (int \<times> 'g world) option" where
  "openColorBuffer p_colorbuffer w =
     do { fb \<leftarrow> w_fb w;
          case m_colorbuffers fb p_colorbuffer of
            None \<Rightarrow> Some (-1, w)
          | Some (a, refcount) \<Rightarrow>
              Some (0, set_fb (\<lambda>fb. fb\<lparr>m_colorbuffers := (m_colorbuffers fb)(p_colorbuffer \<mapsto> (a, refcount + 1))\<rparr>) w) }"

definition closeColorBuffer :: "'g gl_api \<Rightarrow> nat \<Rightarrow> u32 \<Rightarrow> 'g world \<Rightarrow> 'g world option" where
  "closeColorBuffer gl t p_colorbuffer w =
     do { fb \<leftarrow> w_fb w;
          case m_colorbuffers fb p_colorbuffer of
            None \<Rightarrow> Some w
          | Some (a, refcount) \<Rightarrow>
              if refcount - 1 = 0
              then cb_unref gl t a (set_fb (\<lambda>fb. fb\<lparr>m_colorbuffers := (m_colorbuffers fb)(p_colorbuffer := None)\<rparr>) w)
              else Some (set_fb (\<lambda>fb. fb\<lparr>m_colorbuffers := (m_colorbuffers fb)(p_colorbuffer \<mapsto> (a, refcount - 1))\<rparr>) w) }"

subsection \<open>Using surfaces and colour buffers\<close>

definition flushWindowSurfaceColorBuffer :: "'g gl_api \<Rightarrow> nat \<Rightarrow> u32 \<Rightarrow> 'g world \<Rightarrow> (bool \<times> 'g world) option" where
  "flushWindowSurfaceColorBuffer gl t p_surface w =
     do { fb \<leftarrow> w_fb w;
          case m_windows fb p_surface of None \<Rightarrow> Some (False, w) | Some a \<Rightarrow> flushColorBuffer gl t a w }"

definition setWindowSurfaceColorBuffer :: "'g gl_api \<Rightarrow> nat \<Rightarrow> u32 \<Rightarrow> u32 \<Rightarrow> 'g world \<Rightarrow> (bool \<times> 'g world) option" where
  "setWindowSurfaceColorBuffer gl t p_surface p_colorbuffer w =
     do { fb \<leftarrow> w_fb w;
          case m_windows fb p_surface of
            None \<Rightarrow> Some (False, w)
          | Some a \<Rightarrow>
              (case m_colorbuffers fb p_colorbuffer of
                 None \<Rightarrow> Some (False, w)
               | Some (b, n) \<Rightarrow> do { w1 \<leftarrow> setColorBuffer gl t a b w; Some (True, w1) }) }"

definition updateColorBuffer ::
  "'g gl_api \<Rightarrow> nat \<Rightarrow> u32 \<Rightarrow> u32 \<Rightarrow> u32 \<Rightarrow> u32 \<Rightarrow> u32 \<Rightarrow> u32 \<Rightarrow> u32 \<Rightarrow> u8 list option \<Rightarrow> 'g world \<Rightarrow> (bool \<times> 'g world) option" where
  "updateColorBuffer gl t p_colorbuffer x y width height format type pixels w =
     do { fb \<leftarrow> w_fb w;
          case m_colorbuffers fb p_colorbuffer of
            None \<Rightarrow> Some (False, w)
          | Some (a, n) \<Rightarrow> do { w1 \<leftarrow> subUpdate gl t a x y width height format type pixels w; Some (True, w1) } }"

definition bindColorBufferToTexture :: "'g gl_api \<Rightarrow> nat \<Rightarrow> u32 \<Rightarrow> 'g world \<Rightarrow> (bool \<times> 'g world) option" where
  "bindColorBufferToTexture gl t p_colorbuffer w =
     do { fb \<leftarrow> w_fb w;
          case m_colorbuffers fb p_colorbuffer of None \<Rightarrow> Some (False, w) | Some (a, n) \<Rightarrow> bindToTexture gl t a w }"

definition bindColorBufferToRenderbuffer :: "'g gl_api \<Rightarrow> nat \<Rightarrow> u32 \<Rightarrow> 'g world \<Rightarrow> (bool \<times> 'g world) option" where
  "bindColorBufferToRenderbuffer gl t p_colorbuffer w =
     do { fb \<leftarrow> w_fb w;
          case m_colorbuffers fb p_colorbuffer of None \<Rightarrow> Some (False, w) | Some (a, n) \<Rightarrow> bindToRenderbuffer gl t a w }"

subsection \<open>Binding a context\<close>

text \<open>
  The objects of the three handles, \<open>NULL\<close> for the handles \<open>0, 0, 0\<close> of an unbind; \<open>None\<close> for a
  bad handle.
\<close>

definition bind_handles :: "FrameBuffer \<Rightarrow> u32 \<Rightarrow> u32 \<Rightarrow> u32 \<Rightarrow> (addr \<times> addr \<times> addr) option" where
  "bind_handles fb p_context p_drawSurface p_readSurface =
     (if p_context \<noteq> 0 \<or> p_drawSurface \<noteq> 0 \<or> p_readSurface \<noteq> 0
      then do { ctx \<leftarrow> m_contexts fb p_context;
                draw \<leftarrow> m_windows fb p_drawSurface;
                rd \<leftarrow> (if p_readSurface \<noteq> p_drawSurface then m_windows fb p_readSurface else Some draw);
                Some (ctx, draw, rd) }
      else Some (NULL, NULL, NULL))"

definition egl_of_win :: "addr \<Rightarrow> 'g world \<Rightarrow> nat option" where
  "egl_of_win a w = (if a = NULL then Some 0 else map_option ws_eglSurface (w_wins w a))"

definition egl_of_ctx :: "addr \<Rightarrow> 'g world \<Rightarrow> nat option" where
  "egl_of_ctx a w = (if a = NULL then Some 0 else map_option rc_ctx (w_ctxs w a))"

text \<open>
  The thread's smart pointers get the new values; the decoder of the new context's API gets its
  data, and both decoders lose theirs when there is no context.
\<close>

definition set_current :: "'g gl_api \<Rightarrow> nat \<Rightarrow> addr \<Rightarrow> addr \<Rightarrow> addr \<Rightarrow> 'g world \<Rightarrow> 'g world option" where
  "set_current gl t ctx draw rd w =
     do { ti \<leftarrow> w_threads w t;
          w1 \<leftarrow> ctx_ref ctx w;
          w2 \<leftarrow> set_thread t (\<lambda>ti. ti\<lparr>ti_currContext := ctx\<rparr>) w1;
          w3 \<leftarrow> ctx_unref gl t (ti_currContext ti) w2;
          w4 \<leftarrow> win_ref draw w3;
          w5 \<leftarrow> set_thread t (\<lambda>ti. ti\<lparr>ti_currDrawSurf := draw\<rparr>) w4;
          w6 \<leftarrow> win_unref gl t (ti_currDrawSurf ti) w5;
          w7 \<leftarrow> win_ref rd w6;
          w8 \<leftarrow> set_thread t (\<lambda>ti. ti\<lparr>ti_currReadSurf := rd\<rparr>) w7;
          w9 \<leftarrow> win_unref gl t (ti_currReadSurf ti) w8;
          if ctx = NULL then set_thread t (\<lambda>ti. ti\<lparr>ti_glData := NULL, ti_gl2Data := NULL\<rparr>) w9
          else do { c \<leftarrow> w_ctxs w9 ctx;
                    set_thread t (\<lambda>ti. if rc_isGL2 c then ti\<lparr>ti_gl2Data := ctx\<rparr> else ti\<lparr>ti_glData := ctx\<rparr>) w9 } }"

text \<open>\<open>bindDraw\<close> and \<open>bindRead\<close> keep the surfaces of an unbind alive until the end.\<close>

definition bindContext :: "'g gl_api \<Rightarrow> nat \<Rightarrow> u32 \<Rightarrow> u32 \<Rightarrow> u32 \<Rightarrow> 'g world \<Rightarrow> (bool \<times> 'g world) option" where
  "bindContext gl t p_context p_drawSurface p_readSurface w =
     do { fb \<leftarrow> w_fb w;
          case bind_handles fb p_context p_drawSurface p_readSurface of
            None \<Rightarrow> Some (False, w)
          | Some (ctx, draw, rd) \<Rightarrow>
              do { d \<leftarrow> egl_of_win draw w;
                   r \<leftarrow> egl_of_win rd w;
                   c \<leftarrow> egl_of_ctx ctx w;
                   let (ok, w1) = ask gl t (EglMakeCurrent d r c) w in
                   if ok = 0 then Some (False, w1)
                   else do {
                     ti \<leftarrow> w_threads w1 t;
                     let (bindDraw, bindRead) =
                       (if draw = NULL \<and> rd = NULL then (ti_currDrawSurf ti, ti_currReadSurf ti) else (draw, rd)) in
                     do { w2 \<leftarrow> win_ref bindDraw w1;
                          w3 \<leftarrow> win_ref bindRead w2;
                          w4 \<leftarrow> set_current gl t ctx draw rd w3;
                          w5 \<leftarrow> (if bindDraw \<noteq> NULL \<and> bindRead \<noteq> NULL
                                  then (if bindDraw \<noteq> bindRead
                                        then do { v \<leftarrow> win_bind gl t bindDraw ctx SURFACE_BIND_DRAW w4;
                                                  win_bind gl t bindRead ctx SURFACE_BIND_READ v }
                                        else win_bind gl t bindDraw ctx SURFACE_BIND_READDRAW w4)
                                  else Some w4);
                          w6 \<leftarrow> win_unref gl t bindRead w5;
                          w7 \<leftarrow> win_unref gl t bindDraw w6;
                          Some (True, w7) } } } }"

subsection \<open>Posting\<close>

definition initGLState :: "gl_op list" where
  "initGLState = [Gl1 (MatrixMode 0x1701), Gl1 LoadIdentity, Gl1 Orthof, Gl1 (MatrixMode 0x1700), Gl1 LoadIdentity]"

definition bindSubwin_locked :: "'g gl_api \<Rightarrow> nat \<Rightarrow> 'g world \<Rightarrow> (bool \<times> 'g world) option" where
  "bindSubwin_locked gl t w =
     do { fb \<leftarrow> w_fb w;
          let (prevContext, w1) = ask gl t EglGetCurrentContext w;
              (prevReadSurf, w2) = ask gl t EglGetReadSurface w1;
              (prevDrawSurf, w3) = ask gl t EglGetDrawSurface w2;
              (ok, w4) = ask gl t (EglMakeCurrent (fb_eglSurface fb) (fb_eglSurface fb) (fb_eglContext fb)) w3
          in if ok = 0 then Some (False, w4)
             else let w5 = (if fb_eglContextInitialized fb then w4
                            else set_fb (\<lambda>fb. fb\<lparr>fb_eglContextInitialized := True\<rparr>) (tell gl t initGLState w4))
                  in Some (True, set_fb (\<lambda>fb. fb\<lparr>fb_prevContext := prevContext, fb_prevReadSurf := prevReadSurf,
                                                 fb_prevDrawSurf := prevDrawSurf\<rparr>) w5) }"

text \<open>
  \<open>m_zRot\<close> is a float, kept as its bits; \<open>m_zRot != 0.0f\<close> holds of all but the two zeros. The
  frame rate statistics are printed only and left out.
\<close>

definition post :: "'g gl_api \<Rightarrow> nat \<Rightarrow> u32 \<Rightarrow> 'g world \<Rightarrow> (bool \<times> 'g world) option" where
  "post gl t p_colorbuffer w =
     do { fb \<leftarrow> w_fb w;
          case m_colorbuffers fb p_colorbuffer of
            None \<Rightarrow> Some (True, w)
          | Some (a, n) \<Rightarrow>
              let w0 = set_fb (\<lambda>fb. fb\<lparr>fb_lastPosted := p_colorbuffer\<rparr>) w in
              if fb_subWin fb = 0 then Some (True, w0)
              else do {
                (ok, w1) \<leftarrow> bindSubwin_locked gl t w0;
                if \<not> ok then Some (False, w1)
                else do {
                  (ret, w2) \<leftarrow> cb_post gl t a
                    (tell gl t ([Gl1 PushMatrix, Gl1 (Rotatef (fb_zRot fb))] @
                                (if fb_zRot fb \<noteq> 0 \<and> fb_zRot fb \<noteq> 0x80000000 then [Gl1 (Clear 0x4000)] else [])) w1);
                  let w3 = tell gl t ([Gl1 PopMatrix] @ (if ret then [EglSwapBuffers (fb_eglSurface fb)] else [])) w2 in
                  do { (r, w4) \<leftarrow> unbind_locked gl t w3;
                       if \<not> fb_onPost fb then Some (ret, w4)
                       else do { (img, w5) \<leftarrow> cb_readback gl t a (fb_image fb) w4;
                                 mem \<leftarrow> img;
                                 Some (ret, set_fb (\<lambda>fb. fb\<lparr>fb_image := img\<rparr>)
                                   (w5\<lparr>w_gl := on_post gl (fb_width fb) (fb_height fb) mem (w_gl w5)\<rparr>)) } } } } }"

definition repost :: "'g gl_api \<Rightarrow> nat \<Rightarrow> 'g world \<Rightarrow> (bool \<times> 'g world) option" where
  "repost gl t w =
     do { fb \<leftarrow> w_fb w; if fb_lastPosted fb \<noteq> 0 then post gl t (fb_lastPosted fb) w else Some (False, w) }"

text \<open>\<open>block\<close> is what \<open>malloc(4 * m_width * m_height)\<close> returns.\<close>

definition setPostCallback :: "u8 list option \<Rightarrow> bool \<Rightarrow> 'g world \<Rightarrow> 'g world option" where
  "setPostCallback block onPost w =
     do { fb \<leftarrow> w_fb w;
          Some (if onPost \<and> fb_image fb = None
                then (case block of
                        None \<Rightarrow> set_fb (\<lambda>fb. fb\<lparr>fb_onPost := False\<rparr>) w
                      | Some mem \<Rightarrow> set_fb (\<lambda>fb. fb\<lparr>fb_onPost := True, fb_image := Some mem\<rparr>) w)
                else set_fb (\<lambda>fb. fb\<lparr>fb_onPost := onPost\<rparr>) w) }"

definition setDisplayRotation :: "'g gl_api \<Rightarrow> nat \<Rightarrow> u32 \<Rightarrow> 'g world \<Rightarrow> (bool \<times> 'g world) option" where
  "setDisplayRotation gl t zRot w = repost gl t (set_fb (\<lambda>fb. fb\<lparr>fb_zRot := zRot\<rparr>) w)"

definition setupSubWindow :: "'g gl_api \<Rightarrow> nat \<Rightarrow> nat \<Rightarrow> u32 \<Rightarrow> u32 \<Rightarrow> u32 \<Rightarrow> u32 \<Rightarrow> u32 \<Rightarrow> 'g world \<Rightarrow> (bool \<times> 'g world) option" where
  "setupSubWindow gl t p_window p_x p_y p_width p_height zRot w =
     (case w_fb w of
        None \<Rightarrow> Some (False, w)
      | Some fb \<Rightarrow>
          if fb_subWin fb \<noteq> 0 then Some (False, w)
          else let (subWin, w1) = ask gl t (CreateSubWindow p_window [p_x, p_y, p_width, p_height]) w in
               if subWin = 0 then Some (False, w1)
               else let (surface, w2) = ask gl t (EglCreateWindowSurface subWin) w1 in
                    if surface = 0
                    then Some (False, set_fb (\<lambda>fb. fb\<lparr>fb_eglSurface := 0, fb_subWin := 0\<rparr>) (tell gl t [DestroySubWindow subWin] w2))
                    else do {
                      (ok, w3) \<leftarrow> bindSubwin_locked gl t (set_fb (\<lambda>fb. fb\<lparr>fb_eglSurface := surface, fb_subWin := subWin\<rparr>) w2);
                      if \<not> ok then Some (False, w3)
                      else do {
                        fb3 \<leftarrow> w_fb w3;
                        (r, w4) \<leftarrow> post gl t (fb_lastPosted fb3)
                          (set_fb (\<lambda>fb. fb\<lparr>fb_zRot := zRot\<rparr>) (tell gl t [Gl1 (Viewport [0, 0, p_width, p_height])] w3));
                        (r2, w5) \<leftarrow> unbind_locked gl t w4;
                        Some (True, w5) } })"

definition removeSubWindow :: "'g gl_api \<Rightarrow> nat \<Rightarrow> 'g world \<Rightarrow> bool \<times> 'g world" where
  "removeSubWindow gl t w =
     (case w_fb w of
        None \<Rightarrow> (False, w)
      | Some fb \<Rightarrow>
          if fb_subWin fb = 0 then (False, w)
          else (True, set_fb (\<lambda>fb. fb\<lparr>fb_eglSurface := 0, fb_subWin := 0\<rparr>)
                 (tell gl t [EglMakeCurrent 0 0 0, EglDestroySurface (fb_eglSurface fb), DestroySubWindow (fb_subWin fb)] w)))"

end
