(* ===== verification/FrameBufferInv.thy ===== *)
theory FrameBufferInv
  imports FrameBufferOps "HOL-Library.Multiset"
begin

text \<open>
  Ownership in the renderer. The count of every object is the number of smart pointers to it:
  those in the handle maps, in the window surfaces and in the thread data, and the temporaries
  of the operation that is running. No pointer refers to a deleted object and no object is
  without a pointer. Each step of an operation moves references between these places.
\<close>

subsection \<open>Counting references\<close>

text \<open>How many entries of a map have \<open>a\<close> in their field \<open>f\<close>.\<close>

definition refs :: "('v \<Rightarrow> addr) \<Rightarrow> ('k \<Rightarrow> 'v option) \<Rightarrow> addr \<Rightarrow> nat" where
  "refs f m a = card {k. \<exists>v. m k = Some v \<and> f v = a}"

lemma refs_upd: "finite (dom m) \<Longrightarrow> refs f (m(k \<mapsto> v)) a = refs f (m(k := None)) a + of_bool (f v = a)"
proof -
  assume fin: "finite (dom m)"
  let ?S = "{j. \<exists>v. (m(k := None)) j = Some v \<and> f v = a}"
  have "{j. \<exists>u. (m(k \<mapsto> v)) j = Some u \<and> f u = a} = (if f v = a then insert k ?S else ?S)" by auto
  moreover have "finite ?S" by (rule finite_subset [OF _ fin]) (auto split: if_splits)
  moreover have "k \<notin> ?S" by simp
  ultimately show ?thesis by (simp add: refs_def)
qed

lemma refs_del: "finite (dom m) \<Longrightarrow> m k = Some v \<Longrightarrow> refs f m a = refs f (m(k := None)) a + of_bool (f v = a)"
  using refs_upd [of m f k v a] by (simp add: fun_upd_idem)

lemma refs_pos: "finite (dom m) \<Longrightarrow> m k = Some v \<Longrightarrow> 0 < refs f m (f v)"
  by (simp add: refs_del)

lemma refs_map: "refs f m a = card {k. map_option f (m k) = Some a}"
  by (simp add: refs_def)

lemma refs_cong: "(\<And>k. map_option f (m' k) = map_option f (m k)) \<Longrightarrow> refs f m' = refs f m"
  by (simp add: refs_map fun_eq_iff del: map_option_eq_Some)

subsection \<open>The invariant\<close>

definition counted :: "(addr \<Rightarrow> 'o option) \<Rightarrow> ('o \<Rightarrow> nat) \<Rightarrow> (addr \<Rightarrow> nat) \<Rightarrow> bool" where
  "counted heap cnt r \<longleftrightarrow> (\<forall>a. a \<noteq> NULL \<longrightarrow> (case heap a of None \<Rightarrow> r a = 0 | Some obj \<Rightarrow> cnt obj = r a \<and> 0 < r a))"

text \<open>Who refers to a colour buffer, a context, a window surface.\<close>

definition cb_refs :: "FrameBuffer \<Rightarrow> 'g world \<Rightarrow> addr \<Rightarrow> nat" where
  "cb_refs fb w a = refs fst (m_colorbuffers fb) a + refs ws_attachedColorBuffer (w_wins w) a"

definition ctx_refs :: "FrameBuffer \<Rightarrow> 'g world \<Rightarrow> addr \<Rightarrow> nat" where
  "ctx_refs fb w a = refs id (m_contexts fb) a + refs ws_readContext (w_wins w) a + refs ws_drawContext (w_wins w) a +
     refs ti_currContext (w_threads w) a"

definition win_refs :: "FrameBuffer \<Rightarrow> 'g world \<Rightarrow> addr \<Rightarrow> nat" where
  "win_refs fb w a = refs id (m_windows fb) a + refs ti_currDrawSurf (w_threads w) a + refs ti_currReadSurf (w_threads w) a"

text \<open>
  The block for the post callback: there is one when a callback is set, and it has the size
  \<open>setPostCallback\<close> asked \<open>malloc\<close> for.
\<close>

definition image_size :: "FrameBuffer \<Rightarrow> nat" where
  "image_size fb = unat (4 * fb_width fb * fb_height fb)"

definition image_ok :: "FrameBuffer \<Rightarrow> bool" where
  "image_ok fb \<longleftrightarrow> (fb_onPost fb \<longrightarrow> fb_image fb \<noteq> None) \<and> (\<forall>mem. fb_image fb = Some mem \<longrightarrow> length mem = image_size fb)"

lemma image_ok_maps [simp]:
  "image_ok (fb\<lparr>m_contexts := c\<rparr>) = image_ok fb" "image_ok (fb\<lparr>m_windows := w\<rparr>) = image_ok fb" "image_ok (fb\<lparr>m_colorbuffers := b\<rparr>) = image_ok fb"
  by (simp_all add: image_ok_def image_size_def)

text \<open>
  \<open>cx\<close>, \<open>xx\<close> and \<open>wx\<close> are the temporaries of the running operation; between operations there are
  none.
\<close>

definition owned :: "addr multiset \<Rightarrow> addr multiset \<Rightarrow> addr multiset \<Rightarrow> 'g world \<Rightarrow> bool" where
  "owned cx xx wx w \<longleftrightarrow> finite (dom (w_wins w)) \<and> finite (dom (w_threads w)) \<and> 0 < w_next w \<and>
     (\<forall>a. a = NULL \<or> w_next w \<le> a \<longrightarrow> w_cbs w a = None \<and> w_ctxs w a = None \<and> w_wins w a = None) \<and>
     (\<exists>fb. w_fb w = Some fb \<and> image_ok fb \<and>
        (\<forall>h n. m_contexts fb h \<noteq> Some NULL \<and> m_windows fb h \<noteq> Some NULL \<and> m_colorbuffers fb h \<noteq> Some (NULL, n)) \<and>
        counted (w_cbs w) cb_count (\<lambda>a. cb_refs fb w a + count cx a) \<and>
        counted (w_ctxs w) rc_count (\<lambda>a. ctx_refs fb w a + count xx a) \<and>
        counted (w_wins w) ws_count (\<lambda>a. win_refs fb w a + count wx a))"

abbreviation fb_inv :: "'g world \<Rightarrow> bool" where
  "fb_inv \<equiv> owned {#} {#} {#}"

subsection \<open>What the library calls change\<close>

text \<open>
  \<open>alike w w'\<close>: the same objects with the same counts and the same references. Calls of the
  library and changes of other fields keep it.
\<close>

definition win_slots :: "WindowSurface \<Rightarrow> nat \<times> addr \<times> addr \<times> addr" where
  "win_slots v = (ws_count v, ws_attachedColorBuffer v, ws_readContext v, ws_drawContext v)"

definition fb_slots ::
  "FrameBuffer \<Rightarrow> (u32 \<Rightarrow> addr option) \<times> (u32 \<Rightarrow> addr option) \<times> (u32 \<Rightarrow> (addr \<times> u32) option) \<times> bool \<times> nat \<times> nat option" where
  "fb_slots fb = (m_contexts fb, m_windows fb, m_colorbuffers fb, fb_onPost fb, image_size fb, map_option length (fb_image fb))"

lemma image_size_fields [simp]:
  "image_size (fb\<lparr>fb_prevContext := a, fb_prevReadSurf := b, fb_prevDrawSurf := c\<rparr>) = image_size fb"
  "image_size (fb\<lparr>fb_eglContextInitialized := i\<rparr>) = image_size fb" "image_size (fb\<lparr>fb_lastPosted := h\<rparr>) = image_size fb"
  "image_size (fb\<lparr>fb_zRot := z\<rparr>) = image_size fb" "image_size (fb\<lparr>fb_eglSurface := s, fb_subWin := n\<rparr>) = image_size fb"
  "image_size (fb\<lparr>fb_onPost := o1\<rparr>) = image_size fb" "image_size (fb\<lparr>fb_image := m\<rparr>) = image_size fb"
  by (simp_all add: image_size_def)

lemma slots_image: "fb_slots fb' = fb_slots fb \<Longrightarrow> image_ok fb' = image_ok fb"
  by (cases "fb_image fb"; cases "fb_image fb'") (auto simp: fb_slots_def image_ok_def)

definition alike :: "'g world \<Rightarrow> 'g world \<Rightarrow> bool" where
  "alike w w' \<longleftrightarrow> (\<forall>a. map_option cb_count (w_cbs w' a) = map_option cb_count (w_cbs w a)) \<and> w_ctxs w' = w_ctxs w \<and>
     (\<forall>a. map_option win_slots (w_wins w' a) = map_option win_slots (w_wins w a)) \<and> w_threads w' = w_threads w \<and>
     w_configs w' = w_configs w \<and> w_next w' = w_next w \<and> s_nextHandle w' = s_nextHandle w \<and>
     map_option fb_slots (w_fb w') = map_option fb_slots (w_fb w)"

lemma alike_refl [simp]: "alike w w"
  by (simp add: alike_def)

lemma alike_trans: "alike u v \<Longrightarrow> alike v w \<Longrightarrow> alike u w"
  by (simp add: alike_def)

lemma ask_fields [simp]:
  "w_fb (snd (ask gl t c w)) = w_fb w" "w_cbs (snd (ask gl t c w)) = w_cbs w" "w_ctxs (snd (ask gl t c w)) = w_ctxs w"
  "w_wins (snd (ask gl t c w)) = w_wins w" "w_threads (snd (ask gl t c w)) = w_threads w" "w_next (snd (ask gl t c w)) = w_next w"
  "w_configs (snd (ask gl t c w)) = w_configs w" "s_nextHandle (snd (ask gl t c w)) = s_nextHandle w"
  by (simp_all add: ask_def split: prod.splits)

lemma tell_fields [simp]:
  "w_fb (tell gl t cs w) = w_fb w" "w_cbs (tell gl t cs w) = w_cbs w" "w_ctxs (tell gl t cs w) = w_ctxs w"
  "w_wins (tell gl t cs w) = w_wins w" "w_threads (tell gl t cs w) = w_threads w" "w_next (tell gl t cs w) = w_next w"
  "w_configs (tell gl t cs w) = w_configs w" "s_nextHandle (tell gl t cs w) = s_nextHandle w"
  by (induction cs arbitrary: w) (simp_all add: tell_def)

lemma set_fb_fields [simp]:
  "w_fb (set_fb f w) = map_option f (w_fb w)" "w_cbs (set_fb f w) = w_cbs w" "w_ctxs (set_fb f w) = w_ctxs w"
  "w_wins (set_fb f w) = w_wins w" "w_threads (set_fb f w) = w_threads w" "w_next (set_fb f w) = w_next w"
  "w_configs (set_fb f w) = w_configs w" "s_nextHandle (set_fb f w) = s_nextHandle w"
  by (simp_all add: set_fb_def)

lemma alike_calls [simp]: "alike w (snd (ask gl t c w')) = alike w w'" "alike w (tell gl t cs w') = alike w w'"
  by (simp_all add: alike_def)

lemma alike_set_fb [simp]:
  assumes "\<And>fb. fb_slots (f fb) = fb_slots fb"
  shows "alike w (set_fb f w') = alike w w'"
proof -
  have "fb_slots \<circ> f = fb_slots" using assms by auto
  then show ?thesis by (simp add: alike_def option.map_comp)
qed

lemma alike_None:
  assumes "alike w w'"
  shows "(w_cbs w' a = None) = (w_cbs w a = None)" "(w_wins w' a = None) = (w_wins w a = None)" "(w_fb w' = None) = (w_fb w = None)"
  using assms unfolding alike_def by (metis map_option_is_None)+

lemma counted_cong:
  assumes "\<And>a. map_option cnt (h' a) = map_option cnt (h a)" and "\<And>a. r' a = r a"
  shows "counted h' cnt r' = counted h cnt r"
proof -
  have "(case h' a of None \<Rightarrow> r' a = 0 | Some obj \<Rightarrow> cnt obj = r' a \<and> 0 < r' a) =
      (case h a of None \<Rightarrow> r a = 0 | Some obj \<Rightarrow> cnt obj = r a \<and> 0 < r a)" for a
    using assms [of a] by (cases "h a"; cases "h' a") auto
  then show ?thesis by (simp add: counted_def)
qed

lemma alike_dom: "alike w w' \<Longrightarrow> dom (w_cbs w') = dom (w_cbs w) \<and> dom (w_wins w') = dom (w_wins w)"
  by (auto simp: dom_def alike_None)

lemma alike_slots:
  assumes "alike w w'" and "w_wins w' a = Some v'"
  obtains v where "w_wins w a = Some v" "win_slots v' = win_slots v"
  using assms unfolding alike_def by (metis map_option_eq_Some)

lemma alike_refs:
  assumes "alike w w'" and "fb_slots fb' = fb_slots fb"
  shows "cb_refs fb' w' = cb_refs fb w" "ctx_refs fb' w' = ctx_refs fb w" "win_refs fb' w' = win_refs fb w"
proof -
  have m: "map_option f (map_option win_slots (w_wins w' a)) = map_option f (map_option win_slots (w_wins w a))" for f a
    using assms(1) by (simp add: alike_def)
  have "refs ws_attachedColorBuffer (w_wins w') = refs ws_attachedColorBuffer (w_wins w)"
    "refs ws_readContext (w_wins w') = refs ws_readContext (w_wins w)" "refs ws_drawContext (w_wins w') = refs ws_drawContext (w_wins w)"
    by (rule refs_cong, use m [of "\<lambda>(n, a, r, d). a"] m [of "\<lambda>(n, a, r, d). r"] m [of "\<lambda>(n, a, r, d). d"] in
        \<open>simp add: option.map_comp comp_def win_slots_def\<close>)+
  then show "cb_refs fb' w' = cb_refs fb w" "ctx_refs fb' w' = ctx_refs fb w" "win_refs fb' w' = win_refs fb w"
    using assms by (intro ext, simp add: cb_refs_def ctx_refs_def win_refs_def fb_slots_def alike_def)+
qed

lemma alike_owned:
  assumes al: "alike w w'" and "owned cx xx wx w"
  shows "owned cx xx wx w'"
proof -
  obtain fb where n: "\<forall>h n. m_contexts fb h \<noteq> Some NULL \<and> m_windows fb h \<noteq> Some NULL \<and> m_colorbuffers fb h \<noteq> Some (NULL, n)"
    and fb: "w_fb w = Some fb" "image_ok fb" "counted (w_cbs w) cb_count (\<lambda>a. cb_refs fb w a + count cx a)"
    "counted (w_ctxs w) rc_count (\<lambda>a. ctx_refs fb w a + count xx a)" "counted (w_wins w) ws_count (\<lambda>a. win_refs fb w a + count wx a)"
    and h: "finite (dom (w_wins w))" "finite (dom (w_threads w))" "0 < w_next w"
      "\<And>a. a = NULL \<or> w_next w \<le> a \<Longrightarrow> w_cbs w a = None \<and> w_ctxs w a = None \<and> w_wins w a = None"
    using assms(2) unfolding owned_def by blast
  obtain fb' where fb': "w_fb w' = Some fb'" "fb_slots fb' = fb_slots fb"
    using al fb(1) by (auto simp: alike_def)
  note r = alike_refs [OF al fb'(2)]
  have cnt: "map_option ws_count (w_wins w' a) = map_option ws_count (w_wins w a)" for a
    using arg_cong [of _ _ "map_option fst", OF al [unfolded alike_def, THEN conjunct2, THEN conjunct2, THEN conjunct1, rule_format, of a]]
    by (simp add: option.map_comp comp_def win_slots_def)
  have "counted (w_cbs w') cb_count (\<lambda>a. cb_refs fb' w' a + count cx a)"
    using fb(3) counted_cong [of cb_count "w_cbs w'" "w_cbs w" "\<lambda>a. cb_refs fb' w' a + count cx a" "\<lambda>a. cb_refs fb w a + count cx a"]
      r al by (simp add: alike_def)
  moreover have "counted (w_ctxs w') rc_count (\<lambda>a. ctx_refs fb' w' a + count xx a)" using fb(4) r al by (simp add: alike_def)
  moreover have "counted (w_wins w') ws_count (\<lambda>a. win_refs fb' w' a + count wx a)"
    using fb(5) counted_cong [of ws_count "w_wins w'" "w_wins w" "\<lambda>a. win_refs fb' w' a + count wx a" "\<lambda>a. win_refs fb w a + count wx a"]
      r cnt by simp
  moreover have "image_ok fb'" "\<forall>h n. m_contexts fb' h \<noteq> Some NULL \<and> m_windows fb' h \<noteq> Some NULL \<and> m_colorbuffers fb' h \<noteq> Some (NULL, n)"
    using fb(2) n slots_image [OF fb'(2)] fb'(2) by (simp_all add: fb_slots_def)
  moreover have "w_cbs w' a = None \<and> w_ctxs w' a = None \<and> w_wins w' a = None" if "a = NULL \<or> w_next w' \<le> a" for a
    using h(4) [of a] that al alike_None(1,2) [OF al, of a] by (auto simp: alike_def)
  ultimately show ?thesis unfolding owned_def
    using h(1-3) al alike_dom [OF al] fb'(1) by (auto simp: alike_def)
qed

subsection \<open>Operations that only call the library\<close>

lemma bind_locked_ok:
  assumes "w_fb w \<noteq> None"
  shows "\<exists>b w'. bind_locked gl t w = Some (b, w') \<and> alike w w'"
  using assms by (auto simp: bind_locked_def Let_def split_beta fb_slots_def)

lemma unbind_locked_ok:
  assumes "w_fb w \<noteq> None"
  shows "\<exists>b w'. unbind_locked gl t w = Some (b, w') \<and> alike w w'"
  using assms by (auto simp: unbind_locked_def Let_def split_beta fb_slots_def)

lemma unbind_after:
  assumes "alike w w3" and "w_fb w \<noteq> None"
  shows "\<exists>r w4. unbind_locked gl t w3 = Some (r, w4) \<and> alike w w4"
proof -
  have "w_fb w3 \<noteq> None" using assms(2) unfolding alike_None(3) [OF assms(1)] .
  from unbind_locked_ok [OF this] obtain r w4 where "unbind_locked gl t w3 = Some (r, w4)" "alike w3 w4" by blast
  then show ?thesis using alike_trans [OF assms(1)] by blast
qed

lemma alike_upd_cb:
  "alike w w' \<Longrightarrow> h = w_cbs w' \<Longrightarrow> h a = Some cb \<Longrightarrow> cb_count cb' = cb_count cb \<Longrightarrow> alike w (w'\<lparr>w_cbs := h(a \<mapsto> cb')\<rparr>)"
  by (rule alike_trans) (auto simp: alike_def)

lemma alike_upd_win:
  "alike w w' \<Longrightarrow> h = w_wins w' \<Longrightarrow> h a = Some v \<Longrightarrow> win_slots v' = win_slots v \<Longrightarrow> alike w (w'\<lparr>w_wins := h(a \<mapsto> v')\<rparr>)"
  by (rule alike_trans) (auto simp: alike_def)

lemma subUpdate_ok:
  assumes "w_fb w \<noteq> None" and "w_cbs w a \<noteq> None"
  shows "\<exists>w'. subUpdate gl t a x y width height fmt ty (Some pixels) w = Some w' \<and> alike w w'"
proof -
  obtain b w1 where b: "bind_locked gl t w = Some (b, w1)" "alike w w1" using bind_locked_ok [OF assms(1)] by blast
  obtain cb where cb: "w_cbs w1 a = Some cb" using assms(2) alike_None(1) [OF b(2), of a] by auto
  let ?w2 = "tell gl t [Gl1 (BindTexture (cb_tex cb)), Gl1 (PixelStorei 0x0CF5 1), Gl1 (TexSubImage2D x y width height fmt ty pixels)] w1"
  have "alike w ?w2" using b(2) by simp
  from unbind_after [OF this assms(1)] obtain r w3 where "unbind_locked gl t ?w2 = Some (r, w3)" "alike w w3" by blast
  then show ?thesis using b cb by (auto simp: subUpdate_def)
qed

lemma cb_bind_fbo_ok:
  assumes "w_cbs w a \<noteq> None"
  shows "\<exists>b w'. cb_bind_fbo gl t a w = Some (b, w') \<and> alike w w'"
proof -
  obtain cb where cb: "w_cbs w a = Some cb" using assms by blast
  show ?thesis
    by (auto simp: cb_bind_fbo_def cb Let_def split_beta set_cb_def intro!: alike_upd_cb)
qed

text \<open>A thread of the renderer has a current context that is alive, or none.\<close>

definition ctx_alive :: "nat \<Rightarrow> 'g world \<Rightarrow> bool" where
  "ctx_alive t w \<longleftrightarrow> (\<exists>ti. w_threads w t = Some ti \<and> (ti_currContext ti \<noteq> NULL \<longrightarrow> w_ctxs w (ti_currContext ti) \<noteq> None))"

lemma alike_alive: "alike w w' \<Longrightarrow> ctx_alive t w' = ctx_alive t w"
  by (simp add: alike_def ctx_alive_def)

lemma curr_context_ok: "ctx_alive t w \<Longrightarrow> \<exists>c. curr_context t w = Some c"
  by (auto simp: ctx_alive_def curr_context_def)

lemma blit_ok:
  assumes "w_fb w \<noteq> None" and "w_cbs w a \<noteq> None" and "ctx_alive t w"
  shows "\<exists>b w'. blitFromCurrentReadBuffer gl t a img w = Some (b, w') \<and> alike w w'"
proof -
  obtain c where c: "curr_context t w = Some c" using curr_context_ok [OF assms(3)] by blast
  obtain b w1 where b: "bind_locked gl t w = Some (b, w1)" "alike w w1" using bind_locked_ok [OF assms(1)] by blast
  have "w_cbs w1 a \<noteq> None" using assms(2) alike_None(1) [OF b(2)] by simp
  from cb_bind_fbo_ok [OF this] obtain d w2 where d: "cb_bind_fbo gl t a w1 = Some (d, w2)" "alike w1 w2" by blast
  have al: "alike w w2" using alike_trans [OF b(2) d(2)] .
  obtain cb where cb: "w_cbs w2 a = Some cb" using assms(2) alike_None(1) [OF al, of a] by auto
  have u: "\<exists>b w'. (unbind_locked gl t w3 \<bind> (\<lambda>(r, w4). Some (True, w4))) = Some (b, w') \<and> alike w w'" if "alike w w3" for w3
    using unbind_after [OF that assms(1), of gl t] by auto
  show ?thesis using b c d cb al
    by (cases c; cases b; cases d) (auto simp: blitFromCurrentReadBuffer_def Let_def intro!: u)
qed

lemma bind_texture_ok:
  assumes "w_cbs w a \<noteq> None" and "ctx_alive t w"
  shows "\<exists>b w'. bindToTexture gl t a w = Some (b, w') \<and> alike w w'"
    and "\<exists>b w'. bindToRenderbuffer gl t a w = Some (b, w') \<and> alike w w'"
  using assms curr_context_ok [OF assms(2)] by (auto simp: bindToTexture_def bindToRenderbuffer_def split: option.splits)

lemma cb_post_ok: "w_cbs w a \<noteq> None \<Longrightarrow> \<exists>b w'. cb_post gl t a w = Some (b, w') \<and> alike w w'"
  by (auto simp: cb_post_def)

text \<open>
  Reading a colour buffer back into a block: only the framebuffer object of the colour buffer may
  change, and the block must be large enough for the pixels.
\<close>

definition cb_shape :: "ColorBuffer \<Rightarrow> u32 \<times> u32 \<times> u32" where
  "cb_shape cb = (cb_width cb, cb_height cb, cb_internalFormat cb)"

lemma locked_cbs:
  "bind_locked gl t w = Some (b, w') \<Longrightarrow> w_cbs w' = w_cbs w" "unbind_locked gl t w = Some (b, w') \<Longrightarrow> w_cbs w' = w_cbs w"
  "cb_post gl t a w = Some (b, w') \<Longrightarrow> w_cbs w' = w_cbs w"
  by (auto simp: bind_locked_def unbind_locked_def cb_post_def Let_def split_beta bind_eq_Some_conv split: if_splits)

lemma bind_fbo_shape: "cb_bind_fbo gl t a w = Some (b, w') \<Longrightarrow> map_option cb_shape (w_cbs w' a) = map_option cb_shape (w_cbs w a)"
  by (auto simp: cb_bind_fbo_def Let_def split_beta set_cb_def bind_eq_Some_conv cb_shape_def split: if_splits)

lemma readback_ok:
  assumes fb: "w_fb w \<noteq> None" and cb: "w_cbs w a = Some cb"
  shows "(\<exists>mem' w'. cb_readback gl t a (Some mem) w = Some (Some mem', w') \<and> length mem' = length mem \<and> alike w w') \<or>
    cb_readback gl t a (Some mem) w = None \<and> (\<exists>g. length mem < length (gl_pixels gl t (cb_width cb) (cb_height cb) (cb_internalFormat cb) g))"
proof -
  obtain b w1 where 1: "bind_locked gl t w = Some (b, w1)" "alike w w1" using bind_locked_ok [OF fb] by blast
  have c1: "w_cbs w1 a = Some cb" using locked_cbs(1) [OF 1(1)] cb by simp
  then obtain d w2 where 2: "cb_bind_fbo gl t a w1 = Some (d, w2)" "alike w1 w2" using cb_bind_fbo_ok [of w1 a] by blast
  obtain cb2 where c2: "w_cbs w2 a = Some cb2" "cb_shape cb2 = cb_shape cb" using bind_fbo_shape [OF 2(1)] c1 by auto
  let ?px = "gl_pixels gl t (cb_width cb2) (cb_height cb2) (cb_internalFormat cb2) (w_gl w2)"
  have px: "?px = gl_pixels gl t (cb_width cb) (cb_height cb) (cb_internalFormat cb) (w_gl w2)" using c2(2) by (simp add: cb_shape_def)
  have al: "alike w w2" using alike_trans [OF 1(2) 2(2)] .
  have "\<exists>r w4. unbind_locked gl t w3 = Some (r, w4) \<and> alike w w4" if "alike w w3" for w3 by (rule unbind_after [OF that fb])
  from this [of w2] this [of "tell gl t [Gl1 (BindFramebuffer 0)] w2"] al obtain r w4 r' w4' where
    "unbind_locked gl t w2 = Some (r, w4)" "alike w w4"
    "unbind_locked gl t (tell gl t [Gl1 (BindFramebuffer 0)] w2) = Some (r', w4')" "alike w w4'" by auto
  then show ?thesis using 1 2(1) c2(1) px
    by (cases b; cases d; cases "length ?px \<le> length mem") (auto simp: cb_readback_def block_write_def not_le)
qed

lemma unbind_fbo_ok: "ctx_alive t w \<Longrightarrow> \<exists>w'. unbind_fbo gl t w = Some w' \<and> alike w w'"
  using curr_context_ok [of t w] by (auto simp: unbind_fbo_def split: option.splits)

text \<open>The colour buffer of a surface is alive, or there is none.\<close>

definition win_alive :: "addr \<Rightarrow> 'g world \<Rightarrow> bool" where
  "win_alive a w \<longleftrightarrow> (\<exists>v. w_wins w a = Some v \<and>
     (ws_attachedColorBuffer v \<noteq> NULL \<longrightarrow> w_cbs w (ws_attachedColorBuffer v) \<noteq> None))"

lemma alike_win_alive:
  assumes "alike w w'"
  shows "win_alive a w' = win_alive a w"
proof -
  have "map_option win_slots (w_wins w' a) = map_option win_slots (w_wins w a)" using assms by (simp add: alike_def)
  then have "map_option ws_attachedColorBuffer (w_wins w' a) = map_option ws_attachedColorBuffer (w_wins w a)"
    by (cases "w_wins w a"; cases "w_wins w' a") (auto simp: win_slots_def)
  then show ?thesis using alike_None(1) [OF assms]
    by (cases "w_wins w a"; cases "w_wins w' a") (auto simp: win_alive_def)
qed

lemma create_fbo_ok:
  assumes "win_alive a w"
  shows "\<exists>w'. create_fbo G gl t a w = Some w' \<and> alike w w'"
proof -
  obtain v where v: "w_wins w a = Some v" "ws_attachedColorBuffer v \<noteq> NULL \<longrightarrow> w_cbs w (ws_attachedColorBuffer v) \<noteq> None"
    using assms by (auto simp: win_alive_def)
  then show ?thesis
    by (auto simp: create_fbo_def Let_def split_beta set_win_def win_slots_def intro!: alike_upd_win)
qed

lemma bind_fbo_ok:
  assumes "win_alive a w" and "ctx_alive t w"
  shows "\<exists>w'. bind_fbo gl t a w = Some w' \<and> alike w w'"
proof -
  obtain c where c: "curr_context t w = Some c" using curr_context_ok [OF assms(2)] by blast
  obtain v where v: "w_wins w a = Some v" using assms(1) by (auto simp: win_alive_def)
  show ?thesis using c v create_fbo_ok [OF assms(1)] by (auto simp: bind_fbo_def create_fbo_api1_def create_fbo_api2_def split: option.splits)
qed

lemma resizePbuffer_ok:
  assumes "w_wins w a \<noteq> None" and "w_fb w \<noteq> None"
  shows "\<exists>b w'. resizePbuffer gl t a width height w = Some (b, w') \<and> alike w w'"
proof -
  obtain v fb where "w_wins w a = Some v" "w_fb w = Some fb" using assms by blast
  then show ?thesis
    by (auto simp: resizePbuffer_def Let_def split_beta set_win_def win_slots_def intro!: alike_upd_win)
qed

lemma blitToColorBuffer_ok:
  assumes "win_alive a w" and "ctx_alive t w" and "w_fb w \<noteq> None" and "w_wins w a = Some v" "ws_attachedColorBuffer v \<noteq> NULL"
  shows "\<exists>b w'. blitToColorBuffer gl t a w = Some (b, w') \<and> alike w w'"
proof -
  obtain w1 where 1: "unbind_fbo gl t w = Some w1" "alike w w1" using unbind_fbo_ok [OF assms(2)] by blast
  have "w_cbs w (ws_attachedColorBuffer v) \<noteq> None" using assms(1,4,5) by (auto simp: win_alive_def)
  then have "w_fb w1 \<noteq> None" "w_cbs w1 (ws_attachedColorBuffer v) \<noteq> None" "ctx_alive t w1"
    using assms(2,3) alike_None [OF 1(2)] alike_alive [OF 1(2)] by simp_all
  from blit_ok [OF this] obtain b w2 where 2: "blitFromCurrentReadBuffer gl t (ws_attachedColorBuffer v) (ws_blitEGLImage v) w1 = Some (b, w2)"
    "alike w1 w2" by blast
  have al: "alike w w2" using alike_trans [OF 1(2) 2(2)] .
  have "win_alive a w2" "ctx_alive t w2" using assms(1,2) alike_win_alive [OF al] alike_alive [OF al] by simp_all
  from bind_fbo_ok [OF this] obtain w3 where 3: "bind_fbo gl t a w2 = Some w3" "alike w2 w3" by blast
  show ?thesis using 1(1) 2(1) 3(1) alike_trans [OF al 3(2)] assms(4) by (auto simp: blitToColorBuffer_def)
qed

end
