(* ===== verification/FrameBufferOwn.thy ===== *)
theory FrameBufferOwn
  imports FrameBufferInv
begin

text \<open>
  The ownership steps: taking a reference, releasing one (with the deletions it causes), and
  moving one between a temporary and a place that holds it.
\<close>

subsection \<open>Objects that are referred to are alive\<close>

lemma counted_iff:
  "counted h c r \<longleftrightarrow> (\<forall>a. a \<noteq> NULL \<longrightarrow> (h a = None \<longrightarrow> r a = 0) \<and> (\<forall>obj. h a = Some obj \<longrightarrow> c obj = r a \<and> 0 < r a))"
  unfolding counted_def by (simp split: option.split) blast

lemma counted_alive: "counted h c r \<Longrightarrow> a \<noteq> NULL \<Longrightarrow> 0 < r a \<Longrightarrow> h a \<noteq> None"
  unfolding counted_iff by (metis less_irrefl)

lemma counted_upd:
  assumes "counted h c r" and "c obj = r' a" and "0 < r' a" and eq: "\<And>b. b \<noteq> a \<Longrightarrow> b \<noteq> NULL \<Longrightarrow> r' b = r b"
  shows "counted (h(a \<mapsto> obj)) c r'"
  unfolding counted_iff
proof (intro allI impI)
  fix b :: addr
  assume b: "b \<noteq> NULL"
  then have "(h b = None \<longrightarrow> r b = 0) \<and> (\<forall>obj. h b = Some obj \<longrightarrow> c obj = r b \<and> 0 < r b)"
    using assms(1) unfolding counted_iff by blast
  then show "((h(a \<mapsto> obj)) b = None \<longrightarrow> r' b = 0) \<and> (\<forall>o'. (h(a \<mapsto> obj)) b = Some o' \<longrightarrow> c o' = r' b \<and> 0 < r' b)"
    using assms(2,3) b eq [of b] by (cases "b = a") auto
qed

lemma counted_del:
  assumes "counted h c r" and "r' a = 0" and eq: "\<And>b. b \<noteq> a \<Longrightarrow> b \<noteq> NULL \<Longrightarrow> r' b = r b"
  shows "counted (h(a := None)) c r'"
  unfolding counted_iff
proof (intro allI impI)
  fix b :: addr
  assume b: "b \<noteq> NULL"
  then have "(h b = None \<longrightarrow> r b = 0) \<and> (\<forall>obj. h b = Some obj \<longrightarrow> c obj = r b \<and> 0 < r b)"
    using assms(1) unfolding counted_iff by blast
  then show "((h(a := None)) b = None \<longrightarrow> r' b = 0) \<and> (\<forall>o'. (h(a := None)) b = Some o' \<longrightarrow> c o' = r' b \<and> 0 < r' b)"
    using assms(2) b eq [of b] by (cases "b = a") auto
qed

lemma counted_same:
  assumes "counted h c r" and "\<And>b. b \<noteq> NULL \<Longrightarrow> r' b = r b"
  shows "counted h c r'"
  using assms unfolding counted_iff by simp

lemma finite_handles [simp]: "finite (dom (m :: u32 \<Rightarrow> 'v option))"
  by (rule finite_subset [of _ UNIV]) auto

lemma owned_alive:
  assumes "owned cx xx wx w" and "w_fb w = Some fb"
  shows owned_map_cb: "m_colorbuffers fb h = Some (a, n) \<Longrightarrow> a \<noteq> NULL \<and> w_cbs w a \<noteq> None"
    and owned_map_ctx: "m_contexts fb h = Some a \<Longrightarrow> a \<noteq> NULL \<and> w_ctxs w a \<noteq> None"
    and owned_map_win: "m_windows fb h = Some a \<Longrightarrow> a \<noteq> NULL \<and> w_wins w a \<noteq> None"
proof -
  obtain f where f: "w_fb w = Some f"
    "\<forall>h n. m_contexts f h \<noteq> Some NULL \<and> m_windows f h \<noteq> Some NULL \<and> m_colorbuffers f h \<noteq> Some (NULL, n)"
    "counted (w_cbs w) cb_count (\<lambda>a. cb_refs f w a + count cx a)"
    "counted (w_ctxs w) rc_count (\<lambda>a. ctx_refs f w a + count xx a)"
    "counted (w_wins w) ws_count (\<lambda>a. win_refs f w a + count wx a)"
    using assms(1) unfolding owned_def by blast
  have fb: "f = fb" using f(1) assms(2) by simp
  show "a \<noteq> NULL \<and> w_cbs w a \<noteq> None" if "m_colorbuffers fb h = Some (a, n)"
  proof
    show nz: "a \<noteq> NULL" using f(2) that unfolding fb by metis
    show "w_cbs w a \<noteq> None"
      by (rule counted_alive [OF f(3) nz]) (use refs_pos [of "m_colorbuffers fb" h "(a, n)" fst] that fb in \<open>simp add: cb_refs_def\<close>)
  qed
  show "a \<noteq> NULL \<and> w_ctxs w a \<noteq> None" if "m_contexts fb h = Some a"
  proof
    show nz: "a \<noteq> NULL" using f(2) that unfolding fb by metis
    show "w_ctxs w a \<noteq> None"
      by (rule counted_alive [OF f(4) nz]) (use refs_pos [of "m_contexts fb" h "a" id] that fb in \<open>simp add: ctx_refs_def\<close>)
  qed
  show "a \<noteq> NULL \<and> w_wins w a \<noteq> None" if "m_windows fb h = Some a"
  proof
    show nz: "a \<noteq> NULL" using f(2) that unfolding fb by metis
    show "w_wins w a \<noteq> None"
      by (rule counted_alive [OF f(5) nz]) (use refs_pos [of "m_windows fb" h "a" id] that fb in \<open>simp add: win_refs_def\<close>)
  qed
qed

lemma owned_win_links:
  assumes "owned cx xx wx w" and "w_wins w b = Some v"
  shows "ws_attachedColorBuffer v \<noteq> NULL \<Longrightarrow> w_cbs w (ws_attachedColorBuffer v) \<noteq> None"
    and "ws_readContext v \<noteq> NULL \<Longrightarrow> w_ctxs w (ws_readContext v) \<noteq> None"
    and "ws_drawContext v \<noteq> NULL \<Longrightarrow> w_ctxs w (ws_drawContext v) \<noteq> None"
proof -
  obtain f where f: "counted (w_cbs w) cb_count (\<lambda>a. cb_refs f w a + count cx a)"
    "counted (w_ctxs w) rc_count (\<lambda>a. ctx_refs f w a + count xx a)" "finite (dom (w_wins w))"
    using assms(1) unfolding owned_def by blast
  note p = refs_pos [OF f(3) assms(2)]
  show "ws_attachedColorBuffer v \<noteq> NULL \<Longrightarrow> w_cbs w (ws_attachedColorBuffer v) \<noteq> None"
    by (rule counted_alive [OF f(1)]) (use p [of ws_attachedColorBuffer] in \<open>simp_all add: cb_refs_def\<close>)
  show "ws_readContext v \<noteq> NULL \<Longrightarrow> w_ctxs w (ws_readContext v) \<noteq> None"
    by (rule counted_alive [OF f(2)]) (use p [of ws_readContext] in \<open>simp_all add: ctx_refs_def\<close>)
  show "ws_drawContext v \<noteq> NULL \<Longrightarrow> w_ctxs w (ws_drawContext v) \<noteq> None"
    by (rule counted_alive [OF f(2)]) (use p [of ws_drawContext] in \<open>simp_all add: ctx_refs_def\<close>)
qed

lemma owned_thread_links:
  assumes "owned cx xx wx w" and "w_threads w t = Some ti"
  shows "ti_currContext ti \<noteq> NULL \<Longrightarrow> w_ctxs w (ti_currContext ti) \<noteq> None"
    and "ti_currDrawSurf ti \<noteq> NULL \<Longrightarrow> w_wins w (ti_currDrawSurf ti) \<noteq> None"
    and "ti_currReadSurf ti \<noteq> NULL \<Longrightarrow> w_wins w (ti_currReadSurf ti) \<noteq> None"
proof -
  obtain f where f: "counted (w_ctxs w) rc_count (\<lambda>a. ctx_refs f w a + count xx a)"
    "counted (w_wins w) ws_count (\<lambda>a. win_refs f w a + count wx a)" "finite (dom (w_threads w))"
    using assms(1) unfolding owned_def by blast
  note p = refs_pos [OF f(3) assms(2)]
  show "ti_currContext ti \<noteq> NULL \<Longrightarrow> w_ctxs w (ti_currContext ti) \<noteq> None"
    by (rule counted_alive [OF f(1)]) (use p [of ti_currContext] in \<open>simp_all add: ctx_refs_def\<close>)
  show "ti_currDrawSurf ti \<noteq> NULL \<Longrightarrow> w_wins w (ti_currDrawSurf ti) \<noteq> None"
    by (rule counted_alive [OF f(2)]) (use p [of ti_currDrawSurf] in \<open>simp_all add: win_refs_def\<close>)
  show "ti_currReadSurf ti \<noteq> NULL \<Longrightarrow> w_wins w (ti_currReadSurf ti) \<noteq> None"
    by (rule counted_alive [OF f(2)]) (use p [of ti_currReadSurf] in \<open>simp_all add: win_refs_def\<close>)
qed

lemma owned_extra:
  assumes "owned cx xx wx w" and "a \<noteq> NULL"
  shows "a \<in># cx \<Longrightarrow> w_cbs w a \<noteq> None" "a \<in># xx \<Longrightarrow> w_ctxs w a \<noteq> None" "a \<in># wx \<Longrightarrow> w_wins w a \<noteq> None"
proof -
  obtain f where f: "counted (w_cbs w) cb_count (\<lambda>a. cb_refs f w a + count cx a)"
    "counted (w_ctxs w) rc_count (\<lambda>a. ctx_refs f w a + count xx a)" "counted (w_wins w) ws_count (\<lambda>a. win_refs f w a + count wx a)"
    using assms(1) unfolding owned_def by blast
  show "a \<in># cx \<Longrightarrow> w_cbs w a \<noteq> None" by (rule counted_alive [OF f(1) assms(2)]) simp
  show "a \<in># xx \<Longrightarrow> w_ctxs w a \<noteq> None" by (rule counted_alive [OF f(2) assms(2)]) simp
  show "a \<in># wx \<Longrightarrow> w_wins w a \<noteq> None" by (rule counted_alive [OF f(3) assms(2)]) simp
qed

subsection \<open>Changing the objects\<close>

lemma refs_world [simp]:
  "cb_refs fb (w\<lparr>w_cbs := h\<rparr>) = cb_refs fb w" "ctx_refs fb (w\<lparr>w_cbs := h\<rparr>) = ctx_refs fb w" "win_refs fb (w\<lparr>w_cbs := h\<rparr>) = win_refs fb w"
  "cb_refs fb (w\<lparr>w_ctxs := h'\<rparr>) = cb_refs fb w" "ctx_refs fb (w\<lparr>w_ctxs := h'\<rparr>) = ctx_refs fb w" "win_refs fb (w\<lparr>w_ctxs := h'\<rparr>) = win_refs fb w"
  "cb_refs fb (w\<lparr>w_next := n\<rparr>) = cb_refs fb w" "ctx_refs fb (w\<lparr>w_next := n\<rparr>) = ctx_refs fb w" "win_refs fb (w\<lparr>w_next := n\<rparr>) = win_refs fb w"
  "win_refs fb (w\<lparr>w_wins := h''\<rparr>) = win_refs fb w"
  by (simp_all add: fun_eq_iff cb_refs_def ctx_refs_def win_refs_def)

lemma owned_set_cbs:
  assumes "owned cx xx wx w" and "dom h \<subseteq> dom (w_cbs w)"
    and "\<And>fb. w_fb w = Some fb \<Longrightarrow> counted (w_cbs w) cb_count (\<lambda>a. cb_refs fb w a + count cx a) \<Longrightarrow>
      counted h cb_count (\<lambda>a. cb_refs fb w a + count cx' a)"
  shows "owned cx' xx wx (w\<lparr>w_cbs := h\<rparr>)"
proof -
  have "h a = None" if "w_cbs w a = None" for a using assms(2) that by (auto simp: dom_def)
  then show ?thesis using assms(1,3) unfolding owned_def by auto
qed

lemma owned_set_ctxs:
  assumes "owned cx xx wx w" and "dom h \<subseteq> dom (w_ctxs w)"
    and "\<And>fb. w_fb w = Some fb \<Longrightarrow> counted (w_ctxs w) rc_count (\<lambda>a. ctx_refs fb w a + count xx a) \<Longrightarrow>
      counted h rc_count (\<lambda>a. ctx_refs fb w a + count xx' a)"
  shows "owned cx xx' wx (w\<lparr>w_ctxs := h\<rparr>)"
proof -
  have "h a = None" if "w_ctxs w a = None" for a using assms(2) that by (auto simp: dom_def)
  then show ?thesis using assms(1,3) unfolding owned_def by auto
qed

text \<open>Replacing one surface by one with the same links.\<close>

definition links :: "WindowSurface \<Rightarrow> addr \<times> addr \<times> addr" where
  "links v = (ws_attachedColorBuffer v, ws_readContext v, ws_drawContext v)"

lemma refs_same_links:
  assumes "w_wins w a = Some v" and "links v' = links v"
  shows "cb_refs fb (w\<lparr>w_wins := (w_wins w)(a \<mapsto> v')\<rparr>) = cb_refs fb w" "ctx_refs fb (w\<lparr>w_wins := (w_wins w)(a \<mapsto> v')\<rparr>) = ctx_refs fb w"
proof -
  have "refs f ((w_wins w)(a \<mapsto> v')) = refs f (w_wins w)" if "f v' = f v" for f
    by (rule refs_cong) (simp add: assms(1) that)
  then show "cb_refs fb (w\<lparr>w_wins := (w_wins w)(a \<mapsto> v')\<rparr>) = cb_refs fb w" "ctx_refs fb (w\<lparr>w_wins := (w_wins w)(a \<mapsto> v')\<rparr>) = ctx_refs fb w"
    using assms(2) by (simp_all add: fun_eq_iff cb_refs_def ctx_refs_def links_def)
qed

lemma owned_set_win:
  assumes "owned cx xx wx w" and "w_wins w a = Some v" and "links v' = links v"
    and "\<And>fb. w_fb w = Some fb \<Longrightarrow> counted (w_wins w) ws_count (\<lambda>a. win_refs fb w a + count wx a) \<Longrightarrow>
      counted ((w_wins w)(a \<mapsto> v')) ws_count (\<lambda>a. win_refs fb w a + count wx' a)"
  shows "owned cx xx wx' (w\<lparr>w_wins := (w_wins w)(a \<mapsto> v')\<rparr>)"
proof -
  have "a \<noteq> NULL \<and> \<not> w_next w \<le> a" using assms(1,2) unfolding owned_def by (metis option.distinct(1))
  then show ?thesis using assms(1,2,4) refs_same_links [OF assms(2,3)] unfolding owned_def by auto
qed

subsection \<open>Taking a reference\<close>

lemma counted_null: "counted h c (\<lambda>a. r a + count (add_mset NULL m) a) = counted h c (\<lambda>a. r a + count m a)"
  by (auto simp: counted_iff)

lemma owned_null [simp]:
  "owned (add_mset NULL cx) xx wx w = owned cx xx wx w" "owned cx (add_mset NULL xx) wx w = owned cx xx wx w"
  "owned cx xx (add_mset NULL wx) w = owned cx xx wx w"
  unfolding owned_def counted_null by (rule refl)+

lemma cb_ref_ok:
  assumes "owned cx xx wx w" and "a = NULL \<or> w_cbs w a \<noteq> None"
  shows "\<exists>h. cb_ref a w = Some (w\<lparr>w_cbs := h\<rparr>) \<and> owned (add_mset a cx) xx wx (w\<lparr>w_cbs := h\<rparr>)"
proof (cases "a = NULL")
  case True
  then show ?thesis using assms(1) by (intro exI [of _ "w_cbs w"]) (simp add: cb_ref_def)
next
  case False
  then obtain cb where cb: "w_cbs w a = Some cb" using assms(2) by blast
  let ?h = "(w_cbs w)(a \<mapsto> cb\<lparr>cb_count := cb_count cb + 1\<rparr>)"
  have "owned (add_mset a cx) xx wx (w\<lparr>w_cbs := ?h\<rparr>)"
  proof (rule owned_set_cbs [OF assms(1)])
    fix fb assume c: "counted (w_cbs w) cb_count (\<lambda>a. cb_refs fb w a + count cx a)"
    then have "cb_count cb = cb_refs fb w a + count cx a" using False cb by (simp add: counted_iff)
    then show "counted ?h cb_count (\<lambda>b. cb_refs fb w b + count (add_mset a cx) b)"
      by (intro counted_upd [OF c]) auto
  qed (use cb in auto)
  then show ?thesis using False cb by (auto simp: cb_ref_def set_cb_def)
qed

lemma ctx_ref_ok:
  assumes "owned cx xx wx w" and "a = NULL \<or> w_ctxs w a \<noteq> None"
  shows "\<exists>h. ctx_ref a w = Some (w\<lparr>w_ctxs := h\<rparr>) \<and> owned cx (add_mset a xx) wx (w\<lparr>w_ctxs := h\<rparr>)"
proof (cases "a = NULL")
  case True
  then show ?thesis using assms(1) by (intro exI [of _ "w_ctxs w"]) (simp add: ctx_ref_def)
next
  case False
  then obtain c where cb: "w_ctxs w a = Some c" using assms(2) by blast
  let ?h = "(w_ctxs w)(a \<mapsto> c\<lparr>rc_count := rc_count c + 1\<rparr>)"
  have "owned cx (add_mset a xx) wx (w\<lparr>w_ctxs := ?h\<rparr>)"
  proof (rule owned_set_ctxs [OF assms(1)])
    fix fb assume k: "counted (w_ctxs w) rc_count (\<lambda>a. ctx_refs fb w a + count xx a)"
    then have "rc_count c = ctx_refs fb w a + count xx a" using False cb by (simp add: counted_iff)
    then show "counted ?h rc_count (\<lambda>b. ctx_refs fb w b + count (add_mset a xx) b)"
      by (intro counted_upd [OF k]) auto
  qed (use cb in auto)
  then show ?thesis using False cb by (auto simp: ctx_ref_def set_ctx_def)
qed

text \<open>The same surfaces with the same links.\<close>

definition same_links :: "'g world \<Rightarrow> 'g world \<Rightarrow> bool" where
  "same_links w w' \<longleftrightarrow> (\<forall>b. map_option links (w_wins w' b) = map_option links (w_wins w b))"

lemma win_ref_ok:
  assumes "owned cx xx wx w" and "a = NULL \<or> w_wins w a \<noteq> None"
  shows "\<exists>h. win_ref a w = Some (w\<lparr>w_wins := h\<rparr>) \<and> owned cx xx (add_mset a wx) (w\<lparr>w_wins := h\<rparr>) \<and> same_links w (w\<lparr>w_wins := h\<rparr>)"
proof (cases "a = NULL")
  case True
  then show ?thesis using assms(1) by (intro exI [of _ "w_wins w"]) (simp add: win_ref_def same_links_def)
next
  case False
  then obtain v where v: "w_wins w a = Some v" using assms(2) by blast
  let ?v = "v\<lparr>ws_count := ws_count v + 1\<rparr>"
  have l: "links ?v = links v" by (simp add: links_def)
  have "owned cx xx (add_mset a wx) (w\<lparr>w_wins := (w_wins w)(a \<mapsto> ?v)\<rparr>)"
  proof (rule owned_set_win [OF assms(1) v l])
    fix fb assume k: "counted (w_wins w) ws_count (\<lambda>a. win_refs fb w a + count wx a)"
    then have "ws_count v = win_refs fb w a + count wx a" using False v by (simp add: counted_iff)
    then show "counted ((w_wins w)(a \<mapsto> ?v)) ws_count (\<lambda>b. win_refs fb w b + count (add_mset a wx) b)"
      by (intro counted_upd [OF k]) auto
  qed
  then show ?thesis using False v by (auto simp: win_ref_def set_win_def same_links_def links_def)
qed

subsection \<open>Releasing a reference\<close>

definition frame :: "'g world \<Rightarrow> 'g world \<Rightarrow> bool" where
  "frame w w' \<longleftrightarrow> w_threads w' = w_threads w \<and> w_configs w' = w_configs w \<and> w_next w' = w_next w \<and> s_nextHandle w' = s_nextHandle w \<and>
     map_option fb_slots (w_fb w') = map_option fb_slots (w_fb w)"

lemma frame_trans: "frame u v \<Longrightarrow> frame v w \<Longrightarrow> frame u w"
  by (simp add: frame_def)

lemma frame_refl [simp]: "frame w w"
  by (simp add: frame_def)

lemma alike_frame: "alike w w' \<Longrightarrow> frame w w'"
  by (simp add: alike_def frame_def)

lemma alike_links:
  assumes "alike w w'"
  shows "same_links w w'"
proof -
  have e: "map_option links x = map_option snd (map_option win_slots x)" for x
    by (cases x) (simp_all add: win_slots_def links_def)
  show ?thesis using assms by (simp add: same_links_def alike_def e)
qed

lemma same_links_trans: "same_links u v \<Longrightarrow> same_links v w \<Longrightarrow> same_links u w"
  by (simp add: same_links_def)

lemma ColorBuffer_delete_ok:
  assumes "w_fb w \<noteq> None" and "w_cbs w a \<noteq> None"
  shows "\<exists>w'. ColorBuffer_delete gl t a w = Some w' \<and> alike (w\<lparr>w_cbs := (w_cbs w)(a := None)\<rparr>) w'"
proof -
  obtain cb where cb: "w_cbs w a = Some cb" using assms(2) by blast
  obtain b w1 where b: "bind_locked gl t w = Some (b, w1)" "alike w w1" using bind_locked_ok [OF assms(1)] by blast
  let ?w2 = "tell gl t ((if cb_eglImage cb \<noteq> 0 then [EglDestroyImage (cb_eglImage cb)] else []) @
      (if cb_fbo cb \<noteq> 0 then [Gl1 (DeleteFramebuffers (cb_fbo cb))] else []) @ [Gl1 (DeleteTextures (cb_blitTex cb))]) w1"
  have "alike w ?w2" using b(2) by simp
  from unbind_after [OF this assms(1)] obtain r w3 where u: "unbind_locked gl t ?w2 = Some (r, w3)" "alike w w3" by blast
  have "ColorBuffer_delete gl t a w = Some (w3\<lparr>w_cbs := (w_cbs w3)(a := None)\<rparr>)"
    using cb b(1) u(1) by (simp add: ColorBuffer_delete_def Let_def)
  moreover have "alike (w\<lparr>w_cbs := (w_cbs w)(a := None)\<rparr>) (w3\<lparr>w_cbs := (w_cbs w3)(a := None)\<rparr>)"
    using u(2) by (simp add: alike_def)
  ultimately show ?thesis by blast
qed

lemma cb_unref_ok:
  assumes "owned (add_mset a cx) xx wx w"
  shows "\<exists>w'. cb_unref gl t a w = Some w' \<and> owned cx xx wx w' \<and> frame w w' \<and> same_links w w' \<and> w_ctxs w' = w_ctxs w"
proof (cases "a = NULL")
  case True
  then show ?thesis using assms by (simp add: cb_unref_def same_links_def)
next
  case False
  then obtain cb where cb: "w_cbs w a = Some cb" using owned_extra(1) [OF assms] by auto
  have k: "cb_count cb = cb_refs fb w a + count cx a + 1" if "counted (w_cbs w) cb_count (\<lambda>b. cb_refs fb w b + count (add_mset a cx) b)" for fb
    using that False cb by (simp add: counted_iff)
  let ?cb = "cb\<lparr>cb_count := cb_count cb - 1\<rparr>"
  let ?w1 = "w\<lparr>w_cbs := (w_cbs w)(a \<mapsto> ?cb)\<rparr>"
  show ?thesis
  proof (cases "cb_count cb = 1")
    case True
    let ?w2 = "w\<lparr>w_cbs := (w_cbs w)(a := None)\<rparr>"
    have own: "owned cx xx wx ?w2"
    proof (rule owned_set_cbs [OF assms])
      fix fb assume c: "counted (w_cbs w) cb_count (\<lambda>b. cb_refs fb w b + count (add_mset a cx) b)"
      then show "counted ((w_cbs w)(a := None)) cb_count (\<lambda>b. cb_refs fb w b + count cx b)"
        using k [OF c] True by (intro counted_del [OF c]) auto
    qed auto
    have "w_fb ?w1 \<noteq> None" "w_cbs ?w1 a \<noteq> None" using assms by (auto simp: owned_def)
    from ColorBuffer_delete_ok [OF this] obtain w' where w': "ColorBuffer_delete gl t a ?w1 = Some w'" "alike ?w2 w'" by auto
    then have "cb_unref gl t a w = Some w'" using False cb True by (simp add: cb_unref_def set_cb_def)
    then show ?thesis using alike_owned [OF w'(2) own] alike_frame [OF w'(2)] alike_links [OF w'(2)] w'(2)
      by (auto simp: frame_def same_links_def alike_def)
  next
    case many: False
    have "owned cx xx wx ?w1"
    proof (rule owned_set_cbs [OF assms])
      fix fb assume c: "counted (w_cbs w) cb_count (\<lambda>b. cb_refs fb w b + count (add_mset a cx) b)"
      then show "counted ((w_cbs w)(a \<mapsto> ?cb)) cb_count (\<lambda>b. cb_refs fb w b + count cx b)"
        using k [OF c] many by (intro counted_upd [OF c]) auto
    qed (use cb in auto)
    then show ?thesis using False cb many by (auto simp: cb_unref_def set_cb_def frame_def same_links_def)
  qed
qed

lemma ctx_unref_ok:
  assumes "owned cx (add_mset a xx) wx w"
  shows "\<exists>w'. ctx_unref gl t a w = Some w' \<and> owned cx xx wx w' \<and> frame w w' \<and> same_links w w' \<and> w_cbs w' = w_cbs w"
proof (cases "a = NULL")
  case True
  then show ?thesis using assms by (simp add: ctx_unref_def same_links_def)
next
  case False
  then obtain c where c: "w_ctxs w a = Some c" using owned_extra(2) [OF assms] by auto
  have k: "rc_count c = ctx_refs fb w a + count xx a + 1" if "counted (w_ctxs w) rc_count (\<lambda>b. ctx_refs fb w b + count (add_mset a xx) b)" for fb
    using that False c by (simp add: counted_iff)
  let ?c = "c\<lparr>rc_count := rc_count c - 1\<rparr>"
  let ?w1 = "w\<lparr>w_ctxs := (w_ctxs w)(a \<mapsto> ?c)\<rparr>"
  obtain fb where fb: "w_fb w = Some fb" using assms by (auto simp: owned_def)
  show ?thesis
  proof (cases "rc_count c = 1")
    case True
    let ?w2 = "w\<lparr>w_ctxs := (w_ctxs w)(a := None)\<rparr>"
    have own: "owned cx xx wx ?w2"
    proof (rule owned_set_ctxs [OF assms])
      fix fb assume c: "counted (w_ctxs w) rc_count (\<lambda>b. ctx_refs fb w b + count (add_mset a xx) b)"
      then show "counted ((w_ctxs w)(a := None)) rc_count (\<lambda>b. ctx_refs fb w b + count xx b)"
        using k [OF c] True by (intro counted_del [OF c]) auto
    qed auto
    have "\<exists>w'. RenderContext_delete gl t a ?w1 = Some w' \<and> alike ?w2 w' \<and> w_cbs w' = w_cbs w"
      using fb by (auto simp: RenderContext_delete_def alike_def)
    then obtain w' where w': "RenderContext_delete gl t a ?w1 = Some w'" "alike ?w2 w'" "w_cbs w' = w_cbs w" by blast
    then have "ctx_unref gl t a w = Some w'" using False c True by (simp add: ctx_unref_def set_ctx_def)
    then show ?thesis using alike_owned [OF w'(2) own] alike_frame [OF w'(2)] alike_links [OF w'(2)] w'(2,3)
      by (auto simp: frame_def same_links_def alike_def)
  next
    case many: False
    have "owned cx xx wx ?w1"
    proof (rule owned_set_ctxs [OF assms])
      fix fb assume c: "counted (w_ctxs w) rc_count (\<lambda>b. ctx_refs fb w b + count (add_mset a xx) b)"
      then show "counted ((w_ctxs w)(a \<mapsto> ?c)) rc_count (\<lambda>b. ctx_refs fb w b + count xx b)"
        using k [OF c] many by (intro counted_upd [OF c]) auto
    qed (use c in auto)
    then show ?thesis using False c many by (auto simp: ctx_unref_def set_ctx_def frame_def same_links_def)
  qed
qed

subsection \<open>Moving references\<close>

lemma refs_move:
  "finite (dom m) \<Longrightarrow> m k = Some v \<Longrightarrow> refs f (m(k \<mapsto> v')) b + of_bool (f v = b) = refs f m b + of_bool (f v' = b)"
  by (simp add: refs_upd refs_del)

lemma refs_keep: "m k = Some v \<Longrightarrow> f v' = f v \<Longrightarrow> refs f (m(k \<mapsto> v')) = refs f m"
  by (rule refs_cong) simp

lemma counted_move:
  assumes "counted h c (\<lambda>b. r b + count (add_mset x m) b)" and "\<And>b. r' b + of_bool (y = b) = r b + of_bool (x = b)"
  shows "counted h c (\<lambda>b. r' b + count (add_mset y m) b)"
proof (rule counted_same [OF assms(1)])
  fix b show "r' b + count (add_mset y m) b = r b + count (add_mset x m) b" using assms(2) [of b] by (auto split: if_splits)
qed

text \<open>A field of a surface takes one temporary and gives back its old value.\<close>

lemma owned_upd_win:
  assumes "owned cx xx wx w" and v: "w_wins w a = Some v" and "ws_count v' = ws_count v"
    and "\<And>fb. w_fb w = Some fb \<Longrightarrow> counted (w_cbs w) cb_count (\<lambda>b. cb_refs fb w b + count cx b) \<Longrightarrow>
      counted (w_cbs w) cb_count (\<lambda>b. cb_refs fb (w\<lparr>w_wins := (w_wins w)(a \<mapsto> v')\<rparr>) b + count cx' b)"
    and "\<And>fb. w_fb w = Some fb \<Longrightarrow> counted (w_ctxs w) rc_count (\<lambda>b. ctx_refs fb w b + count xx b) \<Longrightarrow>
      counted (w_ctxs w) rc_count (\<lambda>b. ctx_refs fb (w\<lparr>w_wins := (w_wins w)(a \<mapsto> v')\<rparr>) b + count xx' b)"
  shows "owned cx' xx' wx (w\<lparr>w_wins := (w_wins w)(a \<mapsto> v')\<rparr>)"
proof -
  have "a \<noteq> NULL \<and> \<not> w_next w \<le> a" using assms(1,2) unfolding owned_def by (metis option.distinct(1))
  moreover have "counted ((w_wins w)(a \<mapsto> v')) ws_count r = counted (w_wins w) ws_count r" for r
    by (rule counted_cong) (use v assms(3) in auto)
  ultimately show ?thesis using assms(1,4,5) unfolding owned_def by auto
qed

lemma owned_finite: "owned cx xx wx w \<Longrightarrow> finite (dom (w_wins w)) \<and> finite (dom (w_threads w))"
  by (simp add: owned_def)

lemma owned_attach:
  assumes o: "owned (add_mset b cx) xx wx w" and v: "w_wins w a = Some v"
  shows "owned (add_mset (ws_attachedColorBuffer v) cx) xx wx (w\<lparr>w_wins := (w_wins w)(a \<mapsto> v\<lparr>ws_attachedColorBuffer := b\<rparr>)\<rparr>)"
proof (rule owned_upd_win [OF o v])
  note m = refs_move [of "w_wins w" a, OF conjunct1 [OF owned_finite [OF o]] v]
  show "counted (w_cbs w) cb_count (\<lambda>x. cb_refs fb (w\<lparr>w_wins := (w_wins w)(a \<mapsto> v\<lparr>ws_attachedColorBuffer := b\<rparr>)\<rparr>) x +
      count (add_mset (ws_attachedColorBuffer v) cx) x)"
    if "counted (w_cbs w) cb_count (\<lambda>x. cb_refs fb w x + count (add_mset b cx) x)" for fb
    by (rule counted_move [OF that]) (use m [of ws_attachedColorBuffer "v\<lparr>ws_attachedColorBuffer := b\<rparr>"] in \<open>simp add: cb_refs_def\<close>)
  show "counted (w_ctxs w) rc_count (\<lambda>x. ctx_refs fb (w\<lparr>w_wins := (w_wins w)(a \<mapsto> v\<lparr>ws_attachedColorBuffer := b\<rparr>)\<rparr>) x + count xx x)"
    if "counted (w_ctxs w) rc_count (\<lambda>x. ctx_refs fb w x + count xx x)" for fb
    by (rule counted_same [OF that]) (simp add: ctx_refs_def refs_keep [of "w_wins w" a, OF v])
qed simp

lemma owned_read:
  assumes o: "owned cx (add_mset c xx) wx w" and v: "w_wins w a = Some v"
  shows "owned cx (add_mset (ws_readContext v) xx) wx (w\<lparr>w_wins := (w_wins w)(a \<mapsto> v\<lparr>ws_readContext := c\<rparr>)\<rparr>)"
proof (rule owned_upd_win [OF o v])
  note m = refs_move [of "w_wins w" a, OF conjunct1 [OF owned_finite [OF o]] v]
  show "counted (w_cbs w) cb_count (\<lambda>x. cb_refs fb (w\<lparr>w_wins := (w_wins w)(a \<mapsto> v\<lparr>ws_readContext := c\<rparr>)\<rparr>) x + count cx x)"
    if "counted (w_cbs w) cb_count (\<lambda>x. cb_refs fb w x + count cx x)" for fb
    by (rule counted_same [OF that]) (simp add: cb_refs_def refs_keep [of "w_wins w" a, OF v])
  show "counted (w_ctxs w) rc_count (\<lambda>x. ctx_refs fb (w\<lparr>w_wins := (w_wins w)(a \<mapsto> v\<lparr>ws_readContext := c\<rparr>)\<rparr>) x +
      count (add_mset (ws_readContext v) xx) x)"
    if "counted (w_ctxs w) rc_count (\<lambda>x. ctx_refs fb w x + count (add_mset c xx) x)" for fb
    by (rule counted_move [OF that]) (use m [of ws_readContext "v\<lparr>ws_readContext := c\<rparr>"] in \<open>simp add: ctx_refs_def refs_keep [of "w_wins w" a, OF v]\<close>)
qed simp

lemma owned_draw:
  assumes o: "owned cx (add_mset c xx) wx w" and v: "w_wins w a = Some v"
  shows "owned cx (add_mset (ws_drawContext v) xx) wx (w\<lparr>w_wins := (w_wins w)(a \<mapsto> v\<lparr>ws_drawContext := c\<rparr>)\<rparr>)"
proof (rule owned_upd_win [OF o v])
  note m = refs_move [of "w_wins w" a, OF conjunct1 [OF owned_finite [OF o]] v]
  show "counted (w_cbs w) cb_count (\<lambda>x. cb_refs fb (w\<lparr>w_wins := (w_wins w)(a \<mapsto> v\<lparr>ws_drawContext := c\<rparr>)\<rparr>) x + count cx x)"
    if "counted (w_cbs w) cb_count (\<lambda>x. cb_refs fb w x + count cx x)" for fb
    by (rule counted_same [OF that]) (simp add: cb_refs_def refs_keep [of "w_wins w" a, OF v])
  show "counted (w_ctxs w) rc_count (\<lambda>x. ctx_refs fb (w\<lparr>w_wins := (w_wins w)(a \<mapsto> v\<lparr>ws_drawContext := c\<rparr>)\<rparr>) x +
      count (add_mset (ws_drawContext v) xx) x)"
    if "counted (w_ctxs w) rc_count (\<lambda>x. ctx_refs fb w x + count (add_mset c xx) x)" for fb
    by (rule counted_move [OF that]) (use m [of ws_drawContext "v\<lparr>ws_drawContext := c\<rparr>"] in \<open>simp add: ctx_refs_def refs_keep [of "w_wins w" a, OF v]\<close>)
qed simp

text \<open>A surface without references goes away; its own references become temporaries.\<close>

lemma owned_drop_win:
  assumes o: "owned cx xx (add_mset a wx) w" and v: "w_wins w a = Some v" and one: "ws_count v = 1"
  shows "owned (add_mset (ws_attachedColorBuffer v) cx) (add_mset (ws_drawContext v) (add_mset (ws_readContext v) xx)) wx
    (w\<lparr>w_wins := (w_wins w)(a := None)\<rparr>)"
proof -
  let ?w = "w\<lparr>w_wins := (w_wins w)(a := None)\<rparr>"
  have a: "a \<noteq> NULL" using assms(1,2) unfolding owned_def by (metis option.distinct(1))
  obtain fb where fb: "w_fb w = Some fb" and c: "counted (w_cbs w) cb_count (\<lambda>a. cb_refs fb w a + count cx a)"
    and x: "counted (w_ctxs w) rc_count (\<lambda>a. ctx_refs fb w a + count xx a)"
    and wc: "counted (w_wins w) ws_count (\<lambda>b. win_refs fb w b + count (add_mset a wx) b)" and fin: "finite (dom (w_wins w))"
    using o unfolding owned_def by blast
  note d = refs_del [of "w_wins w" a, OF fin v]
  have "counted (w_cbs w) cb_count (\<lambda>b. cb_refs fb ?w b + count (add_mset (ws_attachedColorBuffer v) cx) b)"
    by (rule counted_same [OF c]) (use d [of ws_attachedColorBuffer] in \<open>auto simp: cb_refs_def\<close>)
  moreover have "counted (w_ctxs w) rc_count (\<lambda>b. ctx_refs fb ?w b + count (add_mset (ws_drawContext v) (add_mset (ws_readContext v) xx)) b)"
    by (rule counted_same [OF x]) (use d [of ws_readContext] d [of ws_drawContext] in \<open>auto simp: ctx_refs_def\<close>)
  moreover have "win_refs fb w a + count wx a = 0" using wc v one a by (simp add: counted_iff)
  then have "counted ((w_wins w)(a := None)) ws_count (\<lambda>b. win_refs fb ?w b + count wx b)"
    by (intro counted_del [OF wc]) (auto simp: win_refs_def)
  ultimately show ?thesis using o fb unfolding owned_def by auto
qed

lemma win_unref_ok:
  assumes o: "owned cx xx (add_mset a wx) w"
  shows "\<exists>w'. win_unref gl t a w = Some w' \<and> owned cx xx wx w' \<and> frame w w' \<and>
    (\<forall>b v'. w_wins w' b = Some v' \<longrightarrow> (\<exists>v. w_wins w b = Some v \<and> links v' = links v))"
proof (cases "a = NULL")
  case True
  then show ?thesis using assms by (simp add: win_unref_def)
next
  case False
  then obtain v where v: "w_wins w a = Some v" using owned_extra(3) [OF o] by auto
  let ?v = "v\<lparr>ws_count := ws_count v - 1\<rparr>"
  have l: "links ?v = links v" by (simp add: links_def)
  show ?thesis
  proof (cases "ws_count v = 1")
    case False2: False
    have "owned cx xx wx (w\<lparr>w_wins := (w_wins w)(a \<mapsto> ?v)\<rparr>)"
    proof (rule owned_set_win [OF o v l])
      fix fb assume k: "counted (w_wins w) ws_count (\<lambda>b. win_refs fb w b + count (add_mset a wx) b)"
      then have "ws_count v = win_refs fb w a + count wx a + 1" using False v by (simp add: counted_iff)
      then show "counted ((w_wins w)(a \<mapsto> ?v)) ws_count (\<lambda>b. win_refs fb w b + count wx b)"
        using False2 by (intro counted_upd [OF k]) auto
    qed
    then show ?thesis using False False2 v l by (auto simp: win_unref_def set_win_def frame_def)
  next
    case True
    let ?w2 = "w\<lparr>w_wins := (w_wins w)(a := None)\<rparr>"
    let ?tell = "tell gl t [EglDestroyImage (ws_blitEGLImage v), EglDestroySurface (ws_eglSurface v)] (w\<lparr>w_wins := (w_wins w)(a \<mapsto> ?v)\<rparr>)"
    let ?w3 = "?tell\<lparr>w_wins := (w_wins ?tell)(a := None)\<rparr>"
    have al: "alike ?w2 ?w3" by (simp add: alike_def)
    obtain fb where fb: "w_fb w = Some fb" using o by (auto simp: owned_def)
    from ctx_unref_ok [OF alike_owned [OF al owned_drop_win [OF o v True]]] obtain w4 where
      4: "ctx_unref gl t (ws_drawContext v) ?w3 = Some w4" "owned (add_mset (ws_attachedColorBuffer v) cx) (add_mset (ws_readContext v) xx) wx w4"
      "frame ?w3 w4" "same_links ?w3 w4" by blast
    from ctx_unref_ok [OF 4(2)] obtain w5 where
      5: "ctx_unref gl t (ws_readContext v) w4 = Some w5" "owned (add_mset (ws_attachedColorBuffer v) cx) xx wx w5" "frame w4 w5" "same_links w4 w5" by blast
    from cb_unref_ok [OF 5(2)] obtain w6 where
      6: "cb_unref gl t (ws_attachedColorBuffer v) w5 = Some w6" "owned cx xx wx w6" "frame w5 w6" "same_links w5 w6" by blast
    have "WindowSurface_delete gl t a (w\<lparr>w_wins := (w_wins w)(a \<mapsto> ?v)\<rparr>) = Some w6"
      using fb 4(1) 5(1) 6(1) by (simp add: WindowSurface_delete_def Let_def)
    then have "win_unref gl t a w = Some w6" using False v True by (simp add: win_unref_def set_win_def)
    moreover have "frame w w6" using frame_trans [OF frame_trans [OF 4(3) 5(3)] 6(3)] by (simp add: frame_def)
    moreover have sl: "same_links ?w3 w6" using same_links_trans [OF same_links_trans [OF 4(4) 5(4)] 6(4)] .
    have "\<exists>v. w_wins w b = Some v \<and> links v' = links v" if "w_wins w6 b = Some v'" for b v'
      using sl [unfolded same_links_def, rule_format, of b] that by (cases "b = a"; cases "w_wins w b") auto
    ultimately show ?thesis using 6(2) by blast
  qed
qed

end
