(* ===== verification/FrameBufferSafe.thy ===== *)
theory FrameBufferSafe
  imports FrameBufferOwn
begin

text \<open>
  Every operation of the frame buffer keeps the ownership invariant and returns. The only
  operations that may not return are the three creations, which need a free handle.
\<close>

subsection \<open>Thread data\<close>

text \<open>A field of the thread data takes one temporary and gives back its old value.\<close>

lemma refs_threads [simp]: "cb_refs fb (w\<lparr>w_threads := h\<rparr>) = cb_refs fb w"
  by (simp add: fun_eq_iff cb_refs_def)

lemma owned_upd_thread:
  assumes "owned cx xx wx w" and ti: "w_threads w t = Some ti"
    and "\<And>fb. w_fb w = Some fb \<Longrightarrow> counted (w_ctxs w) rc_count (\<lambda>b. ctx_refs fb w b + count xx b) \<Longrightarrow>
      counted (w_ctxs w) rc_count (\<lambda>b. ctx_refs fb (w\<lparr>w_threads := (w_threads w)(t \<mapsto> ti')\<rparr>) b + count xx' b)"
    and "\<And>fb. w_fb w = Some fb \<Longrightarrow> counted (w_wins w) ws_count (\<lambda>b. win_refs fb w b + count wx b) \<Longrightarrow>
      counted (w_wins w) ws_count (\<lambda>b. win_refs fb (w\<lparr>w_threads := (w_threads w)(t \<mapsto> ti')\<rparr>) b + count wx' b)"
  shows "owned cx xx' wx' (w\<lparr>w_threads := (w_threads w)(t \<mapsto> ti')\<rparr>)"
  using assms unfolding owned_def by auto

lemma owned_curr:
  assumes o: "owned cx (add_mset c xx) wx w" and ti: "w_threads w t = Some ti"
  shows "owned cx (add_mset (ti_currContext ti) xx) wx (w\<lparr>w_threads := (w_threads w)(t \<mapsto> ti\<lparr>ti_currContext := c\<rparr>)\<rparr>)"
proof (rule owned_upd_thread [OF o ti])
  note m = refs_move [of "w_threads w" t, OF conjunct2 [OF owned_finite [OF o]] ti]
  show "counted (w_ctxs w) rc_count (\<lambda>x. ctx_refs fb (w\<lparr>w_threads := (w_threads w)(t \<mapsto> ti\<lparr>ti_currContext := c\<rparr>)\<rparr>) x +
      count (add_mset (ti_currContext ti) xx) x)"
    if "counted (w_ctxs w) rc_count (\<lambda>x. ctx_refs fb w x + count (add_mset c xx) x)" for fb
    by (rule counted_move [OF that]) (use m [of ti_currContext "ti\<lparr>ti_currContext := c\<rparr>"] in \<open>simp add: ctx_refs_def\<close>)
  show "counted (w_wins w) ws_count (\<lambda>x. win_refs fb (w\<lparr>w_threads := (w_threads w)(t \<mapsto> ti\<lparr>ti_currContext := c\<rparr>)\<rparr>) x + count wx x)"
    if "counted (w_wins w) ws_count (\<lambda>x. win_refs fb w x + count wx x)" for fb
    by (rule counted_same [OF that]) (simp add: win_refs_def refs_keep [of "w_threads w" t, OF ti])
qed

lemma owned_tdraw:
  assumes o: "owned cx xx (add_mset d wx) w" and ti: "w_threads w t = Some ti"
  shows "owned cx xx (add_mset (ti_currDrawSurf ti) wx) (w\<lparr>w_threads := (w_threads w)(t \<mapsto> ti\<lparr>ti_currDrawSurf := d\<rparr>)\<rparr>)"
proof (rule owned_upd_thread [OF o ti])
  note m = refs_move [of "w_threads w" t, OF conjunct2 [OF owned_finite [OF o]] ti]
  show "counted (w_ctxs w) rc_count (\<lambda>x. ctx_refs fb (w\<lparr>w_threads := (w_threads w)(t \<mapsto> ti\<lparr>ti_currDrawSurf := d\<rparr>)\<rparr>) x + count xx x)"
    if "counted (w_ctxs w) rc_count (\<lambda>x. ctx_refs fb w x + count xx x)" for fb
    by (rule counted_same [OF that]) (simp add: ctx_refs_def refs_keep [of "w_threads w" t, OF ti])
  show "counted (w_wins w) ws_count (\<lambda>x. win_refs fb (w\<lparr>w_threads := (w_threads w)(t \<mapsto> ti\<lparr>ti_currDrawSurf := d\<rparr>)\<rparr>) x +
      count (add_mset (ti_currDrawSurf ti) wx) x)"
    if "counted (w_wins w) ws_count (\<lambda>x. win_refs fb w x + count (add_mset d wx) x)" for fb
    by (rule counted_move [OF that])
      (use m [of ti_currDrawSurf "ti\<lparr>ti_currDrawSurf := d\<rparr>"] in \<open>simp add: win_refs_def refs_keep [of "w_threads w" t, OF ti]\<close>)
qed

lemma owned_tread:
  assumes o: "owned cx xx (add_mset d wx) w" and ti: "w_threads w t = Some ti"
  shows "owned cx xx (add_mset (ti_currReadSurf ti) wx) (w\<lparr>w_threads := (w_threads w)(t \<mapsto> ti\<lparr>ti_currReadSurf := d\<rparr>)\<rparr>)"
proof (rule owned_upd_thread [OF o ti])
  note m = refs_move [of "w_threads w" t, OF conjunct2 [OF owned_finite [OF o]] ti]
  show "counted (w_ctxs w) rc_count (\<lambda>x. ctx_refs fb (w\<lparr>w_threads := (w_threads w)(t \<mapsto> ti\<lparr>ti_currReadSurf := d\<rparr>)\<rparr>) x + count xx x)"
    if "counted (w_ctxs w) rc_count (\<lambda>x. ctx_refs fb w x + count xx x)" for fb
    by (rule counted_same [OF that]) (simp add: ctx_refs_def refs_keep [of "w_threads w" t, OF ti])
  show "counted (w_wins w) ws_count (\<lambda>x. win_refs fb (w\<lparr>w_threads := (w_threads w)(t \<mapsto> ti\<lparr>ti_currReadSurf := d\<rparr>)\<rparr>) x +
      count (add_mset (ti_currReadSurf ti) wx) x)"
    if "counted (w_wins w) ws_count (\<lambda>x. win_refs fb w x + count (add_mset d wx) x)" for fb
    by (rule counted_move [OF that])
      (use m [of ti_currReadSurf "ti\<lparr>ti_currReadSurf := d\<rparr>"] in \<open>simp add: win_refs_def refs_keep [of "w_threads w" t, OF ti]\<close>)
qed

text \<open>The other fields of the thread data are not counted.\<close>

lemma owned_tdata:
  assumes o: "owned cx xx wx w" and ti: "w_threads w t = Some ti"
    and e: "ti_currContext ti' = ti_currContext ti" "ti_currDrawSurf ti' = ti_currDrawSurf ti" "ti_currReadSurf ti' = ti_currReadSurf ti"
  shows "owned cx xx wx (w\<lparr>w_threads := (w_threads w)(t \<mapsto> ti')\<rparr>)"
proof (rule owned_upd_thread [OF o ti])
  note k = refs_keep [of "w_threads w" t, OF ti, of ti_currContext ti', OF e(1)] refs_keep [of "w_threads w" t, OF ti, of ti_currDrawSurf ti', OF e(2)]
    refs_keep [of "w_threads w" t, OF ti, of ti_currReadSurf ti', OF e(3)]
  show "counted (w_ctxs w) rc_count (\<lambda>x. ctx_refs fb (w\<lparr>w_threads := (w_threads w)(t \<mapsto> ti')\<rparr>) x + count xx x)"
    if "counted (w_ctxs w) rc_count (\<lambda>x. ctx_refs fb w x + count xx x)" for fb
    by (rule counted_same [OF that]) (simp add: ctx_refs_def k)
  show "counted (w_wins w) ws_count (\<lambda>x. win_refs fb (w\<lparr>w_threads := (w_threads w)(t \<mapsto> ti')\<rparr>) x + count wx x)"
    if "counted (w_wins w) ws_count (\<lambda>x. win_refs fb w x + count wx x)" for fb
    by (rule counted_same [OF that]) (simp add: win_refs_def k)
qed

subsection \<open>Handle maps\<close>

lemma owned_upd_fb:
  assumes "owned cx xx wx w" and "w_fb w = Some fb" and "image_ok (f fb)"
    and "\<And>h n. m_contexts (f fb) h \<noteq> Some NULL \<and> m_windows (f fb) h \<noteq> Some NULL \<and> m_colorbuffers (f fb) h \<noteq> Some (NULL, n)"
    and "counted (w_cbs w) cb_count (\<lambda>a. cb_refs fb w a + count cx a) \<Longrightarrow> counted (w_cbs w) cb_count (\<lambda>a. cb_refs (f fb) w a + count cx' a)"
    and "counted (w_ctxs w) rc_count (\<lambda>a. ctx_refs fb w a + count xx a) \<Longrightarrow> counted (w_ctxs w) rc_count (\<lambda>a. ctx_refs (f fb) w a + count xx' a)"
    and "counted (w_wins w) ws_count (\<lambda>a. win_refs fb w a + count wx a) \<Longrightarrow> counted (w_wins w) ws_count (\<lambda>a. win_refs (f fb) w a + count wx' a)"
  shows "owned cx' xx' wx' (set_fb f w)"
proof -
  have e: "cb_refs g (set_fb f w) = cb_refs g w" "ctx_refs g (set_fb f w) = ctx_refs g w" "win_refs g (set_fb f w) = win_refs g w" for g
    by (simp_all add: fun_eq_iff cb_refs_def ctx_refs_def win_refs_def)
  show ?thesis using assms unfolding owned_def e by simp
qed

lemma owned_handles:
  "owned cx xx wx w \<Longrightarrow> w_fb w = Some fb \<Longrightarrow>
   image_ok fb \<and> (\<forall>h n. m_contexts fb h \<noteq> Some NULL \<and> m_windows fb h \<noteq> Some NULL \<and> m_colorbuffers fb h \<noteq> Some (NULL, n))"
  by (simp add: owned_def)

text \<open>An entry of a map takes one temporary and gives back its old object; a deleted entry gives back its object.\<close>

lemma refs_put:
  assumes "finite (dom m)"
  shows "refs f (m(k \<mapsto> v)) b + (case m k of None \<Rightarrow> 0 | Some u \<Rightarrow> of_bool (f u = b)) = refs f m b + of_bool (f v = b)"
proof (cases "m k")
  case None
  then show ?thesis using refs_upd [OF assms, of f k v b] by (simp add: fun_upd_idem)
qed (use refs_move [OF assms, of k _ f v b] in simp)

definition old_addr :: "('v \<Rightarrow> addr) \<Rightarrow> 'v option \<Rightarrow> addr" where
  "old_addr f x = (case x of None \<Rightarrow> NULL | Some v \<Rightarrow> f v)"

lemma counted_put:
  assumes "counted h c (\<lambda>b. refs f m b + q b + count (add_mset (f v) x) b)" and "finite (dom m)"
  shows "counted h c (\<lambda>b. refs f (m(k \<mapsto> v)) b + q b + count (add_mset (old_addr f (m k)) x) b)"
proof (rule counted_same [OF assms(1)])
  fix b :: addr assume b: "b \<noteq> NULL"
  show "refs f (m(k \<mapsto> v)) b + q b + count (add_mset (old_addr f (m k)) x) b = refs f m b + q b + count (add_mset (f v) x) b"
    using refs_put [OF assms(2), of f k v b] b by (auto simp: old_addr_def split: option.splits if_splits)
qed

lemma counted_take:
  assumes "counted h c (\<lambda>b. refs f m b + q b + count x b)" and "finite (dom m)" and "m k = Some v"
  shows "counted h c (\<lambda>b. refs f (m(k := None)) b + q b + count (add_mset (f v) x) b)"
  by (rule counted_same [OF assms(1)]) (use refs_del [OF assms(2,3)] in auto)

lemma owned_put_cb:
  assumes o: "owned (add_mset a cx) xx wx w" and fb: "w_fb w = Some fb" and "a \<noteq> NULL"
  shows "owned (add_mset (old_addr fst (m_colorbuffers fb h)) cx) xx wx
    (set_fb (\<lambda>fb. fb\<lparr>m_colorbuffers := (m_colorbuffers fb)(h \<mapsto> (a, n))\<rparr>) w)"
proof (rule owned_upd_fb [OF o fb])
  assume c: "counted (w_cbs w) cb_count (\<lambda>b. cb_refs fb w b + count (add_mset a cx) b)"
  show "counted (w_cbs w) cb_count (\<lambda>b. cb_refs (fb\<lparr>m_colorbuffers := (m_colorbuffers fb)(h \<mapsto> (a, n))\<rparr>) w b +
      count (add_mset (old_addr fst (m_colorbuffers fb h)) cx) b)"
    using counted_put [of "w_cbs w" cb_count fst "m_colorbuffers fb" _ "(a, n)" cx h] c by (simp add: cb_refs_def)
qed (use owned_handles [OF o fb] assms(3) in \<open>auto simp: ctx_refs_def win_refs_def\<close>)

lemma owned_take_cb:
  assumes o: "owned cx xx wx w" and fb: "w_fb w = Some fb" and "m_colorbuffers fb h = Some (a, n)"
  shows "owned (add_mset a cx) xx wx (set_fb (\<lambda>fb. fb\<lparr>m_colorbuffers := (m_colorbuffers fb)(h := None)\<rparr>) w)"
proof (rule owned_upd_fb [OF o fb])
  assume c: "counted (w_cbs w) cb_count (\<lambda>b. cb_refs fb w b + count cx b)"
  show "counted (w_cbs w) cb_count (\<lambda>b. cb_refs (fb\<lparr>m_colorbuffers := (m_colorbuffers fb)(h := None)\<rparr>) w b + count (add_mset a cx) b)"
    using counted_take [of "w_cbs w" cb_count fst "m_colorbuffers fb" _ cx h "(a, n)"] c assms(3) by (simp add: cb_refs_def)
qed (use owned_handles [OF o fb] in \<open>auto simp: ctx_refs_def win_refs_def\<close>)

lemma owned_count_cb:
  assumes o: "owned cx xx wx w" and fb: "w_fb w = Some fb" and "m_colorbuffers fb h = Some (a, n)"
  shows "owned cx xx wx (set_fb (\<lambda>fb. fb\<lparr>m_colorbuffers := (m_colorbuffers fb)(h \<mapsto> (a, n'))\<rparr>) w)"
proof (rule owned_upd_fb [OF o fb])
  assume c: "counted (w_cbs w) cb_count (\<lambda>b. cb_refs fb w b + count cx b)"
  show "counted (w_cbs w) cb_count (\<lambda>b. cb_refs (fb\<lparr>m_colorbuffers := (m_colorbuffers fb)(h \<mapsto> (a, n'))\<rparr>) w b + count cx b)"
    by (rule counted_same [OF c]) (simp add: cb_refs_def refs_keep [of "m_colorbuffers fb" h "(a, n)" fst, OF assms(3)])
qed (use owned_handles [OF o fb] assms(3) in \<open>auto simp: ctx_refs_def win_refs_def\<close>)

lemma owned_put_ctx:
  assumes o: "owned cx (add_mset a xx) wx w" and fb: "w_fb w = Some fb" and "a \<noteq> NULL"
  shows "owned cx (add_mset (old_addr id (m_contexts fb h)) xx) wx (set_fb (\<lambda>fb. fb\<lparr>m_contexts := (m_contexts fb)(h \<mapsto> a)\<rparr>) w)"
proof (rule owned_upd_fb [OF o fb])
  assume c: "counted (w_ctxs w) rc_count (\<lambda>b. ctx_refs fb w b + count (add_mset a xx) b)"
  show "counted (w_ctxs w) rc_count (\<lambda>b. ctx_refs (fb\<lparr>m_contexts := (m_contexts fb)(h \<mapsto> a)\<rparr>) w b +
      count (add_mset (old_addr id (m_contexts fb h)) xx) b)"
    using counted_put [of "w_ctxs w" rc_count id "m_contexts fb" "\<lambda>b. refs ws_readContext (w_wins w) b +
      refs ws_drawContext (w_wins w) b + refs ti_currContext (w_threads w) b" a xx h] c by (simp add: ctx_refs_def add.assoc)
qed (use owned_handles [OF o fb] assms(3) in \<open>auto simp: cb_refs_def win_refs_def\<close>)

lemma owned_take_ctx:
  assumes o: "owned cx xx wx w" and fb: "w_fb w = Some fb" and "m_contexts fb h = Some a"
  shows "owned cx (add_mset a xx) wx (set_fb (\<lambda>fb. fb\<lparr>m_contexts := (m_contexts fb)(h := None)\<rparr>) w)"
proof (rule owned_upd_fb [OF o fb])
  assume c: "counted (w_ctxs w) rc_count (\<lambda>b. ctx_refs fb w b + count xx b)"
  show "counted (w_ctxs w) rc_count (\<lambda>b. ctx_refs (fb\<lparr>m_contexts := (m_contexts fb)(h := None)\<rparr>) w b + count (add_mset a xx) b)"
    using counted_take [of "w_ctxs w" rc_count id "m_contexts fb" "\<lambda>b. refs ws_readContext (w_wins w) b +
      refs ws_drawContext (w_wins w) b + refs ti_currContext (w_threads w) b" xx h a] c assms(3) by (simp add: ctx_refs_def add.assoc)
qed (use owned_handles [OF o fb] in \<open>auto simp: cb_refs_def win_refs_def\<close>)

lemma owned_put_win:
  assumes o: "owned cx xx (add_mset a wx) w" and fb: "w_fb w = Some fb" and "a \<noteq> NULL"
  shows "owned cx xx (add_mset (old_addr id (m_windows fb h)) wx) (set_fb (\<lambda>fb. fb\<lparr>m_windows := (m_windows fb)(h \<mapsto> a)\<rparr>) w)"
proof (rule owned_upd_fb [OF o fb])
  assume c: "counted (w_wins w) ws_count (\<lambda>b. win_refs fb w b + count (add_mset a wx) b)"
  show "counted (w_wins w) ws_count (\<lambda>b. win_refs (fb\<lparr>m_windows := (m_windows fb)(h \<mapsto> a)\<rparr>) w b +
      count (add_mset (old_addr id (m_windows fb h)) wx) b)"
    using counted_put [of "w_wins w" ws_count id "m_windows fb" "\<lambda>b. refs ti_currDrawSurf (w_threads w) b +
      refs ti_currReadSurf (w_threads w) b" a wx h] c by (simp add: win_refs_def add.assoc)
qed (use owned_handles [OF o fb] assms(3) in \<open>auto simp: cb_refs_def ctx_refs_def\<close>)

lemma owned_take_win:
  assumes o: "owned cx xx wx w" and fb: "w_fb w = Some fb" and "m_windows fb h = Some a"
  shows "owned cx xx (add_mset a wx) (set_fb (\<lambda>fb. fb\<lparr>m_windows := (m_windows fb)(h := None)\<rparr>) w)"
proof (rule owned_upd_fb [OF o fb])
  assume c: "counted (w_wins w) ws_count (\<lambda>b. win_refs fb w b + count wx b)"
  show "counted (w_wins w) ws_count (\<lambda>b. win_refs (fb\<lparr>m_windows := (m_windows fb)(h := None)\<rparr>) w b + count (add_mset a wx) b)"
    using counted_take [of "w_wins w" ws_count id "m_windows fb" "\<lambda>b. refs ti_currDrawSurf (w_threads w) b +
      refs ti_currReadSurf (w_threads w) b" wx h a] c assms(3) by (simp add: win_refs_def add.assoc)
qed (use owned_handles [OF o fb] in \<open>auto simp: cb_refs_def ctx_refs_def\<close>)

subsection \<open>What stays across an operation\<close>

text \<open>The same handles and the same threads.\<close>

definition outline :: "'g world \<Rightarrow> 'g world \<Rightarrow> bool" where
  "outline w w' \<longleftrightarrow> map_option fb_slots (w_fb w') = map_option fb_slots (w_fb w) \<and> dom (w_threads w') = dom (w_threads w)"

lemma outline_refl [simp]: "outline w w"
  by (simp add: outline_def)

lemma outline_trans: "outline u v \<Longrightarrow> outline v w \<Longrightarrow> outline u w"
  by (simp add: outline_def)

lemma frame_outline: "frame w w' \<Longrightarrow> outline w w'"
  by (simp add: frame_def outline_def)

lemma alike_outline: "alike w w' \<Longrightarrow> outline w w'"
  by (simp add: alike_frame frame_outline)

lemma outline_fields [simp]:
  "outline w (w'\<lparr>w_cbs := h\<rparr>) = outline w w'" "outline w (w'\<lparr>w_ctxs := x\<rparr>) = outline w w'" "outline w (w'\<lparr>w_wins := v\<rparr>) = outline w w'"
  "outline w (w'\<lparr>w_next := n\<rparr>) = outline w w'" "outline w (w'\<lparr>s_nextHandle := i\<rparr>) = outline w w'"
  by (simp_all add: outline_def)

lemma outline_thread: "t \<in> dom (w_threads w') \<Longrightarrow> outline w (w'\<lparr>w_threads := (w_threads w')(t \<mapsto> ti)\<rparr>) = outline w w'"
  by (auto simp: outline_def)

lemma outline_dom: "outline w w' \<Longrightarrow> w_threads w' t = None \<longleftrightarrow> w_threads w t = None"
  unfolding outline_def by (metis domIff)

text \<open>An object a handle names, or none.\<close>

definition named_ctx :: "'g world \<Rightarrow> addr \<Rightarrow> bool" where
  "named_ctx w a \<longleftrightarrow> a = NULL \<or> (\<exists>fb h. w_fb w = Some fb \<and> m_contexts fb h = Some a)"

definition named_win :: "'g world \<Rightarrow> addr \<Rightarrow> bool" where
  "named_win w a \<longleftrightarrow> a = NULL \<or> (\<exists>fb h. w_fb w = Some fb \<and> m_windows fb h = Some a)"

lemma outline_fb:
  assumes "outline w w'" and "w_fb w = Some fb"
  obtains fb' where "w_fb w' = Some fb'" "m_contexts fb' = m_contexts fb" "m_windows fb' = m_windows fb"
    "m_colorbuffers fb' = m_colorbuffers fb" "fb_onPost fb' = fb_onPost fb"
  using assms by (auto simp: outline_def fb_slots_def)

lemma outline_named:
  assumes "outline w w'"
  shows "named_ctx w a \<Longrightarrow> named_ctx w' a" "named_win w a \<Longrightarrow> named_win w' a"
  using assms outline_fb unfolding named_ctx_def named_win_def by metis+

lemma named_alive:
  assumes "owned cx xx wx w"
  shows "named_ctx w a \<Longrightarrow> a = NULL \<or> w_ctxs w a \<noteq> None" "named_win w a \<Longrightarrow> a = NULL \<or> w_wins w a \<noteq> None"
  using owned_map_ctx [OF assms] owned_map_win [OF assms] unfolding named_ctx_def named_win_def by blast+

lemma owned_fb: "owned cx xx wx w \<Longrightarrow> \<exists>fb. w_fb w = Some fb"
  by (auto simp: owned_def)

lemma owned_ctx_alive: "owned cx xx wx w \<Longrightarrow> w_threads w t \<noteq> None \<Longrightarrow> ctx_alive t w"
  using owned_thread_links(1) unfolding ctx_alive_def by fastforce

lemma owned_win_alive: "owned cx xx wx w \<Longrightarrow> w_wins w a \<noteq> None \<Longrightarrow> win_alive a w"
  using owned_win_links(1) unfolding win_alive_def by fastforce

lemma owned_next [simp]: "owned cx xx wx (w\<lparr>s_nextHandle := h\<rparr>) = owned cx xx wx w"
  by (simp add: owned_def cb_refs_def ctx_refs_def win_refs_def)

text \<open>An operation that returns, with the invariant kept.\<close>

definition keeps :: "'g world \<Rightarrow> 'g world \<Rightarrow> bool" where
  "keeps w w' \<longleftrightarrow> fb_inv w' \<and> dom (w_threads w') = dom (w_threads w)"

lemma alike_keeps: "fb_inv w \<Longrightarrow> alike w w' \<Longrightarrow> keeps w w'"
  using alike_owned [of w w'] by (simp add: keeps_def) (simp add: alike_def)

lemma keepsI: "fb_inv w' \<Longrightarrow> w_threads w' = w_threads w \<Longrightarrow> keeps w w'"
  by (simp add: keeps_def)

lemma keeps_refl: "fb_inv w \<Longrightarrow> keeps w w"
  by (simp add: keeps_def)

lemma keeps_trans: "keeps u v \<Longrightarrow> keeps v w \<Longrightarrow> keeps u w"
  by (simp add: keeps_def)

subsection \<open>Handles\<close>

definition free_handle :: "FrameBuffer \<Rightarrow> u32 \<Rightarrow> bool" where
  "free_handle fb h \<longleftrightarrow> h \<noteq> 0 \<and> m_contexts fb h = None \<and> m_windows fb h = None"

lemma genHandle_returns:
  assumes "free_handle fb h"
  shows "\<exists>id. genHandle fb n = Some id"
proof (induction "unat (h - (n + 1))" arbitrary: n rule: less_induct)
  case less
  show ?case
  proof (cases "n + 1 = h")
    case True
    then show ?thesis using assms by (subst genHandle.simps) (simp add: free_handle_def)
  next
    case False
    then have "h - (n + 1) \<noteq> 0" by simp
    then have "unat (h - (n + 1) - 1) < unat (h - (n + 1))"
      by (metis unat_minus_one unat_gt_0 diff_less zero_less_one)
    moreover have "h - (n + 1) - 1 = h - (n + 1 + 1)" by simp
    ultimately have "\<exists>id. genHandle fb (n + 1) = Some id" using less by metis
    then show ?thesis by (subst genHandle.simps) (auto simp: Let_def)
  qed
qed

lemma genHandle_free:
  assumes "genHandle fb n = Some i"
  shows "free_handle fb i"
proof (rule genHandle.raw_induct [OF _ assms])
  fix gen fb' n' i'
  assume ih: "\<And>fb n i. gen fb n = Some i \<Longrightarrow> free_handle fb i"
    and g: "(let i = n' + 1 in if i = 0 \<or> m_contexts fb' i \<noteq> None \<or> m_windows fb' i \<noteq> None then gen fb' i else Some i) = Some i'"
  show "free_handle fb' i'" using g ih [of fb' "n' + 1" i'] by (auto simp: Let_def free_handle_def split: if_splits)
qed

lemma new_handle_ok:
  assumes "w_fb w = Some fb" and "\<exists>h. free_handle fb h"
  shows "\<exists>id. new_handle w = Some (id, w\<lparr>s_nextHandle := id\<rparr>) \<and> free_handle fb id"
proof -
  obtain i where "genHandle fb (s_nextHandle w) = Some i" using assms(2) genHandle_returns by blast
  then show ?thesis using assms(1) genHandle_free by (auto simp: new_handle_def)
qed

lemma new_handle_none: "w_fb w = Some fb \<Longrightarrow> \<forall>h. \<not> free_handle fb h \<Longrightarrow> new_handle w = None"
  using genHandle_free by (cases "genHandle fb (s_nextHandle w)") (auto simp: new_handle_def)

subsection \<open>Operations that change no reference\<close>

lemma flushColorBuffer_ok:
  assumes o: "owned cx xx wx w" and "w_wins w a \<noteq> None" and "w_threads w t \<noteq> None"
  shows "\<exists>b w'. flushColorBuffer gl t a w = Some (b, w') \<and> alike w w'"
proof -
  obtain v where v: "w_wins w a = Some v" using assms(2) by blast
  have fb: "w_fb w \<noteq> None" using owned_fb [OF o] by auto
  show ?thesis
    using v blitToColorBuffer_ok [OF owned_win_alive [OF o assms(2)] owned_ctx_alive [OF o assms(3)] fb v]
    by (cases "ws_attachedColorBuffer v = NULL") (auto simp: flushColorBuffer_def)
qed

lemma flush_keeps:
  assumes "fb_inv w" and "w_threads w t \<noteq> None"
  shows "\<exists>b w'. flushWindowSurfaceColorBuffer gl t h w = Some (b, w') \<and> keeps w w'"
proof -
  obtain fb where fb: "w_fb w = Some fb" using owned_fb [OF assms(1)] by blast
  show ?thesis
  proof (cases "m_windows fb h")
    case None
    then show ?thesis using fb keeps_refl [OF assms(1)] by (auto simp: flushWindowSurfaceColorBuffer_def)
  next
    case (Some a)
    have "w_wins w a \<noteq> None" using owned_map_win [OF assms(1) fb Some] by blast
    from flushColorBuffer_ok [OF assms(1) this assms(2)] obtain b w' where "flushColorBuffer gl t a w = Some (b, w')" "alike w w'" by blast
    then show ?thesis using fb Some alike_keeps [OF assms(1)] by (auto simp: flushWindowSurfaceColorBuffer_def)
  qed
qed

lemma update_keeps:
  assumes "fb_inv w"
  shows "\<exists>b w'. updateColorBuffer gl t h x y width height fmt ty (Some pixels) w = Some (b, w') \<and> keeps w w'"
proof -
  obtain fb where fb: "w_fb w = Some fb" using owned_fb [OF assms] by blast
  show ?thesis
  proof (cases "m_colorbuffers fb h")
    case None
    then show ?thesis using fb keeps_refl [OF assms] by (auto simp: updateColorBuffer_def)
  next
    case (Some p)
    obtain a n where p: "p = (a, n)" by (cases p)
    have "w_fb w \<noteq> None" "w_cbs w a \<noteq> None" using owned_map_cb [OF assms fb Some [unfolded p]] fb by auto
    from subUpdate_ok [OF this] obtain w' where "subUpdate gl t a x y width height fmt ty (Some pixels) w = Some w'" "alike w w'" by blast
    then show ?thesis using fb Some p alike_keeps [OF assms] by (auto simp: updateColorBuffer_def)
  qed
qed

lemma bind_buffer_keeps:
  assumes "fb_inv w" and "w_threads w t \<noteq> None"
  shows "\<exists>b w'. bindColorBufferToTexture gl t h w = Some (b, w') \<and> keeps w w'"
    and "\<exists>b w'. bindColorBufferToRenderbuffer gl t h w = Some (b, w') \<and> keeps w w'"
proof -
  obtain fb where fb: "w_fb w = Some fb" using owned_fb [OF assms(1)] by blast
  have k: "\<exists>b w'. (case m_colorbuffers fb h of None \<Rightarrow> Some (False, w) | Some (a, n) \<Rightarrow> f a w) = Some (b, w') \<and> keeps w w'"
    if f: "\<And>a. w_cbs w a \<noteq> None \<Longrightarrow> \<exists>b w'. f a w = Some (b, w') \<and> alike w w'" for f :: "addr \<Rightarrow> 'a world \<Rightarrow> (bool \<times> 'a world) option"
  proof (cases "m_colorbuffers fb h")
    case (Some p)
    obtain a n where p: "p = (a, n)" by (cases p)
    have "w_cbs w a \<noteq> None" using owned_map_cb [OF assms(1) fb Some [unfolded p]] by blast
    from f [OF this] show ?thesis using Some p alike_keeps [OF assms(1)] by auto
  qed (use keeps_refl [OF assms(1)] in auto)
  note al = owned_ctx_alive [OF assms]
  show "\<exists>b w'. bindColorBufferToTexture gl t h w = Some (b, w') \<and> keeps w w'"
    using k [of "bindToTexture gl t", OF bind_texture_ok(1) [OF _ al]] fb by (simp add: bindColorBufferToTexture_def)
  show "\<exists>b w'. bindColorBufferToRenderbuffer gl t h w = Some (b, w') \<and> keeps w w'"
    using k [of "bindToRenderbuffer gl t", OF bind_texture_ok(2) [OF _ al]] fb by (simp add: bindColorBufferToRenderbuffer_def)
qed

lemma bindSubwin_ok:
  assumes "w_fb w \<noteq> None"
  shows "\<exists>b w'. bindSubwin_locked gl t w = Some (b, w') \<and> alike w w'"
  using assms by (auto simp: bindSubwin_locked_def Let_def split_beta fb_slots_def)

text \<open>
  A post with a callback set reads the colour buffer of the handle back into a block of the frame
  buffer's size; \<open>overruns\<close> when the library has more pixels for it than the block holds.
\<close>

definition overruns :: "'g gl_api \<Rightarrow> nat \<Rightarrow> u32 \<Rightarrow> 'g world \<Rightarrow> bool" where
  "overruns gl t h w \<longleftrightarrow> (\<exists>fb a n cb g. w_fb w = Some fb \<and> fb_onPost fb \<and> m_colorbuffers fb h = Some (a, n) \<and> w_cbs w a = Some cb \<and>
     image_size fb < length (gl_pixels gl t (cb_width cb) (cb_height cb) (cb_internalFormat cb) g))"

lemma overruns_same:
  assumes "map_option fb_slots (w_fb w') = map_option fb_slots (w_fb w)" and "w_cbs w' = w_cbs w"
  shows "overruns gl t h w' = overruns gl t h w"
  using assms by (cases "w_fb w"; cases "w_fb w'") (simp_all add: overruns_def fb_slots_def)

lemma bindSubwin_same:
  "bindSubwin_locked gl t w = Some (b, w') \<Longrightarrow> w_cbs w' = w_cbs w \<and> map_option fb_lastPosted (w_fb w') = map_option fb_lastPosted (w_fb w)"
  by (auto simp: bindSubwin_locked_def Let_def split_beta bind_eq_Some_conv split: if_splits)

lemma post_ok:
  assumes o: "owned cx xx wx w"
  shows "(\<exists>b w'. post gl t h w = Some (b, w') \<and> alike w w') \<or> post gl t h w = None \<and> overruns gl t h w"
proof -
  obtain fb where fb: "w_fb w = Some fb" using owned_fb [OF o] by blast
  have img: "image_ok fb" using owned_handles [OF o fb] by blast
  show ?thesis
  proof (cases "m_colorbuffers fb h")
    case None
    then show ?thesis using fb by (auto simp: post_def)
  next
    case (Some p)
    obtain a n where p: "p = (a, n)" by (cases p)
    let ?w0 = "set_fb (\<lambda>fb. fb\<lparr>fb_lastPosted := h\<rparr>) w"
    have al0: "alike w ?w0" by (simp add: fb_slots_def)
    have "w_fb ?w0 \<noteq> None" using fb by simp
    from bindSubwin_ok [OF this] obtain ok w1 where 1: "bindSubwin_locked gl t ?w0 = Some (ok, w1)" "alike ?w0 w1" by blast
    have al1: "alike w w1" using alike_trans [OF al0 1(2)] .
    let ?w1 = "tell gl t ([Gl1 PushMatrix, Gl1 (Rotatef (fb_zRot fb))] @
        (if fb_zRot fb \<noteq> 0 \<and> fb_zRot fb \<noteq> 0x80000000 then [Gl1 (Clear 0x4000)] else [])) w1"
    obtain cb where cb: "w_cbs w a = Some cb" using owned_map_cb [OF o fb Some [unfolded p]] by blast
    then have "w_cbs ?w1 a \<noteq> None" using alike_None(1) [OF al1, of a] by simp
    from cb_post_ok [OF this] obtain ret w2 where 2: "cb_post gl t a ?w1 = Some (ret, w2)" "alike ?w1 w2" by blast
    have "alike w ?w1" using al1 by simp
    from alike_trans [OF this 2(2)] have al2: "alike w w2" .
    let ?w3 = "tell gl t ([Gl1 PopMatrix] @ (if ret then [EglSwapBuffers (fb_eglSurface fb)] else [])) w2"
    have "alike w ?w3" "w_fb w \<noteq> None" using al2 fb by simp_all
    from unbind_after [OF this] obtain r w4 where 4: "unbind_locked gl t ?w3 = Some (r, w4)" "alike w w4" by blast
    have cb4: "w_cbs w4 a = Some cb" using bindSubwin_same [OF 1(1)] locked_cbs(3) [OF 2(1)] locked_cbs(2) [OF 4(1)] cb by simp
    let ?call = "do { (img, w5) \<leftarrow> cb_readback gl t a (fb_image fb) w4;
                      mem \<leftarrow> img;
                      Some (ret, set_fb (\<lambda>fb. fb\<lparr>fb_image := img\<rparr>)
                        (w5\<lparr>w_gl := on_post gl (fb_width fb) (fb_height fb) mem (w_gl w5)\<rparr>)) }"
    have call: "(\<exists>b w'. ?call = Some (b, w') \<and> alike w w') \<or> ?call = None \<and> overruns gl t h w" if on: "fb_onPost fb"
    proof -
      obtain mem where mem: "fb_image fb = Some mem" "length mem = image_size fb" using img on by (auto simp: image_ok_def)
      have over: "overruns gl t h w" if "length mem < length (gl_pixels gl t (cb_width cb) (cb_height cb) (cb_internalFormat cb) g)" for g
        using that fb on Some p cb mem(2) by (auto simp: overruns_def)
      have "w_fb w4 \<noteq> None" using alike_None(3) [OF 4(2)] fb by simp
      from readback_ok [OF this cb4, of gl t mem] show ?thesis
      proof (elim disjE exE conjE)
        fix mem' w5 assume 5: "cb_readback gl t a (Some mem) w4 = Some (Some mem', w5)" "length mem' = length mem" "alike w4 w5"
      have al5: "alike w w5" using alike_trans [OF 4(2) 5(3)] .
      then obtain fb5 where fb5: "w_fb w5 = Some fb5" "fb_slots fb5 = fb_slots fb" using fb by (auto simp: alike_def)
      have "fb_slots (fb5\<lparr>fb_image := Some mem'\<rparr>) = fb_slots fb" using fb5(2) 5(2) mem(1) by (simp add: fb_slots_def)
      then have "alike w (set_fb (\<lambda>fb. fb\<lparr>fb_image := Some mem'\<rparr>) (w5\<lparr>w_gl := on_post gl (fb_width fb) (fb_height fb) mem' (w_gl w5)\<rparr>))"
        using al5 fb fb5(1) by (simp add: alike_def)
      then show ?thesis using 5(1) mem(1) by simp
      next
        fix g assume "cb_readback gl t a (Some mem) w4 = None"
          "length mem < length (gl_pixels gl t (cb_width cb) (cb_height cb) (cb_internalFormat cb) g)"
        then show ?thesis using over mem(1) by simp
      qed
    qed
    have e: "post gl t h w = (if fb_subWin fb = 0 then Some (True, ?w0) else if \<not> ok then Some (False, w1)
        else if \<not> fb_onPost fb then Some (ret, w4) else ?call)"
      unfolding post_def fb bind.bind_lunit Some p option.case prod.case Let_def 1(1) 2(1) 4(1) by simp
    show ?thesis unfolding e using al0 al1 4(2) call by auto
  qed
qed

lemma repost_ok:
  assumes o: "owned cx xx wx w" and fb: "w_fb w = Some fb"
  shows "(\<exists>b w'. repost gl t w = Some (b, w') \<and> alike w w') \<or> repost gl t w = None \<and> overruns gl t (fb_lastPosted fb) w"
  using post_ok [OF o, of gl t "fb_lastPosted fb"] fb by (auto simp: repost_def)

lemma rotation_ok:
  assumes o: "owned cx xx wx w" and fb: "w_fb w = Some fb"
  shows "(\<exists>b w'. setDisplayRotation gl t z w = Some (b, w') \<and> alike w w') \<or> setDisplayRotation gl t z w = None \<and> overruns gl t (fb_lastPosted fb) w"
proof -
  let ?w = "set_fb (\<lambda>fb. fb\<lparr>fb_zRot := z\<rparr>) w"
  have al: "alike w ?w" by (simp add: fb_slots_def)
  have e: "overruns gl t h ?w = overruns gl t h w" for h using overruns_same [of ?w w gl t h] al by (simp add: alike_def)
  have "w_fb ?w = Some (fb\<lparr>fb_zRot := z\<rparr>)" using fb by simp
  from repost_ok [OF alike_owned [OF al o] this, of gl t] show ?thesis
    using alike_trans [OF al] by (auto simp: setDisplayRotation_def e)
qed

text \<open>Changing the callback.\<close>

lemma callback_ok:
  assumes o: "owned cx xx wx w" and fb: "w_fb w = Some fb" and block: "\<And>mem. block = Some mem \<Longrightarrow> length mem = image_size fb"
  shows "\<exists>w'. setPostCallback block on w = Some w' \<and> owned cx xx wx w' \<and> w_threads w' = w_threads w"
proof -
  have img: "image_ok fb" using owned_handles [OF o fb] by blast
  have k: "owned cx xx wx (set_fb f w)"
    if "image_ok (f fb)" "m_contexts (f fb) = m_contexts fb" "m_windows (f fb) = m_windows fb" "m_colorbuffers (f fb) = m_colorbuffers fb" for f
    by (rule owned_upd_fb [OF o fb]) (use owned_handles [OF o fb] that in \<open>auto simp: cb_refs_def ctx_refs_def win_refs_def\<close>)
  show ?thesis using fb img block
    by (auto simp: setPostCallback_def image_ok_def split: option.splits intro!: k)
qed

lemma removeSubWindow_alike: "alike w (snd (removeSubWindow gl t w))"
  by (simp add: removeSubWindow_def fb_slots_def split: option.splits)

lemma setupSubWindow_ok:
  assumes o: "owned cx xx wx w" and fb: "w_fb w = Some fb"
  shows "(\<exists>b w'. setupSubWindow gl t p x y width height z w = Some (b, w') \<and> alike w w') \<or>
    setupSubWindow gl t p x y width height z w = None \<and> overruns gl t (fb_lastPosted fb) w"
proof -
  let ?c1 = "ask gl t (CreateSubWindow p [x, y, width, height]) w"
  let ?c2 = "ask gl t (EglCreateWindowSurface (fst ?c1)) (snd ?c1)"
  let ?w2 = "set_fb (\<lambda>fb. fb\<lparr>fb_eglSurface := fst ?c2, fb_subWin := fst ?c1\<rparr>) (snd ?c2)"
  have al2: "alike w ?w2" by (simp add: fb_slots_def)
  have "w_fb ?w2 \<noteq> None" using fb by simp
  from bindSubwin_ok [OF this] obtain ok w3 where 3: "bindSubwin_locked gl t ?w2 = Some (ok, w3)" "alike ?w2 w3" by blast
  have al3: "alike w w3" using alike_trans [OF al2 3(2)] .
  then obtain fb3 where fb3: "w_fb w3 = Some fb3" using alike_None(3) [OF al3] fb by auto
  let ?w3 = "set_fb (\<lambda>fb. fb\<lparr>fb_zRot := z\<rparr>) (tell gl t [Gl1 (Viewport [0, 0, width, height])] w3)"
  have al3': "alike w ?w3" using al3 by (simp add: fb_slots_def)
  have "w_cbs w3 = w_cbs w" "fb_lastPosted fb3 = fb_lastPosted fb" using bindSubwin_same [OF 3(1)] fb fb3 by simp_all
  then have ov: "overruns gl t (fb_lastPosted fb3) ?w3 = overruns gl t (fb_lastPosted fb) w"
    using overruns_same [of ?w3 w] al3' by (simp add: alike_def)
  let ?run = "do { (r, w4) \<leftarrow> post gl t (fb_lastPosted fb3) ?w3; (r2, w5) \<leftarrow> unbind_locked gl t w4; Some (True, w5) }"
  have run: "(\<exists>b w'. ?run = Some (b, w') \<and> alike w w') \<or> ?run = None \<and> overruns gl t (fb_lastPosted fb) w"
    using post_ok [OF alike_owned [OF al3' o], of gl t "fb_lastPosted fb3"]
  proof (elim disjE exE conjE)
    fix r w4 assume 4: "post gl t (fb_lastPosted fb3) ?w3 = Some (r, w4)" "alike ?w3 w4"
    have al4: "alike w w4" using alike_trans [OF al3' 4(2)] .
    have "w_fb w \<noteq> None" using fb by simp
    from unbind_after [OF al4 this] obtain r2 w5 where "unbind_locked gl t w4 = Some (r2, w5)" "alike w w5" by blast
    then show ?thesis using 4(1) by auto
  qed (simp add: ov)
  have "setupSubWindow gl t p x y width height z w =
     (if fb_subWin fb \<noteq> 0 then Some (False, w) else if fst ?c1 = 0 then Some (False, snd ?c1)
      else if fst ?c2 = 0 then Some (False, set_fb (\<lambda>fb. fb\<lparr>fb_eglSurface := 0, fb_subWin := 0\<rparr>) (tell gl t [DestroySubWindow (fst ?c1)] (snd ?c2)))
      else if \<not> ok then Some (False, w3) else ?run)"
    using 3(1) fb3 by (simp add: setupSubWindow_def fb Let_def split_beta)
  then show ?thesis using al3 run by (auto simp: fb_slots_def)
qed

end
