(* ===== verification/FrameBufferKeep.thy ===== *)
theory FrameBufferKeep
  imports FrameBufferSafe
begin

text \<open>
  The operations of the frame buffer that move references: destroying and closing, attaching a
  colour buffer, binding a context and creating objects. Each returns and keeps the invariant.
\<close>

subsection \<open>Destroying and closing\<close>

lemma destroy_context_keeps:
  assumes "fb_inv w"
  shows "\<exists>w'. DestroyRenderContext gl t h w = Some w' \<and> keeps w w'"
proof -
  obtain fb where fb: "w_fb w = Some fb" using owned_fb [OF assms] by blast
  show ?thesis
  proof (cases "m_contexts fb h")
    case (Some a)
    from ctx_unref_ok [OF owned_take_ctx [OF assms fb Some]]
    show ?thesis using fb Some by (fastforce simp: DestroyRenderContext_def frame_def intro: keepsI)
  qed (use fb keeps_refl [OF assms] in \<open>simp add: DestroyRenderContext_def\<close>)
qed

lemma destroy_window_keeps:
  assumes "fb_inv w"
  shows "\<exists>w'. DestroyWindowSurface gl t h w = Some w' \<and> keeps w w'"
proof -
  obtain fb where fb: "w_fb w = Some fb" using owned_fb [OF assms] by blast
  show ?thesis
  proof (cases "m_windows fb h")
    case (Some a)
    from win_unref_ok [OF owned_take_win [OF assms fb Some]]
    show ?thesis using fb Some by (fastforce simp: DestroyWindowSurface_def frame_def intro: keepsI)
  qed (use fb keeps_refl [OF assms] in \<open>simp add: DestroyWindowSurface_def\<close>)
qed

lemma open_keeps:
  assumes "fb_inv w"
  shows "\<exists>r w'. openColorBuffer h w = Some (r, w') \<and> keeps w w'"
proof -
  obtain fb where fb: "w_fb w = Some fb" using owned_fb [OF assms] by blast
  show ?thesis
  proof (cases "m_colorbuffers fb h")
    case (Some p)
    obtain a n where p: "p = (a, n)" by (cases p)
    show ?thesis using owned_count_cb [OF assms fb Some [unfolded p], of "n + 1"] fb Some p
      by (auto simp: openColorBuffer_def intro!: keepsI)
  qed (use fb keeps_refl [OF assms] in \<open>auto simp: openColorBuffer_def\<close>)
qed

lemma close_keeps:
  assumes "fb_inv w"
  shows "\<exists>w'. closeColorBuffer gl t h w = Some w' \<and> keeps w w'"
proof -
  obtain fb where fb: "w_fb w = Some fb" using owned_fb [OF assms] by blast
  show ?thesis
  proof (cases "m_colorbuffers fb h")
    case (Some p)
    obtain a n where p: "p = (a, n)" by (cases p)
    show ?thesis
    proof (cases "n - 1 = 0")
      case True
      from cb_unref_ok [OF owned_take_cb [OF assms fb Some [unfolded p]]]
      show ?thesis using fb Some p True by (fastforce simp: closeColorBuffer_def frame_def intro: keepsI)
    next
      case False
      then show ?thesis using owned_count_cb [OF assms fb Some [unfolded p], of "n - 1"] fb Some p
        by (auto simp: closeColorBuffer_def intro!: keepsI)
    qed
  qed (use fb keeps_refl [OF assms] in \<open>simp add: closeColorBuffer_def\<close>)
qed

subsection \<open>Attaching a colour buffer\<close>

lemma alike_size: "alike w w' \<Longrightarrow> w_wins w' a \<noteq> None \<Longrightarrow> \<exists>w''. set_win a (\<lambda>v. v\<lparr>ws_width := x, ws_height := y\<rparr>) w' = Some w'' \<and> alike w w''"
  by (auto simp: set_win_def win_slots_def intro!: alike_upd_win)

lemma setColorBuffer_ok:
  assumes o: "fb_inv w" and fb: "w_fb w = Some fb" and h: "m_windows fb h = Some a" "m_colorbuffers fb k = Some (b, n)"
  shows "\<exists>w'. setColorBuffer gl t a b w = Some w' \<and> keeps w w'"
proof -
  obtain v where v: "w_wins w a = Some v" using owned_map_win [OF o fb h(1)] by blast
  have b: "b \<noteq> NULL" "w_cbs w b \<noteq> None" using owned_map_cb [OF o fb h(2)] by blast+
  from cb_ref_ok [OF o disjI2 [OF b(2)]] obtain g where
    1: "cb_ref b w = Some (w\<lparr>w_cbs := g\<rparr>)" "owned {#b#} {#} {#} (w\<lparr>w_cbs := g\<rparr>)" by blast
  let ?w2 = "w\<lparr>w_cbs := g, w_wins := (w_wins w)(a \<mapsto> v\<lparr>ws_attachedColorBuffer := b\<rparr>)\<rparr>"
  have 2: "set_win a (\<lambda>v. v\<lparr>ws_attachedColorBuffer := b\<rparr>) (w\<lparr>w_cbs := g\<rparr>) = Some ?w2"
    "owned {#ws_attachedColorBuffer v#} {#} {#} ?w2" using owned_attach [OF 1(2), of a v] v by (simp_all add: set_win_def)
  from cb_unref_ok [OF 2(2)] obtain w3 where
    3: "cb_unref gl t (ws_attachedColorBuffer v) ?w2 = Some w3" "fb_inv w3" "frame ?w2 w3" by blast
  have fr: "frame w w3" using 3(3) by (simp add: frame_def)
  obtain fb3 where fb3: "w_fb w3 = Some fb3" "m_windows fb3 = m_windows fb" "m_colorbuffers fb3 = m_colorbuffers fb"
    using outline_fb [OF frame_outline [OF fr] fb] by metis
  obtain cb where cb: "w_cbs w3 b = Some cb" using owned_map_cb [OF 3(2) fb3(1), of k b n] h(2) fb3(3) by auto
  obtain v3 where v3: "w_wins w3 a = Some v3" using owned_map_win [OF 3(2) fb3(1), of h a] h(1) fb3(2) by auto
  have "w_wins w3 a \<noteq> None" "w_fb w3 \<noteq> None" using v3 fb3(1) by simp_all
  from resizePbuffer_ok [OF this, of gl t "cb_width cb" "cb_height cb"] obtain r w4 where
    4: "resizePbuffer gl t a (cb_width cb) (cb_height cb) w3 = Some (r, w4)" "alike w3 w4" by blast
  let ?w5 = "if ws_pbufWidth v3 \<noteq> 0 \<and> ws_pbufHeight v3 \<noteq> 0 then w4 else w3"
  have al: "alike w3 ?w5" using 4(2) by simp
  have "w_wins ?w5 a \<noteq> None" using alike_None(2) [OF al, of a] v3 by simp
  from alike_size [OF al this] obtain w6 where
    6: "set_win a (\<lambda>v. v\<lparr>ws_width := cb_width cb, ws_height := cb_height cb\<rparr>) ?w5 = Some w6" "alike w3 w6" by blast
  have "setColorBuffer gl t a b w = (if cb_width cb \<noteq> ws_width v3 \<or> cb_height cb \<noteq> ws_height v3 then Some w6 else Some w3)"
    using 1(1) 3(1) cb v3 4(1) 6(1) by (cases "ws_pbufWidth v3 \<noteq> 0 \<and> ws_pbufHeight v3 \<noteq> 0") (auto simp: setColorBuffer_def v 2(1))
  moreover have "keeps w w3" "keeps w w6"
    using 3(2) fr alike_keeps [OF 3(2) 6(2)] by (simp_all add: keeps_def frame_def)
  ultimately show ?thesis by auto
qed

lemma set_buffer_keeps:
  assumes "fb_inv w"
  shows "\<exists>r w'. setWindowSurfaceColorBuffer gl t h k w = Some (r, w') \<and> keeps w w'"
proof -
  obtain fb where fb: "w_fb w = Some fb" using owned_fb [OF assms] by blast
  show ?thesis
  proof (cases "m_windows fb h = None \<or> m_colorbuffers fb k = None")
    case True
    then show ?thesis using fb keeps_refl [OF assms] by (auto simp: setWindowSurfaceColorBuffer_def split: option.splits)
  next
    case False
    then obtain a b n where h: "m_windows fb h = Some a" "m_colorbuffers fb k = Some (b, n)" by auto
    from setColorBuffer_ok [OF assms fb h] obtain w' where "setColorBuffer gl t a b w = Some w'" "keeps w w'" by blast
    then show ?thesis using fb h by (auto simp: setWindowSurfaceColorBuffer_def)
  qed
qed

subsection \<open>Binding a context\<close>

lemma set_read_ok:
  assumes o: "owned cx xx wx w" and "w_wins w a \<noteq> None" and "named_ctx w c"
  shows "\<exists>w'. set_readContext gl t a c w = Some w' \<and> owned cx xx wx w' \<and> frame w w' \<and> dom (w_wins w') = dom (w_wins w)"
proof -
  obtain v where v: "w_wins w a = Some v" using assms(2) by blast
  from ctx_ref_ok [OF o named_alive(1) [OF o assms(3)]] obtain g where
    1: "ctx_ref c w = Some (w\<lparr>w_ctxs := g\<rparr>)" "owned cx (add_mset c xx) wx (w\<lparr>w_ctxs := g\<rparr>)" by blast
  let ?w2 = "w\<lparr>w_ctxs := g, w_wins := (w_wins w)(a \<mapsto> v\<lparr>ws_readContext := c\<rparr>)\<rparr>"
  have "owned cx (add_mset (ws_readContext v) xx) wx ?w2" using owned_read [OF 1(2), of a v] v by simp
  from ctx_unref_ok [OF this] obtain w3 where
    3: "ctx_unref gl t (ws_readContext v) ?w2 = Some w3" "owned cx xx wx w3" "frame ?w2 w3" "same_links ?w2 w3" by blast
  have "dom (w_wins w3) = dom (w_wins ?w2)" using 3(4) unfolding same_links_def dom_def by (metis map_option_is_None)
  then show ?thesis using v 1(1) 3 by (auto simp: set_readContext_def set_win_def frame_def)
qed

lemma set_draw_ok:
  assumes o: "owned cx xx wx w" and "w_wins w a \<noteq> None" and "named_ctx w c"
  shows "\<exists>w'. set_drawContext gl t a c w = Some w' \<and> owned cx xx wx w' \<and> frame w w' \<and> dom (w_wins w') = dom (w_wins w)"
proof -
  obtain v where v: "w_wins w a = Some v" using assms(2) by blast
  from ctx_ref_ok [OF o named_alive(1) [OF o assms(3)]] obtain g where
    1: "ctx_ref c w = Some (w\<lparr>w_ctxs := g\<rparr>)" "owned cx (add_mset c xx) wx (w\<lparr>w_ctxs := g\<rparr>)" by blast
  let ?w2 = "w\<lparr>w_ctxs := g, w_wins := (w_wins w)(a \<mapsto> v\<lparr>ws_drawContext := c\<rparr>)\<rparr>"
  have "owned cx (add_mset (ws_drawContext v) xx) wx ?w2" using owned_draw [OF 1(2), of a v] v by simp
  from ctx_unref_ok [OF this] obtain w3 where
    3: "ctx_unref gl t (ws_drawContext v) ?w2 = Some w3" "owned cx xx wx w3" "frame ?w2 w3" "same_links ?w2 w3" by blast
  have "dom (w_wins w3) = dom (w_wins ?w2)" using 3(4) unfolding same_links_def dom_def by (metis map_option_is_None)
  then show ?thesis using v 1(1) 3 by (auto simp: set_drawContext_def set_win_def frame_def)
qed

lemma win_bind_ok:
  assumes o: "owned cx xx wx w" and a: "w_wins w a \<noteq> None" and c: "named_ctx w c" and t: "w_threads w t \<noteq> None"
  shows "\<exists>w'. win_bind gl t a c ty w = Some w' \<and> owned cx xx wx w' \<and> frame w w'"
proof -
  have fin: "\<exists>w'. bind_fbo gl t a w1 = Some w' \<and> owned cx xx wx w' \<and> frame w w'"
    if o1: "owned cx xx wx w1" and f: "frame w w1" and d: "dom (w_wins w1) = dom (w_wins w)" for w1
  proof -
    have "w_wins w1 a \<noteq> None" "w_threads w1 t \<noteq> None" using a t d f by (auto simp: frame_def)
    from bind_fbo_ok [OF owned_win_alive [OF o1 this(1)] owned_ctx_alive [OF o1 this(2)]] obtain w' where
      "bind_fbo gl t a w1 = Some w'" "alike w1 w'" by blast
    then show ?thesis using alike_owned [OF _ o1] frame_trans [OF f alike_frame] by blast
  qed
  from set_read_ok [OF o a c] obtain w1 where
    1: "set_readContext gl t a c w = Some w1" "owned cx xx wx w1" "frame w w1" "dom (w_wins w1) = dom (w_wins w)" by blast
  have a1: "w_wins w1 a \<noteq> None" using a 1(4) by auto
  from set_draw_ok [OF 1(2) a1 outline_named(1) [OF frame_outline [OF 1(3)] c]] obtain w2 where
    2: "set_drawContext gl t a c w1 = Some w2" "owned cx xx wx w2" "frame w1 w2" "dom (w_wins w2) = dom (w_wins w1)" by blast
  from set_draw_ok [OF o a c] obtain w3 where
    3: "set_drawContext gl t a c w = Some w3" "owned cx xx wx w3" "frame w w3" "dom (w_wins w3) = dom (w_wins w)" by blast
  show ?thesis
    using fin [OF 1(2,3,4)] fin [OF 2(2) frame_trans [OF 1(3) 2(3)]] fin [OF 3(2,3,4)] 1(1,4) 2(1,4) 3(1)
    by (cases ty) (auto simp: win_bind_def)
qed

text \<open>One assignment to a smart pointer of the thread data.\<close>

lemma assign_ctx:
  assumes o: "owned cx xx wx w" and ti: "w_threads w t = Some ti" and c: "named_ctx w c"
  shows "\<exists>w1 w2 w3. ctx_ref c w = Some w1 \<and> set_thread t (\<lambda>ti. ti\<lparr>ti_currContext := c\<rparr>) w1 = Some w2 \<and>
    ctx_unref gl t (ti_currContext ti) w2 = Some w3 \<and> owned cx xx wx w3 \<and> outline w w3 \<and> w_threads w3 t = Some (ti\<lparr>ti_currContext := c\<rparr>)"
proof -
  from ctx_ref_ok [OF o named_alive(1) [OF o c]] obtain g where
    1: "ctx_ref c w = Some (w\<lparr>w_ctxs := g\<rparr>)" "owned cx (add_mset c xx) wx (w\<lparr>w_ctxs := g\<rparr>)" by blast
  let ?w2 = "w\<lparr>w_ctxs := g, w_threads := (w_threads w)(t \<mapsto> ti\<lparr>ti_currContext := c\<rparr>)\<rparr>"
  have 2: "set_thread t (\<lambda>ti. ti\<lparr>ti_currContext := c\<rparr>) (w\<lparr>w_ctxs := g\<rparr>) = Some ?w2" using ti by (simp add: set_thread_def)
  have "owned cx (add_mset (ti_currContext ti) xx) wx ?w2" using owned_curr [OF 1(2), of t ti] ti by simp
  from ctx_unref_ok [OF this] obtain w3 where
    3: "ctx_unref gl t (ti_currContext ti) ?w2 = Some w3" "owned cx xx wx w3" "frame ?w2 w3" by blast
  have "outline w w3" "w_threads w3 t = Some (ti\<lparr>ti_currContext := c\<rparr>)" using 3(3) ti by (auto simp: frame_def outline_def)
  then show ?thesis using 1(1) 2 3(1,2) by blast
qed

lemma assign_draw:
  assumes o: "owned cx xx wx w" and ti: "w_threads w t = Some ti" and d: "named_win w d"
  shows "\<exists>w1 w2 w3. win_ref d w = Some w1 \<and> set_thread t (\<lambda>ti. ti\<lparr>ti_currDrawSurf := d\<rparr>) w1 = Some w2 \<and>
    win_unref gl t (ti_currDrawSurf ti) w2 = Some w3 \<and> owned cx xx wx w3 \<and> outline w w3 \<and> w_threads w3 t = Some (ti\<lparr>ti_currDrawSurf := d\<rparr>)"
proof -
  from win_ref_ok [OF o named_alive(2) [OF o d]] obtain g where
    1: "win_ref d w = Some (w\<lparr>w_wins := g\<rparr>)" "owned cx xx (add_mset d wx) (w\<lparr>w_wins := g\<rparr>)" by blast
  let ?w2 = "w\<lparr>w_wins := g, w_threads := (w_threads w)(t \<mapsto> ti\<lparr>ti_currDrawSurf := d\<rparr>)\<rparr>"
  have 2: "set_thread t (\<lambda>ti. ti\<lparr>ti_currDrawSurf := d\<rparr>) (w\<lparr>w_wins := g\<rparr>) = Some ?w2" using ti by (simp add: set_thread_def)
  have "owned cx xx (add_mset (ti_currDrawSurf ti) wx) ?w2" using owned_tdraw [OF 1(2), of t ti] ti by simp
  from win_unref_ok [OF this] obtain w3 where
    3: "win_unref gl t (ti_currDrawSurf ti) ?w2 = Some w3" "owned cx xx wx w3" "frame ?w2 w3" by blast
  have "outline w w3" "w_threads w3 t = Some (ti\<lparr>ti_currDrawSurf := d\<rparr>)" using 3(3) ti by (auto simp: frame_def outline_def)
  then show ?thesis using 1(1) 2 3(1,2) by blast
qed

lemma assign_read:
  assumes o: "owned cx xx wx w" and ti: "w_threads w t = Some ti" and d: "named_win w d"
  shows "\<exists>w1 w2 w3. win_ref d w = Some w1 \<and> set_thread t (\<lambda>ti. ti\<lparr>ti_currReadSurf := d\<rparr>) w1 = Some w2 \<and>
    win_unref gl t (ti_currReadSurf ti) w2 = Some w3 \<and> owned cx xx wx w3 \<and> outline w w3 \<and> w_threads w3 t = Some (ti\<lparr>ti_currReadSurf := d\<rparr>)"
proof -
  from win_ref_ok [OF o named_alive(2) [OF o d]] obtain g where
    1: "win_ref d w = Some (w\<lparr>w_wins := g\<rparr>)" "owned cx xx (add_mset d wx) (w\<lparr>w_wins := g\<rparr>)" by blast
  let ?w2 = "w\<lparr>w_wins := g, w_threads := (w_threads w)(t \<mapsto> ti\<lparr>ti_currReadSurf := d\<rparr>)\<rparr>"
  have 2: "set_thread t (\<lambda>ti. ti\<lparr>ti_currReadSurf := d\<rparr>) (w\<lparr>w_wins := g\<rparr>) = Some ?w2" using ti by (simp add: set_thread_def)
  have "owned cx xx (add_mset (ti_currReadSurf ti) wx) ?w2" using owned_tread [OF 1(2), of t ti] ti by simp
  from win_unref_ok [OF this] obtain w3 where
    3: "win_unref gl t (ti_currReadSurf ti) ?w2 = Some w3" "owned cx xx wx w3" "frame ?w2 w3" by blast
  have "outline w w3" "w_threads w3 t = Some (ti\<lparr>ti_currReadSurf := d\<rparr>)" using 3(3) ti by (auto simp: frame_def outline_def)
  then show ?thesis using 1(1) 2 3(1,2) by blast
qed

text \<open>The decoders' data pointers, the last part of \<open>set_current\<close>.\<close>

lemma set_data_ok:
  assumes o: "owned cx xx wx w" and "w_threads w t \<noteq> None" and "named_ctx w c"
  shows "\<exists>w'. (if c = NULL then set_thread t (\<lambda>ti. ti\<lparr>ti_glData := NULL, ti_gl2Data := NULL\<rparr>) w
      else do { x \<leftarrow> w_ctxs w c; set_thread t (\<lambda>ti. if rc_isGL2 x then ti\<lparr>ti_gl2Data := c\<rparr> else ti\<lparr>ti_glData := c\<rparr>) w }) = Some w' \<and>
    owned cx xx wx w' \<and> outline w w'"
proof -
  obtain ti where ti: "w_threads w t = Some ti" using assms(2) by blast
  have k: "\<exists>w'. set_thread t f w = Some w' \<and> owned cx xx wx w' \<and> outline w w'"
    if "ti_currContext (f ti) = ti_currContext ti" "ti_currDrawSurf (f ti) = ti_currDrawSurf ti" "ti_currReadSurf (f ti) = ti_currReadSurf ti" for f
    using owned_tdata [OF o ti that] ti by (simp add: set_thread_def outline_thread domI)
  show ?thesis using named_alive(1) [OF o assms(3)] by (auto intro!: k)
qed

lemma set_current_ok:
  assumes o: "owned cx xx wx w" and "w_threads w t \<noteq> None" and "named_ctx w c" "named_win w d" "named_win w r"
  shows "\<exists>w'. set_current gl t c d r w = Some w' \<and> owned cx xx wx w' \<and> outline w w'"
proof -
  obtain ti where ti: "w_threads w t = Some ti" using assms(2) by blast
  from assign_ctx [OF o ti assms(3)] obtain w1 w2 w3 where
    1: "ctx_ref c w = Some w1" "set_thread t (\<lambda>ti. ti\<lparr>ti_currContext := c\<rparr>) w1 = Some w2" "ctx_unref gl t (ti_currContext ti) w2 = Some w3"
    and o3: "owned cx xx wx w3" "outline w w3" "w_threads w3 t = Some (ti\<lparr>ti_currContext := c\<rparr>)" by blast
  from assign_draw [where gl = gl, OF o3(1,3) outline_named(2) [OF o3(2) assms(4)]] obtain w4 w5 w6 where
    2: "win_ref d w3 = Some w4" "set_thread t (\<lambda>ti. ti\<lparr>ti_currDrawSurf := d\<rparr>) w4 = Some w5" "win_unref gl t (ti_currDrawSurf ti) w5 = Some w6"
    and o6: "owned cx xx wx w6" "outline w3 w6" "w_threads w6 t = Some (ti\<lparr>ti_currContext := c, ti_currDrawSurf := d\<rparr>)" by auto
  have l6: "outline w w6" using outline_trans [OF o3(2) o6(2)] .
  from assign_read [where gl = gl, OF o6(1,3) outline_named(2) [OF l6 assms(5)]] obtain w7 w8 w9 where
    3: "win_ref r w6 = Some w7" "set_thread t (\<lambda>ti. ti\<lparr>ti_currReadSurf := r\<rparr>) w7 = Some w8" "win_unref gl t (ti_currReadSurf ti) w8 = Some w9"
    and o9: "owned cx xx wx w9" "outline w6 w9" "w_threads w9 t \<noteq> None" by auto
  have l9: "outline w w9" using outline_trans [OF l6 o9(2)] .
  from set_data_ok [OF o9(1,3) outline_named(1) [OF l9 assms(3)]] obtain w' where
    4: "(if c = NULL then set_thread t (\<lambda>ti. ti\<lparr>ti_glData := NULL, ti_gl2Data := NULL\<rparr>) w9
      else do { x \<leftarrow> w_ctxs w9 c; set_thread t (\<lambda>ti. if rc_isGL2 x then ti\<lparr>ti_gl2Data := c\<rparr> else ti\<lparr>ti_glData := c\<rparr>) w9 }) = Some w'"
      "owned cx xx wx w'" "outline w9 w'" by blast
  have "set_current gl t c d r w = Some w'"
    unfolding set_current_def ti bind.bind_lunit 1 2 3 using 4(1) by simp
  then show ?thesis using 4(2) outline_trans [OF l9 4(3)] by blast
qed

text \<open>The objects of good handles are named by them, and have library objects.\<close>

lemma bind_handles_named:
  assumes "w_fb w = Some fb" and "bind_handles fb hc hw hr = Some (c, d, r)"
  shows "named_ctx w c" "named_win w d" "named_win w r"
  using assms by (auto simp: bind_handles_def named_ctx_def named_win_def bind_eq_Some_conv split: if_splits)

lemma egl_of_ok:
  assumes "owned cx xx wx w"
  shows "named_win w a \<Longrightarrow> \<exists>x. egl_of_win a w = Some x" "named_ctx w c \<Longrightarrow> \<exists>x. egl_of_ctx c w = Some x"
  using named_alive [OF assms] by (auto simp: egl_of_win_def egl_of_ctx_def)

text \<open>The surfaces that are bound are held by temporaries.\<close>

lemma bind_surfaces_ok:
  assumes o: "owned cx xx (add_mset br (add_mset bd wx)) w" and c: "named_ctx w c" and t: "w_threads w t \<noteq> None"
  shows "\<exists>w'. (if bd \<noteq> NULL \<and> br \<noteq> NULL
      then (if bd \<noteq> br then do { v \<leftarrow> win_bind gl t bd c SURFACE_BIND_DRAW w; win_bind gl t br c SURFACE_BIND_READ v }
            else win_bind gl t bd c SURFACE_BIND_READDRAW w)
      else Some w) = Some w' \<and> owned cx xx (add_mset br (add_mset bd wx)) w' \<and> outline w w'"
proof (cases "bd \<noteq> NULL \<and> br \<noteq> NULL")
  case True
  have alive: "w_wins v bd \<noteq> None" "w_wins v br \<noteq> None" if "owned cx xx (add_mset br (add_mset bd wx)) v" for v
    using owned_extra(3) [OF that] True by auto
  from win_bind_ok [OF o alive(1) [OF o] c t] obtain v where
    v: "win_bind gl t bd c SURFACE_BIND_DRAW w = Some v" "owned cx xx (add_mset br (add_mset bd wx)) v" "frame w v" by blast
  have "named_ctx v c" "w_threads v t \<noteq> None" using outline_named(1) [OF frame_outline [OF v(3)] c] t v(3) by (auto simp: frame_def)
  from win_bind_ok [OF v(2) alive(2) [OF v(2)] this] obtain u where
    u: "win_bind gl t br c SURFACE_BIND_READ v = Some u" "owned cx xx (add_mset br (add_mset bd wx)) u" "frame v u" by blast
  from win_bind_ok [OF o alive(1) [OF o] c t] obtain x where
    x: "win_bind gl t bd c SURFACE_BIND_READDRAW w = Some x" "owned cx xx (add_mset br (add_mset bd wx)) x" "frame w x" by blast
  show ?thesis using True v u x frame_outline [OF frame_trans [OF v(3) u(3)]] frame_outline [OF x(3)] by auto
qed (use o in auto)

lemma bind_rest:
  assumes o: "fb_inv w" and t: "w_threads w t \<noteq> None" and a: "bd = NULL \<or> w_wins w bd \<noteq> None" "br = NULL \<or> w_wins w br \<noteq> None"
    and n: "named_ctx w c" "named_win w d" "named_win w r"
  shows "\<exists>w2 w3 w4 w5 w6 w7. win_ref bd w = Some w2 \<and> win_ref br w2 = Some w3 \<and> set_current gl t c d r w3 = Some w4 \<and>
    (if bd \<noteq> NULL \<and> br \<noteq> NULL
     then (if bd \<noteq> br then do { v \<leftarrow> win_bind gl t bd c SURFACE_BIND_DRAW w4; win_bind gl t br c SURFACE_BIND_READ v }
           else win_bind gl t bd c SURFACE_BIND_READDRAW w4)
     else Some w4) = Some w5 \<and>
    win_unref gl t br w5 = Some w6 \<and> win_unref gl t bd w6 = Some w7 \<and> keeps w w7"
proof -
  from win_ref_ok [OF o a(1)] obtain g where
    2: "win_ref bd w = Some (w\<lparr>w_wins := g\<rparr>)" "owned {#} {#} {#bd#} (w\<lparr>w_wins := g\<rparr>)" "same_links w (w\<lparr>w_wins := g\<rparr>)" by blast
  let ?w2 = "w\<lparr>w_wins := g\<rparr>"
  have "br = NULL \<or> w_wins ?w2 br \<noteq> None" using a(2) 2(3) unfolding same_links_def by (metis map_option_is_None)
  from win_ref_ok [OF 2(2) this] obtain g' where
    3: "win_ref br ?w2 = Some (?w2\<lparr>w_wins := g'\<rparr>)" "owned {#} {#} {#br, bd#} (?w2\<lparr>w_wins := g'\<rparr>)" by auto
  let ?w3 = "?w2\<lparr>w_wins := g'\<rparr>"
  have l3: "outline w ?w3" by simp
  have t3: "w_threads ?w3 t \<noteq> None" using t by simp
  from set_current_ok [OF 3(2) t3 outline_named(1) [OF l3 n(1)] outline_named(2) [OF l3 n(2)] outline_named(2) [OF l3 n(3)]] obtain w4 where
    4: "set_current gl t c d r ?w3 = Some w4" "owned {#} {#} {#br, bd#} w4" "outline ?w3 w4" by blast
  have l4: "outline w w4" using outline_trans [OF l3 4(3)] .
  have t4: "w_threads w4 t \<noteq> None" using t outline_dom [OF l4] by simp
  from bind_surfaces_ok [OF 4(2) outline_named(1) [OF l4 n(1)] t4] obtain w5 where
    5: "(if bd \<noteq> NULL \<and> br \<noteq> NULL
     then (if bd \<noteq> br then do { v \<leftarrow> win_bind gl t bd c SURFACE_BIND_DRAW w4; win_bind gl t br c SURFACE_BIND_READ v }
           else win_bind gl t bd c SURFACE_BIND_READDRAW w4)
     else Some w4) = Some w5" "owned {#} {#} {#br, bd#} w5" "outline w4 w5" by blast
  from win_unref_ok [OF 5(2)] obtain w6 where 6: "win_unref gl t br w5 = Some w6" "owned {#} {#} {#bd#} w6" "frame w5 w6" by blast
  from win_unref_ok [OF 6(2)] obtain w7 where 7: "win_unref gl t bd w6 = Some w7" "fb_inv w7" "frame w6 w7" by blast
  have "outline w w7" using outline_trans [OF l4 outline_trans [OF 5(3) frame_outline [OF frame_trans [OF 6(3) 7(3)]]]] .
  then have "keeps w w7" using 7(2) by (simp add: keeps_def outline_def)
  then show ?thesis using 2(1) 3(1) 4(1) 5(1) 6(1) 7(1) by blast
qed

lemma bind_context_keeps:
  assumes o: "fb_inv w" and t: "w_threads w t \<noteq> None"
  shows "\<exists>b w'. bindContext gl t hc hw hr w = Some (b, w') \<and> keeps w w'"
proof -
  obtain fb where fb: "w_fb w = Some fb" using owned_fb [OF o] by blast
  show ?thesis
  proof (cases "bind_handles fb hc hw hr")
    case None
    then show ?thesis using fb keeps_refl [OF o] by (auto simp: bindContext_def)
  next
    case (Some p)
    obtain c d r where p: "p = (c, d, r)" by (cases p)
    note n = bind_handles_named [OF fb Some [unfolded p]]
    obtain xd xr xc where x: "egl_of_win d w = Some xd" "egl_of_win r w = Some xr" "egl_of_ctx c w = Some xc"
      using egl_of_ok(1) [OF o n(2)] egl_of_ok(1) [OF o n(3)] egl_of_ok(2) [OF o n(1)] by blast
    let ?m = "ask gl t (EglMakeCurrent xd xr xc) w"
    let ?w1 = "snd ?m"
    have al: "alike w ?w1" by simp
    have o1: "fb_inv ?w1" using alike_owned [OF al o] .
    obtain ti where ti: "w_threads ?w1 t = Some ti" using t by auto
    define bd br where b: "bd = (if d = NULL \<and> r = NULL then ti_currDrawSurf ti else d)" "br = (if d = NULL \<and> r = NULL then ti_currReadSurf ti else r)"
    have n1: "named_ctx ?w1 c" "named_win ?w1 d" "named_win ?w1 r" 
      by (rule outline_named [OF alike_outline [OF al]], rule n)+
    have "bd = NULL \<or> w_wins ?w1 bd \<noteq> None" "br = NULL \<or> w_wins ?w1 br \<noteq> None"
      
      using named_alive(2) [OF o1 n1(2)] named_alive(2) [OF o1 n1(3)] owned_thread_links(2,3) [OF o1 ti] by (simp_all only: b split: if_split) blast+
    moreover have "w_threads ?w1 t \<noteq> None" using ti by simp
    ultimately obtain w2 w3 w4 w5 w6 w7 where
      "win_ref bd ?w1 = Some w2" "win_ref br w2 = Some w3" "set_current gl t c d r w3 = Some w4"
      "(if bd \<noteq> NULL \<and> br \<noteq> NULL
        then (if bd \<noteq> br then do { v \<leftarrow> win_bind gl t bd c SURFACE_BIND_DRAW w4; win_bind gl t br c SURFACE_BIND_READ v }
              else win_bind gl t bd c SURFACE_BIND_READDRAW w4)
        else Some w4) = Some w5"
      "win_unref gl t br w5 = Some w6" "win_unref gl t bd w6 = Some w7" and k: "keeps ?w1 w7"
      using bind_rest [where gl = gl, OF o1 _ _ _ n1, of t bd br] by blast
    note r = this(1-6)
    have l: "(if d = NULL \<and> r = NULL then (ti_currDrawSurf ti, ti_currReadSurf ti) else (d, r)) = (bd, br)" by (simp add: b)
    have "bindContext gl t hc hw hr w = (if fst ?m = 0 then Some (False, ?w1) else Some (True, w7))"
      unfolding bindContext_def fb bind.bind_lunit Some p option.case prod.case x Let_def split_beta ti l fst_conv snd_conv r by simp
    then show ?thesis using alike_keeps [OF o al] keeps_trans [OF alike_keeps [OF o al] k] by auto
  qed
qed

end
