(* ===== verification/FrameBufferNew.thy ===== *)
theory FrameBufferNew
  imports FrameBufferKeep
begin

text \<open>
  Creating colour buffers, contexts and window surfaces: the new object starts with the
  reference of the caller's smart pointer, which ends in the handle map.
\<close>

subsection \<open>A new object and its first reference\<close>

lemma owned_fresh:
  assumes "owned cx xx wx w"
  shows "w_next w \<noteq> NULL" "w_cbs w (w_next w) = None" "w_ctxs w (w_next w) = None" "w_wins w (w_next w) = None"
  using assms by (auto simp: owned_def)

lemma counted_new:
  assumes "counted h c (\<lambda>b. r b + count m b)" and "h a = None" and "a \<noteq> NULL" and "c obj = 1"
  shows "counted (h(a \<mapsto> obj)) c (\<lambda>b. r b + count (add_mset a m) b)"
proof -
  have "r a + count m a = 0" using assms(1-3) by (simp add: counted_iff)
  then show ?thesis using assms(4) by (intro counted_upd [OF assms(1)]) auto
qed

lemma owned_new_cb:
  assumes o: "owned cx xx wx w" and "cb_count cb = 1"
  shows "owned (add_mset (w_next w) cx) xx wx (w\<lparr>w_next := w_next w + 1, w_cbs := (w_cbs w)(w_next w \<mapsto> cb)\<rparr>)"
  using o owned_fresh [OF o] counted_new [of "w_cbs w" cb_count _ cx "w_next w" cb] assms(2) unfolding owned_def by auto

lemma owned_new_ctx:
  assumes o: "owned cx xx wx w" and "rc_count c = 1"
  shows "owned cx (add_mset (w_next w) xx) wx (w\<lparr>w_next := w_next w + 1, w_ctxs := (w_ctxs w)(w_next w \<mapsto> c)\<rparr>)"
  using o owned_fresh [OF o] counted_new [of "w_ctxs w" rc_count _ xx "w_next w" c] assms(2) unfolding owned_def by auto

lemma refs_new:
  assumes "finite (dom m)" and "m k = None" and "f v = NULL" and "b \<noteq> NULL"
  shows "refs f (m(k \<mapsto> v)) b = refs f m b"
  using refs_upd [OF assms(1), of f k v b] assms(2-4) by (simp add: fun_upd_idem)

lemma owned_new_win:
  assumes o: "owned cx xx wx w" and v: "ws_count v = 1" "links v = (NULL, NULL, NULL)"
  shows "owned cx xx (add_mset (w_next w) wx) (w\<lparr>w_next := w_next w + 1, w_wins := (w_wins w)(w_next w \<mapsto> v)\<rparr>)"
proof -
  let ?w = "w\<lparr>w_next := w_next w + 1, w_wins := (w_wins w)(w_next w \<mapsto> v)\<rparr>"
  obtain fb where fb: "w_fb w = Some fb" "image_ok fb"
      "\<forall>h n. m_contexts fb h \<noteq> Some NULL \<and> m_windows fb h \<noteq> Some NULL \<and> m_colorbuffers fb h \<noteq> Some (NULL, n)"
    and c: "counted (w_cbs w) cb_count (\<lambda>a. cb_refs fb w a + count cx a)"
      "counted (w_ctxs w) rc_count (\<lambda>a. ctx_refs fb w a + count xx a)" "counted (w_wins w) ws_count (\<lambda>a. win_refs fb w a + count wx a)"
    and fin: "finite (dom (w_wins w))" "finite (dom (w_threads w))" using o unfolding owned_def by blast
  note n = refs_new [OF fin(1) owned_fresh(4) [OF o], of _ v]
  have "counted (w_cbs w) cb_count (\<lambda>a. cb_refs fb ?w a + count cx a)"
    by (rule counted_same [OF c(1)]) (use n [of ws_attachedColorBuffer] v(2) in \<open>simp add: cb_refs_def links_def\<close>)
  moreover have "counted (w_ctxs w) rc_count (\<lambda>a. ctx_refs fb ?w a + count xx a)"
    by (rule counted_same [OF c(2)]) (use n [of ws_readContext] n [of ws_drawContext] v(2) in \<open>simp add: ctx_refs_def links_def\<close>)
  moreover have "counted (w_wins ?w) ws_count (\<lambda>a. win_refs fb ?w a + count (add_mset (w_next w) wx) a)"
    using counted_new [OF c(3) owned_fresh(4,1) [OF o] v(1)] by simp
  moreover have "w_cbs w a = None \<and> w_ctxs w a = None \<and> w_wins ?w a = None" if "a = NULL \<or> w_next w + 1 \<le> a" for a
    using o that owned_fresh(1) [OF o] unfolding owned_def by auto
  ultimately show ?thesis unfolding owned_def using fb fin by auto
qed

lemma owned_skip: "owned cx xx wx w \<Longrightarrow> owned cx xx wx (w\<lparr>w_next := w_next w + 1\<rparr>)"
  unfolding owned_def by auto

text \<open>The first reference.\<close>

lemma first_cb_ref:
  assumes o: "owned cx xx wx w" and al: "alike (w\<lparr>w_next := w_next w + 1, w_cbs := (w_cbs w)(w_next w \<mapsto> cb)\<rparr>) w'" and "cb_count cb = 0"
  shows "\<exists>w2. cb_ref (w_next w) w' = Some w2 \<and> owned (add_mset (w_next w) cx) xx wx w2 \<and> outline w w2"
proof -
  let ?a = "w_next w"
  let ?u = "w\<lparr>w_next := ?a + 1, w_cbs := (w_cbs w)(?a \<mapsto> cb\<lparr>cb_count := 1\<rparr>)\<rparr>"
  have "map_option cb_count (w_cbs w' ?a) = Some 0" using al assms(3) by (simp add: alike_def)
  then obtain cb' where cb': "w_cbs w' ?a = Some cb'" "cb_count cb' = 0" by auto
  let ?w2 = "w'\<lparr>w_cbs := (w_cbs w')(?a \<mapsto> cb'\<lparr>cb_count := cb_count cb' + 1\<rparr>)\<rparr>"
  have "alike ?u ?w2" using al cb'(2) by (simp add: alike_def)
  then have "owned (add_mset ?a cx) xx wx ?w2" "outline w ?w2"
    using alike_owned [of ?u ?w2] owned_new_cb [OF o, of "cb\<lparr>cb_count := 1\<rparr>"] by (simp_all add: outline_def) (simp add: alike_def)
  then show ?thesis using cb' owned_fresh(1) [OF o] by (simp add: cb_ref_def set_cb_def)
qed

lemma first_ctx_ref:
  assumes o: "owned cx xx wx w" and al: "alike (w\<lparr>w_next := w_next w + 1, w_ctxs := (w_ctxs w)(w_next w \<mapsto> c)\<rparr>) w'" and "rc_count c = 0"
  shows "\<exists>w2. ctx_ref (w_next w) w' = Some w2 \<and> owned cx (add_mset (w_next w) xx) wx w2 \<and> outline w w2"
proof -
  let ?a = "w_next w"
  let ?u = "w\<lparr>w_next := ?a + 1, w_ctxs := (w_ctxs w)(?a \<mapsto> c\<lparr>rc_count := 1\<rparr>)\<rparr>"
  have c: "w_ctxs w' ?a = Some c" using al by (simp add: alike_def)
  let ?w2 = "w'\<lparr>w_ctxs := (w_ctxs w')(?a \<mapsto> c\<lparr>rc_count := rc_count c + 1\<rparr>)\<rparr>"
  have "alike ?u ?w2" using al assms(3) by (simp add: alike_def)
  then have "owned cx (add_mset ?a xx) wx ?w2" "outline w ?w2"
    using alike_owned [of ?u ?w2] owned_new_ctx [OF o, of "c\<lparr>rc_count := 1\<rparr>"] by (simp_all add: outline_def) (simp add: alike_def)
  then show ?thesis using c owned_fresh(1) [OF o] by (simp add: ctx_ref_def set_ctx_def)
qed

lemma first_win_ref:
  assumes o: "owned cx xx wx w" and al: "alike (w\<lparr>w_next := w_next w + 1, w_wins := (w_wins w)(w_next w \<mapsto> v)\<rparr>) w'"
    and v: "ws_count v = 0" "links v = (NULL, NULL, NULL)"
  shows "\<exists>w2. win_ref (w_next w) w' = Some w2 \<and> owned cx xx (add_mset (w_next w) wx) w2 \<and> outline w w2"
proof -
  let ?a = "w_next w"
  let ?u = "w\<lparr>w_next := ?a + 1, w_wins := (w_wins w)(?a \<mapsto> v\<lparr>ws_count := 1\<rparr>)\<rparr>"
  have "map_option win_slots (w_wins w' ?a) = Some (win_slots v)" using al by (simp add: alike_def)
  then obtain v' where v': "w_wins w' ?a = Some v'" "win_slots v' = win_slots v" by auto
  let ?w2 = "w'\<lparr>w_wins := (w_wins w')(?a \<mapsto> v'\<lparr>ws_count := ws_count v' + 1\<rparr>)\<rparr>"
  have "win_slots (v'\<lparr>ws_count := ws_count v' + 1\<rparr>) = win_slots (v\<lparr>ws_count := 1\<rparr>)" using v'(2) v(1) by (simp add: win_slots_def)
  then have "alike ?u ?w2" using al by (simp add: alike_def)
  then have "owned cx xx (add_mset ?a wx) ?w2" "outline w ?w2"
    using alike_owned [of ?u ?w2] owned_new_win [OF o, of "v\<lparr>ws_count := 1\<rparr>"] v(2) by (simp_all add: outline_def links_def) (simp add: alike_def)
  then show ?thesis using v' owned_fresh(1) [OF o] by (simp add: win_ref_def set_win_def)
qed

subsection \<open>Construction\<close>

text \<open>The object at \<open>w_next w\<close> with count 0, or none.\<close>

lemma ColorBuffer_create_ok:
  assumes "w_fb w \<noteq> None"
  shows "\<exists>a w'. ColorBuffer_create gl t width height fmt w = Some (a, w') \<and> (a = NULL \<and> alike w w' \<or>
    a = w_next w \<and> (\<exists>cb. cb_count cb = 0 \<and> alike (w\<lparr>w_next := w_next w + 1, w_cbs := (w_cbs w)(w_next w \<mapsto> cb)\<rparr>) w'))"
proof (cases "tex_format fmt")
  case None
  then show ?thesis by (auto simp: ColorBuffer_create_def)
next
  case (Some f)
  obtain ok w1 where 1: "bind_locked gl t w = Some (ok, w1)" "alike w w1" using bind_locked_ok [OF assms] by blast
  obtain fb where fb: "w_fb w1 = Some fb" using alike_None(3) [OF 1(2)] assms by auto
  define c2 where "c2 = ask gl t (Gl1 GenTextures) w1"
  define w3 where "w3 = tell gl t (tex_setup (of_nat (fst c2)) f width height) (snd c2)"
  define c4 where "c4 = ask gl t (Gl1 GenTextures) w3"
  define w5 where "w5 = tell gl t (tex_setup (of_nat (fst c4)) f width height) (snd c4)"
  define c6 where "c6 = (if fb_has_eglimage_texture_2d fb
    then ask gl t (EglCreateImage (fst (ask gl t EglGetCurrentContext w5)) (of_nat (fst c2))) (snd (ask gl t EglGetCurrentContext w5)) else (0, w5))"
  define cb where "cb = \<lparr>cb_count = 0, cb_tex = of_nat (fst c2), cb_blitTex = of_nat (fst c4), cb_eglImage = fst c6,
    cb_width = width, cb_height = height, cb_fbo = 0, cb_internalFormat = f\<rparr>"
  let ?w = "w\<lparr>w_next := w_next w + 1, w_cbs := (w_cbs w)(w_next w \<mapsto> cb)\<rparr>"
  let ?w6 = "snd c6\<lparr>w_next := w_next (snd c6) + 1, w_cbs := (w_cbs (snd c6))(w_next (snd c6) \<mapsto> cb)\<rparr>"
  have "alike w (snd c6)" using 1(2) by (simp add: c6_def w5_def c4_def w3_def c2_def)
  then have al: "alike ?w ?w6" and n: "w_next (snd c6) = w_next w" by (auto simp: alike_def)
  have "w_fb ?w \<noteq> None" using assms by simp
  from unbind_after [OF al this] obtain r w7 where 7: "unbind_locked gl t ?w6 = Some (r, w7)" "alike ?w w7" by blast
  have "ColorBuffer_create gl t width height fmt w = (if ok then Some (w_next (snd c6), w7) else Some (NULL, w1))"
    unfolding ColorBuffer_create_def Some option.case 1(1) bind.bind_lunit prod.case fb Let_def split_beta fst_conv snd_conv
      c2_def [symmetric] w3_def [symmetric] c4_def [symmetric] w5_def [symmetric] c6_def [symmetric] cb_def [symmetric] 7(1)
    by simp
  moreover have "cb_count cb = 0" by (simp add: cb_def)
  ultimately show ?thesis using 1(2) 7(2) n by auto
qed

lemma RenderContext_create_ok:
  assumes "w_fb w \<noteq> None" and "share = NULL \<or> w_ctxs w share \<noteq> None"
  shows "\<exists>a w'. RenderContext_create gl t cfg share gl2 w = Some (a, w') \<and> (a = NULL \<and> alike w w' \<or>
    a = w_next w \<and> (\<exists>c. rc_count c = 0 \<and> alike (w\<lparr>w_next := w_next w + 1, w_ctxs := (w_ctxs w)(w_next w \<mapsto> c)\<rparr>) w'))"
proof (cases "FBConfig_get cfg w")
  case None
  then show ?thesis by (auto simp: RenderContext_create_def)
next
  case (Some conf)
  obtain s where s: "(if share = NULL then Some 0 else map_option rc_ctx (w_ctxs w share)) = Some s" using assms(2) by (cases "share = NULL") auto
  obtain fb where fb: "w_fb w = Some fb" using assms(1) by blast
  define c1 where "c1 = ask gl t (EglCreateContext (fc_eglConfig conf) s (if gl2 then 2 else 1)) w"
  define c where "c = \<lparr>rc_count = 0, rc_ctx = fst c1, rc_config = cfg, rc_isGL2 = gl2\<rparr>"
  let ?w' = "snd c1\<lparr>w_next := w_next (snd c1) + 1, w_ctxs := (w_ctxs (snd c1))(w_next (snd c1) \<mapsto> c)\<rparr>"
  have e: "RenderContext_create gl t cfg share gl2 w = (if fst c1 = 0 then Some (NULL, snd c1) else Some (w_next (snd c1), ?w'))"
    unfolding RenderContext_create_def Some option.case s bind.bind_lunit fb Let_def split_beta c1_def [symmetric] c_def [symmetric] ..
  have al: "alike w (snd c1)" by (simp add: c1_def)
  then have "alike (w\<lparr>w_next := w_next w + 1, w_ctxs := (w_ctxs w)(w_next w \<mapsto> c)\<rparr>) ?w'" "w_next (snd c1) = w_next w"
    by (simp_all add: alike_def)
  moreover have "rc_count c = 0" by (simp add: c_def)
  ultimately show ?thesis unfolding e using al by auto
qed

lemma WindowSurface_create_ok:
  assumes o: "owned cx xx wx w"
  shows "\<exists>a w'. WindowSurface_create gl t cfg width height w = Some (a, w') \<and> (a = NULL \<and> owned cx xx wx w' \<and> outline w w' \<or>
    a = w_next w \<and> (\<exists>v. ws_count v = 0 \<and> links v = (NULL, NULL, NULL) \<and>
      alike (w\<lparr>w_next := w_next w + 1, w_wins := (w_wins w)(w_next w \<mapsto> v)\<rparr>) w'))"
proof (cases "FBConfig_get cfg w")
  case None
  then show ?thesis using o by (auto simp: WindowSurface_create_def)
next
  case (Some conf)
  let ?a = "w_next w"
  define v where "v = \<lparr>ws_count = 0, ws_eglSurface = 0, ws_attachedColorBuffer = NULL, ws_readContext = NULL, ws_drawContext = NULL,
     ws_width = 0, ws_height = 0, ws_pbufWidth = 0, ws_pbufHeight = 0, ws_fbo = 0, ws_blitTex = 0, ws_blitEGLImage = 0,
     ws_fbconf = fc_eglConfig conf\<rparr>"
  let ?w = "w\<lparr>w_next := ?a + 1, w_wins := (w_wins w)(?a \<mapsto> v)\<rparr>"
  have "w_wins ?w ?a \<noteq> None" "w_fb ?w \<noteq> None" using owned_fb [OF o] by auto
  from resizePbuffer_ok [OF this] obtain ok w1 where 1: "resizePbuffer gl t ?a width height ?w = Some (ok, w1)" "alike ?w w1" by blast
  have "map_option win_slots (w_wins w1 ?a) = Some (win_slots v)" using 1(2) by (simp add: alike_def)
  then obtain v1 where v1: "w_wins w1 ?a = Some v1" "win_slots v1 = win_slots v" by auto
  have null: "ws_drawContext v1 = NULL" "ws_readContext v1 = NULL" "ws_attachedColorBuffer v1 = NULL" using v1(2) by (simp_all add: win_slots_def v_def)
  obtain fb where fb: "w_fb w1 = Some fb" using alike_None(3) [OF 1(2)] owned_fb [OF o] by auto
  let ?t = "tell gl t [EglDestroyImage (ws_blitEGLImage v1), EglDestroySurface (ws_eglSurface v1)] w1"
  let ?d = "?t\<lparr>w_wins := (w_wins ?t)(?a := None)\<rparr>"
  have del: "WindowSurface_delete gl t ?a w1 = Some ?d"
    using v1 fb null by (simp add: WindowSurface_delete_def Let_def ctx_unref_def cb_unref_def)
  have ad: "alike (w\<lparr>w_next := ?a + 1\<rparr>) ?d"
    using 1(2) owned_fresh(4) [OF o] by (auto simp: alike_def)
  have od: "owned cx xx wx ?d" "outline w ?d" using alike_owned [OF ad owned_skip [OF o]] alike_outline [OF ad] by (simp_all add: outline_def)
  have "w_wins w1 ?a \<noteq> None" using v1(1) by simp
  from alike_size [OF 1(2) this, of height width] obtain w2 where
    2: "set_win ?a (\<lambda>v. v\<lparr>ws_width := width, ws_height := height\<rparr>) w1 = Some w2" "alike ?w w2" by blast
  have "WindowSurface_create gl t cfg width height w = (if ok then Some (?a, w2) else Some (NULL, ?d))"
    unfolding WindowSurface_create_def Some option.case Let_def v_def [symmetric] 1(1) bind.bind_lunit prod.case del 2(1) by simp
  moreover have "ws_count v = 0" "links v = (NULL, NULL, NULL)" by (simp_all add: v_def links_def)
  ultimately show ?thesis using od 2(2) by (cases ok) auto
qed

subsection \<open>Creation keeps the invariant\<close>

lemma create_buffer_keeps:
  assumes o: "fb_inv w" and fb: "w_fb w = Some fb"
  shows "(\<exists>r w'. createColorBuffer gl t width height fmt w = Some (r, w') \<and> keeps w w') \<or> createColorBuffer gl t width height fmt w = None \<and> (\<forall>h. \<not> free_handle fb h)"
proof -
  have "w_fb w \<noteq> None" using fb by simp
  from ColorBuffer_create_ok [where gl = gl and t = t and width = width and height = height and fmt = fmt, OF this] obtain a w1 where 1: "ColorBuffer_create gl t width height fmt w = Some (a, w1)"
    "a = NULL \<and> alike w w1 \<or> a = w_next w \<and>
      (\<exists>cb. cb_count cb = 0 \<and> alike (w\<lparr>w_next := w_next w + 1, w_cbs := (w_cbs w)(w_next w \<mapsto> cb)\<rparr>) w1)" by blast
  show ?thesis
  proof (cases "a = NULL")
    case True
    then have "alike w w1" using 1(2) owned_fresh(1) [OF o] by simp
    then show ?thesis using 1(1) True alike_keeps [OF o] by (auto simp: createColorBuffer_def)
  next
    case False
    from 1(2) False obtain cb where a: "a = w_next w" and "cb_count cb = 0"
      "alike (w\<lparr>w_next := w_next w + 1, w_cbs := (w_cbs w)(w_next w \<mapsto> cb)\<rparr>) w1" by blast
    from first_cb_ref [OF o this(3,2)] obtain w2 where
      2: "cb_ref a w1 = Some w2" "owned {#a#} {#} {#} w2" "outline w w2" using a by auto
    from outline_fb [OF 2(3) fb] obtain fb2 where fb2: "w_fb w2 = Some fb2" "m_contexts fb2 = m_contexts fb" "m_windows fb2 = m_windows fb" by metis
    show ?thesis
    proof (cases "\<exists>h. free_handle fb h")
      case none: False
      then have "new_handle w2 = None" using new_handle_none [OF fb2(1)] fb2 by (simp add: free_handle_def)
      then show ?thesis using 1(1) False 2(1) none by (simp add: createColorBuffer_def)
    next
      case True
      from new_handle_ok [OF fb2(1)] True fb2 obtain ret where 3: "new_handle w2 = Some (ret, w2\<lparr>s_nextHandle := ret\<rparr>)" by (auto simp: free_handle_def)
      let ?w3 = "w2\<lparr>s_nextHandle := ret\<rparr>"
      have o3: "owned {#a#} {#} {#} ?w3" using 2(2) by simp
      then have "w_cbs ?w3 a \<noteq> None" using owned_extra(1) [OF o3 False] by simp
      from cb_ref_ok [OF o3 disjI2 [OF this]] obtain g where
        4: "cb_ref a ?w3 = Some (?w3\<lparr>w_cbs := g\<rparr>)" "owned {#a, a#} {#} {#} (?w3\<lparr>w_cbs := g\<rparr>)" by blast
      let ?w4 = "set_fb (\<lambda>fb. fb\<lparr>m_colorbuffers := (m_colorbuffers fb)(ret \<mapsto> (a, 1))\<rparr>) (?w3\<lparr>w_cbs := g\<rparr>)"
      let ?old = "old_addr fst (m_colorbuffers fb2 ret)"
      have "owned {#?old, a#} {#} {#} ?w4" using owned_put_cb [OF 4(2) _ False, of fb2 ret 1] fb2 by simp
      from cb_unref_ok [OF this] obtain w5 where 5: "cb_unref gl t ?old ?w4 = Some w5" "owned {#a#} {#} {#} w5" "frame ?w4 w5" by blast
      from cb_unref_ok [OF 5(2)] obtain w6 where 6: "cb_unref gl t a w5 = Some w6" "fb_inv w6" "frame w5 w6" by blast
      have old: "(case m_colorbuffers fb2 ret of None \<Rightarrow> NULL | Some (b, n) \<Rightarrow> b) = ?old" by (auto simp: old_addr_def split: option.splits)
      have "createColorBuffer gl t width height fmt w = Some (ret, w6)"
        using 1(1) False 2(1) 3 fb2(1) 4(1) 5(1) 6(1) by (simp add: createColorBuffer_def old)
      moreover have "keeps w w6" using 6 5(3) 2(3) by (simp add: keeps_def frame_def outline_def)
      ultimately show ?thesis by blast
    qed
  qed
qed

lemma create_context_keeps:
  assumes o: "fb_inv w" and fb: "w_fb w = Some fb"
  shows "(\<exists>r w'. createRenderContext gl t cfg share gl2 w = Some (r, w') \<and> keeps w w') \<or> createRenderContext gl t cfg share gl2 w = None \<and> (\<forall>h. \<not> free_handle fb h)"
proof (cases "if share = 0 then Some NULL else m_contexts fb share")
  case None
  then show ?thesis using fb keeps_refl [OF o] by (auto simp: createRenderContext_def)
next
  case (Some s)
  have "w_fb w \<noteq> None" "s = NULL \<or> w_ctxs w s \<noteq> None"
    using fb Some owned_map_ctx [OF o fb, of share s] by (auto split: if_splits)
  from RenderContext_create_ok [where gl = gl and t = t and cfg = cfg and ?gl2.0 = gl2, OF this] obtain a w1 where 1: "RenderContext_create gl t cfg s gl2 w = Some (a, w1)"
    "a = NULL \<and> alike w w1 \<or> a = w_next w \<and>
      (\<exists>c. rc_count c = 0 \<and> alike (w\<lparr>w_next := w_next w + 1, w_ctxs := (w_ctxs w)(w_next w \<mapsto> c)\<rparr>) w1)" by blast
  show ?thesis
  proof (cases "a = NULL")
    case True
    then have "alike w w1" using 1(2) owned_fresh(1) [OF o] by simp
    then show ?thesis using 1(1) True Some fb alike_keeps [OF o] by (auto simp: createRenderContext_def)
  next
    case False
    from 1(2) False obtain c where a: "a = w_next w" and "rc_count c = 0"
      "alike (w\<lparr>w_next := w_next w + 1, w_ctxs := (w_ctxs w)(w_next w \<mapsto> c)\<rparr>) w1" by blast
    from first_ctx_ref [OF o this(3,2)] obtain w2 where
      2: "ctx_ref a w1 = Some w2" "owned {#} {#a#} {#} w2" "outline w w2" using a by auto
    from outline_fb [OF 2(3) fb] obtain fb2 where fb2: "w_fb w2 = Some fb2" "m_contexts fb2 = m_contexts fb" "m_windows fb2 = m_windows fb" by metis
    show ?thesis
    proof (cases "\<exists>h. free_handle fb h")
      case none: False
      then have "new_handle w2 = None" using new_handle_none [OF fb2(1)] fb2 by (simp add: free_handle_def)
      then show ?thesis using 1(1) False 2(1) none unfolding createRenderContext_def fb bind.bind_lunit Some option.case by simp
    next
      case True
      from new_handle_ok [OF fb2(1)] True fb2 obtain ret where 3: "new_handle w2 = Some (ret, w2\<lparr>s_nextHandle := ret\<rparr>)" by (auto simp: free_handle_def)
      let ?w3 = "w2\<lparr>s_nextHandle := ret\<rparr>"
      have o3: "owned {#} {#a#} {#} ?w3" using 2(2) by simp
      then have "w_ctxs ?w3 a \<noteq> None" using owned_extra(2) [OF o3 False] by simp
      from ctx_ref_ok [OF o3 disjI2 [OF this]] obtain g where
        4: "ctx_ref a ?w3 = Some (?w3\<lparr>w_ctxs := g\<rparr>)" "owned {#} {#a, a#} {#} (?w3\<lparr>w_ctxs := g\<rparr>)" by blast
      let ?w4 = "set_fb (\<lambda>fb. fb\<lparr>m_contexts := (m_contexts fb)(ret \<mapsto> a)\<rparr>) (?w3\<lparr>w_ctxs := g\<rparr>)"
      let ?old = "old_addr id (m_contexts fb2 ret)"
      have "owned {#} {#?old, a#} {#} ?w4" using owned_put_ctx [OF 4(2) _ False, of fb2 ret] fb2 by simp
      from ctx_unref_ok [OF this] obtain w5 where 5: "ctx_unref gl t ?old ?w4 = Some w5" "owned {#} {#a#} {#} w5" "frame ?w4 w5" by blast
      from ctx_unref_ok [OF 5(2)] obtain w6 where 6: "ctx_unref gl t a w5 = Some w6" "fb_inv w6" "frame w5 w6" by blast
      have old: "(case m_contexts fb2 ret of None \<Rightarrow> NULL | Some b \<Rightarrow> b) = ?old" by (auto simp: old_addr_def split: option.splits)
      have "createRenderContext gl t cfg share gl2 w = Some (ret, w6)"
        unfolding createRenderContext_def fb bind.bind_lunit Some option.case
        using 1(1) False 2(1) 3 fb2(1) 4(1) 5(1) 6(1) by (simp add: old)
      moreover have "keeps w w6" using 6 5(3) 2(3) by (simp add: keeps_def frame_def outline_def)
      ultimately show ?thesis by blast
    qed
  qed
qed

lemma create_window_keeps:
  assumes o: "fb_inv w" and fb: "w_fb w = Some fb"
  shows "(\<exists>r w'. createWindowSurface gl t cfg width height w = Some (r, w') \<and> keeps w w') \<or> createWindowSurface gl t cfg width height w = None \<and> (\<forall>h. \<not> free_handle fb h)"
proof -
  from WindowSurface_create_ok [where gl = gl and t = t and cfg = cfg and width = width and height = height, OF o] obtain a w1 where 1: "WindowSurface_create gl t cfg width height w = Some (a, w1)"
    "a = NULL \<and> fb_inv w1 \<and> outline w w1 \<or> a = w_next w \<and>
      (\<exists>v. ws_count v = 0 \<and> links v = (NULL, NULL, NULL) \<and> alike (w\<lparr>w_next := w_next w + 1, w_wins := (w_wins w)(w_next w \<mapsto> v)\<rparr>) w1)" by blast
  show ?thesis
  proof (cases "a = NULL")
    case True
    then have "fb_inv w1 \<and> outline w w1" using 1(2) owned_fresh(1) [OF o] by simp
    then show ?thesis using 1(1) True by (auto simp: createWindowSurface_def keeps_def outline_def)
  next
    case False
    from 1(2) False obtain v where a: "a = w_next w" and "ws_count v = 0" "links v = (NULL, NULL, NULL)"
      "alike (w\<lparr>w_next := w_next w + 1, w_wins := (w_wins w)(w_next w \<mapsto> v)\<rparr>) w1" by blast
    from first_win_ref [OF o this(4,2,3)] obtain w2 where
      2: "win_ref a w1 = Some w2" "owned {#} {#} {#a#} w2" "outline w w2" using a by auto
    from outline_fb [OF 2(3) fb] obtain fb2 where fb2: "w_fb w2 = Some fb2" "m_contexts fb2 = m_contexts fb" "m_windows fb2 = m_windows fb" by metis
    show ?thesis
    proof (cases "\<exists>h. free_handle fb h")
      case none: False
      then have "new_handle w2 = None" using new_handle_none [OF fb2(1)] fb2 by (simp add: free_handle_def)
      then show ?thesis using 1(1) False 2(1) none by (simp add: createWindowSurface_def)
    next
      case True
      from new_handle_ok [OF fb2(1)] True fb2 obtain ret where 3: "new_handle w2 = Some (ret, w2\<lparr>s_nextHandle := ret\<rparr>)" by (auto simp: free_handle_def)
      let ?w3 = "w2\<lparr>s_nextHandle := ret\<rparr>"
      have o3: "owned {#} {#} {#a#} ?w3" using 2(2) by simp
      then have "w_wins ?w3 a \<noteq> None" using owned_extra(3) [OF o3 False] by simp
      from win_ref_ok [OF o3 disjI2 [OF this]] obtain g where
        4: "win_ref a ?w3 = Some (?w3\<lparr>w_wins := g\<rparr>)" "owned {#} {#} {#a, a#} (?w3\<lparr>w_wins := g\<rparr>)" by blast
      let ?w4 = "set_fb (\<lambda>fb. fb\<lparr>m_windows := (m_windows fb)(ret \<mapsto> a)\<rparr>) (?w3\<lparr>w_wins := g\<rparr>)"
      let ?old = "old_addr id (m_windows fb2 ret)"
      have "owned {#} {#} {#?old, a#} ?w4" using owned_put_win [OF 4(2) _ False, of fb2 ret] fb2 by simp
      from win_unref_ok [OF this] obtain w5 where 5: "win_unref gl t ?old ?w4 = Some w5" "owned {#} {#} {#a#} w5" "frame ?w4 w5" by blast
      from win_unref_ok [OF 5(2)] obtain w6 where 6: "win_unref gl t a w5 = Some w6" "fb_inv w6" "frame w5 w6" by blast
      have old: "(case m_windows fb2 ret of None \<Rightarrow> NULL | Some b \<Rightarrow> b) = ?old" by (auto simp: old_addr_def split: option.splits)
      have "createWindowSurface gl t cfg width height w = Some (ret, w6)"
        using 1(1) False 2(1) 3 fb2(1) 4(1) 5(1) 6(1) by (simp add: createWindowSurface_def old)
      moreover have "keeps w w6" using 6 5(3) 2(3) by (simp add: keeps_def frame_def outline_def)
      ultimately show ?thesis by blast
    qed
  qed
qed

end
