(* ===== verification/FrameBufferReach.thy ===== *)
theory FrameBufferReach
  imports FrameBufferNew
begin

text \<open>
  The renderer as a state machine: the operations of the frame buffer by any number of render
  threads, threads that start and end, the window thread, and the thread that sets the post
  callback. In every reachable state the counts are right and no operation uses a deleted object;
  a creation does not return when all handles are taken, and a post with a callback set writes past
  the callback's block when the colour buffer has more pixels than the frame buffer.
\<close>

subsection \<open>Threads\<close>

definition RenderThreadInfo_new :: "nat \<Rightarrow> 'g world \<Rightarrow> 'g world" where
  "RenderThreadInfo_new t w = w\<lparr>w_threads := (w_threads w)(t \<mapsto>
     \<lparr>ti_currContext = NULL, ti_currDrawSurf = NULL, ti_currReadSurf = NULL, ti_glData = NULL, ti_gl2Data = NULL\<rparr>)\<rparr>"

text \<open>
  The end of \<open>RenderThread::Main\<close> is \<open>bindContext(0, 0, 0)\<close> under the lock, and then, outside it, the
  destructor of the thread's data. Its body unsets the thread's pointer, then the members are
  released in reverse order; after a successful unbinding there is nothing left to release.
\<close>

definition RenderThreadInfo_delete :: "'g gl_api \<Rightarrow> nat \<Rightarrow> 'g world \<Rightarrow> 'g world option" where
  "RenderThreadInfo_delete gl t w =
     do { ti \<leftarrow> w_threads w t;
          w1 \<leftarrow> win_unref gl t (ti_currReadSurf ti) (w\<lparr>w_threads := (w_threads w)(t := None)\<rparr>);
          w2 \<leftarrow> win_unref gl t (ti_currDrawSurf ti) w1;
          ctx_unref gl t (ti_currContext ti) w2 }"

lemma thread_new_inv:
  assumes o: "fb_inv w" and t: "w_threads w t = None"
  shows "fb_inv (RenderThreadInfo_new t w)"
proof -
  let ?w = "RenderThreadInfo_new t w"
  obtain fb where fb: "w_fb w = Some fb" and c: "counted (w_ctxs w) rc_count (\<lambda>a. ctx_refs fb w a + count {#} a)"
    "counted (w_wins w) ws_count (\<lambda>a. win_refs fb w a + count {#} a)" and fin: "finite (dom (w_threads w))"
    using o unfolding owned_def by blast
  note n = refs_new [OF fin t]
  have "counted (w_ctxs w) rc_count (\<lambda>a. ctx_refs fb ?w a + count {#} a)"
    by (rule counted_same [OF c(1)]) (simp add: ctx_refs_def RenderThreadInfo_new_def n)
  moreover have "counted (w_wins w) ws_count (\<lambda>a. win_refs fb ?w a + count {#} a)"
    by (rule counted_same [OF c(2)]) (simp add: win_refs_def RenderThreadInfo_new_def n)
  moreover have "cb_refs fb ?w = cb_refs fb w" by (simp add: RenderThreadInfo_new_def)
  ultimately show ?thesis using o fb unfolding owned_def by (auto simp: RenderThreadInfo_new_def)
qed

lemma owned_drop_thread:
  assumes o: "owned cx xx wx w" and ti: "w_threads w t = Some ti"
  shows "owned cx (add_mset (ti_currContext ti) xx) (add_mset (ti_currReadSurf ti) (add_mset (ti_currDrawSurf ti) wx))
    (w\<lparr>w_threads := (w_threads w)(t := None)\<rparr>)"
proof -
  let ?w = "w\<lparr>w_threads := (w_threads w)(t := None)\<rparr>"
  obtain fb where fb: "w_fb w = Some fb" and c: "counted (w_ctxs w) rc_count (\<lambda>a. ctx_refs fb w a + count xx a)"
    "counted (w_wins w) ws_count (\<lambda>a. win_refs fb w a + count wx a)" and fin: "finite (dom (w_threads w))"
    using o unfolding owned_def by blast
  note d = refs_del [of "w_threads w" t, OF fin ti]
  have "counted (w_ctxs w) rc_count (\<lambda>a. ctx_refs fb ?w a + count (add_mset (ti_currContext ti) xx) a)"
    by (rule counted_same [OF c(1)]) (use d [of ti_currContext] in \<open>auto simp: ctx_refs_def\<close>)
  moreover have "counted (w_wins w) ws_count (\<lambda>a. win_refs fb ?w a + count (add_mset (ti_currReadSurf ti) (add_mset (ti_currDrawSurf ti) wx)) a)"
    by (rule counted_same [OF c(2)]) (use d [of ti_currReadSurf] d [of ti_currDrawSurf] in \<open>auto simp: win_refs_def\<close>)
  ultimately show ?thesis using o fb unfolding owned_def by auto
qed

lemma thread_delete_inv:
  assumes o: "fb_inv w" and t: "w_threads w t \<noteq> None"
  shows "\<exists>w'. RenderThreadInfo_delete gl t w = Some w' \<and> fb_inv w'"
proof -
  obtain ti where ti: "w_threads w t = Some ti" using t by blast
  from win_unref_ok [where gl = gl and t = t, OF owned_drop_thread [OF o ti]] obtain w2 where
    2: "win_unref gl t (ti_currReadSurf ti) (w\<lparr>w_threads := (w_threads w)(t := None)\<rparr>) = Some w2"
      "owned {#} {#ti_currContext ti#} {#ti_currDrawSurf ti#} w2" by blast
  from win_unref_ok [where gl = gl and t = t, OF 2(2)] obtain w3 where
    3: "win_unref gl t (ti_currDrawSurf ti) w2 = Some w3" "owned {#} {#ti_currContext ti#} {#} w3" by blast
  from ctx_unref_ok [where gl = gl and t = t, OF 3(2)] obtain w4 where
    4: "ctx_unref gl t (ti_currContext ti) w3 = Some w4" "fb_inv w4" by blast
  show ?thesis using ti 2(1) 3(1) 4 by (simp add: RenderThreadInfo_delete_def)
qed

subsection \<open>Steps\<close>

text \<open>
  The operations, with the arguments of the calls. \<open>Rotate\<close> is \<open>setDisplayRotation\<close> in one piece;
  since it writes the rotation and reads the last posted handle outside the lock, its pieces are
  operations too: \<open>SetRotation\<close>, and \<open>Post\<close> of any handle, also one read earlier. A caller of
  \<open>updateColorBuffer\<close> passes as many pixels as the library reads. \<open>SetPostCallback block on\<close> sets or
  clears the callback, where \<open>block\<close> is what \<open>malloc\<close> returns for the image.
\<close>

datatype fb_op =
    CreateColorBuffer u32 u32 u32 | CreateRenderContext u32 u32 bool | CreateWindowSurface u32 u32 u32
  | DestroyContext u32 | DestroyWindow u32 | OpenBuffer u32 | CloseBuffer u32 | FlushWindow u32 | SetWindowBuffer u32 u32
  | UpdateBuffer u32 u32 u32 u32 u32 u32 u32 "u8 list" | ToTexture u32 | ToRenderbuffer u32 | BindContext u32 u32 u32
  | Post u32 | Repost | Rotate u32 | SetRotation u32 | SetPostCallback "u8 list option" bool | SetupSubWindow nat u32 u32 u32 u32 u32 | RemoveSubWindow | ThreadStart | ThreadExit

definition drop_result :: "('r \<times> 'g world) option \<Rightarrow> 'g world option" where
  "drop_result x = map_option snd x"

fun fb_run :: "'g gl_api \<Rightarrow> nat \<Rightarrow> fb_op \<Rightarrow> 'g world \<Rightarrow> 'g world option" where
  "fb_run gl t (CreateColorBuffer width height fmt) w = drop_result (createColorBuffer gl t width height fmt w)"
| "fb_run gl t (CreateRenderContext cfg share gl2) w = drop_result (createRenderContext gl t cfg share gl2 w)"
| "fb_run gl t (CreateWindowSurface cfg width height) w = drop_result (createWindowSurface gl t cfg width height w)"
| "fb_run gl t (DestroyContext h) w = DestroyRenderContext gl t h w"
| "fb_run gl t (DestroyWindow h) w = DestroyWindowSurface gl t h w"
| "fb_run gl t (OpenBuffer h) w = drop_result (openColorBuffer h w)"
| "fb_run gl t (CloseBuffer h) w = closeColorBuffer gl t h w"
| "fb_run gl t (FlushWindow h) w = drop_result (flushWindowSurfaceColorBuffer gl t h w)"
| "fb_run gl t (SetWindowBuffer h k) w = drop_result (setWindowSurfaceColorBuffer gl t h k w)"
| "fb_run gl t (UpdateBuffer h x y width height fmt ty pixels) w = drop_result (updateColorBuffer gl t h x y width height fmt ty (Some pixels) w)"
| "fb_run gl t (ToTexture h) w = drop_result (bindColorBufferToTexture gl t h w)"
| "fb_run gl t (ToRenderbuffer h) w = drop_result (bindColorBufferToRenderbuffer gl t h w)"
| "fb_run gl t (BindContext c d r) w = drop_result (bindContext gl t c d r w)"
| "fb_run gl t (Post h) w = drop_result (post gl t h w)"
| "fb_run gl t Repost w = drop_result (repost gl t w)"
| "fb_run gl t (Rotate z) w = drop_result (setDisplayRotation gl t z w)"
| "fb_run gl t (SetupSubWindow p x y width height z) w = drop_result (setupSubWindow gl t p x y width height z w)"
| "fb_run gl t RemoveSubWindow w = Some (snd (removeSubWindow gl t w))"
| "fb_run gl t ThreadStart w = Some (RenderThreadInfo_new t w)"
| "fb_run gl t ThreadExit w = RenderThreadInfo_delete gl t w"
| "fb_run gl t (SetRotation z) w = Some (set_fb (\<lambda>fb. fb\<lparr>fb_zRot := z\<rparr>) w)"
| "fb_run gl t (SetPostCallback block on) w = setPostCallback block on w"

text \<open>
  A thread starts once; the operations that look at the thread's current context are called by
  render threads only; a block that \<open>malloc\<close> returns has the size it was asked for.
\<close>

fun fb_ready :: "nat \<Rightarrow> fb_op \<Rightarrow> 'g world \<Rightarrow> bool" where
  "fb_ready t ThreadStart w \<longleftrightarrow> w_threads w t = None"
| "fb_ready t ThreadExit w \<longleftrightarrow> w_threads w t \<noteq> None"
| "fb_ready t (BindContext c d r) w \<longleftrightarrow> w_threads w t \<noteq> None"
| "fb_ready t (FlushWindow h) w \<longleftrightarrow> w_threads w t \<noteq> None"
| "fb_ready t (ToTexture h) w \<longleftrightarrow> w_threads w t \<noteq> None"
| "fb_ready t (ToRenderbuffer h) w \<longleftrightarrow> w_threads w t \<noteq> None"
| "fb_ready t (SetPostCallback block on) w \<longleftrightarrow>
     (case (w_fb w, block) of (Some fb, Some mem) \<Rightarrow> length mem = image_size fb | _ \<Rightarrow> True)"
| "fb_ready t op w \<longleftrightarrow> True"

fun creates :: "fb_op \<Rightarrow> bool" where
  "creates (CreateColorBuffer width height fmt) = True"
| "creates (CreateRenderContext cfg share gl2) = True"
| "creates (CreateWindowSurface cfg width height) = True"
| "creates op = False"

text \<open>The handle an operation posts.\<close>

fun posted :: "fb_op \<Rightarrow> 'g world \<Rightarrow> u32 option" where
  "posted (Post h) w = Some h"
| "posted Repost w = map_option fb_lastPosted (w_fb w)"
| "posted (Rotate z) w = map_option fb_lastPosted (w_fb w)"
| "posted (SetupSubWindow p x y width height z) w = map_option fb_lastPosted (w_fb w)"
| "posted op w = None"

text \<open>The state after \<open>FrameBuffer::initialize\<close>: no objects, no threads, no handles, no callback.\<close>

definition fb_start :: "'g world \<Rightarrow> bool" where
  "fb_start w \<longleftrightarrow> 0 < w_next w \<and> w_cbs w = Map.empty \<and> w_ctxs w = Map.empty \<and> w_wins w = Map.empty \<and> w_threads w = Map.empty \<and>
     (\<exists>fb. w_fb w = Some fb \<and> m_contexts fb = Map.empty \<and> m_windows fb = Map.empty \<and> m_colorbuffers fb = Map.empty \<and> \<not> fb_onPost fb \<and> fb_image fb = None)"

inductive fb_reach :: "'g gl_api \<Rightarrow> 'g world \<Rightarrow> bool" for gl where
  start: "fb_start w \<Longrightarrow> fb_reach gl w"
| step: "fb_reach gl w \<Longrightarrow> fb_ready t op w \<Longrightarrow> fb_run gl t op w = Some w' \<Longrightarrow> fb_reach gl w'"

subsection \<open>The invariant\<close>

lemma refs_empty [simp]: "refs f Map.empty a = 0"
  by (simp add: refs_def)

lemma start_inv: "fb_start w \<Longrightarrow> fb_inv w"
  by (auto simp: fb_start_def owned_def image_ok_def counted_def cb_refs_def ctx_refs_def win_refs_def)

lemma drop_keeps: "\<exists>r w'. x = Some (r, w') \<and> keeps w w' \<Longrightarrow> \<exists>w'. drop_result x = Some w' \<and> keeps w w'"
  by (auto simp: drop_result_def)

lemma drop_create:
  "(\<exists>r w'. x = Some (r, w') \<and> keeps w w') \<or> x = None \<and> P \<Longrightarrow>
   (\<exists>w'. drop_result x = Some w' \<and> keeps w w') \<or> drop_result x = None \<and> P"
  by (auto simp: drop_result_def)

lemma drop_post:
  "fb_inv w \<Longrightarrow> (\<exists>r w'. x = Some (r, w') \<and> alike w w') \<or> x = None \<and> P \<Longrightarrow>
   (\<exists>w'. drop_result x = Some w' \<and> keeps w w') \<or> drop_result x = None \<and> P"
  using alike_keeps by (fastforce simp: drop_result_def)

lemma drop_alike: "fb_inv w \<Longrightarrow> \<exists>r w'. x = Some (r, w') \<and> alike w w' \<Longrightarrow> \<exists>w'. drop_result x = Some w' \<and> keeps w w'"
  using alike_keeps by (fastforce simp: drop_result_def)

lemma run_keeps:
  assumes o: "fb_inv w" and ready: "fb_ready t op w" and fb: "w_fb w = Some fb" and op: "op \<noteq> ThreadStart" "op \<noteq> ThreadExit"
  shows "(\<exists>w'. fb_run gl t op w = Some w' \<and> keeps w w') \<or> fb_run gl t op w = None \<and>
    (creates op \<and> (\<forall>h. \<not> free_handle fb h) \<or> (\<exists>h. posted op w = Some h \<and> overruns gl t h w))"
proof (cases op)
  case (CreateColorBuffer a b c)
  then show ?thesis using drop_create [OF create_buffer_keeps [OF o fb]] by simp
next
  case (CreateRenderContext a b c)
  then show ?thesis using drop_create [OF create_context_keeps [OF o fb]] by simp
next
  case (CreateWindowSurface a b c)
  then show ?thesis using drop_create [OF create_window_keeps [OF o fb]] by simp
next
  case (SetupSubWindow p x y width height z)
  then show ?thesis using drop_post [OF o setupSubWindow_ok [OF o fb]] fb by simp
next
  case RemoveSubWindow
  then show ?thesis using alike_keeps [OF o removeSubWindow_alike] by simp
next
  case (BindContext c d r)
  then show ?thesis using ready drop_keeps [OF bind_context_keeps [OF o]] by simp
next
  case (FlushWindow h)
  then show ?thesis using ready drop_keeps [OF flush_keeps [OF o]] by simp
next
  case (ToTexture h)
  then show ?thesis using ready drop_keeps [OF bind_buffer_keeps(1) [OF o]] by simp
next
  case (ToRenderbuffer h)
  then show ?thesis using ready drop_keeps [OF bind_buffer_keeps(2) [OF o]] by simp
next
  case (Post h)
  then show ?thesis using drop_post [OF o post_ok [OF o]] by simp
next
  case Repost
  then show ?thesis using drop_post [OF o repost_ok [OF o fb]] fb by simp
next
  case (Rotate z)
  then show ?thesis using drop_post [OF o rotation_ok [OF o fb]] fb by simp
next
  case (SetRotation z)
  then show ?thesis using alike_keeps [OF o] by (simp add: fb_slots_def)
next
  case (SetPostCallback block on)
  then have "length mem = image_size fb" if "block = Some mem" for mem using ready fb that by simp
  from callback_ok [OF o fb, of block on, OF this] SetPostCallback show ?thesis by (auto intro: keepsI)
qed (use op destroy_context_keeps [OF o] destroy_window_keeps [OF o] close_keeps [OF o]
      drop_keeps [OF open_keeps [OF o]] drop_keeps [OF set_buffer_keeps [OF o]] drop_keeps [OF update_keeps [OF o]] in simp_all)

lemma run_ok:
  assumes o: "fb_inv w" and ready: "fb_ready t op w" and fb: "w_fb w = Some fb"
  shows "(\<exists>w'. fb_run gl t op w = Some w' \<and> fb_inv w') \<or> fb_run gl t op w = None \<and>
    (creates op \<and> (\<forall>h. \<not> free_handle fb h) \<or> (\<exists>h. posted op w = Some h \<and> overruns gl t h w))"
proof (cases "op = ThreadStart \<or> op = ThreadExit")
  case True
  then show ?thesis using ready thread_new_inv [OF o] thread_delete_inv [OF o] by auto
next
  case False
  then have "op \<noteq> ThreadStart" "op \<noteq> ThreadExit" by auto
  from run_keeps [OF o ready fb this, of gl] show ?thesis by (auto simp: keeps_def)
qed

lemma fb_reach_inv: "fb_reach gl w \<Longrightarrow> fb_inv w"
proof (induction rule: fb_reach.induct)
  case (start w)
  then show ?case by (rule start_inv)
next
  case (step w t op w')
  obtain fb where "w_fb w = Some fb" using owned_fb [OF step.IH] by blast
  from run_ok [OF step.IH step.hyps(2) this, of gl] step.hyps(3) show ?case by auto
qed

subsection \<open>A library to run on\<close>

text \<open>A library whose calls all succeed and return fresh numbers, and the state after initialisation on it.\<close>

definition sim_gl :: "nat gl_api" where
  "sim_gl = \<lparr>gl_call = (\<lambda>t call g. (if call \<in> {Gl1 CheckFramebufferStatus, Gl2 CheckFramebufferStatus} then 0x8CD5 else g + 1, g + 1)),
     gl_viewport = (\<lambda>t g. [0, 0, 1, 1]), gl_pixels = (\<lambda>t x y fmt g. []), gl_string = (\<lambda>gl2 name g. Some [0x31]),
     egl_string = (\<lambda>name g. Some [0x31]), egl_configs = (\<lambda>g. Some [7]), egl_choose = (\<lambda>attribs g. Some [7]),
     egl_attrib = (\<lambda>cfg a g. Some 5), gl_image_size = (\<lambda>x y fmt ty. 0), on_post = (\<lambda>x y px g. g)\<rparr>"

definition sim_fb :: FrameBuffer where
  "sim_fb = \<lparr>fb_width = 480, fb_height = 800, fb_eglMajor = 1, fb_eglMinor = 4, fb_has_eglimage_texture_2d = True,
     m_contexts = Map.empty, m_windows = Map.empty, m_colorbuffers = Map.empty, fb_eglSurface = 0, fb_eglContext = 1,
     fb_pbufSurface = 2, fb_pbufContext = 3, fb_prevContext = 0, fb_prevReadSurf = 0, fb_prevDrawSurf = 0, fb_subWin = 0,
     fb_lastPosted = 0, fb_zRot = 0, fb_eglContextInitialized = False, fb_onPost = False, fb_image = None\<rparr>"

definition sim_world :: "nat world" where
  "sim_world = \<lparr>w_gl = 3, w_next = 1, w_cbs = Map.empty, w_ctxs = Map.empty, w_wins = Map.empty, w_threads = Map.empty,
     w_configs = [\<lparr>fc_eglConfig = 7, fc_attribValues = replicate 32 0\<rparr>], w_fb = Some sim_fb, s_nextHandle = 0\<rparr>"

lemma sim_start: "fb_start sim_world"
  by (auto simp: fb_start_def sim_world_def sim_fb_def)

fun fb_runs :: "'g gl_api \<Rightarrow> (nat \<times> fb_op) list \<Rightarrow> 'g world \<Rightarrow> 'g world option" where
  "fb_runs gl [] w = Some w"
| "fb_runs gl ((t, op) # ops) w = (if fb_ready t op w then do { w1 \<leftarrow> fb_run gl t op w; fb_runs gl ops w1 } else None)"

lemma runs_reach: "fb_runs gl ops w = Some w' \<Longrightarrow> fb_reach gl w \<Longrightarrow> fb_reach gl w'"
  by (induction gl ops w rule: fb_runs.induct) (auto simp: bind_eq_Some_conv split: if_splits intro: fb_reach.step)

text \<open>A thread draws to a window that shares its colour buffer with the handle map.\<close>

definition sim_ops :: "(nat \<times> fb_op) list" where
  "sim_ops = [(1, ThreadStart), (1, CreateColorBuffer 4 4 0x1908), (1, CreateRenderContext 0 0 True),
     (1, CreateWindowSurface 0 2 2), (1, SetWindowBuffer 3 1), (1, BindContext 2 3 3)]"

lemma sim_ask: "ask sim_gl t call w =
    (if call \<in> {Gl1 CheckFramebufferStatus, Gl2 CheckFramebufferStatus} then 0x8CD5 else w_gl w + 1, w\<lparr>w_gl := w_gl w + 1\<rparr>)"
  by (simp add: ask_def sim_gl_def)

lemma sim_tell: "tell sim_gl t calls w = w\<lparr>w_gl := w_gl w + length calls\<rparr>"
  by (induction calls arbitrary: w) (simp_all add: tell_def sim_ask)

lemma sim_bind:
  "bind_locked sim_gl t w = map_option (\<lambda>fb. (True, w\<lparr>w_gl := w_gl w + 4, w_fb := Some (fb\<lparr>fb_prevContext := w_gl w + 1,
     fb_prevReadSurf := w_gl w + 2, fb_prevDrawSurf := w_gl w + 3\<rparr>)\<rparr>)) (w_fb w)"
  by (cases "w_fb w") (simp_all add: bind_locked_def sim_ask set_fb_def)

lemma sim_unbind:
  "unbind_locked sim_gl t w = map_option (\<lambda>fb. (True, w\<lparr>w_gl := w_gl w + 1, w_fb := Some (fb\<lparr>fb_prevContext := 0,
     fb_prevReadSurf := 0, fb_prevDrawSurf := 0\<rparr>)\<rparr>)) (w_fb w)"
  by (cases "w_fb w") (simp_all add: unbind_locked_def sim_ask set_fb_def)

lemmas sim_eval = sim_ask sim_tell sim_bind sim_unbind set_fb_def set_cb_def set_ctx_def set_win_def set_thread_def drop_result_def

lemmas fb_op_defs =
  createColorBuffer_def ColorBuffer_create_def tex_format_def tex_setup_def new_handle_def createRenderContext_def RenderContext_create_def
  createWindowSurface_def WindowSurface_create_def FBConfig_get_def resizePbuffer_def setWindowSurfaceColorBuffer_def setColorBuffer_def
  closeColorBuffer_def ColorBuffer_delete_def bindContext_def bind_handles_def egl_of_win_def egl_of_ctx_def set_current_def
  win_bind_def set_readContext_def set_drawContext_def bind_fbo_def curr_context_def create_fbo_api1_def create_fbo_api2_def create_fbo_def
  cb_ref_def cb_unref_def ctx_ref_def ctx_unref_def win_ref_def win_unref_def RenderThreadInfo_new_def RenderThreadInfo_delete_def

lemma sim_run:
  "(case fb_runs sim_gl sim_ops sim_world of None \<Rightarrow> False
    | Some w \<Rightarrow> map_option cb_count (w_cbs w 1) = Some 2 \<and> map_option rc_count (w_ctxs w 2) = Some 4 \<and> map_option ws_count (w_wins w 3) = Some 3 \<and>
        fb_ready 1 ThreadExit w)"
  by (simp add: sim_ops_def sim_world_def sim_fb_def fb_op_defs sim_eval Let_def genHandle.simps)

subsection \<open>Posting with a callback\<close>

text \<open>A library that never refuses a call.\<close>

definition calls_succeed :: "'g gl_api \<Rightarrow> nat \<Rightarrow> bool" where
  "calls_succeed gl t \<longleftrightarrow> (\<forall>c g. 0 < fst (gl_call gl t c g)) \<and> (\<forall>g. fst (gl_call gl t (Gl1 CheckFramebufferStatus) g) = 0x8CD5)"

lemma ask_succeeds:
  assumes "calls_succeed gl t"
  shows "fst (ask gl t c w) \<noteq> 0" "fst (ask gl t (Gl1 CheckFramebufferStatus) w) = 0x8CD5"
proof -
  have "0 < fst (gl_call gl t c (w_gl w))" "fst (gl_call gl t (Gl1 CheckFramebufferStatus) (w_gl w)) = 0x8CD5"
    using assms by (auto simp: calls_succeed_def)
  then show "fst (ask gl t c w) \<noteq> 0" "fst (ask gl t (Gl1 CheckFramebufferStatus) w) = 0x8CD5" by (simp_all add: ask_def split_beta)
qed

lemma readback_overflows:
  assumes ok: "calls_succeed gl t" and fb: "w_fb w \<noteq> None" and cb: "w_cbs w a = Some cb"
    and long: "\<And>g. length mem < length (gl_pixels gl t (cb_width cb) (cb_height cb) (cb_internalFormat cb) g)"
  shows "cb_readback gl t a (Some mem) w = None"
proof -
  obtain w1 where 1: "bind_locked gl t w = Some (True, w1)" using fb ask_succeeds(1) [OF ok] by (auto simp: bind_locked_def Let_def split_beta)
  have c1: "w_cbs w1 a = Some cb" using locked_cbs(1) [OF 1] cb by simp
  have "\<exists>w2. cb_bind_fbo gl t a w1 = Some (True, w2)"
    using c1 ask_succeeds(2) [OF ok] by (simp add: cb_bind_fbo_def Let_def split_beta set_cb_def)
  then obtain w2 where 2: "cb_bind_fbo gl t a w1 = Some (True, w2)" by blast
  obtain cb2 where c2: "w_cbs w2 a = Some cb2" "cb_shape cb2 = cb_shape cb" using bind_fbo_shape [OF 2] c1 by auto
  then show ?thesis using 1 2 long [of "w_gl w2"] by (simp add: cb_readback_def block_write_def cb_shape_def)
qed

lemma post_overflows:
  assumes o: "fb_inv w" and ok: "calls_succeed gl t" and fb: "w_fb w = Some fb" "fb_subWin fb \<noteq> 0" "fb_onPost fb"
    and h: "m_colorbuffers fb h = Some (a, n)" "w_cbs w a = Some cb"
    and long: "\<And>g. image_size fb < length (gl_pixels gl t (cb_width cb) (cb_height cb) (cb_internalFormat cb) g)"
  shows "post gl t h w = None"
proof -
  let ?w0 = "set_fb (\<lambda>fb. fb\<lparr>fb_lastPosted := h\<rparr>) w"
  obtain w1 where 1: "bindSubwin_locked gl t ?w0 = Some (True, w1)"
    using fb(1) ask_succeeds(1) [OF ok] by (auto simp: bindSubwin_locked_def Let_def split_beta)
  obtain ok1 w1' where al1: "bindSubwin_locked gl t ?w0 = Some (ok1, w1')" "alike ?w0 w1'" using bindSubwin_ok [of ?w0 gl t] fb(1) by auto
  let ?w1 = "tell gl t ([Gl1 PushMatrix, Gl1 (Rotatef (fb_zRot fb))] @
      (if fb_zRot fb \<noteq> 0 \<and> fb_zRot fb \<noteq> 0x80000000 then [Gl1 (Clear 0x4000)] else [])) w1"
  have c1: "w_cbs ?w1 a = Some cb" using bindSubwin_same [OF 1] h(2) by simp
  obtain ret w2 where 2: "cb_post gl t a ?w1 = Some (ret, w2)" "alike ?w1 w2" using cb_post_ok [of ?w1 a gl t] c1 by auto
  let ?w3 = "tell gl t ([Gl1 PopMatrix] @ (if ret then [EglSwapBuffers (fb_eglSurface fb)] else [])) w2"
  have "alike ?w0 ?w3" using al1 1 alike_trans [OF _ 2(2), of ?w0] by simp
  from unbind_after [OF this, of gl t] fb(1) obtain r w4 where 4: "unbind_locked gl t ?w3 = Some (r, w4)" "alike ?w0 w4" by auto
  have c4: "w_cbs w4 a = Some cb" using locked_cbs(2) [OF 4(1)] locked_cbs(3) [OF 2(1)] c1 by simp
  have "w_fb w4 \<noteq> None" using alike_None(3) [OF 4(2)] fb(1) by simp
  moreover obtain mem where mem: "fb_image fb = Some mem" "length mem = image_size fb"
    using owned_handles [OF o fb(1)] fb(3) by (auto simp: image_ok_def)
  ultimately have "cb_readback gl t a (fb_image fb) w4 = None" using readback_overflows [OF ok _ c4] long by simp
  then show ?thesis unfolding post_def fb(1) bind.bind_lunit h(1) option.case prod.case Let_def 1 2(1) 4(1) using fb(2,3) by simp
qed

subsection \<open>Properties\<close>



text \<open>C10: Nothing leaks: in a reachable state in which no client holds a handle and no thread
  runs, all window surfaces, contexts and colour buffers have been deleted.\<close>

theorem frame_buffer_no_leak:
  assumes "fb_reach gl w" and "w_fb w = Some fb" and "m_contexts fb = Map.empty" "m_windows fb = Map.empty" "m_colorbuffers fb = Map.empty"
    and "w_threads w = Map.empty"
  shows "w_wins w = Map.empty \<and> w_ctxs w = Map.empty \<and> w_cbs w = Map.empty"
proof -
  have o: "fb_inv w" using fb_reach_inv [OF assms(1)] .
  have null: "w_cbs w NULL = None" "w_ctxs w NULL = None" "w_wins w NULL = None" using o unfolding owned_def by blast+
  have c: "counted (w_cbs w) cb_count (\<lambda>a. cb_refs fb w a)" "counted (w_ctxs w) rc_count (\<lambda>a. ctx_refs fb w a)"
    "counted (w_wins w) ws_count (\<lambda>a. win_refs fb w a)" using o assms(2) by (auto simp: owned_def)
  have dead: "h = Map.empty" if "counted h cnt r" "\<And>a. r a = 0" "h NULL = None" for h :: "addr \<Rightarrow> 'o option" and cnt r
  proof
    fix a show "h a = None" using that by (cases "a = NULL"; cases "h a") (auto simp: counted_iff)
  qed
  have w: "w_wins w = Map.empty" by (rule dead [OF c(3) _ null(3)]) (simp add: win_refs_def assms)
  then show ?thesis
    using dead [OF c(1) _ null(1)] dead [OF c(2) _ null(2)] by (simp add: cb_refs_def ctx_refs_def assms)
qed

lemma sim_drained:
  "\<exists>w fb. fb_runs sim_gl [(1, ThreadStart), (1, CreateColorBuffer 4 4 0x1908), (1, CloseBuffer 1), (1, ThreadExit)] sim_world = Some w \<and>
     w_fb w = Some fb \<and> m_contexts fb = Map.empty \<and> m_windows fb = Map.empty \<and> m_colorbuffers fb = Map.empty \<and> w_threads w = Map.empty \<and> w_next w = 2"
  by (simp add: sim_world_def sim_fb_def fb_op_defs sim_eval Let_def genHandle.simps)

theorem frame_buffer_no_leak_witness:
  "\<exists>w fb. fb_reach sim_gl w \<and> w_fb w = Some fb \<and> m_colorbuffers fb = Map.empty \<and> w_next w = 2 \<and>
     w_wins w = Map.empty \<and> w_ctxs w = Map.empty \<and> w_cbs w = Map.empty"
proof -
  obtain w fb where w: "fb_runs sim_gl [(1, ThreadStart), (1, CreateColorBuffer 4 4 0x1908), (1, CloseBuffer 1), (1, ThreadExit)] sim_world = Some w"
    "w_fb w = Some fb" "m_contexts fb = Map.empty" "m_windows fb = Map.empty" "m_colorbuffers fb = Map.empty" "w_threads w = Map.empty"
    and n: "w_next w = 2" using sim_drained by blast
  have "fb_reach sim_gl w" using runs_reach [OF w(1)] fb_reach.start [OF sim_start] by blast
  with frame_buffer_no_leak [OF this w(2-6)] w(2,5) n show ?thesis by blast
qed

text \<open>C35: The image for the post callback has the size of the frame buffer, and a post reads the
  whole colour buffer into it: in a reachable state with a callback and a subwindow, on a library
  that performs every call, posting a colour buffer with more bytes of pixels than the image
  writes past the end of the image.\<close>

theorem post_callback_overflow:
  assumes "fb_reach gl w" and "calls_succeed gl t" and "w_fb w = Some fb" "fb_subWin fb \<noteq> 0" "fb_onPost fb"
    and "m_colorbuffers fb h = Some (a, n)" "w_cbs w a = Some cb"
    and "\<forall>g. image_size fb < length (gl_pixels gl t (cb_width cb) (cb_height cb) (cb_internalFormat cb) g)"
  shows "(\<exists>mem. fb_image fb = Some mem \<and> length mem = image_size fb) \<and> fb_run gl t (Post h) w = None"
proof -
  have o: "fb_inv w" using fb_reach_inv [OF assms(1)] .
  have "\<exists>mem. fb_image fb = Some mem \<and> length mem = image_size fb"
    using owned_handles [OF o assms(3)] assms(5) by (auto simp: image_ok_def)
  moreover have "post gl t h w = None" by (rule post_overflows [OF o assms(2-7)]) (use assms(8) in blast)
  ultimately show ?thesis by (simp add: drop_result_def)
qed

text \<open>A frame buffer of one pixel and a colour buffer of four.\<close>

definition big_gl :: "nat gl_api" where
  "big_gl = sim_gl\<lparr>gl_pixels := \<lambda>t x y fmt g. replicate (4 * unat x * unat y) 0\<rparr>"

definition small_world :: "nat world" where
  "small_world = sim_world\<lparr>w_fb := Some (sim_fb\<lparr>fb_width := 1, fb_height := 1\<rparr>)\<rparr>"

definition big_ops :: "(nat \<times> fb_op) list" where
  "big_ops = [(1, ThreadStart), (1, CreateColorBuffer 2 2 0x1908), (2, SetupSubWindow 7 0 0 1 1 0), (2, SetPostCallback (Some [0, 0, 0, 0]) True)]"

lemma big_ask: "ask big_gl = ask sim_gl" "tell big_gl = tell sim_gl"
proof -
  show a: "ask big_gl = ask sim_gl" by (intro ext) (simp add: ask_def big_gl_def)
  show "tell big_gl = tell sim_gl"
  proof (intro ext)
    show "tell big_gl t cs w = tell sim_gl t cs w" for t cs and w :: "nat world" by (induction cs arbitrary: w) (simp_all add: tell_def a)
  qed
qed

lemma big_bind: "bind_locked big_gl = bind_locked sim_gl" "unbind_locked big_gl = unbind_locked sim_gl" "bindSubwin_locked big_gl = bindSubwin_locked sim_gl"
  unfolding bind_locked_def unbind_locked_def bindSubwin_locked_def big_ask by (rule refl)+

lemma big_run:
  "\<exists>w fb cb. fb_runs big_gl big_ops small_world = Some w \<and> w_fb w = Some fb \<and> fb_subWin fb \<noteq> 0 \<and> fb_onPost fb \<and> image_size fb = 4 \<and>
     m_colorbuffers fb 1 = Some (1, 1) \<and> w_cbs w 1 = Some cb \<and> cb_width cb = 2 \<and> cb_height cb = 2"
  by (simp add: big_ops_def small_world_def sim_world_def sim_fb_def fb_op_defs setupSubWindow_def setPostCallback_def post_def
      bindSubwin_locked_def image_size_def big_ask big_bind sim_eval Let_def genHandle.simps)

theorem post_callback_overflow_witness:
  "\<exists>w fb. fb_reach big_gl w \<and> w_fb w = Some fb \<and> fb_onPost fb \<and> (\<exists>mem. fb_image fb = Some mem \<and> length mem = image_size fb) \<and>
     fb_run big_gl 2 (Post 1) w = None"
proof -
  obtain w fb cb where w: "fb_runs big_gl big_ops small_world = Some w" "w_fb w = Some fb" "fb_subWin fb \<noteq> 0" "fb_onPost fb"
    "m_colorbuffers fb 1 = Some (1, 1)" "w_cbs w 1 = Some cb" and z: "image_size fb = 4" "cb_width cb = 2" "cb_height cb = 2" using big_run by blast
  have "fb_start small_world" using sim_start by (simp add: fb_start_def small_world_def sim_fb_def)
  then have r: "fb_reach big_gl w" using runs_reach [OF w(1)] fb_reach.start by blast
  have c: "calls_succeed big_gl 2" by (simp add: calls_succeed_def big_gl_def sim_gl_def)
  have l: "\<forall>g. image_size fb < length (gl_pixels big_gl 2 (cb_width cb) (cb_height cb) (cb_internalFormat cb) g)"
    using z by (simp add: big_gl_def)
  show ?thesis using post_callback_overflow [OF r c w(2-6) l] r w(2,4) by blast
qed

text \<open>C30: The search for a new handle ends whenever a handle is left, after any wrap-around of the
  counter, with one that is not zero and that no context and no window surface has; with none left
  it does not end.\<close>

theorem gen_handle: "case genHandle fb n of Some i \<Rightarrow> free_handle fb i | None \<Rightarrow> (\<forall>h. \<not> free_handle fb h)"
proof (cases "genHandle fb n")
  case None
  then show ?thesis using genHandle_returns [of fb _ n] by auto
qed (simp add: genHandle_free)

end
