(* ===== verification/RenderThread.thy ===== *)
theory RenderThread
  imports RenderDec
begin

text \<open>
  The loop of a render thread (\<open>RenderThread::Main\<close> in \<open>RenderThread.cpp\<close>): fetch bytes, let the
  three decoders work on them until none makes progress, and repeat. The locale
  \<open>packet_server\<close> states what the switches promise for a set of commands; over it the thread
  runs every command of the stream, once and in order, however the socket cuts the stream into
  pieces, as long as the allocator has memory for the two buffers.
\<close>

subsection \<open>The loop\<close>

text \<open>A decoder works on the unread bytes in place; what it returns is consumed.\<close>

definition run_decoder ::
  "('k, 's) dec_switch \<Rightarrow> ReadBuffer \<times> 'k SocketStream \<times> 's \<Rightarrow> (bool \<times> ReadBuffer \<times> 'k SocketStream \<times> 's) option" where
  "run_decoder sw = (\<lambda>(rb, st, s).
     do { mem \<leftarrow> rb_buf rb;
          bs \<leftarrow> block_read (rb_readPtr rb) (rb_validData rb) mem;
          (n, bs1, st1, s1) \<leftarrow> decode sw (bs, st, s);
          mem1 \<leftarrow> block_write (rb_readPtr rb) bs1 mem;
          let rb1 = rb\<lparr>rb_buf := Some mem1\<rparr> in
          if n > 0 then do { rb2 \<leftarrow> consume n rb1; Some (True, rb2, st1, s1) }
          else Some (False, rb1, st1, s1) })"

text \<open>The inner loop over the three decoders.\<close>

partial_function (option) decode_pass ::
  "('k, 's) dec_switch \<Rightarrow> ('k, 's) dec_switch \<Rightarrow> ('k, 's) dec_switch \<Rightarrow>
   ReadBuffer \<times> 'k SocketStream \<times> 's \<Rightarrow> (ReadBuffer \<times> 'k SocketStream \<times> 's) option" where
  "decode_pass gl gl2 rc x =
     do { (p1, x1) \<leftarrow> run_decoder gl x;
          (p2, x2) \<leftarrow> run_decoder gl2 x1;
          (p3, x3) \<leftarrow> run_decoder rc x2;
          if p1 \<or> p2 \<or> p3 then decode_pass gl gl2 rc x3 else Some x3 }"

partial_function (option) main_loop ::
  "'k render_env \<Rightarrow> ('k, 's) dec_switch \<Rightarrow> ('k, 's) dec_switch \<Rightarrow> ('k, 's) dec_switch \<Rightarrow>
   ReadBuffer \<times> 'k SocketStream \<times> 's \<Rightarrow> (ReadBuffer \<times> 'k SocketStream \<times> 's) option" where
  "main_loop e gl gl2 rc x =
     do { (stat, rb, st) \<leftarrow> getData e (fst x) (fst (snd x));
          if stat \<le> 0 then Some (rb, st, snd (snd x))
          else do { x1 \<leftarrow> decode_pass gl gl2 rc (rb, st, snd (snd x)); main_loop e gl gl2 rc x1 } }"

text \<open>
  The whole thread: \<open>leave\<close> is the final \<open>bindContext(0, 0, 0)\<close> of the frame buffer, whose
  result is ignored.
\<close>

definition RenderThread_Main ::
  "'k render_env \<Rightarrow> ('k, 's) dec_switch \<Rightarrow> ('k, 's) dec_switch \<Rightarrow> ('k, 's) dec_switch \<Rightarrow> ('s \<Rightarrow> (bool \<times> 's) option) \<Rightarrow>
   'k SocketStream \<Rightarrow> 's \<Rightarrow> (ReadBuffer \<times> 'k SocketStream \<times> 's) option" where
  "RenderThread_Main e gl gl2 rc leave st s =
     (case ReadBuffer_new e (2 * 1024 * 1024) st of (readBuf, st1) \<Rightarrow>
        do { (rb, st2, s1) \<leftarrow> main_loop e gl gl2 rc (readBuf, st1, s);
             (r, s2) \<leftarrow> leave s1;
             Some (rb, st2, s2) })"

subsection \<open>Commands\<close>

fun run_effs :: "('c \<Rightarrow> 's \<Rightarrow> 's option) \<Rightarrow> 'c list \<Rightarrow> 's \<Rightarrow> 's option" where
  "run_effs eff [] s = Some s"
| "run_effs eff (c # cs) s = do { s1 \<leftarrow> eff c s; run_effs eff cs s1 }"

lemma run_effs_append: "run_effs eff (cs @ ds) s = do { s1 \<leftarrow> run_effs eff cs s; run_effs eff ds s1 }"
proof (induction cs arbitrary: s)
  case (Cons c cs)
  then show ?case by (cases "eff c s") simp_all
qed simp

text \<open>
  \<open>enc\<close> is the packet of a command, \<open>eff\<close> its effect on the renderer and \<open>reply\<close> the size of its
  reply; packets have at most \<open>L\<close> bytes and replies at most \<open>B\<close>, the size of the stream's buffer.
  Every switch that has a case for the opcode of a command performs its effect and leaves the
  stream ready for the next, if there is memory for the reply; one of the switches has such a case.
\<close>

locale packet_server = stream_live e sent inbox room
  for e :: "'k render_env" and sent :: "'k \<Rightarrow> int \<Rightarrow> u8 list" and inbox :: "'k \<Rightarrow> int \<Rightarrow> u8 list" and room :: "'k \<Rightarrow> nat" +
  fixes gl gl2 rc :: "('k, 's) dec_switch" and enc :: "'c \<Rightarrow> u8 list" and eff :: "'c \<Rightarrow> 's \<Rightarrow> 's option" and good :: "'c \<Rightarrow> bool"
    and reply :: "'c \<Rightarrow> nat" and B L :: nat
  assumes small: "L \<le> 2 ^ 30" and enc_framed: "good c \<Longrightarrow> framed (enc c) \<and> length (enc c) \<le> L \<and> reply c \<le> B"
    and known: "good c \<Longrightarrow> \<exists>sw \<in> {gl, gl2, rc}. sw (get_le32 (enc c) 0) \<noteq> None"
    and exec: "good c \<Longrightarrow> sw \<in> {gl, gl2, rc} \<Longrightarrow> sw (get_le32 (enc c) 0) = Some body \<Longrightarrow> eff c s = Some s' \<Longrightarrow> stream_ok st \<Longrightarrow>
      granted e (reply c) st \<Longrightarrow>
      local_case body \<and> (\<exists>pk st'. body 0 (enc c, st, s) = Some (pk, st', s') \<and> length pk = length (enc c) \<and>
        get_le32 pk 4 = get_le32 (enc c) 4 \<and> stream_ok st' \<and> m_sock st' = m_sock st \<and>
        inbox (os_kernel (st_os st')) = inbox (os_kernel (st_os st)) \<and>
        (\<forall>B. sized B st \<and> reply c \<le> B \<longrightarrow> sized B st' \<and> funds st \<le> funds st'))"
begin

abbreviation (input) encs where "encs cs \<equiv> concat (map enc cs)"

text \<open>There is memory for the stream's buffer and \<open>F\<close> bytes more.\<close>

definition ready :: "nat \<Rightarrow> 'k SocketStream \<Rightarrow> bool" where
  "ready F st \<longleftrightarrow> stream_ok st \<and> sized B st \<and> B + F \<le> funds st"

text \<open>The stream is ready and has the socket and the pending input of \<open>st\<close>.\<close>

definition same_in :: "nat \<Rightarrow> 'k SocketStream \<Rightarrow> 'k SocketStream \<Rightarrow> bool" where
  "same_in F st st' \<longleftrightarrow> ready F st' \<and> m_sock st' = m_sock st \<and> in_of st' = in_of st"

lemma same_in_trans: "same_in F a b \<Longrightarrow> same_in F b c \<Longrightarrow> same_in F a c"
  by (simp add: same_in_def)

lemma exec_ready:
  assumes "good c" and "sw \<in> {gl, gl2, rc}" and "sw (get_le32 (enc c) 0) = Some body" and "eff c s = Some s'" and r: "ready F st"
  shows "local_case body \<and> (\<exists>pk st'. body 0 (enc c, st, s) = Some (pk, st', s') \<and> length pk = length (enc c) \<and>
    get_le32 pk 4 = get_le32 (enc c) 4 \<and> same_in F st st')"
proof -
  have ok: "stream_ok st" "sized B st" "B + F \<le> funds st" "reply c \<le> B" using r enc_framed [OF assms(1)] by (auto simp: ready_def)
  then have "granted e (reply c) st" by (intro funds_grant [of st B]) auto
  from exec [OF assms(1-4) ok(1) this] obtain pk st' where "local_case body" "body 0 (enc c, st, s) = Some (pk, st', s')"
    "length pk = length (enc c)" "get_le32 pk 4 = get_le32 (enc c) 4"
    and st': "stream_ok st'" "m_sock st' = m_sock st" "in_of st' = in_of st" "sized B st \<and> reply c \<le> B \<longrightarrow> sized B st' \<and> funds st \<le> funds st'" by blast
  moreover have "same_in F st st'" using st' ok by (simp add: same_in_def ready_def)
  ultimately show ?thesis by blast
qed

text \<open>A decoder runs a prefix of the commands, and at least one if it knows the first.\<close>

lemma decode_loop_cmds:
  assumes sw: "sw \<in> {gl, gl2, rc}"
  shows "\<lbrakk>\<forall>c \<in> set cs. good c; run_effs eff cs s = Some sN; incomplete part; ready F st;
      length (pre @ encs cs @ part) < 2 ^ 64\<rbrakk> \<Longrightarrow>
    \<exists>cs1 cs2 mid st' s'. cs = cs1 @ cs2 \<and> length mid = length (encs cs1) \<and>
      decode_loop sw (length pre) (pre @ encs cs @ part, st, s) =
        Some (length pre + length mid, (pre @ mid @ encs cs2 @ part, st', s')) \<and>
      run_effs eff cs1 s = Some s' \<and> same_in F st st' \<and> (cs \<noteq> [] \<and> sw (get_le32 (enc (hd cs)) 0) \<noteq> None \<longrightarrow> cs1 \<noteq> [])"
proof (induction cs arbitrary: pre st s)
  case Nil
  then show ?case using decode_loop_stop [of part sw pre st s] by (auto simp: same_in_def)
next
  case (Cons c cs)
  have g: "good c" "framed (enc c)" using Cons.prems(1) enc_framed by auto
  have first: "get_le32 (encs (c # cs) @ part) 0 = get_le32 (enc c) 0"
    using get_le32_append [of 0 "enc c" "[]" "encs cs @ part"] g(2) by (simp add: framed_def)
  show ?case
  proof (cases "sw (get_le32 (enc c) 0)")
    case None
    then have "decode_loop sw (length pre) (pre @ encs (c # cs) @ part, st, s) =
        Some (length pre, (pre @ encs (c # cs) @ part, st, s))"
      using Cons.prems(5) first by (intro decode_loop_stop) auto
    then show ?thesis using None Cons.prems(4)
      by (intro exI [of _ "[]"] exI [of _ "c # cs"] exI [of _ st] exI [of _ s]) (simp add: same_in_def)
  next
    case (Some body)
    from Cons.prems(2) obtain s1 where s1: "eff c s = Some s1" "run_effs eff cs s1 = Some sN"
      by (auto simp: bind_eq_Some_conv)
    from exec_ready [OF g(1) sw Some s1(1) Cons.prems(4)] obtain pk st1 where l: "local_case body"
      and b: "body 0 (enc c, st, s) = Some (pk, st1, s1)" and pk: "length pk = length (enc c)" "get_le32 pk 4 = get_le32 (enc c) 4"
      and st1: "same_in F st st1" by blast
    have step: "decode_loop sw (length pre) (pre @ encs (c # cs) @ part, st, s) =
        decode_loop sw (length (pre @ pk)) ((pre @ pk) @ encs cs @ part, st1, s1)"
      using decode_loop_packet [of "enc c" sw body st s pk st1 s1 pre "encs cs @ part"] g(2) Some l b pk Cons.prems(5) by simp
    have "\<exists>cs1 cs2 mid st' s'. cs = cs1 @ cs2 \<and> length mid = length (encs cs1) \<and>
        decode_loop sw (length (pre @ pk)) ((pre @ pk) @ encs cs @ part, st1, s1) =
          Some (length (pre @ pk) + length mid, ((pre @ pk) @ mid @ encs cs2 @ part, st', s')) \<and>
        run_effs eff cs1 s1 = Some s' \<and> same_in F st1 st' \<and> (cs \<noteq> [] \<and> sw (get_le32 (enc (hd cs)) 0) \<noteq> None \<longrightarrow> cs1 \<noteq> [])"
      using Cons.prems st1 s1 pk by (intro Cons.IH) (auto simp: same_in_def)
    then obtain cs1 cs2 mid st' s' where r: "cs = cs1 @ cs2" "length mid = length (encs cs1)"
      "decode_loop sw (length (pre @ pk)) ((pre @ pk) @ encs cs @ part, st1, s1) =
          Some (length (pre @ pk) + length mid, ((pre @ pk) @ mid @ encs cs2 @ part, st', s'))"
      "run_effs eff cs1 s1 = Some s'" "same_in F st1 st'" by blast
    then show ?thesis using step s1(1) pk st1 same_in_trans [OF st1 r(5)]
      by (intro exI [of _ "c # cs1"] exI [of _ cs2] exI [of _ "pk @ mid"] exI [of _ st'] exI [of _ s']) simp
  qed
qed

lemma encs_large: "\<forall>c \<in> set cs. good c \<Longrightarrow> cs \<noteq> [] \<Longrightarrow> 8 \<le> length (encs cs)"
  using enc_framed by (cases cs) (fastforce simp: framed_def)+

lemma run_decoder_cmds:
  assumes sw: "sw \<in> {gl, gl2, rc}" and cs: "\<forall>c \<in> set cs. good c" "run_effs eff cs s = Some sN" "incomplete part"
    and ok: "rb_ok rb" "rb_data rb = encs cs @ part" "ready F st"
  shows "\<exists>cs1 cs2 rb' st' s'. cs = cs1 @ cs2 \<and> run_decoder sw (rb, st, s) = Some (cs1 \<noteq> [], rb', st', s') \<and>
    run_effs eff cs1 s = Some s' \<and> same_in F st st' \<and> rb_ok rb' \<and> rb_data rb' = encs cs2 @ part \<and> rb_size rb' = rb_size rb \<and>
    (cs \<noteq> [] \<and> sw (get_le32 (enc (hd cs)) 0) \<noteq> None \<longrightarrow> cs1 \<noteq> [])"
proof -
  obtain mem where mem: "rb_buf rb = Some mem" "length mem = rb_size rb" "rb_readPtr rb + rb_validData rb \<le> rb_size rb" "rb_size rb < 2 ^ 31"
    using ok(1) by (auto simp: rb_ok_def split: option.splits)
  let ?bs = "encs cs @ part"
  have bs: "block_read (rb_readPtr rb) (rb_validData rb) mem = Some ?bs" and len: "length ?bs = rb_validData rb"
    using mem ok(2) rb_data_length [OF ok(1)] by (simp_all add: block_read_def rb_data_def)
  have "length ([] @ ?bs) < 2 ^ 64" using len mem by simp
  from decode_loop_cmds [OF sw cs ok(3) this] obtain cs1 cs2 mid st' s' where
    r: "cs = cs1 @ cs2" "length mid = length (encs cs1)" "run_effs eff cs1 s = Some s'" "same_in F st st'"
      "cs \<noteq> [] \<and> sw (get_le32 (enc (hd cs)) 0) \<noteq> None \<longrightarrow> cs1 \<noteq> []"
    and "decode_loop sw (length ([] :: u8 list)) ([] @ ?bs, st, s) =
      Some (length ([] :: u8 list) + length mid, ([] @ mid @ encs cs2 @ part, st', s'))" by blast
  then have loop: "decode_loop sw 0 (?bs, st, s) = Some (length mid, (mid @ encs cs2 @ part, st', s'))" by simp
  have dec: "decode sw (?bs, st, s) = Some (length mid, (mid @ encs cs2 @ part, st', s'))"
  proof (cases "length ?bs < 8")
    case True
    then have "cs = []" using encs_large [OF cs(1)] by fastforce
    then show ?thesis using loop True decode_loop_stop [of part sw "[]" st s] cs(3) by (simp add: decode_def)
  qed (simp add: decode_def loop)
  let ?bs1 = "mid @ encs cs2 @ part"
  let ?mem1 = "take (rb_readPtr rb) mem @ ?bs1 @ drop (rb_readPtr rb + length ?bs1) mem"
  have len1: "length ?bs1 = rb_validData rb" using r len by simp
  then have w: "block_write (rb_readPtr rb) ?bs1 mem = Some ?mem1" using mem by (simp add: block_write_def)
  let ?rb1 = "rb\<lparr>rb_buf := Some ?mem1\<rparr>"
  have ok1: "rb_ok ?rb1" using ok(1) mem len1 by (simp add: rb_ok_def)
  have d1: "rb_data ?rb1 = ?bs1" using mem len1 by (simp add: rb_data_def)
  have "cs1 \<noteq> [] \<Longrightarrow> 8 \<le> length mid" unfolding r(2) using r(1) cs(1) by (intro encs_large) auto
  then have z: "length mid = 0 \<longleftrightarrow> cs1 = []" using r(2) by (cases "cs1 = []") (auto simp del: length_0_conv)
  obtain rb' where rb': "(if 0 < length mid then consume (length mid) ?rb1 else Some ?rb1) = Some rb'" "rb_ok rb'"
    "rb_data rb' = encs cs2 @ part" "rb_size rb' = rb_size rb"
    using consume_ok [OF ok1, of "length mid"] d1 ok1 by (cases "0 < length mid") auto
  have "run_decoder sw (rb, st, s) = (if 0 < length mid then do { rb2 \<leftarrow> consume (length mid) ?rb1; Some (True, rb2, st', s') }
      else Some (False, ?rb1, st', s'))"
    unfolding run_decoder_def prod.case mem(1) bs dec w bind.bind_lunit Let_def by (rule refl)
  then have "run_decoder sw (rb, st, s) = Some (cs1 \<noteq> [], rb', st', s')"
    using rb'(1) z by (cases "cs1 = []") simp_all
  with r rb' show ?thesis by blast
qed

text \<open>Until none of the decoders makes progress: then every command has been run.\<close>

lemma decode_pass_cmds:
  "\<lbrakk>\<forall>c \<in> set cs. good c; run_effs eff cs s = Some sN; incomplete part; rb_ok rb; rb_data rb = encs cs @ part; ready F st\<rbrakk> \<Longrightarrow>
   \<exists>rb' st'. decode_pass gl gl2 rc (rb, st, s) = Some (rb', st', sN) \<and> same_in F st st' \<and> rb_ok rb' \<and> rb_data rb' = part \<and> rb_size rb' = rb_size rb"
proof (induction "length cs" arbitrary: cs s rb st rule: less_induct)
  case less
  note prems = less.prems
  have sws: "gl \<in> {gl, gl2, rc}" "gl2 \<in> {gl, gl2, rc}" "rc \<in> {gl, gl2, rc}" by auto
  from run_decoder_cmds [OF sws(1) prems] obtain cs1 cs1' rb1 st1 s1 where
    1: "cs = cs1 @ cs1'" "run_decoder gl (rb, st, s) = Some (cs1 \<noteq> [], rb1, st1, s1)" "run_effs eff cs1 s = Some s1" "same_in F st st1"
      "rb_ok rb1" "rb_data rb1 = encs cs1' @ part" "rb_size rb1 = rb_size rb" "cs \<noteq> [] \<and> gl (get_le32 (enc (hd cs)) 0) \<noteq> None \<longrightarrow> cs1 \<noteq> []" by blast
  have g1: "\<forall>c \<in> set cs1'. good c" "run_effs eff cs1' s1 = Some sN" "ready F st1"
    using prems 1(1,3,4) by (auto simp: run_effs_append same_in_def)
  from run_decoder_cmds [OF sws(2) g1(1,2) prems(3) 1(5,6) g1(3)] obtain cs2 cs2' rb2 st2 s2 where
    2: "cs1' = cs2 @ cs2'" "run_decoder gl2 (rb1, st1, s1) = Some (cs2 \<noteq> [], rb2, st2, s2)" "run_effs eff cs2 s1 = Some s2" "same_in F st1 st2"
      "rb_ok rb2" "rb_data rb2 = encs cs2' @ part" "rb_size rb2 = rb_size rb1" "cs1' \<noteq> [] \<and> gl2 (get_le32 (enc (hd cs1')) 0) \<noteq> None \<longrightarrow> cs2 \<noteq> []" by blast
  have g2: "\<forall>c \<in> set cs2'. good c" "run_effs eff cs2' s2 = Some sN" "ready F st2"
    using g1 2(1,3,4) by (auto simp: run_effs_append same_in_def)
  from run_decoder_cmds [OF sws(3) g2(1,2) prems(3) 2(5,6) g2(3)] obtain cs3 cs3' rb3 st3 s3 where
    3: "cs2' = cs3 @ cs3'" "run_decoder rc (rb2, st2, s2) = Some (cs3 \<noteq> [], rb3, st3, s3)" "run_effs eff cs3 s2 = Some s3" "same_in F st2 st3"
      "rb_ok rb3" "rb_data rb3 = encs cs3' @ part" "rb_size rb3 = rb_size rb2" "cs2' \<noteq> [] \<and> rc (get_le32 (enc (hd cs2')) 0) \<noteq> None \<longrightarrow> cs3 \<noteq> []" by blast
  have g3: "\<forall>c \<in> set cs3'. good c" "run_effs eff cs3' s3 = Some sN" "ready F st3"
    using g2 3(1,3,4) by (auto simp: run_effs_append same_in_def)
  have pass: "decode_pass gl gl2 rc (rb, st, s) =
      (if cs1 \<noteq> [] \<or> cs2 \<noteq> [] \<or> cs3 \<noteq> [] then decode_pass gl gl2 rc (rb3, st3, s3) else Some (rb3, st3, s3))"
    by (subst decode_pass.simps) (simp add: 1(2) 2(2) 3(2))
  have same: "same_in F st st3" using same_in_trans [OF 1(4) same_in_trans [OF 2(4) 3(4)]] .
  show ?case
  proof (cases "cs1 \<noteq> [] \<or> cs2 \<noteq> [] \<or> cs3 \<noteq> []")
    case True
    then have "length cs3' < length cs" using 1(1) 2(1) 3(1) by auto
    from less.hyps [OF this g3(1,2) prems(3) 3(5,6) g3(3)] obtain rb' st' where
      r: "decode_pass gl gl2 rc (rb3, st3, s3) = Some (rb', st', sN)" "same_in F st3 st'" "rb_ok rb'" "rb_data rb' = part" "rb_size rb' = rb_size rb3" by blast
    have "decode_pass gl gl2 rc (rb, st, s) = Some (rb', st', sN)" unfolding pass using True r(1) by simp
    then show ?thesis using same_in_trans [OF same r(2)] r(3-5) 1(7) 2(7) 3(7) by auto
  next
    case False
    have "cs = []"
    proof (rule ccontr)
      assume ne: "cs \<noteq> []"
      then have g: "good (hd cs)" using prems(1) by simp
      have e: "cs1' = cs" "cs2' = cs" using False 1(1) 2(1) by simp_all
      have "gl (get_le32 (enc (hd cs)) 0) = None" "gl2 (get_le32 (enc (hd cs)) 0) = None" "rc (get_le32 (enc (hd cs)) 0) = None"
        using False ne 1(8) 2(8) 3(8) unfolding e by blast+
      with known [OF g] show False by simp
    qed
    then have e: "cs3' = []" using 1(1) 2(1) 3(1) by simp
    have "decode_pass gl gl2 rc (rb, st, s) = Some (rb3, st3, sN)" unfolding pass using False g3(2) e by simp
    then show ?thesis using same 3(5,6) 1(7) 2(7) 3(7) e by simp
  qed
qed

text \<open>Bytes from the front of the stream are whole commands and one that is incomplete.\<close>

lemma split_stream:
  "\<lbrakk>\<forall>c \<in> set cs. good c; xs @ ys = encs cs\<rbrakk> \<Longrightarrow>
   \<exists>cs1 cs2 part. cs = cs1 @ cs2 \<and> xs = encs cs1 @ part \<and> part @ ys = encs cs2 \<and> incomplete part \<and> (part = [] \<or> length part < L)"
proof (induction cs arbitrary: xs)
  case Nil
  then show ?case by (simp add: incomplete_def)
next
  case (Cons c cs)
  have c: "framed (enc c)" "length (enc c) \<le> L" using Cons.prems(1) enc_framed by auto
  show ?case
  proof (cases "length xs < length (enc c)")
    case True
    then have xs: "xs = take (length xs) (enc c)" using arg_cong [OF Cons.prems(2), of "take (length xs)"] by simp
    have "incomplete xs"
    proof (cases "length xs < 8")
      case False
      have "get_le32 (take (length xs) (enc c)) 4 = get_le32 (enc c) 4"
        using False get_le32_append [of 4 "take (length xs) (enc c)" "[]" "drop (length xs) (enc c)"] True by simp
      then have "get_le32 xs 4 = of_nat (length (enc c))" using xs c(1) by (simp add: framed_def)
      then show ?thesis using c True small by (simp add: incomplete_def unsigned_of_nat take_bit_nat_eq_self)
    qed (simp add: incomplete_def)
    then show ?thesis using Cons.prems(2) True c(2)
      by (intro exI [of _ "[]"] exI [of _ "c # cs"] exI [of _ xs]) simp
  next
    case False
    let ?xs = "drop (length (enc c)) xs"
    have "take (length (enc c)) xs = enc c" "?xs @ ys = encs cs"
      using False arg_cong [OF Cons.prems(2), of "take (length (enc c))"] arg_cong [OF Cons.prems(2), of "drop (length (enc c))"]
      by simp_all
    then obtain xs' where xs: "xs = enc c @ xs'" "xs' @ ys = encs cs" by (metis append_take_drop_id)
    from Cons.IH [OF _ xs(2)] Cons.prems(1) obtain cs1 cs2 part where
      "cs = cs1 @ cs2" "xs' = encs cs1 @ part" "part @ ys = encs cs2" "incomplete part" "part = [] \<or> length part < L" by auto
    then show ?thesis using xs(1) by (intro exI [of _ "c # cs1"] exI [of _ cs2] exI [of _ part]) simp
  qed
qed

lemma complete_packet:
  assumes "\<forall>c \<in> set cs. good c" and "incomplete (encs cs)"
  shows "cs = []"
proof (cases cs)
  case (Cons c ds)
  have c: "framed (enc c)" "length (enc c) \<le> L" using assms(1) Cons enc_framed by auto
  then have "get_le32 (encs cs) 4 = of_nat (length (enc c))" "8 \<le> length (enc c)"
    using get_le32_append [of 4 "enc c" "[]" "encs ds"] Cons by (simp_all add: framed_def)
  then show ?thesis using assms(2) Cons c(2) small by (simp add: incomplete_def unsigned_of_nat take_bit_nat_eq_self)
qed simp

text \<open>
  What the growth of an input buffer of size \<open>n\<close> can still take: it doubles only while it is
  smaller than a packet.
\<close>

definition growth :: "nat \<Rightarrow> nat" where
  "growth n = (if n < L then 4 * L - 2 * n else 0)"

lemma growth_step: "n < L \<Longrightarrow> growth (2 * n) + 2 * n \<le> growth n"
  by (auto simp: growth_def)

lemma ready_room: "ready F st \<Longrightarrow> F \<le> room_of st"
  by (auto simp: ready_def funds_def sized_def split: if_splits)

text \<open>While the socket has data the buffer gets some of it.\<close>

lemma getData_more:
  assumes ok: "rb_ok rb" "ready (growth (rb_size rb)) st" and part: "rb_data rb = [] \<or> length (rb_data rb) < L"
  shows "(in_of st (m_sock st) = [] \<and> (\<exists>rb' w. getData e rb st = Some (-1, rb', st\<lparr>st_os := w\<rparr>) \<and> rb_data rb' = rb_data rb \<and> inbox (os_kernel w) = in_of st)) \<or>
    (\<exists>d rb' w. getData e rb st = Some (int (length d), rb', st\<lparr>st_os := w\<rparr>) \<and> d \<noteq> [] \<and> rb_ok rb' \<and> rb_data rb' = rb_data rb @ d \<and>
       ready (growth (rb_size rb')) (st\<lparr>st_os := w\<rparr>) \<and> in_of st (m_sock st) = d @ inbox (os_kernel w) (m_sock st))"
proof -
  have v: "valid st" using ok(2) by (simp add: ready_def stream_ok_def)
  have full: "rb_validData rb = rb_size rb \<longrightarrow> rb_size rb < L"
    using part rb_data_length [OF ok(1)] ok(1) by (auto simp: rb_ok_def split: option.splits)
  then have sm: "rb_validData rb = rb_size rb \<longrightarrow> rb_size rb < 2 ^ 30" using small by auto
  have enough: "\<not> (rb_validData rb = rb_size rb \<and> room_of st < 2 * rb_size rb)"
    using full growth_step [of "rb_size rb"] ready_room [OF ok(2)] by auto
  obtain n rb' w where g: "getData e rb st = Some (n, rb', st\<lparr>st_os := w\<rparr>)" "rb_ok rb'"
    and r: "n = -1 \<and> rb_data rb' = rb_data rb \<and> inbox (os_kernel w) = in_of st \<and> (\<exists>len > 0. refused len st) \<or>
      (\<exists>d. d \<noteq> [] \<and> n = int (length d) \<and> rb_data rb' = rb_data rb @ d \<and>
        rb_size rb' = (if rb_validData rb = rb_size rb then 2 * rb_size rb else rb_size rb) \<and>
        room_of st \<le> room (os_kernel w) + (if rb_validData rb = rb_size rb then 2 * rb_size rb else 0) \<and>
        in_of st = (inbox (os_kernel w))(m_sock st := d @ inbox (os_kernel w) (m_sock st)))"
    using getData_ok [OF ok(1) sm v] enough by metis
  from r show ?thesis
  proof
    assume "n = -1 \<and> rb_data rb' = rb_data rb \<and> inbox (os_kernel w) = in_of st \<and> (\<exists>len > 0. refused len st)"
    then show ?thesis using g refused_empty by blast
  next
    assume "\<exists>d. d \<noteq> [] \<and> n = int (length d) \<and> rb_data rb' = rb_data rb @ d \<and>
        rb_size rb' = (if rb_validData rb = rb_size rb then 2 * rb_size rb else rb_size rb) \<and>
        room_of st \<le> room (os_kernel w) + (if rb_validData rb = rb_size rb then 2 * rb_size rb else 0) \<and>
        in_of st = (inbox (os_kernel w))(m_sock st := d @ inbox (os_kernel w) (m_sock st))"
    then obtain d where d: "d \<noteq> []" "n = int (length d)" "rb_data rb' = rb_data rb @ d"
      "rb_size rb' = (if rb_validData rb = rb_size rb then 2 * rb_size rb else rb_size rb)"
      "room_of st \<le> room (os_kernel w) + (if rb_validData rb = rb_size rb then 2 * rb_size rb else 0)"
      "in_of st (m_sock st) = d @ inbox (os_kernel w) (m_sock st)" by (metis fun_upd_same)
    have "ready (growth (rb_size rb')) (st\<lparr>st_os := w\<rparr>)"
      using ok(2) d(4,5) full growth_step [of "rb_size rb"] by (auto simp: ready_def funds_def split: if_splits)
    then show ?thesis using g d by blast
  qed
qed

lemma main_loop_cmds:
  "\<lbrakk>\<forall>c \<in> set cs. good c; run_effs eff cs s = Some sN; rb_ok rb; ready (growth (rb_size rb)) st;
    rb_data rb @ in_of st (m_sock st) = encs cs; incomplete (rb_data rb); rb_data rb = [] \<or> length (rb_data rb) < L\<rbrakk> \<Longrightarrow>
   \<exists>rb' st'. main_loop e gl gl2 rc (rb, st, s) = Some (rb', st', sN) \<and> rb_data rb' = [] \<and> in_of st' (m_sock st) = []"
proof (induction "length (in_of st (m_sock st))" arbitrary: cs s rb st rule: less_induct)
  case less
  note prems = less.prems
  from getData_more [OF prems(3,4,7)] show ?case
  proof (elim disjE exE conjE)
    fix rb1 w assume i: "in_of st (m_sock st) = []" and g: "getData e rb st = Some (-1, rb1, st\<lparr>st_os := w\<rparr>)" "rb_data rb1 = rb_data rb"
      "inbox (os_kernel w) = in_of st"
    have "cs = []" using complete_packet [OF prems(1)] prems(5,6) i by simp
    moreover have "main_loop e gl gl2 rc (rb, st, s) = Some (rb1, st\<lparr>st_os := w\<rparr>, s)" by (subst main_loop.simps) (simp add: g(1))
    ultimately show ?thesis using i g prems(2,5) by auto
  next
    fix d rb1 w assume g: "getData e rb st = Some (int (length d), rb1, st\<lparr>st_os := w\<rparr>)" "d \<noteq> []" "rb_ok rb1" "rb_data rb1 = rb_data rb @ d"
      and rd: "ready (growth (rb_size rb1)) (st\<lparr>st_os := w\<rparr>)" and i: "in_of st (m_sock st) = d @ inbox (os_kernel w) (m_sock st)"
    let ?st1 = "st\<lparr>st_os := w\<rparr>"
    have stream: "rb_data rb1 @ in_of ?st1 (m_sock st) = encs cs" using prems(5) g(4) i by simp
    from split_stream [OF prems(1) stream] obtain cs1 cs2 part where
      c: "cs = cs1 @ cs2" "rb_data rb1 = encs cs1 @ part" "part @ in_of ?st1 (m_sock st) = encs cs2" "incomplete part" "part = [] \<or> length part < L"
      by blast
    from prems(2) c(1) obtain s1 where s1: "run_effs eff cs1 s = Some s1" "run_effs eff cs2 s1 = Some sN"
      by (auto simp: run_effs_append bind_eq_Some_conv)
    have gd: "\<forall>c \<in> set cs1. good c" "\<forall>c \<in> set cs2. good c" using prems(1) c(1) by auto
    from decode_pass_cmds [OF gd(1) s1(1) c(4) g(3) c(2) rd] obtain rb2 st2 where
      p: "decode_pass gl gl2 rc (rb1, ?st1, s) = Some (rb2, st2, s1)" "rb_ok rb2" "rb_data rb2 = part"
      and st2: "ready (growth (rb_size rb2)) st2" "m_sock st2 = m_sock st" "in_of st2 = in_of ?st1" by (auto simp: same_in_def)
    have step: "main_loop e gl gl2 rc (rb, st, s) = main_loop e gl gl2 rc (rb2, st2, s1)"
      using g(2) p(1) by (subst main_loop.simps) (simp add: g(1))
    have shorter: "length (in_of st2 (m_sock st2)) < length (in_of st (m_sock st))" using g(2) i st2 by simp
    have rest: "rb_data rb2 @ in_of st2 (m_sock st2) = encs cs2" using c(3) p(3) st2 by simp
    from less.hyps [OF shorter gd(2) s1(2) p(2) st2(1) rest] c(4,5) p(3) show ?thesis unfolding step st2(2) by simp
  qed
qed

end

end
