(* ===== verification/RenderControl.thy ===== *)
theory RenderControl
  imports RenderConfig FrameBufferReach RenderThread
begin

text \<open>
  The functions behind the renderControl commands (\<open>RenderControl.cpp\<close>), as the table the
  decoder calls, for the thread \<open>t\<close>. A pointer into the reply block or the input buffer is an
  offset, as in the decoder; strings of the library have no terminating zero here.
\<close>

subsection \<open>Queries\<close>

definition op_rcGetRendererVersion :: "'g world \<Rightarrow> (u32 \<times> 'g world) option" where
  "op_rcGetRendererVersion w = Some (1, w)"

definition op_rcGetEGLVersion :: "nat \<Rightarrow> nat \<Rightarrow> u8 list \<Rightarrow> 'g world \<Rightarrow> (u32 \<times> u8 list \<times> 'g world) option" where
  "op_rcGetEGLVersion major minor mem w =
     (case w_fb w of
        None \<Rightarrow> Some (0, mem, w)
      | Some fb \<Rightarrow>
          do { mem1 \<leftarrow> put32 major (fb_eglMajor fb) mem;
               mem2 \<leftarrow> put32 minor (fb_eglMinor fb) mem1;
               Some (1, mem2, w) })"

text \<open>The common end of the two string queries.\<close>

definition copy_string :: "u8 list option \<Rightarrow> nat \<Rightarrow> u32 \<Rightarrow> u8 list \<Rightarrow> 'g world \<Rightarrow> (u32 \<times> u8 list \<times> 'g world) option" where
  "copy_string str buffer bufferSize mem w =
     (case str of
        None \<Rightarrow> Some (0, mem, w)
      | Some s \<Rightarrow>
          let len = length s + 1 in
          if int len > sint bufferSize then Some (- of_nat len, mem, w)
          else do { mem1 \<leftarrow> block_write buffer (s @ [0]) mem; Some (of_nat len, mem1, w) })"

definition op_rcQueryEGLString :: "'g gl_api \<Rightarrow> u32 \<Rightarrow> nat \<Rightarrow> u32 \<Rightarrow> u8 list \<Rightarrow> 'g world \<Rightarrow> (u32 \<times> u8 list \<times> 'g world) option" where
  "op_rcQueryEGLString gl name buffer bufferSize mem w =
     (case w_fb w of
        None \<Rightarrow> Some (0, mem, w)
      | Some fb \<Rightarrow> copy_string (egl_string gl name (w_gl w)) buffer bufferSize mem w)"

definition op_rcGetGLString :: "'g gl_api \<Rightarrow> nat \<Rightarrow> u32 \<Rightarrow> nat \<Rightarrow> u32 \<Rightarrow> u8 list \<Rightarrow> 'g world \<Rightarrow> (u32 \<times> u8 list \<times> 'g world) option" where
  "op_rcGetGLString gl t name buffer bufferSize mem w =
     (case w_threads w t of
        None \<Rightarrow> Some (0, mem, w)
      | Some ti \<Rightarrow>
          if ti_currContext ti = NULL then Some (0, mem, w)
          else do { c \<leftarrow> w_ctxs w (ti_currContext ti);
                    copy_string (gl_string gl (rc_isGL2 c) name (w_gl w)) buffer bufferSize mem w })"

definition op_rcGetNumConfigs :: "nat \<Rightarrow> u8 list \<Rightarrow> 'g world \<Rightarrow> (u32 \<times> u8 list \<times> 'g world) option" where
  "op_rcGetNumConfigs numAttribs mem w =
     do { mem1 \<leftarrow> put32 numAttribs (of_nat (length s_configAttribs)) mem;
          Some (of_nat (getNumConfigs w), mem1, w) }"

definition op_rcGetConfigs :: "u32 \<Rightarrow> nat \<Rightarrow> u8 list \<Rightarrow> 'g world \<Rightarrow> (u32 \<times> u8 list \<times> 'g world) option" where
  "op_rcGetConfigs bufSize buffer mem w =
     (let neededSize = of_nat ((getNumConfigs w + 1) * length s_configAttribs * 4) :: u32 in
      if bufSize < neededSize then Some (- neededSize, mem, w)
      else do { mem1 \<leftarrow> packConfigsInfo buffer mem w; Some (of_nat (getNumConfigs w), mem1, w) })"

definition op_rcChooseConfig ::
  "'g gl_api \<Rightarrow> nat \<Rightarrow> u32 \<Rightarrow> nat option \<Rightarrow> u32 \<Rightarrow> u8 list \<Rightarrow> u8 list \<Rightarrow> 'g world \<Rightarrow> (u32 \<times> u8 list \<times> u8 list \<times> 'g world) option" where
  "op_rcChooseConfig gl attribs attribs_size configs configs_size buf mem w =
     (case w_fb w of
        None \<Rightarrow> Some (0, buf, mem, w)
      | Some fb \<Rightarrow> do { (r, buf1, mem1) \<leftarrow> chooseConfig gl attribs configs configs_size buf mem w; Some (r, buf1, mem1, w) })"

definition op_rcGetFBParam :: "u32 \<Rightarrow> 'g world \<Rightarrow> (u32 \<times> 'g world) option" where
  "op_rcGetFBParam param w =
     Some (case w_fb w of
             None \<Rightarrow> 0
           | Some fb \<Rightarrow>
               if param = 1 then fb_width fb
               else if param = 2 then fb_height fb
               else if param = 3 \<or> param = 4 then 72
               else if param = 5 then 60
               else if param = 6 \<or> param = 7 then 1
               else 0, w)"

subsection \<open>Contexts, surfaces and colour buffers\<close>

text \<open>A result of type \<open>int\<close> is returned in its low 32 bits.\<close>

definition op_rcCreateContext :: "'g gl_api \<Rightarrow> nat \<Rightarrow> u32 \<Rightarrow> u32 \<Rightarrow> u32 \<Rightarrow> 'g world \<Rightarrow> (u32 \<times> 'g world) option" where
  "op_rcCreateContext gl t config share glVersion w =
     (case w_fb w of None \<Rightarrow> Some (0, w) | Some fb \<Rightarrow> createRenderContext gl t config share (glVersion = 2) w)"

definition op_rcDestroyContext :: "'g gl_api \<Rightarrow> nat \<Rightarrow> u32 \<Rightarrow> 'g world \<Rightarrow> 'g world option" where
  "op_rcDestroyContext gl t context w = (case w_fb w of None \<Rightarrow> Some w | Some fb \<Rightarrow> DestroyRenderContext gl t context w)"

definition op_rcCreateWindowSurface :: "'g gl_api \<Rightarrow> nat \<Rightarrow> u32 \<Rightarrow> u32 \<Rightarrow> u32 \<Rightarrow> 'g world \<Rightarrow> (u32 \<times> 'g world) option" where
  "op_rcCreateWindowSurface gl t config width height w =
     (case w_fb w of None \<Rightarrow> Some (0, w) | Some fb \<Rightarrow> createWindowSurface gl t config width height w)"

definition op_rcDestroyWindowSurface :: "'g gl_api \<Rightarrow> nat \<Rightarrow> u32 \<Rightarrow> 'g world \<Rightarrow> 'g world option" where
  "op_rcDestroyWindowSurface gl t windowSurface w =
     (case w_fb w of None \<Rightarrow> Some w | Some fb \<Rightarrow> DestroyWindowSurface gl t windowSurface w)"

definition op_rcCreateColorBuffer :: "'g gl_api \<Rightarrow> nat \<Rightarrow> u32 \<Rightarrow> u32 \<Rightarrow> u32 \<Rightarrow> 'g world \<Rightarrow> (u32 \<times> 'g world) option" where
  "op_rcCreateColorBuffer gl t width height internalFormat w =
     (case w_fb w of None \<Rightarrow> Some (0, w) | Some fb \<Rightarrow> createColorBuffer gl t width height internalFormat w)"

definition op_rcOpenColorBuffer2 :: "u32 \<Rightarrow> 'g world \<Rightarrow> (u32 \<times> 'g world) option" where
  "op_rcOpenColorBuffer2 colorbuffer w =
     (case w_fb w of
        None \<Rightarrow> Some (- 1, w)
      | Some fb \<Rightarrow> do { (r, w1) \<leftarrow> openColorBuffer colorbuffer w; Some (of_int r, w1) })"

definition op_rcOpenColorBuffer :: "u32 \<Rightarrow> 'g world \<Rightarrow> 'g world option" where
  "op_rcOpenColorBuffer colorbuffer w = map_option snd (op_rcOpenColorBuffer2 colorbuffer w)"

definition op_rcCloseColorBuffer :: "'g gl_api \<Rightarrow> nat \<Rightarrow> u32 \<Rightarrow> 'g world \<Rightarrow> 'g world option" where
  "op_rcCloseColorBuffer gl t colorbuffer w = (case w_fb w of None \<Rightarrow> Some w | Some fb \<Rightarrow> closeColorBuffer gl t colorbuffer w)"

definition op_rcFlushWindowColorBuffer :: "'g gl_api \<Rightarrow> nat \<Rightarrow> u32 \<Rightarrow> 'g world \<Rightarrow> (u32 \<times> 'g world) option" where
  "op_rcFlushWindowColorBuffer gl t windowSurface w =
     (case w_fb w of
        None \<Rightarrow> Some (- 1, w)
      | Some fb \<Rightarrow> do { (ok, w1) \<leftarrow> flushWindowSurfaceColorBuffer gl t windowSurface w; Some (if ok then 0 else - 1, w1) })"

definition op_rcSetWindowColorBuffer :: "'g gl_api \<Rightarrow> nat \<Rightarrow> u32 \<Rightarrow> u32 \<Rightarrow> 'g world \<Rightarrow> 'g world option" where
  "op_rcSetWindowColorBuffer gl t windowSurface colorBuffer w =
     (case w_fb w of None \<Rightarrow> Some w | Some fb \<Rightarrow> map_option snd (setWindowSurfaceColorBuffer gl t windowSurface colorBuffer w))"

definition op_rcMakeCurrent :: "'g gl_api \<Rightarrow> nat \<Rightarrow> u32 \<Rightarrow> u32 \<Rightarrow> u32 \<Rightarrow> 'g world \<Rightarrow> (u32 \<times> 'g world) option" where
  "op_rcMakeCurrent gl t context drawSurf readSurf w =
     (case w_fb w of
        None \<Rightarrow> Some (0, w)
      | Some fb \<Rightarrow> do { (ret, w1) \<leftarrow> bindContext gl t context drawSurf readSurf w; Some (if ret then 1 else 0, w1) })"

definition op_rcFBPost :: "'g gl_api \<Rightarrow> nat \<Rightarrow> u32 \<Rightarrow> 'g world \<Rightarrow> 'g world option" where
  "op_rcFBPost gl t colorBuffer w = (case w_fb w of None \<Rightarrow> Some w | Some fb \<Rightarrow> map_option snd (post gl t colorBuffer w))"

definition op_rcFBSetSwapInterval :: "u32 \<Rightarrow> 'g world \<Rightarrow> 'g world option" where
  "op_rcFBSetSwapInterval interval w = Some w"

definition op_rcBindTexture :: "'g gl_api \<Rightarrow> nat \<Rightarrow> u32 \<Rightarrow> 'g world \<Rightarrow> 'g world option" where
  "op_rcBindTexture gl t colorBuffer w =
     (case w_fb w of None \<Rightarrow> Some w | Some fb \<Rightarrow> map_option snd (bindColorBufferToTexture gl t colorBuffer w))"

definition op_rcBindRenderbuffer :: "'g gl_api \<Rightarrow> nat \<Rightarrow> u32 \<Rightarrow> 'g world \<Rightarrow> 'g world option" where
  "op_rcBindRenderbuffer gl t colorBuffer w =
     (case w_fb w of None \<Rightarrow> Some w | Some fb \<Rightarrow> map_option snd (bindColorBufferToRenderbuffer gl t colorBuffer w))"

definition op_rcColorBufferCacheFlush :: "u32 \<Rightarrow> u32 \<Rightarrow> u32 \<Rightarrow> 'g world \<Rightarrow> (u32 \<times> 'g world) option" where
  "op_rcColorBufferCacheFlush colorBuffer postCount forRead w = Some (0, w)"

text \<open>Nothing is written: the reply is what the block held before.\<close>

definition op_rcReadColorBuffer :: "u32 \<Rightarrow> u32 list \<Rightarrow> nat \<Rightarrow> u8 list \<Rightarrow> 'g world \<Rightarrow> (u8 list \<times> 'g world) option" where
  "op_rcReadColorBuffer colorBuffer px pixels mem w = Some (mem, w)"

definition op_rcUpdateColorBuffer :: "'g gl_api \<Rightarrow> nat \<Rightarrow> u32 \<Rightarrow> u32 list \<Rightarrow> nat \<Rightarrow> u8 list \<Rightarrow> 'g world \<Rightarrow> (u32 \<times> 'g world) option" where
  "op_rcUpdateColorBuffer gl t colorBuffer px pixels buf w =
     (case w_fb w of
        None \<Rightarrow> Some (- 1, w)
      | Some fb \<Rightarrow>
          do { (r, w1) \<leftarrow> updateColorBuffer gl t colorBuffer (px ! 0) (px ! 1) (px ! 2) (px ! 3) (px ! 4) (px ! 5)
                 (block_read pixels (gl_image_size gl (px ! 2) (px ! 3) (px ! 4) (px ! 5)) buf) w;
               Some (0, w1) })"

subsection \<open>The table\<close>

definition initRenderControlContext :: "'g gl_api \<Rightarrow> nat \<Rightarrow> 'g world rc_ops" where
  "initRenderControlContext gl t = \<lparr>
     rcGetRendererVersion = op_rcGetRendererVersion,
     rcGetEGLVersion = op_rcGetEGLVersion,
     rcQueryEGLString = op_rcQueryEGLString gl,
     rcGetGLString = op_rcGetGLString gl t,
     rcGetNumConfigs = op_rcGetNumConfigs,
     rcGetConfigs = op_rcGetConfigs,
     rcChooseConfig = op_rcChooseConfig gl,
     rcGetFBParam = op_rcGetFBParam,
     rcCreateContext = op_rcCreateContext gl t,
     rcDestroyContext = op_rcDestroyContext gl t,
     rcCreateWindowSurface = op_rcCreateWindowSurface gl t,
     rcDestroyWindowSurface = op_rcDestroyWindowSurface gl t,
     rcCreateColorBuffer = op_rcCreateColorBuffer gl t,
     rcOpenColorBuffer = op_rcOpenColorBuffer,
     rcCloseColorBuffer = op_rcCloseColorBuffer gl t,
     rcSetWindowColorBuffer = op_rcSetWindowColorBuffer gl t,
     rcFlushWindowColorBuffer = op_rcFlushWindowColorBuffer gl t,
     rcMakeCurrent = op_rcMakeCurrent gl t,
     rcFBPost = op_rcFBPost gl t,
     rcFBSetSwapInterval = op_rcFBSetSwapInterval,
     rcBindTexture = op_rcBindTexture gl t,
     rcBindRenderbuffer = op_rcBindRenderbuffer gl t,
     rcColorBufferCacheFlush = op_rcColorBufferCacheFlush,
     rcReadColorBuffer = op_rcReadColorBuffer,
     rcUpdateColorBuffer = op_rcUpdateColorBuffer gl t,
     rcOpenColorBuffer2 = op_rcOpenColorBuffer2\<rparr>"

subsection \<open>Functions that get a pointer into the input\<close>

lemma put32_append: "put32 off v pk = Some pk' \<Longrightarrow> put32 (length pre + off) v (pre @ pk @ suf) = Some (pre @ pk' @ suf)"
  by (auto simp: put32_def block_write_def split: if_splits)

lemma scan_append:
  "scan_attribs off need cnt pk = Some (n, b, pk') \<Longrightarrow>
   scan_attribs (length pre + off) need cnt (pre @ pk @ suf) = Some (n, b, pre @ pk' @ suf)"
proof (induction off need cnt pk rule: scan_attribs.induct)
  case (1 off need cnt pk)
  from "1.prems" obtain a where a: "get32 pk off = Some a" by (subst (asm) scan_attribs.simps) (auto split: option.splits)
  note a' = get32_append [OF a, of pre suf]
  show ?case
  proof (cases "a = EGL_NONE")
    case True
    then show ?thesis using "1.prems" a a' by (subst (asm) scan_attribs.simps, subst scan_attribs.simps) simp
  next
    case False
    show ?thesis
    proof (cases "a = EGL_SURFACE_TYPE")
      case True
      with "1.prems" a obtain pk1 where p: "put32 (off + 4) EGL_PBUFFER_BIT pk = Some pk1"
        "scan_attribs (off + 8) False (cnt + 2) pk1 = Some (n, b, pk')"
        by (subst (asm) scan_attribs.simps) (auto split: option.splits)
      from "1.IH"(1) [OF a False True p] put32_append [OF p(1), of pre suf]
      show ?thesis using True a' by (subst scan_attribs.simps) (simp add: add.assoc)
    next
      case other: False
      with "1.prems" a False have "scan_attribs (off + 8) need (cnt + 2) pk = Some (n, b, pk')"
        by (subst (asm) scan_attribs.simps) simp
      from "1.IH"(2) [OF a False other this] show ?thesis using False other a' by (subst scan_attribs.simps) (simp add: add.assoc)
    qed
  qed
qed

lemma put32_Some: "put32 off v mem = Some mem' \<Longrightarrow> length mem' = length mem \<and> take off mem' = take off mem"
  by (auto simp: put32_def block_write_def split: if_splits)

text \<open>The scan stays behind its start and inside the buffer.\<close>

lemma scan_bounds:
  "scan_attribs off need cnt pk = Some (n, b, pk') \<Longrightarrow>
   length pk' = length pk \<and> take off pk' = take off pk \<and> cnt \<le> n \<and> off + 4 * (n - cnt) + 4 \<le> length pk"
proof (induction off need cnt pk rule: scan_attribs.induct)
  case (1 off need cnt pk)
  from "1.prems" obtain a where a: "get32 pk off = Some a" by (subst (asm) scan_attribs.simps) (auto split: option.splits)
  then have l: "off + 4 \<le> length pk" by (auto simp: get32_def split: if_splits)
  consider "a = EGL_NONE" | "a \<noteq> EGL_NONE" "a = EGL_SURFACE_TYPE" | "a \<noteq> EGL_NONE" "a \<noteq> EGL_SURFACE_TYPE" by blast
  then show ?case
  proof cases
    case 1
    then show ?thesis using "1.prems" a l by (subst (asm) scan_attribs.simps) simp
  next
    case 2
    with "1.prems" a obtain pk1 where p: "put32 (off + 4) EGL_PBUFFER_BIT pk = Some pk1"
      "scan_attribs (off + 8) False (cnt + 2) pk1 = Some (n, b, pk')"
      by (subst (asm) scan_attribs.simps) (auto split: option.splits)
    have k: "length pk1 = length pk" "take (off + 4) pk1 = take (off + 4) pk" using put32_Some [OF p(1)] by simp_all
    from "1.IH"(1) [OF a 2 p] have r: "length pk' = length pk" "take (off + 8) pk' = take (off + 8) pk1"
      "cnt + 2 \<le> n" "off + 8 + 4 * (n - (cnt + 2)) + 4 \<le> length pk" using k by auto
    have "take off pk' = take off pk"
      using arg_cong [OF r(2), of "take off"] arg_cong [OF k(2), of "take off"] by simp
    then show ?thesis using r by auto
  next
    case 3
    with "1.prems" a have "scan_attribs (off + 8) need (cnt + 2) pk = Some (n, b, pk')"
      by (subst (asm) scan_attribs.simps) simp
    from "1.IH"(2) [OF a 3 this] have r: "length pk' = length pk" "take (off + 8) pk' = take (off + 8) pk"
      "cnt + 2 \<le> n" "off + 8 + 4 * (n - (cnt + 2)) + 4 \<le> length pk" by auto
    have "take off pk' = take off pk" using arg_cong [OF r(2), of "take off"] by simp
    then show ?thesis using r by auto
  qed
qed

lemma read_words_append:
  "off + 4 * n \<le> length pk \<Longrightarrow> read_words (length pre + off) n (pre @ pk @ suf) = read_words off n pk"
  using get_le32_append [where pre = pre and post = suf] by (auto simp: read_words_def add.assoc)

lemma chooseConfig_append:
  assumes "chooseConfig gl off configs m pk mem w = Some (r, pk', mem')"
  shows "chooseConfig gl (length pre + off) configs m (pre @ pk @ suf) mem w = Some (r, pre @ pk' @ suf, mem')"
proof (cases "egl_configs gl (w_gl w)")
  case None
  then show ?thesis using assms by (simp add: chooseConfig_def)
next
  case (Some all)
  with assms obtain n b where s: "scan_attribs off True 0 pk = Some (n, b, pk')"
    by (auto simp: chooseConfig_def bind_eq_Some_conv Let_def)
  have "off + 4 * n \<le> length pk'" using scan_bounds [OF s] by auto
  with assms s show ?thesis
    by (simp add: chooseConfig_def Some scan_append [OF s] read_words_append Let_def bind_eq_Some_conv)
qed

lemma chooseConfig_bounds:
  assumes "chooseConfig gl off configs m pk mem w = Some (r, pk', mem')"
  shows "length pk' = length pk \<and> take off pk' = take off pk"
  using assms scan_bounds by (auto simp: chooseConfig_def bind_eq_Some_conv Let_def split: option.splits)

text \<open>Pixels that are not read may be absent.\<close>

lemma subUpdate_none:
  assumes "subUpdate gl t a x y width height fmt ty None w = Some v"
  shows "subUpdate gl t a x y width height fmt ty px w = Some v"
proof (cases "bind_locked gl t w")
  case (Some p)
  then show ?thesis using assms by (cases p; cases "w_cbs (snd p) a") (auto simp: subUpdate_def split: if_splits)
qed (use assms in \<open>simp add: subUpdate_def\<close>)

lemma updateColorBuffer_mono:
  assumes u: "updateColorBuffer gl t h x y width height fmt ty px w = Some v" and "px = None \<or> px' = px"
  shows "updateColorBuffer gl t h x y width height fmt ty px' w = Some v"
  using assms(2)
proof
  assume px: "px = None"
  obtain fb where fb: "w_fb w = Some fb" using u by (auto simp: updateColorBuffer_def bind_eq_Some_conv)
  show ?thesis
  proof (cases "m_colorbuffers fb h")
    case None
    then show ?thesis using u fb by (simp add: updateColorBuffer_def)
  next
    case (Some p)
    obtain a n where p: "p = (a, n)" by (cases p)
    obtain w1 where "subUpdate gl t a x y width height fmt ty None w = Some w1" "v = (True, w1)"
      using u fb Some p px by (auto simp: updateColorBuffer_def bind_eq_Some_conv)
    then show ?thesis using fb Some p subUpdate_none by (fastforce simp: updateColorBuffer_def)
  qed
qed (use u in simp)

lemma block_read_append: "block_read off n pk = None \<or> block_read (length pre + off) n (pre @ pk @ suf) = block_read off n pk"
  by (auto simp: block_read_def)

interpretation rcl: rc_local "initRenderControlContext gl t" for gl :: "'g gl_api" and t
proof
  show "rcChooseConfig (initRenderControlContext gl t) (length pre + off) n p m (pre @ pk @ suf) mem s = Some (r, pre @ pk' @ suf, mem', s')"
    "length pk' = length pk \<and> take off pk' = take off pk"
    if "rcChooseConfig (initRenderControlContext gl t) off n p m pk mem s = Some (r, pk', mem', s')"
    for off n p m pk mem s r pk' mem' s' pre suf
    using that chooseConfig_append [of gl off p m pk mem s r pk' mem' pre suf] chooseConfig_bounds [of gl off p m pk mem s r pk' mem']
    by (auto simp: initRenderControlContext_def op_rcChooseConfig_def bind_eq_Some_conv split: option.splits)
  show "rcUpdateColorBuffer (initRenderControlContext gl t) c px (length pre + off) (pre @ pk @ suf) s = Some v"
    if "rcUpdateColorBuffer (initRenderControlContext gl t) c px off pk s = Some v" for c px off pk s v pre suf
    using that updateColorBuffer_mono [OF _ block_read_append]
    by (fastforce simp: initRenderControlContext_def op_rcUpdateColorBuffer_def bind_eq_Some_conv split: option.splits)
qed

end
