(* ===== verification/RenderCommands.thy ===== *)
theory RenderCommands
  imports RenderControl
begin

text \<open>
  The renderControl commands of a client: their packets, and their effect on the renderer. The
  decoder and the functions of \<open>RenderControl.cpp\<close> give every well-formed packet its effect, in
  the order in which the packets arrive.
\<close>

subsection \<open>Commands and their packets\<close>

text \<open>
  The arguments are those of the functions; a size is the size of the buffer the client passes.
\<close>

datatype rc_cmd =
    CmdGetRendererVersion | CmdGetEGLVersion | CmdQueryEGLString u32 u32 | CmdGetGLString u32 u32 | CmdGetNumConfigs
  | CmdGetConfigs u32 | CmdChooseConfig "u32 list" u32 | CmdGetFBParam u32 | CmdCreateContext u32 u32 u32 | CmdDestroyContext u32
  | CmdCreateWindowSurface u32 u32 u32 | CmdDestroyWindowSurface u32 | CmdCreateColorBuffer u32 u32 u32 | CmdOpenColorBuffer u32
  | CmdCloseColorBuffer u32 | CmdSetWindowColorBuffer u32 u32 | CmdFlushWindowColorBuffer u32 | CmdMakeCurrent u32 u32 u32
  | CmdFBPost u32 | CmdFBSetSwapInterval u32 | CmdBindTexture u32 | CmdBindRenderbuffer u32 | CmdColorBufferCacheFlush u32 u32 u32
  | CmdReadColorBuffer u32 u32 u32 u32 u32 u32 u32 u32 | CmdUpdateColorBuffer u32 u32 u32 u32 u32 u32 u32 "u8 list"
  | CmdOpenColorBuffer2 u32

fun opcode_of :: "rc_cmd \<Rightarrow> u32" where
  "opcode_of CmdGetRendererVersion = 10000"
| "opcode_of CmdGetEGLVersion = 10001"
| "opcode_of (CmdQueryEGLString name n) = 10002"
| "opcode_of (CmdGetGLString name n) = 10003"
| "opcode_of CmdGetNumConfigs = 10004"
| "opcode_of (CmdGetConfigs n) = 10005"
| "opcode_of (CmdChooseConfig attribs n) = 10006"
| "opcode_of (CmdGetFBParam p) = 10007"
| "opcode_of (CmdCreateContext c s v) = 10008"
| "opcode_of (CmdDestroyContext c) = 10009"
| "opcode_of (CmdCreateWindowSurface c x y) = 10010"
| "opcode_of (CmdDestroyWindowSurface h) = 10011"
| "opcode_of (CmdCreateColorBuffer x y f) = 10012"
| "opcode_of (CmdOpenColorBuffer h) = 10013"
| "opcode_of (CmdCloseColorBuffer h) = 10014"
| "opcode_of (CmdSetWindowColorBuffer h k) = 10015"
| "opcode_of (CmdFlushWindowColorBuffer h) = 10016"
| "opcode_of (CmdMakeCurrent c d r) = 10017"
| "opcode_of (CmdFBPost h) = 10018"
| "opcode_of (CmdFBSetSwapInterval i) = 10019"
| "opcode_of (CmdBindTexture h) = 10020"
| "opcode_of (CmdBindRenderbuffer h) = 10021"
| "opcode_of (CmdColorBufferCacheFlush h n r) = 10022"
| "opcode_of (CmdReadColorBuffer h x y width height fmt ty n) = 10023"
| "opcode_of (CmdUpdateColorBuffer h x y width height fmt ty pixels) = 10024"
| "opcode_of (CmdOpenColorBuffer2 h) = 10025"

text \<open>The words behind the header, then the bytes behind the words.\<close>

fun words_of :: "rc_cmd \<Rightarrow> u32 list" where
  "words_of CmdGetRendererVersion = []"
| "words_of CmdGetEGLVersion = [4, 4]"
| "words_of (CmdQueryEGLString name n) = [name, n, n]"
| "words_of (CmdGetGLString name n) = [name, n, n]"
| "words_of CmdGetNumConfigs = [4]"
| "words_of (CmdGetConfigs n) = [n, n]"
| "words_of (CmdChooseConfig attribs n) =
     of_nat (4 * (length attribs + 1)) # attribs @ [EGL_NONE, of_nat (4 * (length attribs + 1)), 4 * n, n]"
| "words_of (CmdGetFBParam p) = [p]"
| "words_of (CmdCreateContext c s v) = [c, s, v]"
| "words_of (CmdDestroyContext c) = [c]"
| "words_of (CmdCreateWindowSurface c x y) = [c, x, y]"
| "words_of (CmdDestroyWindowSurface h) = [h]"
| "words_of (CmdCreateColorBuffer x y f) = [x, y, f]"
| "words_of (CmdOpenColorBuffer h) = [h]"
| "words_of (CmdCloseColorBuffer h) = [h]"
| "words_of (CmdSetWindowColorBuffer h k) = [h, k]"
| "words_of (CmdFlushWindowColorBuffer h) = [h]"
| "words_of (CmdMakeCurrent c d r) = [c, d, r]"
| "words_of (CmdFBPost h) = [h]"
| "words_of (CmdFBSetSwapInterval i) = [i]"
| "words_of (CmdBindTexture h) = [h]"
| "words_of (CmdBindRenderbuffer h) = [h]"
| "words_of (CmdColorBufferCacheFlush h n r) = [h, n, r]"
| "words_of (CmdReadColorBuffer h x y width height fmt ty n) = [h, x, y, width, height, fmt, ty, n]"
| "words_of (CmdUpdateColorBuffer h x y width height fmt ty pixels) = [h, x, y, width, height, fmt, ty, of_nat (length pixels)]"
| "words_of (CmdOpenColorBuffer2 h) = [h]"

fun bytes_of :: "rc_cmd \<Rightarrow> u8 list" where
  "bytes_of (CmdUpdateColorBuffer h x y width height fmt ty pixels) = pixels"
| "bytes_of c = []"

definition rc_enc :: "rc_cmd \<Rightarrow> u8 list" where
  "rc_enc c = packet (opcode_of c) (concat (map le32 (words_of c)) @ bytes_of c)"

text \<open>Bounds on the sizes, so that they are lengths a reply can have.\<close>

definition size_ok :: "u32 \<Rightarrow> bool" where
  "size_ok n \<longleftrightarrow> unat n < 2 ^ 28"

fun cmd_ok :: "rc_cmd \<Rightarrow> bool" where
  "cmd_ok (CmdQueryEGLString name n) = size_ok n"
| "cmd_ok (CmdGetGLString name n) = size_ok n"
| "cmd_ok (CmdGetConfigs n) = size_ok n"
| "cmd_ok (CmdChooseConfig attribs n) = (length attribs < 2 ^ 26 \<and> size_ok n)"
| "cmd_ok (CmdReadColorBuffer h x y width height fmt ty n) = (size_ok n \<and> 4 \<le> n)"
| "cmd_ok (CmdUpdateColorBuffer h x y width height fmt ty pixels) = (length pixels < 2 ^ 28)"
| "cmd_ok c = True"

subsection \<open>Effects\<close>

text \<open>
  The state after a function that fills a reply: it depends on the size of the reply block only.
\<close>

definition out_eff :: "nat \<Rightarrow> (nat \<Rightarrow> u8 list \<Rightarrow> 'g world \<Rightarrow> (u32 \<times> u8 list \<times> 'g world) option) \<Rightarrow> 'g world \<Rightarrow> 'g world option" where
  "out_eff n f w = map_option (\<lambda>(r, mem, w'). w') (f 0 (replicate (n + 4) 0) w)"

fun rc_eff :: "'g gl_api \<Rightarrow> nat \<Rightarrow> rc_cmd \<Rightarrow> 'g world \<Rightarrow> 'g world option" where
  "rc_eff gl t CmdGetRendererVersion w = Some w"
| "rc_eff gl t CmdGetEGLVersion w = Some w"
| "rc_eff gl t (CmdQueryEGLString name n) w = out_eff (unat n) (\<lambda>p. op_rcQueryEGLString gl name p n) w"
| "rc_eff gl t (CmdGetGLString name n) w = out_eff (unat n) (\<lambda>p. op_rcGetGLString gl t name p n) w"
| "rc_eff gl t CmdGetNumConfigs w = Some w"
| "rc_eff gl t (CmdGetConfigs n) w = out_eff (unat n) (op_rcGetConfigs n) w"
| "rc_eff gl t (CmdChooseConfig attribs n) w =
     out_eff (4 * unat n) (\<lambda>p mem w. map_option (\<lambda>(r, buf, mem, w). (r, mem, w))
       (op_rcChooseConfig gl 12 (of_nat (4 * (length attribs + 1))) (if n = 0 then None else Some p) n (rc_enc (CmdChooseConfig attribs n)) mem w)) w"
| "rc_eff gl t (CmdGetFBParam p) w = Some w"
| "rc_eff gl t (CmdCreateContext c s v) w = map_option snd (op_rcCreateContext gl t c s v w)"
| "rc_eff gl t (CmdDestroyContext c) w = op_rcDestroyContext gl t c w"
| "rc_eff gl t (CmdCreateWindowSurface c x y) w = map_option snd (op_rcCreateWindowSurface gl t c x y w)"
| "rc_eff gl t (CmdDestroyWindowSurface h) w = op_rcDestroyWindowSurface gl t h w"
| "rc_eff gl t (CmdCreateColorBuffer x y f) w = map_option snd (op_rcCreateColorBuffer gl t x y f w)"
| "rc_eff gl t (CmdOpenColorBuffer h) w = op_rcOpenColorBuffer h w"
| "rc_eff gl t (CmdCloseColorBuffer h) w = op_rcCloseColorBuffer gl t h w"
| "rc_eff gl t (CmdSetWindowColorBuffer h k) w = op_rcSetWindowColorBuffer gl t h k w"
| "rc_eff gl t (CmdFlushWindowColorBuffer h) w = map_option snd (op_rcFlushWindowColorBuffer gl t h w)"
| "rc_eff gl t (CmdMakeCurrent c d r) w = map_option snd (op_rcMakeCurrent gl t c d r w)"
| "rc_eff gl t (CmdFBPost h) w = op_rcFBPost gl t h w"
| "rc_eff gl t (CmdFBSetSwapInterval i) w = Some w"
| "rc_eff gl t (CmdBindTexture h) w = op_rcBindTexture gl t h w"
| "rc_eff gl t (CmdBindRenderbuffer h) w = op_rcBindRenderbuffer gl t h w"
| "rc_eff gl t (CmdColorBufferCacheFlush h n r) w = Some w"
| "rc_eff gl t (CmdReadColorBuffer h x y width height fmt ty n) w = Some w"
| "rc_eff gl t (CmdUpdateColorBuffer h x y width height fmt ty pixels) w =
     map_option snd (op_rcUpdateColorBuffer gl t h [x, y, width, height, fmt, ty] 40
       (rc_enc (CmdUpdateColorBuffer h x y width height fmt ty pixels)) w)"
| "rc_eff gl t (CmdOpenColorBuffer2 h) w = map_option snd (op_rcOpenColorBuffer2 h w)"

subsection \<open>Packets\<close>

lemma concat_le32_length [simp]: "length (concat (map le32 ws)) = 4 * length ws"
  by (induction ws) simp_all

lemma rc_enc_length: "length (rc_enc c) = 8 + 4 * length (words_of c) + length (bytes_of c)"
  by (simp add: rc_enc_def)

lemma cmd_length: "cmd_ok c \<Longrightarrow> length (rc_enc c) \<le> 2 ^ 30"
  by (cases c) (simp_all add: rc_enc_length)

lemma rc_framed: "cmd_ok c \<Longrightarrow> framed (rc_enc c)"
  using cmd_length [of c] unfolding rc_enc_def by (intro framed_packet) (simp add: packet_def)

lemma get_le32_words: "k < length ws \<Longrightarrow> get_le32 (pre @ concat (map le32 ws) @ suf) (length pre + 4 * k) = ws ! k"
proof (induction ws arbitrary: k pre)
  case (Cons v ws)
  show ?case
  proof (cases k)
    case 0
    then show ?thesis using get_le32_le32 [of pre v "concat (map le32 ws) @ suf"] by simp
  next
    case (Suc j)
    then show ?thesis using Cons.IH [of j "pre @ le32 v"] Cons.prems by (simp add: add.assoc)
  qed
qed simp

lemma rc_enc_arg: "k < length (words_of c) \<Longrightarrow> arg k 0 (rc_enc c) = Some (words_of c ! k)"
  using get_le32_words [of k "words_of c" "le32 (opcode_of c) @ le32 (of_nat (8 + 4 * length (words_of c) + length (bytes_of c)))" "bytes_of c"]
  by (simp add: arg_def get32_def rc_enc_length) (simp add: rc_enc_def packet_def add.assoc)

lemma rc_enc_get32:
  assumes "k < length (words_of c)"
  shows "get32 (rc_enc c) (8 + 4 * k) = Some (words_of c ! k)"
  using rc_enc_arg [OF assms] by (simp add: arg_def)

lemma rc_enc_opcode: "get_le32 (rc_enc c) 0 = opcode_of c"
  by (simp add: rc_enc_def packet_fields)

subsection \<open>Replies\<close>

text \<open>The size of the reply that the case of a command allocates, 0 for a command without one.\<close>

fun reply_size :: "rc_cmd \<Rightarrow> nat" where
  "reply_size CmdGetRendererVersion = 4"
| "reply_size CmdGetEGLVersion = 12"
| "reply_size (CmdQueryEGLString name n) = unat n + 4"
| "reply_size (CmdGetGLString name n) = unat n + 4"
| "reply_size CmdGetNumConfigs = 8"
| "reply_size (CmdGetConfigs n) = unat n + 4"
| "reply_size (CmdChooseConfig attribs n) = 4 * unat n + 4"
| "reply_size (CmdGetFBParam p) = 4"
| "reply_size (CmdCreateContext c s v) = 4"
| "reply_size (CmdCreateWindowSurface c x y) = 4"
| "reply_size (CmdCreateColorBuffer x y f) = 4"
| "reply_size (CmdFlushWindowColorBuffer h) = 4"
| "reply_size (CmdMakeCurrent c d r) = 4"
| "reply_size (CmdColorBufferCacheFlush h n r) = 4"
| "reply_size (CmdReadColorBuffer h x y width height fmt ty n) = unat n"
| "reply_size (CmdUpdateColorBuffer h x y width height fmt ty px) = 4"
| "reply_size (CmdOpenColorBuffer2 h) = 4"
| "reply_size c = 0"

text \<open>A function that fills a reply does so in every block that is large enough, with the same effect.\<close>

definition fills :: "nat \<Rightarrow> (nat \<Rightarrow> u8 list \<Rightarrow> 's \<Rightarrow> (u32 \<times> u8 list \<times> 's) option) \<Rightarrow> 's \<Rightarrow> 's \<Rightarrow> bool" where
  "fills n f s s' \<longleftrightarrow> (\<forall>mem. n \<le> length mem \<longrightarrow> (\<exists>r mem'. f 0 mem s = Some (r, mem', s') \<and> length mem' = length mem))"

lemma block_write_grow:
  "block_write off bs (replicate n x) = Some mem \<Longrightarrow> n \<le> length mem1 \<Longrightarrow> \<exists>mem2. block_write off bs mem1 = Some mem2 \<and> length mem2 = length mem1"
  by (auto simp: block_write_def split: if_splits)

lemma block_write_fits: "off + length bs \<le> length mem \<Longrightarrow> \<exists>mem'. block_write off bs mem = Some mem' \<and> length mem' = length mem"
  by (simp add: block_write_def)

lemma put32_fits: "off + 4 \<le> length mem \<Longrightarrow> \<exists>mem'. put32 off v mem = Some mem' \<and> length mem' = length mem"
  unfolding put32_def by (rule block_write_fits) simp

lemma memset4_fits: "off + 4 \<le> length mem \<Longrightarrow> \<exists>mem'. memset4 off mem = Some mem' \<and> length mem' = length mem"
  unfolding memset4_def by (rule block_write_fits) simp

context stream_os
begin

text \<open>
  The stream is ready for the next reply, with the same pending input; a reply that fits the
  stream's buffer needs no memory beyond that buffer.
\<close>

definition replied where
  "replied n st st' \<longleftrightarrow> stream_ok st' \<and> m_sock st' = m_sock st \<and> in_of st' = in_of st \<and>
     (\<forall>B. sized B st \<and> n \<le> B \<longrightarrow> sized B st' \<and> funds st \<le> funds st')"

lemma with_reply_ok:
  assumes ok: "stream_ok st" and n: "n < 2 ^ 31" "0 < n" and got: "granted e n st"
    and body: "\<And>mem. n \<le> length mem \<Longrightarrow> \<exists>mem'. body 0 mem s = Some (mem', s') \<and> length mem' = length mem"
  shows "\<exists>st'. with_reply e n body (st, s) = Some (st', s') \<and> replied n st st'"
proof -
  obtain mem m b w where a: "alloc e n st =
      Some (Some 0, st\<lparr>io_buf := True, io_bufsize := b, io_free := b - n, m_buf := Some mem, m_bufsize := m, st_os := w\<rparr>)"
    and r: "n \<le> b" "b \<le> length mem" "b < 2 ^ 31" "m \<le> length mem" "m < 2 ^ 31" "inbox (os_kernel w) = in_of st"
      "\<forall>B. sized B st \<and> n \<le> B \<longrightarrow> b = B \<and> m = B \<and> room_of st \<le> room (os_kernel w) + (if m_buf st = None then B else 0)"
    using alloc_ok [OF ok n got] by blast
  obtain mem' where m': "body 0 mem s = Some (mem', s')" "length mem' = length mem" using body [of mem] r by auto
  let ?st = "st\<lparr>io_buf := True, io_bufsize := b, io_free := b - n, m_buf := Some mem', m_bufsize := m, st_os := w\<rparr>"
  have v: "valid ?st" using ok by (simp add: stream_ok_def valid_def)
  have "\<exists>x st' k. flush e ?st = Some (x, st') \<and> stream_ok st' \<and> m_sock st' = m_sock ?st \<and> in_of st' = in_of ?st \<and> k \<le> n \<and>
      (x = 0 \<longrightarrow> k = n) \<and> out_of st' = (out_of ?st)(m_sock ?st := out_of ?st (m_sock ?st) @ take k mem') \<and>
      io_bufsize st' = io_bufsize ?st \<and> m_bufsize st' = m_bufsize ?st \<and> m_buf st' = m_buf ?st \<and> room_of ?st \<le> room_of st'"
    by (rule flush_ok [OF v]) (use r m'(2) in simp_all)
  then obtain x st' where f: "flush e ?st = Some (x, st')" "stream_ok st'" "m_sock st' = m_sock st" "in_of st' = in_of st"
    and z: "io_bufsize st' = b" "m_bufsize st' = m" "m_buf st' = Some mem'" "room (os_kernel w) \<le> room_of st'"
    using r(6) by auto
  have u: "st\<lparr>io_buf := True, io_bufsize := b, io_free := b - n, m_bufsize := m, st_os := w, m_buf := Some mem'\<rparr> = ?st" by (cases st) simp
  have "sized B st' \<and> funds st \<le> funds st'" if "sized B st" "n \<le> B" for B
    using r(7) [rule_format, of B] that z by (cases "m_buf st") (auto simp: sized_def funds_def)
  then show ?thesis using a m'(1) f by (auto simp: with_reply_def replied_def u)
qed

lemma value_reply_ok:
  assumes "stream_ok st" and "f s = Some (r, s')" and "granted e 4 st"
  shows "\<exists>st'. value_reply e f (st, s) = Some (st', s') \<and> replied 4 st st'"
  unfolding value_reply_def
proof (rule with_reply_ok [OF assms(1)])
  fix mem :: "u8 list" assume "4 \<le> length mem"
  then show "\<exists>mem'. (f s \<bind> (\<lambda>(r, s1). put32 0 r mem \<bind> (\<lambda>mem1. Some (mem1, s1)))) = Some (mem', s') \<and> length mem' = length mem"
    using put32_fits [of 0 mem r] assms(2) by auto
qed (use assms(3) in simp_all)

lemma out_reply_ok:
  assumes "stream_ok st" and "n < 2 ^ 30" and f: "fills (n + 4) f s s'" and "granted e (n + 4) st"
  shows "\<exists>st'. out_reply e n f (st, s) = Some (st', s') \<and> replied (n + 4) st st'"
  unfolding out_reply_def
proof (rule with_reply_ok [OF assms(1)])
  fix mem :: "u8 list" assume n: "n + 4 \<le> length mem"
  obtain m1 where 1: "memset4 0 mem = Some m1" "length m1 = length mem" using memset4_fits [of 0 mem] n by auto
  obtain r m2 where 2: "f 0 m1 s = Some (r, m2, s')" "length m2 = length mem" 
    using f 1(2) n unfolding fills_def by metis
  obtain m3 where 3: "put32 n r m2 = Some m3" "length m3 = length mem" using put32_fits [of n m2 r] 2(2) n by auto
  show "\<exists>mem'. (memset4 0 mem \<bind> (\<lambda>mem1. f 0 mem1 s \<bind> (\<lambda>(r, mem2, s1). put32 (0 + n) r mem2 \<bind> (\<lambda>mem3. Some (mem3, s1))))) =
      Some (mem', s') \<and> length mem' = length mem"
    using 1 2 3 by simp
qed (use assms(2,4) in simp_all)

end

subsection \<open>The functions that fill a reply\<close>

lemma fills_outI:
  assumes "out_eff n f w = Some w'"
    and "\<And>r mem1 mem. f 0 (replicate (n + 4) 0) w = Some (r, mem1, w') \<Longrightarrow> n + 4 \<le> length mem \<Longrightarrow>
      \<exists>r mem'. f 0 mem w = Some (r, mem', w') \<and> length mem' = length mem"
  shows "fills (n + 4) f w w'"
  using assms by (fastforce simp: fills_def out_eff_def)

lemma copy_string_grow:
  assumes "copy_string str off n (replicate k 0) w = Some (r, mem1, w')" and "k \<le> length mem"
  shows "\<exists>r mem'. copy_string str off n mem w = Some (r, mem', w') \<and> length mem' = length mem"
proof (cases str)
  case None
  then show ?thesis using assms(1) by (simp add: copy_string_def)
next
  case (Some x)
  show ?thesis
  proof (cases "sint n < int (length x + 1)")
    case True
    then show ?thesis using assms(1) Some by (simp add: copy_string_def)
  next
    case False
    with assms(1) Some obtain m1 where "block_write off (x @ [0]) (replicate k 0) = Some m1" "w' = w"
      by (auto simp: copy_string_def bind_eq_Some_conv Let_def)
    with block_write_grow [OF this(1) assms(2)] False Some show ?thesis by (auto simp: copy_string_def Let_def)
  qed
qed

lemma fills_query: "out_eff n (\<lambda>p. op_rcQueryEGLString gl name p k) w = Some w' \<Longrightarrow> fills (n + 4) (\<lambda>p. op_rcQueryEGLString gl name p k) w w'"
  by (rule fills_outI) (auto simp: op_rcQueryEGLString_def split: option.splits dest: copy_string_grow)

lemma fills_glstring: "out_eff n (\<lambda>p. op_rcGetGLString gl t name p k) w = Some w' \<Longrightarrow> fills (n + 4) (\<lambda>p. op_rcGetGLString gl t name p k) w w'"
  by (rule fills_outI) (auto simp: op_rcGetGLString_def bind_eq_Some_conv split: option.splits if_splits dest: copy_string_grow)

lemma fills_configs: "out_eff n (op_rcGetConfigs k) w = Some w' \<Longrightarrow> fills (n + 4) (op_rcGetConfigs k) w w'"
proof (rule fills_outI)
  fix r mem1 and mem :: "u8 list"
  assume a: "op_rcGetConfigs k 0 (replicate (n + 4) 0) w = Some (r, mem1, w')" and l: "n + 4 \<le> length mem"
  show "\<exists>r mem'. op_rcGetConfigs k 0 mem w = Some (r, mem', w') \<and> length mem' = length mem"
  proof (cases "k < of_nat ((getNumConfigs w + 1) * length s_configAttribs * 4)")
    case True
    then show ?thesis using a by (simp add: op_rcGetConfigs_def Let_def)
  next
    case False
    with a have "packConfigsInfo 0 (replicate (n + 4) 0) w = Some mem1" "w' = w"
      by (auto simp: op_rcGetConfigs_def Let_def bind_eq_Some_conv)
    with block_write_grow [OF this(1) [unfolded packConfigsInfo_def] l] False show ?thesis
      by (auto simp: op_rcGetConfigs_def Let_def packConfigsInfo_def)
  qed
qed

lemma fills_num: "fills 8 op_rcGetNumConfigs w w"
  unfolding fills_def
proof (intro allI impI)
  fix mem :: "u8 list" assume "8 \<le> length mem"
  then show "\<exists>r mem'. op_rcGetNumConfigs 0 mem w = Some (r, mem', w) \<and> length mem' = length mem"
    using put32_fits [of 0 mem "of_nat (length s_configAttribs)"] by (auto simp: op_rcGetNumConfigs_def)
qed

lemma put32_grow:
  "put32 off v mem0 = Some mem1 \<Longrightarrow> length mem0 \<le> length mem \<Longrightarrow> \<exists>mem'. put32 off v mem = Some mem' \<and> length mem' = length mem"
  by (auto simp: put32_def block_write_def split: if_splits)

lemma verify_grow:
  "verify_configs gl ms configs k n mem0 w = Some (c, mem1) \<Longrightarrow> length mem0 \<le> length mem \<Longrightarrow>
   \<exists>mem'. verify_configs gl ms configs k n mem w = Some (c, mem') \<and> length mem' = length mem"
proof (induction gl ms configs k n mem0 w arbitrary: mem rule: verify_configs.induct)
  case (2 gl m ms configs k n mem0 w)
  show ?case
  proof (cases "configs \<noteq> None \<and> k > 0 \<and> n \<ge> unat k")
    case True
    then show ?thesis using "2.prems" by simp
  next
    case False
    with "2.prems" obtain i where i: "egl_attrib gl m EGL_CONFIG_ID (w_gl w) = Some i" by (auto simp: bind_eq_Some_conv split: if_splits)
    show ?thesis
    proof (cases "find_config i (w_configs w)")
      case None
      with "2.prems" False i show ?thesis using "2.IH"(1) [OF False i None, of mem] by (auto split: if_splits)
    next
      case (Some j)
      let ?wr = "\<lambda>mem. case configs of None \<Rightarrow> Some mem
        | Some p \<Rightarrow> if n < unat k then put32 (p + 4 * n) (of_nat j) mem else Some mem"
      from "2.prems"(1) False i Some obtain m1 where m1: "?wr mem0 = Some m1" "verify_configs gl ms configs k (n + 1) m1 w = Some (c, mem1)"
        by (auto simp: bind_eq_Some_conv split: if_splits)
      have "\<exists>m2. ?wr mem = Some m2 \<and> length m2 = length mem" and l: "length m1 = length mem0"
        using m1(1) "2.prems"(2) put32_grow put32_Some by (auto split: option.splits if_splits)
      then obtain m2 where m2: "?wr mem = Some m2" "length m2 = length mem" by blast
      from "2.IH"(2) [OF False i Some m1, of m2] l m2(2) "2.prems"(2) obtain mem' where
        "verify_configs gl ms configs k (n + 1) m2 w = Some (c, mem')" "length mem' = length mem" by auto
      then show ?thesis using False i Some m2(1) by (auto split: if_splits)
    qed
  qed
qed auto

lemma chooseConfig_grow:
  assumes "chooseConfig gl off configs k pk mem0 w = Some (r, pk', mem1)" and "length mem0 \<le> length mem"
  shows "\<exists>mem'. chooseConfig gl off configs k pk mem w = Some (r, pk', mem') \<and> length mem' = length mem"
proof (cases "egl_configs gl (w_gl w)")
  case None
  then show ?thesis using assms(1) by (simp add: chooseConfig_def)
next
  case (Some all)
  with assms(1) obtain n b where s: "scan_attribs off True 0 pk = Some (n, b, pk')"
    by (auto simp: chooseConfig_def bind_eq_Some_conv Let_def)
  let ?ms = "case egl_choose gl ((if b then [EGL_SURFACE_TYPE, EGL_PBUFFER_BIT] else []) @ read_words off n pk' @ [EGL_NONE]) (w_gl w) of
    None \<Rightarrow> [] | Some ms \<Rightarrow> take (length all) ms"
  obtain c where v: "verify_configs gl ?ms configs k 0 mem0 w = Some (c, mem1)" "r = of_nat c"
    using assms(1) Some s by (auto simp: chooseConfig_def bind_eq_Some_conv Let_def)
  from verify_grow [OF v(1) assms(2)] show ?thesis using Some s v(2) by (auto simp: chooseConfig_def Let_def)
qed

end
