(* ===== verification/RenderSystem.thy ===== *)
theory RenderSystem
  imports RenderCommands
begin

text \<open>
  The render thread with the renderControl decoder and the functions of \<open>RenderControl.cpp\<close>: it
  runs the commands of its client in order. The two GL decoders are any switches on the opcodes
  below 10000, where \<open>gl_opcodes.h\<close> and \<open>gl2_opcodes.h\<close> have theirs.
\<close>

subsection \<open>One command\<close>

text \<open>The case of a command returns with its effect, leaves the header of the packet and a stream that is ready.\<close>

context stream_os
begin

definition served where
  "served n pk st s' x \<longleftrightarrow> (\<exists>pk' st'. x = Some (pk', st', s') \<and> length pk' = length pk \<and> get_le32 pk' 4 = get_le32 pk 4 \<and> replied n st st')"

lemma served_keep: "\<exists>st'. x = Some (st', s') \<and> replied n st st' \<Longrightarrow> served n pk st s' (keep_buf pk x)"
  by (auto simp: served_def keep_buf_def)

lemma served_value:
  assumes "stream_ok st" and "map_option snd (f s) = Some s'" and "granted e 4 st"
  shows "served 4 pk st s' (keep_buf pk (value_reply e f (st, s)))"
proof -
  obtain r where "f s = Some (r, s')" using assms(2) by auto
  from served_keep [OF value_reply_ok [of st f s r s', OF assms(1) this assms(3)]] show ?thesis .
qed

lemma served_out:
  assumes "stream_ok st" and "n < 2 ^ 30" and "fills (n + 4) f s s'" and "granted e (n + 4) st"
  shows "served (n + 4) pk st s' (keep_buf pk (out_reply e n f (st, s)))"
  by (rule served_keep [OF out_reply_ok [OF assms]])

lemma served_call: "stream_ok st \<Longrightarrow> served n pk st s' (Some (pk, st, s'))"
  by (simp add: served_def replied_def)

lemma served_version:
  assumes "stream_ok st" and "granted e 12 st"
  shows "served 12 pk st w (keep_buf pk (with_reply e 12 (\<lambda>tmpBuf mem s.
    do { mem1 \<leftarrow> memset4 tmpBuf mem; mem2 \<leftarrow> memset4 (tmpBuf + 4) mem1;
         (r, mem3, s1) \<leftarrow> op_rcGetEGLVersion tmpBuf (tmpBuf + 4) mem2 s;
         mem4 \<leftarrow> put32 (8 + tmpBuf) r mem3; Some (mem4, s1) }) (st, w)))"
proof (rule served_keep, rule with_reply_ok [OF assms(1)])
  fix mem :: "u8 list" assume l: "12 \<le> length mem"
  obtain m1 where 1: "memset4 0 mem = Some m1" "length m1 = length mem" using memset4_fits [of 0 mem] l by auto
  obtain m2 where 2: "memset4 4 m1 = Some m2" "length m2 = length mem" using memset4_fits [of 4 m1] 1(2) l by auto
  have "\<exists>r m3. op_rcGetEGLVersion 0 4 m2 w = Some (r, m3, w) \<and> length m3 = length mem"
  proof (cases "w_fb w")
    case (Some fb)
    obtain m3 where 3: "put32 0 (fb_eglMajor fb) m2 = Some m3" "length m3 = length mem"
      using put32_fits [of 0 m2 "fb_eglMajor fb"] 2(2) l by auto
    obtain m4 where "put32 4 (fb_eglMinor fb) m3 = Some m4" "length m4 = length mem"
      using put32_fits [of 4 m3 "fb_eglMinor fb"] 3(2) l by auto
    then show ?thesis using Some 3(1) by (auto simp: op_rcGetEGLVersion_def)
  qed (use 2 in \<open>auto simp: op_rcGetEGLVersion_def\<close>)
  then obtain r m3 where 3: "op_rcGetEGLVersion 0 4 m2 w = Some (r, m3, w)" "length m3 = length mem" by blast
  obtain m4 where 4: "put32 8 r m3 = Some m4" "length m4 = length mem" using put32_fits [of 8 m3 r] 3(2) l by auto
  show "\<exists>mem'. (memset4 0 mem \<bind> (\<lambda>mem1. memset4 (0 + 4) mem1 \<bind> (\<lambda>mem2. op_rcGetEGLVersion 0 (0 + 4) mem2 w \<bind>
      (\<lambda>(r, mem3, s1). put32 (8 + 0) r mem3 \<bind> (\<lambda>mem4. Some (mem4, s1)))))) = Some (mem', w) \<and> length mem' = length mem"
    using 1 2 3 4 by simp
qed (use assms(2) in simp_all)

lemma served_read:
  assumes "stream_ok st" and "n < 2 ^ 31" and "4 \<le> n" and "granted e n st"
  shows "served n pk st w (keep_buf pk (with_reply e n (\<lambda>tmpBuf mem s.
    do { mem1 \<leftarrow> memset4 tmpBuf mem; op_rcReadColorBuffer h px tmpBuf mem1 s }) (st, w)))"
proof (rule served_keep, rule with_reply_ok [OF assms(1,2)])
  fix mem :: "u8 list" assume "n \<le> length mem"
  then show "\<exists>mem'. (memset4 0 mem \<bind> (\<lambda>mem1. op_rcReadColorBuffer h px 0 mem1 w)) = Some (mem', w) \<and> length mem' = length mem"
    using memset4_fits [of 0 mem] assms(3) by (auto simp: op_rcReadColorBuffer_def)
qed (use assms(3,4) in simp_all)

lemmas rc_table = initRenderControlContext_def rc_ops.select_convs

lemma serve_GetRendererVersion:
  assumes "stream_ok st" and "rc_eff gl t CmdGetRendererVersion w = Some w'" and got: "granted e (reply_size CmdGetRendererVersion) st"
  shows "served (reply_size CmdGetRendererVersion) (rc_enc CmdGetRendererVersion) st w' (case_rcGetRendererVersion e (initRenderControlContext gl t) 0 (rc_enc CmdGetRendererVersion, st, w))"
  using served_value [of st "op_rcGetRendererVersion" w w'] assms 
  by (simp add: case_rcGetRendererVersion_def rc_table op_rcGetRendererVersion_def)

lemma serve_GetFBParam:
  assumes "stream_ok st" and "rc_eff gl t (CmdGetFBParam p) w = Some w'" and got: "granted e (reply_size (CmdGetFBParam p)) st"
  shows "served (reply_size (CmdGetFBParam p)) (rc_enc (CmdGetFBParam p)) st w' (case_rcGetFBParam e (initRenderControlContext gl t) 0 (rc_enc (CmdGetFBParam p), st, w))"
  using served_value [of st "op_rcGetFBParam p" w w'] assms rc_enc_arg [of 0 "(CmdGetFBParam p)"]
  by (simp add: case_rcGetFBParam_def rc_table op_rcGetFBParam_def)

lemma serve_CreateContext:
  assumes "stream_ok st" and "rc_eff gl t (CmdCreateContext c s v) w = Some w'" and got: "granted e (reply_size (CmdCreateContext c s v)) st"
  shows "served (reply_size (CmdCreateContext c s v)) (rc_enc (CmdCreateContext c s v)) st w' (case_rcCreateContext e (initRenderControlContext gl t) 0 (rc_enc (CmdCreateContext c s v), st, w))"
  using served_value [of st "op_rcCreateContext gl t c s v" w w'] assms rc_enc_arg [of 0 "(CmdCreateContext c s v)"] rc_enc_arg [of 1 "(CmdCreateContext c s v)"] rc_enc_arg [of 2 "(CmdCreateContext c s v)"]
  by (simp add: case_rcCreateContext_def rc_table)

lemma serve_CreateWindowSurface:
  assumes "stream_ok st" and "rc_eff gl t (CmdCreateWindowSurface c x y) w = Some w'" and got: "granted e (reply_size (CmdCreateWindowSurface c x y)) st"
  shows "served (reply_size (CmdCreateWindowSurface c x y)) (rc_enc (CmdCreateWindowSurface c x y)) st w' (case_rcCreateWindowSurface e (initRenderControlContext gl t) 0 (rc_enc (CmdCreateWindowSurface c x y), st, w))"
  using served_value [of st "op_rcCreateWindowSurface gl t c x y" w w'] assms rc_enc_arg [of 0 "(CmdCreateWindowSurface c x y)"] rc_enc_arg [of 1 "(CmdCreateWindowSurface c x y)"] rc_enc_arg [of 2 "(CmdCreateWindowSurface c x y)"]
  by (simp add: case_rcCreateWindowSurface_def rc_table)

lemma serve_CreateColorBuffer:
  assumes "stream_ok st" and "rc_eff gl t (CmdCreateColorBuffer x y f) w = Some w'" and got: "granted e (reply_size (CmdCreateColorBuffer x y f)) st"
  shows "served (reply_size (CmdCreateColorBuffer x y f)) (rc_enc (CmdCreateColorBuffer x y f)) st w' (case_rcCreateColorBuffer e (initRenderControlContext gl t) 0 (rc_enc (CmdCreateColorBuffer x y f), st, w))"
  using served_value [of st "op_rcCreateColorBuffer gl t x y f" w w'] assms rc_enc_arg [of 0 "(CmdCreateColorBuffer x y f)"] rc_enc_arg [of 1 "(CmdCreateColorBuffer x y f)"] rc_enc_arg [of 2 "(CmdCreateColorBuffer x y f)"]
  by (simp add: case_rcCreateColorBuffer_def rc_table)

lemma serve_FlushWindowColorBuffer:
  assumes "stream_ok st" and "rc_eff gl t (CmdFlushWindowColorBuffer h) w = Some w'" and got: "granted e (reply_size (CmdFlushWindowColorBuffer h)) st"
  shows "served (reply_size (CmdFlushWindowColorBuffer h)) (rc_enc (CmdFlushWindowColorBuffer h)) st w' (case_rcFlushWindowColorBuffer e (initRenderControlContext gl t) 0 (rc_enc (CmdFlushWindowColorBuffer h), st, w))"
  using served_value [of st "op_rcFlushWindowColorBuffer gl t h" w w'] assms rc_enc_arg [of 0 "(CmdFlushWindowColorBuffer h)"]
  by (simp add: case_rcFlushWindowColorBuffer_def rc_table)

lemma serve_MakeCurrent:
  assumes "stream_ok st" and "rc_eff gl t (CmdMakeCurrent c d r) w = Some w'" and got: "granted e (reply_size (CmdMakeCurrent c d r)) st"
  shows "served (reply_size (CmdMakeCurrent c d r)) (rc_enc (CmdMakeCurrent c d r)) st w' (case_rcMakeCurrent e (initRenderControlContext gl t) 0 (rc_enc (CmdMakeCurrent c d r), st, w))"
  using served_value [of st "op_rcMakeCurrent gl t c d r" w w'] assms rc_enc_arg [of 0 "(CmdMakeCurrent c d r)"] rc_enc_arg [of 1 "(CmdMakeCurrent c d r)"] rc_enc_arg [of 2 "(CmdMakeCurrent c d r)"]
  by (simp add: case_rcMakeCurrent_def rc_table)

lemma serve_ColorBufferCacheFlush:
  assumes "stream_ok st" and "rc_eff gl t (CmdColorBufferCacheFlush h n r) w = Some w'" and got: "granted e (reply_size (CmdColorBufferCacheFlush h n r)) st"
  shows "served (reply_size (CmdColorBufferCacheFlush h n r)) (rc_enc (CmdColorBufferCacheFlush h n r)) st w' (case_rcColorBufferCacheFlush e (initRenderControlContext gl t) 0 (rc_enc (CmdColorBufferCacheFlush h n r), st, w))"
  using served_value [of st "op_rcColorBufferCacheFlush h n r" w w'] assms rc_enc_arg [of 0 "(CmdColorBufferCacheFlush h n r)"] rc_enc_arg [of 1 "(CmdColorBufferCacheFlush h n r)"] rc_enc_arg [of 2 "(CmdColorBufferCacheFlush h n r)"]
  by (simp add: case_rcColorBufferCacheFlush_def rc_table op_rcColorBufferCacheFlush_def)

lemma serve_OpenColorBuffer2:
  assumes "stream_ok st" and "rc_eff gl t (CmdOpenColorBuffer2 h) w = Some w'" and got: "granted e (reply_size (CmdOpenColorBuffer2 h)) st"
  shows "served (reply_size (CmdOpenColorBuffer2 h)) (rc_enc (CmdOpenColorBuffer2 h)) st w' (case_rcOpenColorBuffer2 e (initRenderControlContext gl t) 0 (rc_enc (CmdOpenColorBuffer2 h), st, w))"
  using served_value [of st "op_rcOpenColorBuffer2 h" w w'] assms rc_enc_arg [of 0 "(CmdOpenColorBuffer2 h)"]
  by (simp add: case_rcOpenColorBuffer2_def rc_table)

lemma serve_DestroyContext:
  assumes "stream_ok st" and "rc_eff gl t (CmdDestroyContext h) w = Some w'" and got: "granted e (reply_size (CmdDestroyContext h)) st"
  shows "served (reply_size (CmdDestroyContext h)) (rc_enc (CmdDestroyContext h)) st w' (case_rcDestroyContext (initRenderControlContext gl t) 0 (rc_enc (CmdDestroyContext h), st, w))"
  using served_call assms rc_enc_arg [of 0 "(CmdDestroyContext h)"]
  by (simp add: case_rcDestroyContext_def call1_def rc_table)

lemma serve_DestroyWindowSurface:
  assumes "stream_ok st" and "rc_eff gl t (CmdDestroyWindowSurface h) w = Some w'" and got: "granted e (reply_size (CmdDestroyWindowSurface h)) st"
  shows "served (reply_size (CmdDestroyWindowSurface h)) (rc_enc (CmdDestroyWindowSurface h)) st w' (case_rcDestroyWindowSurface (initRenderControlContext gl t) 0 (rc_enc (CmdDestroyWindowSurface h), st, w))"
  using served_call assms rc_enc_arg [of 0 "(CmdDestroyWindowSurface h)"]
  by (simp add: case_rcDestroyWindowSurface_def call1_def rc_table)

lemma serve_OpenColorBuffer:
  assumes "stream_ok st" and "rc_eff gl t (CmdOpenColorBuffer h) w = Some w'" and got: "granted e (reply_size (CmdOpenColorBuffer h)) st"
  shows "served (reply_size (CmdOpenColorBuffer h)) (rc_enc (CmdOpenColorBuffer h)) st w' (case_rcOpenColorBuffer (initRenderControlContext gl t) 0 (rc_enc (CmdOpenColorBuffer h), st, w))"
  using served_call assms rc_enc_arg [of 0 "(CmdOpenColorBuffer h)"]
  by (simp add: case_rcOpenColorBuffer_def call1_def rc_table)

lemma serve_CloseColorBuffer:
  assumes "stream_ok st" and "rc_eff gl t (CmdCloseColorBuffer h) w = Some w'" and got: "granted e (reply_size (CmdCloseColorBuffer h)) st"
  shows "served (reply_size (CmdCloseColorBuffer h)) (rc_enc (CmdCloseColorBuffer h)) st w' (case_rcCloseColorBuffer (initRenderControlContext gl t) 0 (rc_enc (CmdCloseColorBuffer h), st, w))"
  using served_call assms rc_enc_arg [of 0 "(CmdCloseColorBuffer h)"]
  by (simp add: case_rcCloseColorBuffer_def call1_def rc_table)

lemma serve_FBPost:
  assumes "stream_ok st" and "rc_eff gl t (CmdFBPost h) w = Some w'" and got: "granted e (reply_size (CmdFBPost h)) st"
  shows "served (reply_size (CmdFBPost h)) (rc_enc (CmdFBPost h)) st w' (case_rcFBPost (initRenderControlContext gl t) 0 (rc_enc (CmdFBPost h), st, w))"
  using served_call assms rc_enc_arg [of 0 "(CmdFBPost h)"]
  by (simp add: case_rcFBPost_def call1_def rc_table)

lemma serve_FBSetSwapInterval:
  assumes "stream_ok st" and "rc_eff gl t (CmdFBSetSwapInterval i) w = Some w'" and got: "granted e (reply_size (CmdFBSetSwapInterval i)) st"
  shows "served (reply_size (CmdFBSetSwapInterval i)) (rc_enc (CmdFBSetSwapInterval i)) st w' (case_rcFBSetSwapInterval (initRenderControlContext gl t) 0 (rc_enc (CmdFBSetSwapInterval i), st, w))"
  using served_call assms rc_enc_arg [of 0 "(CmdFBSetSwapInterval i)"]
  by (simp add: case_rcFBSetSwapInterval_def call1_def rc_table op_rcFBSetSwapInterval_def)

lemma serve_BindTexture:
  assumes "stream_ok st" and "rc_eff gl t (CmdBindTexture h) w = Some w'" and got: "granted e (reply_size (CmdBindTexture h)) st"
  shows "served (reply_size (CmdBindTexture h)) (rc_enc (CmdBindTexture h)) st w' (case_rcBindTexture (initRenderControlContext gl t) 0 (rc_enc (CmdBindTexture h), st, w))"
  using served_call assms rc_enc_arg [of 0 "(CmdBindTexture h)"]
  by (simp add: case_rcBindTexture_def call1_def rc_table)

lemma serve_BindRenderbuffer:
  assumes "stream_ok st" and "rc_eff gl t (CmdBindRenderbuffer h) w = Some w'" and got: "granted e (reply_size (CmdBindRenderbuffer h)) st"
  shows "served (reply_size (CmdBindRenderbuffer h)) (rc_enc (CmdBindRenderbuffer h)) st w' (case_rcBindRenderbuffer (initRenderControlContext gl t) 0 (rc_enc (CmdBindRenderbuffer h), st, w))"
  using served_call assms rc_enc_arg [of 0 "(CmdBindRenderbuffer h)"]
  by (simp add: case_rcBindRenderbuffer_def call1_def rc_table)

lemma serve_SetWindowColorBuffer:
  assumes "stream_ok st" and "rc_eff gl t (CmdSetWindowColorBuffer h k) w = Some w'" and got: "granted e (reply_size (CmdSetWindowColorBuffer h k)) st"
  shows "served (reply_size (CmdSetWindowColorBuffer h k)) (rc_enc (CmdSetWindowColorBuffer h k)) st w'
    (case_rcSetWindowColorBuffer (initRenderControlContext gl t) 0 (rc_enc (CmdSetWindowColorBuffer h k), st, w))"
  using served_call assms rc_enc_arg [of 0 "CmdSetWindowColorBuffer h k"] rc_enc_arg [of 1 "CmdSetWindowColorBuffer h k"]
  by (simp add: case_rcSetWindowColorBuffer_def rc_table)

lemma serve_QueryEGLString:
  assumes "stream_ok st" and "cmd_ok (CmdQueryEGLString name n)" and "rc_eff gl t (CmdQueryEGLString name n) w = Some w'" and got: "granted e (reply_size (CmdQueryEGLString name n)) st"
  shows "served (reply_size (CmdQueryEGLString name n)) (rc_enc (CmdQueryEGLString name n)) st w' (case_rcQueryEGLString e (initRenderControlContext gl t) 0 (rc_enc (CmdQueryEGLString name n), st, w))"
proof -
  have "fills (unat n + 4) (\<lambda>p. op_rcQueryEGLString gl name p n) w w'" using fills_query assms(3) by simp
  from served_out [OF assms(1) _ this] assms(2) got show ?thesis
    using rc_enc_arg [of 0 "(CmdQueryEGLString name n)"] rc_enc_arg [of 1 "(CmdQueryEGLString name n)"] rc_enc_arg [of 2 "(CmdQueryEGLString name n)"]
    by (simp add: case_rcQueryEGLString_def rc_table size_ok_def)
qed

lemma serve_GetGLString:
  assumes "stream_ok st" and "cmd_ok (CmdGetGLString name n)" and "rc_eff gl t (CmdGetGLString name n) w = Some w'" and got: "granted e (reply_size (CmdGetGLString name n)) st"
  shows "served (reply_size (CmdGetGLString name n)) (rc_enc (CmdGetGLString name n)) st w' (case_rcGetGLString e (initRenderControlContext gl t) 0 (rc_enc (CmdGetGLString name n), st, w))"
proof -
  have "fills (unat n + 4) (\<lambda>p. op_rcGetGLString gl t name p n) w w'" using fills_glstring assms(3) by simp
  from served_out [OF assms(1) _ this] assms(2) got show ?thesis
    using rc_enc_arg [of 0 "(CmdGetGLString name n)"] rc_enc_arg [of 1 "(CmdGetGLString name n)"] rc_enc_arg [of 2 "(CmdGetGLString name n)"]
    by (simp add: case_rcGetGLString_def rc_table size_ok_def)
qed

lemma serve_GetConfigs:
  assumes "stream_ok st" and "cmd_ok (CmdGetConfigs n)" and "rc_eff gl t (CmdGetConfigs n) w = Some w'" and got: "granted e (reply_size (CmdGetConfigs n)) st"
  shows "served (reply_size (CmdGetConfigs n)) (rc_enc (CmdGetConfigs n)) st w' (case_rcGetConfigs e (initRenderControlContext gl t) 0 (rc_enc (CmdGetConfigs n), st, w))"
proof -
  have "fills (unat n + 4) (op_rcGetConfigs n) w w'" using fills_configs assms(3) by simp
  from served_out [OF assms(1) _ this] assms(2) got show ?thesis
    using rc_enc_arg [of 0 "(CmdGetConfigs n)"] rc_enc_arg [of 1 "(CmdGetConfigs n)"]
    by (simp add: case_rcGetConfigs_def rc_table size_ok_def)
qed

lemma serve_GetNumConfigs:
  assumes "stream_ok st" and got: "granted e (reply_size CmdGetNumConfigs) st"
  shows "served (reply_size CmdGetNumConfigs) (rc_enc CmdGetNumConfigs) st w (case_rcGetNumConfigs e (initRenderControlContext gl t) 0 (rc_enc CmdGetNumConfigs, st, w))"
proof -
  have "fills (4 + 4) op_rcGetNumConfigs w w" using fills_num by simp
  from served_out [OF assms(1) _ this] got show ?thesis
    using rc_enc_arg [of 0 CmdGetNumConfigs] by (simp add: case_rcGetNumConfigs_def rc_table)
qed

lemma serve_GetEGLVersion:
  assumes "stream_ok st" and got: "granted e (reply_size CmdGetEGLVersion) st"
  shows "served (reply_size CmdGetEGLVersion) (rc_enc CmdGetEGLVersion) st w (case_rcGetEGLVersion e (initRenderControlContext gl t) 0 (rc_enc CmdGetEGLVersion, st, w))"
  using served_version [OF assms(1)] got rc_enc_arg [of 0 CmdGetEGLVersion] rc_enc_arg [of 1 CmdGetEGLVersion]
  by (simp add: case_rcGetEGLVersion_def rc_table Let_def)

lemma pixel_args_enc:
  assumes "words_of c = [h, x, y, width, height, fmt, ty, n]"
  shows "pixel_args 0 (rc_enc c) = Some [x, y, width, height, fmt, ty]"
  using rc_enc_arg [of _ c] assms by (simp add: pixel_args_def)

lemma serve_ReadColorBuffer:
  assumes "stream_ok st" and "cmd_ok (CmdReadColorBuffer h x y width height fmt ty n)" and got: "granted e (reply_size (CmdReadColorBuffer h x y width height fmt ty n)) st"
  shows "served (reply_size (CmdReadColorBuffer h x y width height fmt ty n)) (rc_enc (CmdReadColorBuffer h x y width height fmt ty n)) st w
    (case_rcReadColorBuffer e (initRenderControlContext gl t) 0 (rc_enc (CmdReadColorBuffer h x y width height fmt ty n), st, w))"
proof -
  let ?c = "CmdReadColorBuffer h x y width height fmt ty n"
  have "unat n < 2 ^ 31" "4 \<le> unat n" using assms(2) by (auto simp: size_ok_def word_le_nat_alt)
  from served_read [OF assms(1) this] got show ?thesis
    using rc_enc_arg [of 0 ?c] rc_enc_arg [of 7 ?c] pixel_args_enc [of ?c] by (simp add: case_rcReadColorBuffer_def rc_table)
qed

lemma serve_UpdateColorBuffer:
  assumes "stream_ok st" and "rc_eff gl t (CmdUpdateColorBuffer h x y width height fmt ty px) w = Some w'" and got: "granted e (reply_size (CmdUpdateColorBuffer h x y width height fmt ty px)) st"
  shows "served (reply_size (CmdUpdateColorBuffer h x y width height fmt ty px)) (rc_enc (CmdUpdateColorBuffer h x y width height fmt ty px)) st w'
    (case_rcUpdateColorBuffer e (initRenderControlContext gl t) 0 (rc_enc (CmdUpdateColorBuffer h x y width height fmt ty px), st, w))"
proof -
  let ?c = "CmdUpdateColorBuffer h x y width height fmt ty px"
  show ?thesis
    using served_value [OF assms(1), of "op_rcUpdateColorBuffer gl t h [x, y, width, height, fmt, ty] 40 (rc_enc ?c)" w w'] assms(2) got
      rc_enc_arg [of 0 ?c] pixel_args_enc [of ?c] by (simp add: case_rcUpdateColorBuffer_def rc_table)
qed

text \<open>The attribute list of a choice is changed in place behind the header.\<close>

lemma serve_ChooseConfig:
  assumes "stream_ok st" and ok: "cmd_ok (CmdChooseConfig attribs n)" and "rc_eff gl t (CmdChooseConfig attribs n) w = Some w'" and got: "granted e (reply_size (CmdChooseConfig attribs n)) st"
  shows "served (reply_size (CmdChooseConfig attribs n)) (rc_enc (CmdChooseConfig attribs n)) st w'
    (case_rcChooseConfig e (initRenderControlContext gl t) 0 (rc_enc (CmdChooseConfig attribs n), st, w))"
proof -
  let ?c = "CmdChooseConfig attribs n"
  let ?k = "length attribs"
  let ?as = "of_nat (4 * (?k + 1)) :: u32"
  let ?p = "\<lambda>p. if n = 0 then None else Some p"
  let ?f = "\<lambda>p mem (buf, s). do { (r, buf1, mem1, s1) \<leftarrow> op_rcChooseConfig gl 12 ?as (?p p) n buf mem s; Some (r, mem1, buf1, s1) }"
  have z: "unat ?as = 4 * (?k + 1)" "unat (4 * n) = 4 * unat n"
    using ok by (simp_all add: size_ok_def unsigned_of_nat take_bit_nat_eq_self unat_word_ariths)
  have w: "words_of ?c ! (k + 1) = (attribs @ [EGL_NONE, ?as, 4 * n, n]) ! k" for k by simp
  have a: "arg 0 0 (rc_enc ?c) = Some ?as" using rc_enc_arg [of 0 ?c] by simp
  have q: "get32 (rc_enc ?c) (12 + unat ?as) = Some ?as" "get32 (rc_enc ?c) (16 + unat ?as) = Some (4 * n)" "get32 (rc_enc ?c) (20 + unat ?as) = Some n"
    using rc_enc_get32 [of "?k + 2" ?c] rc_enc_get32 [of "?k + 3" ?c] rc_enc_get32 [of "?k + 4" ?c] unfolding z(1)
    by (simp_all add: nth_append algebra_simps)
  obtain r buf m where e0: "op_rcChooseConfig gl 12 ?as (?p 0) n (rc_enc ?c) (replicate (4 * unat n + 4) 0) w = Some (r, buf, m, w')"
    using assms(3) by (auto simp: out_eff_def)
  have len: "length buf = length (rc_enc ?c) \<and> take 12 buf = take 12 (rc_enc ?c)"
    using e0 chooseConfig_bounds [of gl 12 "?p 0" n "rc_enc ?c" "replicate (4 * unat n + 4) 0" w r buf m]
    by (auto simp: op_rcChooseConfig_def bind_eq_Some_conv split: option.splits)
  have f: "fills (4 * unat n + 4) ?f (rc_enc ?c, w) (buf, w')"
    unfolding fills_def
  proof (intro allI impI)
    fix mem :: "u8 list" assume l: "4 * unat n + 4 \<le> length mem"
    have "\<exists>mem'. op_rcChooseConfig gl 12 ?as (?p 0) n (rc_enc ?c) mem w = Some (r, buf, mem', w') \<and> length mem' = length mem"
    proof (cases "w_fb w")
      case (Some fb)
      with e0 have "chooseConfig gl 12 (?p 0) n (rc_enc ?c) (replicate (4 * unat n + 4) 0) w = Some (r, buf, m)" "w' = w"
        by (auto simp: op_rcChooseConfig_def bind_eq_Some_conv)
      with chooseConfig_grow [OF this(1), of mem] l Some show ?thesis by (auto simp: op_rcChooseConfig_def)
    qed (use e0 in \<open>simp add: op_rcChooseConfig_def\<close>)
    then show "\<exists>r mem'. ?f 0 mem (rc_enc ?c, w) = Some (r, mem', (buf, w')) \<and> length mem' = length mem" by auto
  qed
  have "4 * unat n < 2 ^ 30" using ok by (simp add: size_ok_def)
  from out_reply_ok [OF assms(1) this f] got obtain st' where st': "out_reply e (4 * unat n) ?f (st, rc_enc ?c, w) = Some (st', buf, w')"
    "replied (4 * unat n + 4) st st'" by auto
  have n0: "4 * n = 0 \<longleftrightarrow> n = 0" using z(2) by (metis mult_zero_right unat_eq_0 mult_is_0 zero_neq_numeral)
  have "case_rcChooseConfig e (initRenderControlContext gl t) 0 (rc_enc ?c, st, w) = Some (buf, st', w')"
    using st'(1) a q unfolding case_rcChooseConfig_def rc_table by (simp add: Let_def z(2) n0 add.assoc)
  moreover have g: "get_le32 xs 4 = get_le32 (take 12 xs) 4" if "12 \<le> length xs" for xs
    using get_le32_append [of 4 "take 12 xs" "[]" "drop 12 xs"] that by simp
  have "get_le32 buf 4 = get_le32 (rc_enc ?c) 4" unfolding g [of buf, unfolded conjunct1 [OF len] rc_enc_length, simplified]
    g [of "rc_enc ?c", unfolded rc_enc_length, simplified] using len by simp
  ultimately show ?thesis using len st'(2) by (auto simp: served_def)
qed

lemmas serves =
  serve_GetRendererVersion serve_GetEGLVersion serve_QueryEGLString serve_GetGLString serve_GetNumConfigs serve_GetConfigs
  serve_ChooseConfig serve_GetFBParam serve_CreateContext serve_DestroyContext serve_CreateWindowSurface serve_DestroyWindowSurface
  serve_CreateColorBuffer serve_OpenColorBuffer serve_CloseColorBuffer serve_SetWindowColorBuffer serve_FlushWindowColorBuffer
  serve_MakeCurrent serve_FBPost serve_FBSetSwapInterval serve_BindTexture serve_BindRenderbuffer serve_ColorBufferCacheFlush
  serve_ReadColorBuffer serve_UpdateColorBuffer serve_OpenColorBuffer2

lemma serve_any:
  assumes "stream_ok st" and "cmd_ok c" and "rc_eff gl t c w = Some w'" and got: "granted e (reply_size c) st"
  shows "\<exists>body. rc_switch e (initRenderControlContext gl t) (opcode_of c) = Some body \<and> served (reply_size c) (rc_enc c) st w' (body 0 (rc_enc c, st, w))"
  by (cases c) (use assms in \<open>simp_all add: rc_switch_def serves del: reply_size.simps\<close>)

end

subsection \<open>The thread\<close>

text \<open>
  The switches of the two GL decoders are any functions that have no case from opcode 10000 on,
  where the renderControl commands are.
\<close>

definition gl_part :: "('k, 's) dec_switch \<Rightarrow> ('k, 's) dec_switch" where
  "gl_part sw = (\<lambda>op. if op < 10000 then sw op else None)"

lemma gl_part_opcode: "gl_part sw (opcode_of c) = None"
  by (cases c) (simp_all add: gl_part_def)

text \<open>The commands with packets of at most \<open>L\<close> bytes and replies of at most \<open>B\<close>.\<close>

definition cmd_fits :: "nat \<Rightarrow> nat \<Rightarrow> rc_cmd \<Rightarrow> bool" where
  "cmd_fits B L c \<longleftrightarrow> cmd_ok c \<and> length (rc_enc c) \<le> L \<and> reply_size c \<le> B"

lemma packet_server_rc:
  fixes e :: "'k render_env"
  assumes m: "stream_live e sent inbox room" and L: "L \<le> 2 ^ 30"
  shows "packet_server e sent inbox room (gl_part g1) (gl_part g2) (rc_switch e (initRenderControlContext gl t)) rc_enc (rc_eff gl t)
    (cmd_fits B L) reply_size B L"
proof (intro packet_server.intro packet_server_axioms.intro m L)
  fix c assume "cmd_fits B L c"
  then have c: "cmd_ok c" "length (rc_enc c) \<le> L" "reply_size c \<le> B" by (auto simp: cmd_fits_def)
  then show "framed (rc_enc c) \<and> length (rc_enc c) \<le> L \<and> reply_size c \<le> B" using rc_framed by blast
  show "\<exists>sw \<in> {gl_part g1, gl_part g2, rc_switch e (initRenderControlContext gl t)}. sw (get_le32 (rc_enc c) 0) \<noteq> None"
    by (cases c) (simp_all add: rc_enc_opcode rc_switch_def)
next
  fix c sw body w w' and st :: "'k SocketStream"
  let ?rc = "rc_switch e (initRenderControlContext gl t)"
  have os: "stream_os e sent inbox room" using m by (rule stream_live.axioms)
  assume a: "cmd_fits B L c" "sw \<in> {gl_part g1, gl_part g2, ?rc}" "sw (get_le32 (rc_enc c) 0) = Some body" "rc_eff gl t c w = Some w'"
    "stream_ok st" "granted e (reply_size c) st"
  then have sw: "?rc (opcode_of c) = Some body" and ok: "cmd_ok c" by (auto simp: rc_enc_opcode gl_part_opcode cmd_fits_def)
  with stream_os.serve_any [OF os a(5) ok a(4,6)]
  have "stream_os.served inbox room (reply_size c) (rc_enc c) st w' (body 0 (rc_enc c, st, w))" by (metis option.inject)
  then have "\<exists>pk st'. body 0 (rc_enc c, st, w) = Some (pk, st', w') \<and> length pk = length (rc_enc c) \<and>
      get_le32 pk 4 = get_le32 (rc_enc c) 4 \<and> stream_ok st' \<and> m_sock st' = m_sock st \<and>
      inbox (os_kernel (st_os st')) = inbox (os_kernel (st_os st)) \<and>
      (\<forall>B. sized B st \<and> reply_size c \<le> B \<longrightarrow> sized B st' \<and> stream_os.funds room st \<le> stream_os.funds room st')"
    unfolding stream_os.served_def [OF os] stream_os.replied_def [OF os] .
  then show "local_case body \<and> (\<exists>pk st'. body 0 (rc_enc c, st, w) = Some (pk, st', w') \<and> length pk = length (rc_enc c) \<and>
      get_le32 pk 4 = get_le32 (rc_enc c) 4 \<and> stream_ok st' \<and> m_sock st' = m_sock st \<and>
      inbox (os_kernel (st_os st')) = inbox (os_kernel (st_os st)) \<and>
      (\<forall>B. sized B st \<and> reply_size c \<le> B \<longrightarrow> sized B st' \<and> stream_os.funds room st \<le> stream_os.funds room st'))"
    using rcl.local_cases [OF sw] by (rule conjI [rotated])
qed

interpretation rthread: packet_server machine_render mk_sent mk_inbox "\<lambda>k. 2 ^ 40" "gl_part g1" "gl_part g2"
  "rc_switch machine_render (initRenderControlContext gl t)" rc_enc "rc_eff gl t" "cmd_fits B (2 ^ 20)" reply_size B "2 ^ 20" for g1 g2 gl t B
  by (rule packet_server_rc) (rule rsim.stream_live_axioms, simp)

end
