(* ===== verification/RenderSafe.thy ===== *)
theory RenderSafe
  imports RenderSystem
begin

text \<open>
  The commands of a client in a reachable renderer: each is an operation of the frame buffer or a
  query, a well-formed one is decoded, performed and answered without an access outside an object
  if there is memory for its reply, and a render thread that reads a stream of them performs them
  all in order and ends in a reachable state.
\<close>

subsection \<open>Commands as operations\<close>

fun op_of :: "'g gl_api \<Rightarrow> rc_cmd \<Rightarrow> fb_op option" where
  "op_of gl (CmdCreateContext c s v) = Some (CreateRenderContext c s (v = 2))"
| "op_of gl (CmdDestroyContext c) = Some (DestroyContext c)"
| "op_of gl (CmdCreateWindowSurface c x y) = Some (CreateWindowSurface c x y)"
| "op_of gl (CmdDestroyWindowSurface h) = Some (DestroyWindow h)"
| "op_of gl (CmdCreateColorBuffer x y f) = Some (CreateColorBuffer x y f)"
| "op_of gl (CmdOpenColorBuffer h) = Some (OpenBuffer h)"
| "op_of gl (CmdCloseColorBuffer h) = Some (CloseBuffer h)"
| "op_of gl (CmdSetWindowColorBuffer h k) = Some (SetWindowBuffer h k)"
| "op_of gl (CmdFlushWindowColorBuffer h) = Some (FlushWindow h)"
| "op_of gl (CmdMakeCurrent c d r) = Some (BindContext c d r)"
| "op_of gl (CmdFBPost h) = Some (Post h)"
| "op_of gl (CmdBindTexture h) = Some (ToTexture h)"
| "op_of gl (CmdBindRenderbuffer h) = Some (ToRenderbuffer h)"
| "op_of gl (CmdUpdateColorBuffer h x y width height fmt ty pixels) =
     Some (UpdateBuffer h x y width height fmt ty (take (gl_image_size gl width height fmt ty) pixels))"
| "op_of gl (CmdOpenColorBuffer2 h) = Some (OpenBuffer h)"
| "op_of gl c = None"

text \<open>
  What a command has to be for its function to stay inside the packet and the reply: pixels for
  the whole rectangle, pairs of attributes, a table of configurations as the renderer makes it,
  and configurations whose number the library knows.
\<close>

fun cmd_safe :: "'g gl_api \<Rightarrow> rc_cmd \<Rightarrow> 'g world \<Rightarrow> bool" where
  "cmd_safe gl (CmdGetConfigs n) w =
     (getNumConfigs w + 1 < 2 ^ 25 \<and> (\<forall>c \<in> set (w_configs w). length (fc_attribValues c) = length s_configAttribs))"
| "cmd_safe gl (CmdChooseConfig attribs n) w = (even (length attribs) \<and> (\<forall>m. egl_attrib gl m EGL_CONFIG_ID (w_gl w) \<noteq> None))"
| "cmd_safe gl (CmdUpdateColorBuffer h x y width height fmt ty pixels) w = (gl_image_size gl width height fmt ty \<le> length pixels)"
| "cmd_safe gl c w = True"

lemma op_of_client: "op_of gl c = Some op \<Longrightarrow> op \<noteq> ThreadStart \<and> op \<noteq> ThreadExit"
  by (cases c) auto

lemma op_of_posted: "op_of gl c = Some op \<Longrightarrow> posted op w = Some h \<Longrightarrow> c = CmdFBPost h"
  by (cases c) auto

lemma op_of_ready: "op_of gl c = Some op \<Longrightarrow> w_threads w t \<noteq> None \<Longrightarrow> fb_ready t op w"
  by (cases c) auto

lemmas op_rc_defs = op_rcCreateContext_def op_rcDestroyContext_def op_rcCreateWindowSurface_def op_rcDestroyWindowSurface_def
  op_rcCreateColorBuffer_def op_rcOpenColorBuffer_def op_rcOpenColorBuffer2_def op_rcCloseColorBuffer_def op_rcSetWindowColorBuffer_def
  op_rcFlushWindowColorBuffer_def op_rcMakeCurrent_def op_rcFBPost_def op_rcBindTexture_def op_rcBindRenderbuffer_def
  op_rcUpdateColorBuffer_def

lemma map_snd_bind: "map_option snd (do { (r, w1) \<leftarrow> x; Some (f r, w1) }) = map_option snd x"
  by (cases x) (simp_all split: prod.splits)

lemma update_pixels:
  "block_read 40 n (rc_enc (CmdUpdateColorBuffer h x y width height fmt ty pixels)) =
     (if n \<le> length pixels then Some (take n pixels) else None)"
  by (simp add: block_read_def rc_enc_length) (simp add: rc_enc_def packet_def)

lemma rc_eff_op:
  assumes "op_of gl c = Some op" and "w_fb w = Some fb" and "cmd_safe gl c w"
  shows "rc_eff gl t c w = fb_run gl t op w"
  using assms by (cases c) (auto simp: op_rc_defs drop_result_def map_snd_bind update_pixels)

lemma rc_eff_op_some:
  assumes op: "op_of gl c = Some op" and fb: "w_fb w = Some fb" and r: "rc_eff gl t c w = Some w'"
  shows "fb_run gl t op w = Some w'"
proof (cases "cmd_safe gl c w")
  case True
  then show ?thesis using rc_eff_op [OF op fb] r by simp
next
  case False
  with op obtain h x y width height fmt ty pixels where c: "c = CmdUpdateColorBuffer h x y width height fmt ty pixels"
    and n: "\<not> gl_image_size gl width height fmt ty \<le> length pixels" by (cases c) auto
  then obtain r1 where "updateColorBuffer gl t h x y width height fmt ty None w = Some (r1, w')"
    using r fb by (auto simp: op_rcUpdateColorBuffer_def update_pixels bind_eq_Some_conv)
  from updateColorBuffer_mono [OF this] op c show ?thesis by (auto simp: drop_result_def)
qed

lemma out_eff_same: "out_eff n f w = Some w' \<Longrightarrow> (\<And>p mem r mem' w'. f p mem w = Some (r, mem', w') \<Longrightarrow> w' = w) \<Longrightarrow> w' = w"
  by (auto simp: out_eff_def)

lemma copy_string_same: "copy_string s p n mem w = Some (r, mem', w') \<Longrightarrow> w' = w"
  by (auto simp: copy_string_def Let_def bind_eq_Some_conv split: option.splits if_splits)

lemma rc_eff_query_some:
  assumes "op_of gl c = None" and "rc_eff gl t c w = Some w'"
  shows "w' = w"
  using assms
  by (cases c) (auto elim!: out_eff_same simp: op_rcQueryEGLString_def op_rcGetGLString_def op_rcGetConfigs_def op_rcChooseConfig_def
    Let_def bind_eq_Some_conv dest: copy_string_same split: option.splits if_splits)

subsection \<open>Queries\<close>

lemma copy_string_returns:
  assumes "p = 0" and "size_ok n" and "length mem = unat n + 4"
  shows "\<exists>r mem'. copy_string s p n mem w = Some (r, mem', w)"
proof (cases s)
  case (Some str)
  have u: "uint n = int (unat n)" by simp
  have "int (unat n) < 2 ^ 28" using assms(2) unfolding size_ok_def by (metis of_nat_less_iff of_nat_numeral of_nat_power)
  then have "int (unat n) < 2 ^ 31" by simp
  moreover have "- (2 ^ 31) \<le> int (unat n)" by (rule order_trans [of _ 0]) simp_all
  ultimately have i: "sint n = int (unat n)" unfolding sint_uint u using signed_take_bit_int_eq_self [of 31 "int (unat n)"] by simp
  show ?thesis
  proof (cases "sint n < int (length str + 1)")
    case False
    then have "length str + 1 \<le> unat n" unfolding i by (simp only: not_less of_nat_le_iff)
    then show ?thesis using False Some assms by (simp add: copy_string_def Let_def block_write_def)
  qed (simp add: copy_string_def Let_def Some)
qed (simp add: copy_string_def)

lemma gl_string_returns:
  assumes "fb_inv w" and "size_ok n" and "length mem = unat n + 4"
  shows "\<exists>r mem'. op_rcGetGLString gl t name 0 n mem w = Some (r, mem', w)"
proof (cases "w_threads w t")
  case (Some ti)
  show ?thesis
  proof (cases "ti_currContext ti = NULL")
    case False
    then obtain c where "w_ctxs w (ti_currContext ti) = Some c" using owned_thread_links(1) [OF assms(1) Some] by blast
    then show ?thesis using Some False copy_string_returns [OF refl assms(2,3)] by (simp add: op_rcGetGLString_def)
  qed (simp add: op_rcGetGLString_def Some)
qed (simp add: op_rcGetGLString_def)

lemma rows_length: "\<forall>c \<in> set cs. length (fc_attribValues c) = m \<Longrightarrow> length (concat (map fc_attribValues cs)) = length cs * m"
  by (induction cs) simp_all

lemma unat_small: "n < 2 ^ 32 \<Longrightarrow> unat (of_nat n :: u32) = n"
  by (simp add: unsigned_of_nat take_bit_nat_eq_self)

lemma get_configs_returns:
  assumes "getNumConfigs w + 1 < 2 ^ 25" and "\<forall>c \<in> set (w_configs w). length (fc_attribValues c) = length s_configAttribs"
    and "unat n \<le> length mem"
  shows "\<exists>r mem'. op_rcGetConfigs n 0 mem w = Some (r, mem', w)"
proof -
  let ?k = "(getNumConfigs w + 1) * length s_configAttribs * 4"
  have "?k < 2 ^ 32" using assms(1) by (simp add: s_configAttribs_def)
  then have k: "unat (of_nat ?k :: u32) = ?k" by (rule unat_small)
  have l: "length (concat (map le32 (s_configAttribs @ concat (map fc_attribValues (w_configs w))))) = ?k"
    using rows_length [OF assms(2)] by (simp only: concat_le32_length length_append) (simp add: getNumConfigs_def algebra_simps)
  show ?thesis
  proof (cases "n < of_nat ?k")
    case False
    then have "?k \<le> length mem" using assms(3) k by (simp only: not_less word_le_nat_alt)
    then show ?thesis using False l unfolding op_rcGetConfigs_def Let_def packConfigsInfo_def block_write_def by simp
  qed (simp add: op_rcGetConfigs_def Let_def)
qed

text \<open>The scan ends when there is an end mark at an even place of the list.\<close>

lemma scan_returns:
  "get_le32 buf (off + 8 * k) = EGL_NONE \<Longrightarrow> off + 8 * k + 4 \<le> length buf \<Longrightarrow> \<exists>x. scan_attribs off need cnt buf = Some x"
proof (induction k arbitrary: off need cnt buf)
  case 0
  then show ?case by (subst scan_attribs.simps) (simp add: get32_def)
next
  case (Suc k)
  then have a: "get32 buf off = Some (get_le32 buf off)" by (simp add: get32_def)
  obtain buf1 where p: "put32 (off + 4) EGL_PBUFFER_BIT buf = Some buf1" "length buf1 = length buf"
    "get_le32 buf1 (off + 8 + 8 * k) = get_le32 buf (off + 8 + 8 * k)"
    using Suc.prems(2) by (auto simp: put32_def block_write_def get_le32_def nth_append algebra_simps)
  have "\<exists>x. scan_attribs (off + 8) False (cnt + 2) buf1 = Some x" using Suc.prems p by (intro Suc.IH) (simp_all add: add.assoc)
  moreover have "\<exists>x. scan_attribs (off + 8) need (cnt + 2) buf = Some x" using Suc.prems by (intro Suc.IH) (simp_all add: add.assoc)
  ultimately show ?case using a p(1) by (subst scan_attribs.simps) auto
qed

lemma verify_returns:
  assumes "\<forall>m. egl_attrib gl m EGL_CONFIG_ID (w_gl w) \<noteq> None"
  shows "p = None \<or> p = Some 0 \<Longrightarrow> 4 * unat n \<le> length mem \<Longrightarrow> \<exists>x. verify_configs gl ms p n k mem w = Some x"
proof (induction ms arbitrary: k mem)
  case (Cons m ms)
  obtain i where i: "egl_attrib gl m EGL_CONFIG_ID (w_gl w) = Some i" using assms by blast
  have "\<exists>mem1. (case p of None \<Rightarrow> Some mem
      | Some p \<Rightarrow> if k < unat n then put32 (p + 4 * k) (of_nat j) mem else Some mem) = Some mem1 \<and> length mem1 = length mem" for j
    using Cons.prems put32_fits [of "4 * k" mem "of_nat j"] by auto
  then obtain f where f: "\<And>j. (case p of None \<Rightarrow> Some mem
      | Some p \<Rightarrow> if k < unat n then put32 (p + 4 * k) (of_nat j) mem else Some mem) = Some (f j)" "\<And>j. length (f j) = length mem" by metis
  have "\<exists>x. verify_configs gl ms p n (k + 1) (f j) w = Some x" for j using Cons.prems f(2) by (intro Cons.IH) simp_all
  moreover have "\<exists>x. verify_configs gl ms p n k mem w = Some x" using Cons.prems by (rule Cons.IH)
  ultimately show ?case by (simp only: verify_configs.simps i bind.bind_lunit f(1)) (auto split: option.splits)
qed simp

lemma choose_returns:
  assumes e: "even (length attribs)" and lib: "\<forall>m. egl_attrib gl m EGL_CONFIG_ID (w_gl w) \<noteq> None" and m: "length mem = 4 * unat n + 4"
  shows "\<exists>r buf mem'. op_rcChooseConfig gl 12 sz (if n = 0 then None else Some 0) n (rc_enc (CmdChooseConfig attribs n)) mem w =
    Some (r, buf, mem', w)"
proof -
  let ?c = "CmdChooseConfig attribs n"
  let ?p = "if n = 0 then None else Some (0 :: nat)"
  obtain j where j: "length attribs = 2 * j" using e by blast
  have "get32 (rc_enc ?c) (12 + 8 * j) = Some EGL_NONE" using rc_enc_get32 [of "2 * j + 1" ?c] j by (simp add: nth_append)
  then have "get_le32 (rc_enc ?c) (12 + 8 * j) = EGL_NONE" "12 + 8 * j + 4 \<le> length (rc_enc ?c)" by (auto simp: get32_def split: if_splits)
  from scan_returns [OF this, of True 0] obtain cnt add buf where s: "scan_attribs 12 True 0 (rc_enc ?c) = Some (cnt, add, buf)"
    by (metis prod_cases3)
  have v: "\<exists>k mem'. verify_configs gl ms ?p n 0 mem w = Some (k, mem')" for ms
    using verify_returns [OF lib, of ?p n mem ms 0] m by auto
  show ?thesis
  proof (cases "w_fb w = None \<or> egl_configs gl (w_gl w) = None")
    case True
    then show ?thesis by (auto simp: op_rcChooseConfig_def chooseConfig_def split: option.splits)
  next
    case False
    then obtain fb all where fb: "w_fb w = Some fb" "egl_configs gl (w_gl w) = Some all" by auto
    let ?ms = "case egl_choose gl ((if add then [EGL_SURFACE_TYPE, EGL_PBUFFER_BIT] else []) @ read_words 12 cnt buf @ [EGL_NONE]) (w_gl w) of
      None \<Rightarrow> [] | Some ms \<Rightarrow> take (length all) ms"
    obtain k mem' where "verify_configs gl ?ms ?p n 0 mem w = Some (k, mem')" using v by blast
    then show ?thesis using fb s by (simp add: op_rcChooseConfig_def chooseConfig_def Let_def)
  qed
qed

lemma rc_eff_query:
  assumes "op_of gl c = None" and inv: "fb_inv w" and "cmd_ok c" and "cmd_safe gl c w"
  shows "rc_eff gl t c w = Some w"
proof (cases c)
  case (CmdQueryEGLString name n)
  then have n: "size_ok n" using assms(3) by simp
  obtain fb where "w_fb w = Some fb" using owned_fb [OF inv] by blast
  then show ?thesis using CmdQueryEGLString copy_string_returns [OF refl n, of "replicate (unat n + 4) 0" "egl_string gl name (w_gl w)" w]
    by (auto simp: out_eff_def op_rcQueryEGLString_def)
next
  case (CmdGetGLString name n)
  then show ?thesis using gl_string_returns [OF inv, of n "replicate (unat n + 4) 0" gl t name] assms(3) by (auto simp: out_eff_def)
next
  case (CmdGetConfigs n)
  then show ?thesis using get_configs_returns [of w n "replicate (unat n + 4) 0"] assms(4) by (auto simp: out_eff_def)
next
  case (CmdChooseConfig attribs n)
  then show ?thesis using choose_returns [of attribs gl w "replicate (4 * unat n + 4) 0" n "of_nat (4 * (length attribs + 1))"] assms(4)
    by (auto simp: out_eff_def)
qed (use assms(1) in simp_all)

subsection \<open>Reachable states\<close>

lemma rc_eff_reach:
  assumes w: "fb_reach gl w" and t: "w_threads w t \<noteq> None" and r: "rc_eff gl t c w = Some w'"
  shows "fb_reach gl w' \<and> w_threads w' t \<noteq> None"
proof (cases "op_of gl c")
  case None
  then show ?thesis using rc_eff_query_some [OF None r] w t by simp
next
  case (Some op)
  obtain fb where fb: "w_fb w = Some fb" using owned_fb [OF fb_reach_inv [OF w]] by blast
  have run: "fb_run gl t op w = Some w'" by (rule rc_eff_op_some [OF Some fb r])
  have "keeps w w'" using run_keeps [OF fb_reach_inv [OF w] op_of_ready [OF Some t] fb, of gl] op_of_client [OF Some] run by auto
  then have "w_threads w' t \<noteq> None" using t by (simp add: keeps_def domD domIff set_eq_iff)
  then show ?thesis using fb_reach.step [OF w op_of_ready [OF Some t] run] by simp
qed

lemma run_effs_reach:
  "fb_reach gl w \<Longrightarrow> w_threads w t \<noteq> None \<Longrightarrow> run_effs (rc_eff gl t) cs w = Some w' \<Longrightarrow> fb_reach gl w' \<and> w_threads w' t \<noteq> None"
proof (induction cs arbitrary: w)
  case (Cons c cs)
  then obtain w1 where "rc_eff gl t c w = Some w1" "run_effs (rc_eff gl t) cs w1 = Some w'" by (auto simp: bind_eq_Some_conv)
  then show ?case using Cons.IH rc_eff_reach [OF Cons.prems(1,2)] by blast
qed simp

lemma leave_reach:
  assumes w: "fb_reach gl w" and t: "w_threads w t \<noteq> None"
  shows "\<exists>r w'. bindContext gl t 0 0 0 w = Some (r, w') \<and> fb_reach gl w'"
proof -
  from bind_context_keeps [where gl = gl and hc = 0 and hw = 0 and hr = 0, OF fb_reach_inv [OF w] t] obtain r w' where
    b: "bindContext gl t 0 0 0 w = Some (r, w')" by blast
  then have run: "fb_run gl t (BindContext 0 0 0) w = Some w'" by (simp add: drop_result_def)
  show ?thesis using b fb_reach.step [OF w _ run] t by auto
qed

context stream_os
begin

lemma ReadBuffer_new_ok:
  assumes "0 < n" and "n < 2 ^ 31" and "n \<le> room_of st"
  shows "\<exists>rb k. ReadBuffer_new e n st = (rb, st\<lparr>st_os := (st_os st)\<lparr>os_kernel := k\<rparr>\<rparr>) \<and> rb_ok rb \<and> rb_data rb = [] \<and> rb_size rb = n \<and>
    inbox k = in_of st \<and> room_of st \<le> room k + n"
proof -
  obtain b k where m: "re_malloc e n (os_kernel (st_os st)) = (b, k)" by fastforce
  with malloc [OF m] assms obtain mem where b: "b = Some mem" "length mem = n" "inbox k = in_of st" "room_of st \<le> room k + n" by (cases b) auto
  then show ?thesis using assms m
    by (intro exI [of _ "\<lparr>rb_buf = Some mem, rb_size = n, rb_validData = 0, rb_readPtr = 0\<rparr>"] exI [of _ k])
       (simp add: ReadBuffer_new_def allocate_def rb_ok_def rb_data_def)
qed

end

subsection \<open>A client\<close>

text \<open>A thread on the library that always succeeds, and a client that makes a context current.\<close>

definition sim_client :: "nat world" where
  "sim_client = RenderThreadInfo_new 1 sim_world"

definition sim_cmds :: "rc_cmd list" where
  "sim_cmds = [CmdCreateContext 0 0 2, CmdCreateWindowSurface 0 2 2, CmdMakeCurrent 1 2 2]"

definition sim_stream :: "machine SocketStream" where
  "sim_stream = SocketStream_new 3 10000
     \<lparr>os_errno = 0, os_kernel = machine0\<lparr>mk_inbox := (\<lambda>_. [])(3 := concat (map rc_enc sim_cmds))\<rparr>\<rparr>"

lemma sim_client_reach: "fb_reach sim_gl sim_client" "w_threads sim_client 1 \<noteq> None"
proof -
  have "fb_run sim_gl 1 ThreadStart sim_world = Some sim_client" by (simp add: sim_client_def)
  then show "fb_reach sim_gl sim_client" by (rule fb_reach.step [OF fb_reach.start [OF sim_start], rotated]) (simp add: sim_world_def)
qed (simp add: sim_client_def RenderThreadInfo_new_def)

lemma sim_stream_ok: "stream_ok sim_stream"
  by (simp add: sim_stream_def SocketStream_new_def stream_ok_def valid_def)

lemma sim_granted: "granted machine_render 4 sim_stream"
  by (simp add: granted_def alloc_def flush_def alloc_room_def allocBuffer_def allocate_def machine_render_def sim_stream_def SocketStream_new_def Let_def)

lemma sim_cmds_run:
  "(case run_effs (rc_eff sim_gl 1) sim_cmds sim_client of None \<Rightarrow> False | Some w \<Rightarrow> map_option ti_currContext (w_threads w 1) = Some 1)"
  by (simp add: sim_cmds_def sim_client_def sim_world_def sim_fb_def fb_op_defs op_rc_defs sim_eval Let_def genHandle.simps)

subsection \<open>Properties\<close>

text \<open>C4: In every reachable state a renderControl command of a running thread, with sizes and
  attribute lists that are consistent with its packet and pixels for its whole rectangle, is decoded
  and performed without undefined behaviour: the decoder has a case for it, the case changes the
  renderer as the operation of the frame buffer does (a query leaves it as it is), the stream is
  ready for the next packet, and the thread is still running. There are three exceptions: a creation
  with no handle left does not return, a post with a callback set may overrun the callback's image,
  and the decoder uses the reply block without a check when \<open>IOStream::alloc\<close> returned \<open>NULL\<close>.\<close>

theorem rc_command_safe:
  assumes os: "stream_os e sent inbox room" and st: "stream_ok st" and w: "fb_reach gl w" and t: "w_threads w t \<noteq> None"
    and c: "cmd_ok c" "cmd_safe gl c w"
  shows "(\<exists>body pk st' w'. rc_switch e (initRenderControlContext gl t) (opcode_of c) = Some body \<and>
      body 0 (rc_enc c, st, w) = Some (pk, st', w') \<and> stream_ok st' \<and>
      (case op_of gl c of None \<Rightarrow> w' = w | Some op \<Rightarrow> fb_run gl t op w = Some w') \<and> fb_reach gl w' \<and> w_threads w' t \<noteq> None) \<or>
    (\<exists>op fb. op_of gl c = Some op \<and> creates op \<and> w_fb w = Some fb \<and> (\<forall>h. \<not> free_handle fb h)) \<or>
    (\<exists>h. c = CmdFBPost h \<and> overruns gl t h w) \<or>
    0 < reply_size c \<and> (\<exists>st1. alloc e (reply_size c) st = Some (None, st1))"
proof (cases "rc_eff gl t c w")
  case None
  obtain fb where fb: "w_fb w = Some fb" using owned_fb [OF fb_reach_inv [OF w]] by blast
  obtain op where op: "op_of gl c = Some op" using rc_eff_query [OF _ fb_reach_inv [OF w] c] None by (cases "op_of gl c") auto
  then have "fb_run gl t op w = None" using rc_eff_op [OF op fb c(2), of t] None by simp
  then show ?thesis
    using run_keeps [OF fb_reach_inv [OF w] op_of_ready [OF op t] fb, of gl] op_of_client [OF op] op_of_posted [OF op] op fb by auto
next
  case (Some w')
  obtain fb where fb: "w_fb w = Some fb" using owned_fb [OF fb_reach_inv [OF w]] by blast
  have eff: "case op_of gl c of None \<Rightarrow> w' = w | Some op \<Rightarrow> fb_run gl t op w = Some w'"
    using rc_eff_query_some [OF _ Some] rc_eff_op_some [OF _ fb Some] by (auto split: option.split)
  show ?thesis
  proof (cases "granted e (reply_size c) st")
    case True
    obtain body where "rc_switch e (initRenderControlContext gl t) (opcode_of c) = Some body"
      "stream_os.served inbox room (reply_size c) (rc_enc c) st w' (body 0 (rc_enc c, st, w))"
      using stream_os.serve_any [OF os st c(1) Some True] by blast
    then show ?thesis using eff rc_eff_reach [OF w t Some]
      unfolding stream_os.served_def [OF os] stream_os.replied_def [OF os] by blast
  next
    case False
    then show ?thesis using granted_cases [OF st, of e "reply_size c"] by (cases "reply_size c") (auto simp: granted_def)
  qed
qed

theorem rc_command_safe_witness:
  "\<exists>body pk st' w'. rc_switch machine_render (initRenderControlContext sim_gl 1) 10012 = Some body \<and>
     body 0 (rc_enc (CmdCreateColorBuffer 4 4 0x1908), sim_stream, sim_client) = Some (pk, st', w') \<and>
     fb_run sim_gl 1 (CreateColorBuffer 4 4 0x1908) sim_client = Some w' \<and> fb_reach sim_gl w'"
proof -
  have "w_fb sim_client = Some sim_fb" "free_handle sim_fb 1"
    by (simp_all add: sim_client_def RenderThreadInfo_new_def sim_world_def sim_fb_def free_handle_def)
  moreover have "granted machine_render 4 sim_stream" using sim_granted by simp
  ultimately show ?thesis
    using rc_command_safe [OF rsim.stream_os_axioms sim_stream_ok sim_client_reach, of "CmdCreateColorBuffer 4 4 0x1908"]
    by (auto simp: granted_def)
qed

text \<open>C5: A render thread that finds the packets of commands on its socket, cut in any way, performs
  them all, each once and in order, answers them, and returns when the socket has nothing more; then
  it has released its context, its buffer is empty and the renderer is in a reachable state. The
  commands are consistent, their functions return, the socket delivers what has arrived, and the
  allocator has room for the two buffers: 2 MiB of input and its growth to four times the longest
  packet at most, and the stream's reply buffer, which every reply fits.\<close>

theorem render_thread_serves:
  assumes os: "stream_live e sent inbox room" and st: "stream_ok st" "sized B st" and w: "fb_reach gl w" and t: "w_threads w t \<noteq> None"
    and cs: "\<forall>c \<in> set cs. cmd_fits B L c" and L: "L \<le> 2 ^ 30" and effs: "run_effs (rc_eff gl t) cs w = Some wN"
    and mem: "2 * 1024 * 1024 + 4 * L + B \<le> room (os_kernel (st_os st))"
    and input: "inbox (os_kernel (st_os st)) (m_sock st) = concat (map rc_enc cs)"
  shows "\<exists>rb st' r w2. bindContext gl t 0 0 0 wN = Some (r, w2) \<and>
    RenderThread_Main e (gl_part g1) (gl_part g2) (rc_switch e (initRenderControlContext gl t)) (bindContext gl t 0 0 0) st w =
      Some (rb, st', w2) \<and>
    rb_data rb = [] \<and> inbox (os_kernel (st_os st')) (m_sock st) = [] \<and> fb_reach gl w2"
proof -
  note ps = packet_server_rc [OF os L, of g1 g2 gl t B]
  have "2 * 1024 * 1024 \<le> room (os_kernel (st_os st))" using mem by simp
  from stream_os.ReadBuffer_new_ok [OF stream_live.axioms(1) [OF os] _ _ this] obtain rb k where
    n: "ReadBuffer_new e (2 * 1024 * 1024) st = (rb, st\<lparr>st_os := (st_os st)\<lparr>os_kernel := k\<rparr>\<rparr>)" and rb: "rb_ok rb" "rb_data rb = []" "rb_size rb = 2 * 1024 * 1024"
    and k: "inbox k = inbox (os_kernel (st_os st))" "room (os_kernel (st_os st)) \<le> room k + 2 * 1024 * 1024" by auto
  let ?st1 = "st\<lparr>st_os := (st_os st)\<lparr>os_kernel := k\<rparr>\<rparr>"
  have rd: "packet_server.ready room B (packet_server.growth L (rb_size rb)) ?st1"
    using mem k(2) st unfolding packet_server.ready_def [OF ps] packet_server.growth_def [OF ps] stream_os.funds_def [OF stream_live.axioms(1) [OF os]]
    by auto
  have inp: "rb_data rb @ inbox (os_kernel (st_os ?st1)) (m_sock ?st1) = concat (map rc_enc cs)" "incomplete (rb_data rb)" "rb_data rb = [] \<or> length (rb_data rb) < L"
    using rb(2) k input by (simp_all add: incomplete_def)
  from packet_server.main_loop_cmds [OF ps cs effs rb(1) rd inp] obtain rb' st' where
    l: "main_loop e (gl_part g1) (gl_part g2) (rc_switch e (initRenderControlContext gl t)) (rb, ?st1, w) = Some (rb', st', wN)"
      "rb_data rb' = []" "inbox (os_kernel (st_os st')) (m_sock st) = []" by auto
  have "fb_reach gl wN" "w_threads wN t \<noteq> None" using run_effs_reach [OF w t effs] by blast+
  from leave_reach [OF this] obtain r w2 where r: "bindContext gl t 0 0 0 wN = Some (r, w2)" "fb_reach gl w2" by blast
  have "RenderThread_Main e (gl_part g1) (gl_part g2) (rc_switch e (initRenderControlContext gl t)) (bindContext gl t 0 0 0) st w = Some (rb', st', w2)"
    using n l(1) r(1) by (simp add: RenderThread_Main_def)
  then show ?thesis using l r by blast
qed

theorem render_thread_serves_witness:
  "\<exists>wN rb st' r w2. run_effs (rc_eff sim_gl 1) sim_cmds sim_client = Some wN \<and> map_option ti_currContext (w_threads wN 1) = Some 1 \<and>
     bindContext sim_gl 1 0 0 0 wN = Some (r, w2) \<and>
     RenderThread_Main machine_render (gl_part (\<lambda>_. None)) (gl_part (\<lambda>_. None)) (rc_switch machine_render (initRenderControlContext sim_gl 1))
       (bindContext sim_gl 1 0 0 0) sim_stream sim_client = Some (rb, st', w2) \<and>
     rb_data rb = [] \<and> mk_inbox (os_kernel (st_os st')) 3 = [] \<and> fb_reach sim_gl w2"
proof -
  obtain wN where wN: "run_effs (rc_eff sim_gl 1) sim_cmds sim_client = Some wN" "map_option ti_currContext (w_threads wN 1) = Some 1"
    using sim_cmds_run by (auto split: option.splits)
  have ok: "\<forall>c \<in> set sim_cmds. cmd_fits 10000 (2 ^ 20) c" by (simp add: sim_cmds_def cmd_fits_def rc_enc_length)
  have inp: "mk_inbox (os_kernel (st_os sim_stream)) (m_sock sim_stream) = concat (map rc_enc sim_cmds)" "m_sock sim_stream = 3" "sized 10000 sim_stream"
    by (simp_all add: sim_stream_def SocketStream_new_def sized_def)
  show ?thesis using render_thread_serves [OF rsim.stream_live_axioms sim_stream_ok inp(3) sim_client_reach ok _ wN(1) _ inp(1),
      where ?g1.0 = "\<lambda>_. None" and ?g2.0 = "\<lambda>_. None"] wN unfolding inp(2) by simp
qed

text \<open>C40: A packet that gives its own length as zero stops the render thread for good: its case
  returns and leaves the buffer as it was, and the decoder runs it again and again at the same
  place and never returns.\<close>

theorem zero_length_packet_hangs:
  fixes e :: "'k render_env" and w :: "'g world"
  assumes "12 \<le> length buf" and "length buf < 2 ^ 64" and "get_le32 buf 0 = 10019" and "get_le32 buf 4 = 0"
  shows "(\<exists>body. rc_switch e (initRenderControlContext gl t) (get_le32 buf 0) = Some body \<and> body 0 (buf, st, w) = Some (buf, st, w)) \<and>
    decode (rc_switch e (initRenderControlContext gl t)) (buf, st, w) = None"
proof -
  let ?sw = "rc_switch e (initRenderControlContext gl t)"
  let ?body = "case_rcFBSetSwapInterval (initRenderControlContext gl t)"
  have sw: "?sw 10019 = Some ?body" by (simp add: rc_switch_def)
  have b: "?body 0 (buf, st, w) = Some (buf, st, w)" for st :: "'k SocketStream" and w :: "'g world"
    using assms(1) by (simp add: case_rcFBSetSwapInterval_def call1_def arg_def get32_def initRenderControlContext_def op_rcFBSetSwapInterval_def)
  have q: "fst ds' = buf" if "?body 0 ds = Some ds'" "fst ds = buf" for ds ds' :: "('k, 'g world) dec_state"
    using that b by (cases ds) auto
  have "decode_loop ?sw 0 (buf, st, w) = Some r \<Longrightarrow> False" for r
    by (erule decode_loop_stuck [where Q = "\<lambda>ds. fst ds = buf"]) (use assms sw q in auto)
  then have "decode_loop ?sw 0 (buf, st, w) = None" by (cases "decode_loop ?sw 0 (buf, st, w)") auto
  then have "decode ?sw (buf, st, w) = None" using assms(1) by (simp add: decode_def)
  then show ?thesis using sw b assms(3) by auto
qed

theorem zero_length_packet_hangs_witness:
  "decode (rc_switch machine_render (initRenderControlContext sim_gl 1))
     (le32 10019 @ replicate 8 0, SocketStream_new 3 0 \<lparr>os_errno = 0, os_kernel = machine0\<rparr>, sim_world) = None"
proof -
  have "get_le32 (le32 10019 @ replicate 8 0) 0 = 10019" using get_le32_le32 [of "[]" 10019 "replicate 8 0"] by simp
  moreover have "get_le32 (le32 10019 @ replicate 8 0) 4 = 0" by (simp add: get_le32_def nth_append)
  ultimately show ?thesis
    using zero_length_packet_hangs [of "le32 10019 @ replicate 8 0" machine_render sim_gl 1
      "SocketStream_new 3 0 \<lparr>os_errno = 0, os_kernel = machine0\<rparr>" sim_world] by simp
qed

lemma config_list_filter:
  "config_list gl cfgs w = Some l \<Longrightarrow> l = map (\<lambda>c. FBConfig_new gl c w) (filter (\<lambda>c. usable_config gl c w = Some True) cfgs)"
  by (induction cfgs arbitrary: l) (auto simp: bind_eq_Some_conv)

lemma read_words_le32: "read_words (length pre) (length ws) (pre @ concat (map le32 ws) @ suf) = ws"
  by (rule nth_equalityI) (simp_all add: read_words_def get_le32_words)

text \<open>C29: The table of configurations a client reads has the attribute numbers in its first row and
  then, for every EGL configuration the renderer can use and in the order of the library, the values
  of these attributes, with the window bit added to the surface type. A buffer of the size that the
  number of configurations tells is large enough.\<close>

theorem config_table:
  assumes cfgs: "egl_configs gl (w_gl w) = Some cfgs" and i: "initConfigList gl w = Some (r, w')"
    and n: "getNumConfigs w' + 1 < 2 ^ 25" and m: "128 * (getNumConfigs w' + 1) \<le> length mem"
  shows "\<exists>mem'. op_rcGetConfigs (of_nat (128 * (getNumConfigs w' + 1))) 0 mem w' = Some (of_nat (getNumConfigs w'), mem', w') \<and>
    read_words 0 (32 * (getNumConfigs w' + 1)) mem' = s_configAttribs @
      concat (map (\<lambda>c. map (\<lambda>a. (case egl_attrib gl c a (w_gl w) of None \<Rightarrow> 0 | Some v \<Rightarrow> v) OR
        (if a = EGL_SURFACE_TYPE then EGL_WINDOW_BIT else 0)) s_configAttribs) (filter (\<lambda>c. usable_config gl c w = Some True) cfgs))"
proof -
  let ?l = "filter (\<lambda>c. usable_config gl c w = Some True) cfgs"
  let ?ws = "s_configAttribs @ concat (map fc_attribValues (w_configs w'))"
  obtain cl where "config_list gl cfgs w = Some cl" "w_configs w' = cl" using i cfgs by (auto simp: initConfigList_def bind_eq_Some_conv)
  then have l: "w_configs w' = map (\<lambda>c. FBConfig_new gl c w) ?l" using config_list_filter by blast
  have a: "length s_configAttribs = 32" by (simp add: s_configAttribs_def)
  have len: "length ?ws = 32 * (getNumConfigs w' + 1)"
    using rows_length [of "w_configs w'" 32] a unfolding l by (auto simp: FBConfig_new_def getNumConfigs_def l)
  have z: "(getNumConfigs w' + 1) * length s_configAttribs * 4 = 128 * (getNumConfigs w' + 1)" using a by simp
  have "concat (map fc_attribValues (w_configs w')) = concat (map (\<lambda>c. map (\<lambda>a. (case egl_attrib gl c a (w_gl w) of None \<Rightarrow> 0 | Some v \<Rightarrow> v) OR
      (if a = EGL_SURFACE_TYPE then EGL_WINDOW_BIT else 0)) s_configAttribs) ?l)"
    unfolding l by (simp add: FBConfig_new_def comp_def)
  moreover have "packConfigsInfo 0 mem w' = Some (concat (map le32 ?ws) @ drop (128 * (getNumConfigs w' + 1)) mem)"
    using m concat_le32_length [of ?ws] len by (simp add: packConfigsInfo_def block_write_def del: map_append)
  moreover have "read_words 0 (length ?ws) (concat (map le32 ?ws) @ drop (128 * (getNumConfigs w' + 1)) mem) = ?ws"
    using read_words_le32 [of "[]" ?ws "drop (128 * (getNumConfigs w' + 1)) mem"] by simp
  ultimately show ?thesis unfolding op_rcGetConfigs_def z len Let_def by simp
qed

theorem config_table_witness:
  "\<exists>w' mem'. initConfigList sim_gl sim_world = Some (True, w') \<and> op_rcGetConfigs 256 0 (replicate 256 0) w' = Some (1, mem', w') \<and>
     read_words 0 64 mem' = s_configAttribs @ replicate 32 5"
proof -
  let ?w = "sim_world\<lparr>w_configs := [FBConfig_new sim_gl 7 sim_world]\<rparr>"
  have u: "usable_config sim_gl 7 sim_world = Some True" by (simp add: usable_config_def sim_gl_def)
  then have i: "egl_configs sim_gl (w_gl sim_world) = Some [7]" "initConfigList sim_gl sim_world = Some (True, ?w)"
    by (simp_all add: initConfigList_def sim_gl_def)
  have n: "getNumConfigs ?w = 1" by (simp add: getNumConfigs_def)
  have v: "map (\<lambda>a. (case egl_attrib sim_gl 7 a (w_gl sim_world) of None \<Rightarrow> 0 | Some v \<Rightarrow> v) OR
      (if a = EGL_SURFACE_TYPE then EGL_WINDOW_BIT else 0)) s_configAttribs = replicate 32 5"
    by (simp add: sim_gl_def s_configAttribs_def numeral_eq_Suc)
  show ?thesis using config_table [OF i, of "replicate 256 0"] i(2) u v by (auto simp: n)
qed

end
