(* ===== verification/GuestPipe.thy ===== *)
theory GuestPipe
  imports PipeProtocol
begin

text \<open>
  The guest's driver for the pipe device, \<open>vm-kernel-qemupipe/qemu_pipe.c\<close>, on a 32-bit guest:
  opening, closing, polling, the interrupt handler and the transfers of \<open>read\<close> and \<open>write\<close>. The
  device behind the registers is the model of \<open>pipe.c\<close>.

  Parts of the driver that run under the device's spin lock are atomic; the transfer, which
  sleeps, is a machine whose steps are the pieces between which other threads and the interrupt
  handler run. Opening a pipe, polling and loading the driver are single steps; the last test of
  \<open>qemu_pipe_poll\<close>, outside the lock, is part of its step. Objects of the kernel heap live in a
  store, so a use after free is \<open>None\<close>. The services of the kernel (allocation, pages, signals,
  resources) are arguments of the operations.
\<close>

subsection \<open>Constants\<close>

abbreviation (input) EIO :: int where "EIO \<equiv> 5"
abbreviation (input) EAGAIN :: int where "EAGAIN \<equiv> 11"
abbreviation (input) ENOMEM :: int where "ENOMEM \<equiv> 12"
abbreviation (input) EFAULT :: int where "EFAULT \<equiv> 14"
abbreviation (input) EEXIST :: int where "EEXIST \<equiv> 17"
abbreviation (input) ENODEV :: int where "ENODEV \<equiv> 19"
abbreviation (input) EINVAL :: int where "EINVAL \<equiv> 22"
abbreviation (input) ERESTARTSYS :: int where "ERESTARTSYS \<equiv> 512"

abbreviation (input) BIT_CLOSED_ON_HOST :: nat where "BIT_CLOSED_ON_HOST \<equiv> 0"
abbreviation (input) BIT_WAKE_ON_WRITE :: nat where "BIT_WAKE_ON_WRITE \<equiv> 1"
abbreviation (input) BIT_WAKE_ON_READ :: nat where "BIT_WAKE_ON_READ \<equiv> 2"

abbreviation (input) PAGE_SIZE :: u32 where "PAGE_SIZE \<equiv> 4096"
abbreviation (input) PAGE_MASK :: u32 where "PAGE_MASK \<equiv> 0xFFFFF000"
abbreviation (input) IMPOSSIBLE_BATCH_RESULT :: u32 where "IMPOSSIBLE_BATCH_RESULT \<equiv> 0xdeadbeaf"

abbreviation (input) POLLIN :: u32 where "POLLIN \<equiv> 0x0001"
abbreviation (input) POLLOUT :: u32 where "POLLOUT \<equiv> 0x0004"
abbreviation (input) POLLERR :: u32 where "POLLERR \<equiv> 0x0008"
abbreviation (input) POLLHUP :: u32 where "POLLHUP \<equiv> 0x0010"
abbreviation (input) POLLRDNORM :: u32 where "POLLRDNORM \<equiv> 0x0040"
abbreviation (input) POLLWRNORM :: u32 where "POLLWRNORM \<equiv> 0x0100"

subsection \<open>State\<close>

record qemu_pipe =
  qp_locked :: bool
  qp_flags :: u32

text \<open>
  The device data of the driver with the pipe objects it has allocated (by address), the radix
  tree of open pipes and the hardware. An interrupt line is requested with an identity, the
  device data or the platform device.
\<close>

datatype irq_id = DevId | PdevId

record 'w guest =
  gd_pipes :: "u32 \<rightharpoonup> qemu_pipe"
  gd_tree :: "u32 \<rightharpoonup> u32"
  gd_aps :: u32
  gd_version :: u32
  gd_mapped :: bool
  gd_irqs :: "irq_id list"
  gd_misc :: bool
  gd_hw :: "'w pipe_sys"

text \<open>
  What the driver runs on: physical memory, the addresses the emulator's allocator returns for
  the objects of a new pipe, and the physical address of a kernel address.
\<close>

record 'w board =
  bd_mem :: phys_mem
  bd_new :: "'w pipe_sys \<Rightarrow> addr \<times> addr"
  bd_pa :: "u32 \<Rightarrow> u64"

definition readl :: "u64 \<Rightarrow> 'w guest \<Rightarrow> (u32 \<times> 'w guest) option" where
  "readl reg g = do { (v, s) \<leftarrow> pipe_dev_read reg (gd_hw g); Some (ucast v, g\<lparr>gd_hw := s\<rparr>) }"

definition writel :: "'w board \<Rightarrow> u32 \<Rightarrow> u64 \<Rightarrow> 'w guest \<Rightarrow> 'w guest option" where
  "writel bd v reg g =
     (case bd_new bd (gd_hw g) of (np, nc) \<Rightarrow>
        do { s \<leftarrow> pipe_dev_write (bd_mem bd) np nc reg (ucast v) (gd_hw g); Some (g\<lparr>gd_hw := s\<rparr>) })"

definition set_pipe :: "u32 \<Rightarrow> (qemu_pipe \<Rightarrow> qemu_pipe) \<Rightarrow> 'w guest \<Rightarrow> 'w guest option" where
  "set_pipe pipe f g = do { p \<leftarrow> gd_pipes g pipe; Some (g\<lparr>gd_pipes := (gd_pipes g)(pipe \<mapsto> f p)\<rparr>) }"

subsection \<open>Commands\<close>

definition qemu_pipe_error_convert :: "u32 \<Rightarrow> int" where
  "qemu_pipe_error_convert status =
     (if status = PIPE_ERROR_AGAIN then - EAGAIN
      else if status = PIPE_ERROR_NOMEM then - ENOMEM
      else if status = PIPE_ERROR_IO then - EIO
      else - EINVAL)"

definition valid_batchbuffer_addr :: "'w board \<Rightarrow> u32 \<Rightarrow> 'w guest \<Rightarrow> (bool \<times> 'w guest) option" where
  "valid_batchbuffer_addr bd aps g =
     do { (aph, g1) \<leftarrow> readl PIPE_REG_PARAMS_ADDR_HIGH g;
          (apl, g2) \<leftarrow> readl PIPE_REG_PARAMS_ADDR_LOW g1;
          Some (push_bit 32 (ucast aph) OR ucast apl = bd_pa bd aps, g2) }"

text \<open>\<open>new\<close> is what \<open>kmalloc\<close> returns.\<close>

definition setup_access_params_addr :: "'w board \<Rightarrow> u32 option \<Rightarrow> 'w guest \<Rightarrow> (int \<times> 'w guest) option" where
  "setup_access_params_addr bd new g =
     (case new of
        None \<Rightarrow> Some (- 1, g)
      | Some aps \<Rightarrow>
          do { g1 \<leftarrow> writel bd (ucast (drop_bit 32 (bd_pa bd aps))) PIPE_REG_PARAMS_ADDR_HIGH g;
               g2 \<leftarrow> writel bd (ucast (bd_pa bd aps)) PIPE_REG_PARAMS_ADDR_LOW g1;
               (ok, g3) \<leftarrow> valid_batchbuffer_addr bd aps g2;
               if ok then Some (0, g3\<lparr>gd_aps := aps\<rparr>) else Some (- 1, g3) })"

text \<open>The block lies in guest memory; \<open>None\<close> as the first component is the result \<open>-1\<close>.\<close>

definition aps_load :: "'w board \<Rightarrow> 'w guest \<Rightarrow> access_params" where
  "aps_load bd g = aps_decode (pm_read (bd_mem bd) (bd_pa bd (gd_aps g)) 24 (ps_ram (gd_hw g)))"

definition aps_save :: "'w board \<Rightarrow> access_params \<Rightarrow> 'w guest \<Rightarrow> 'w guest" where
  "aps_save bd a g =
     g\<lparr>gd_hw := (gd_hw g)\<lparr>ps_ram := pm_write (bd_mem bd) (bd_pa bd (gd_aps g)) (aps_encode a) (ps_ram (gd_hw g))\<rparr>\<rparr>"

definition access_with_param :: "'w board \<Rightarrow> u32 \<Rightarrow> u32 \<Rightarrow> u32 \<Rightarrow> u32 \<Rightarrow> 'w guest \<Rightarrow> (u32 option \<times> 'w guest) option" where
  "access_with_param bd cmd address avail pipe g =
     do { let a = (aps_load bd g)\<lparr>ap_result := IMPOSSIBLE_BATCH_RESULT, ap_channel := pipe, ap_size := avail,
                     ap_address := address, ap_cmd := cmd\<rparr>;
          g1 \<leftarrow> writel bd cmd PIPE_REG_ACCESS_PARAMS (aps_save bd a g);
          let r = ap_result (aps_load bd g1);
          Some (if r = IMPOSSIBLE_BATCH_RESULT then None else Some r, g1) }"

text \<open>A command on a channel, and a transfer through the registers, with the status it leaves.\<close>

definition channel_command :: "'w board \<Rightarrow> u32 \<Rightarrow> u32 \<Rightarrow> 'w guest \<Rightarrow> 'w guest option" where
  "channel_command bd pipe cmd g = do { g1 \<leftarrow> writel bd pipe PIPE_REG_CHANNEL g; writel bd cmd PIPE_REG_COMMAND g1 }"

definition transfer_page :: "'w board \<Rightarrow> u32 \<Rightarrow> u32 \<Rightarrow> u32 \<Rightarrow> u32 \<Rightarrow> 'w guest \<Rightarrow> (u32 \<times> 'w guest) option" where
  "transfer_page bd cmd xaddr avail pipe g =
     do { (r, g1) \<leftarrow> (if gd_aps g = 0 then Some (None, g) else access_with_param bd cmd xaddr avail pipe g);
          case r of
            Some status \<Rightarrow> Some (status, g1)
          | None \<Rightarrow>
              do { g2 \<leftarrow> writel bd pipe PIPE_REG_CHANNEL g1;
                   g3 \<leftarrow> writel bd avail PIPE_REG_SIZE g2;
                   g4 \<leftarrow> writel bd xaddr PIPE_REG_ADDRESS g3;
                   g5 \<leftarrow> writel bd cmd PIPE_REG_COMMAND g4;
                   readl PIPE_REG_STATUS g5 } }"

subsection \<open>Read and write\<close>

text \<open>
  Where a thread is in \<open>qemu_pipe_read_write\<close>: about to take the mutex, at the head of the loop,
  before marking the pipe, before telling the emulator, at the head of the waiting loop, asleep in
  it, about to take the mutex again, and returned.
\<close>

datatype rw_pc = RW_enter | RW_loop | RW_mark | RW_tell | RW_wait | RW_sleep | RW_relock | RW_done int

record rw =
  rw_pipe :: u32
  rw_write :: bool
  rw_nonblock :: bool
  rw_address :: u32
  rw_end :: u32
  rw_count :: u32
  rw_ret :: int
  rw_pc :: rw_pc

definition wakeBit :: "bool \<Rightarrow> nat" where
  "wakeBit is_write = (if is_write then BIT_WAKE_ON_WRITE else BIT_WAKE_ON_READ)"

definition cmd_offset :: "bool \<Rightarrow> u32" where
  "cmd_offset is_write = (if is_write then 0 else PIPE_CMD_READ_BUFFER - PIPE_CMD_WRITE_BUFFER)"

text \<open>The call up to the mutex; \<open>ok\<close> is what \<open>access_ok\<close> says of the buffer.\<close>

definition rw_begin :: "u32 \<Rightarrow> bool \<Rightarrow> bool \<Rightarrow> u32 \<Rightarrow> u32 \<Rightarrow> bool \<Rightarrow> 'w guest \<Rightarrow> rw option" where
  "rw_begin pipe is_write nonblock buffer bufflen ok g =
     do { p \<leftarrow> gd_pipes g pipe;
          Some \<lparr>rw_pipe = pipe, rw_write = is_write, rw_nonblock = nonblock, rw_address = buffer, rw_end = buffer + bufflen,
            rw_count = 0, rw_ret = - EINVAL,
            rw_pc = (if bit (qp_flags p) BIT_CLOSED_ON_HOST then RW_done (- EIO)
                     else if bufflen = 0 then RW_done (- EINVAL)
                     else if \<not> ok then RW_done (- EFAULT)
                     else RW_enter)\<rparr> }"

text \<open>The way out of the loop: the mutex is released and the result is an error or the count.\<close>

definition rw_finish :: "int \<Rightarrow> rw \<Rightarrow> 'w guest \<Rightarrow> (rw \<times> 'w guest) option" where
  "rw_finish ret t g =
     do { g1 \<leftarrow> set_pipe (rw_pipe t) (\<lambda>p. p\<lparr>qp_locked := False\<rparr>) g;
          Some (t\<lparr>rw_ret := ret, rw_pc := RW_done (if ret < 0 then ret else sint (rw_count t))\<rparr>, g1) }"

text \<open>
  One page. \<open>page\<close> is what \<open>get_user_pages\<close> returns with the physical address of the page; on an
  error the function returns at once. No page without an error is undefined.
\<close>

definition rw_chunk :: "u32 \<Rightarrow> u32 \<Rightarrow> u32" where
  "rw_chunk address address_end =
     (let page_end = (address AND PAGE_MASK) + PAGE_SIZE;
          nxt = (if page_end < address_end then page_end else address_end)
      in nxt - address)"

definition rw_iterate :: "'w board \<Rightarrow> int \<times> u32 \<Rightarrow> rw \<Rightarrow> 'w guest \<Rightarrow> (rw \<times> 'w guest) option" where
  "rw_iterate bd page t g =
     (if \<not> rw_address t < rw_end t then rw_finish (rw_ret t) t g
      else if fst page < 0 then Some (t\<lparr>rw_pc := RW_done (fst page)\<rparr>, g)
      else if fst page = 0 then None
      else do {
        let xaddr = (if gd_version g \<noteq> 0 then snd page OR (rw_address t AND NOT PAGE_MASK) else rw_address t);
        (status, g1) \<leftarrow> transfer_page bd (PIPE_CMD_WRITE_BUFFER + cmd_offset (rw_write t)) xaddr
          (rw_chunk (rw_address t) (rw_end t)) (rw_pipe t) g;
        if sint status > 0
        then Some (t\<lparr>rw_count := rw_count t + status, rw_address := rw_address t + status, rw_ret := fst page\<rparr>, g1)
        else if status = 0 then rw_finish 0 t g1
        else if sint (rw_count t) > 0 then rw_finish 0 t g1
        else if status \<noteq> PIPE_ERROR_AGAIN \<or> rw_nonblock t then rw_finish (qemu_pipe_error_convert status) t g1
        else Some (t\<lparr>rw_ret := fst page, rw_pc := RW_mark\<rparr>, g1) })"

text \<open>
  The next step of a thread; \<open>sig\<close> tells whether a signal is pending. A thread that cannot go on
  stays where it is.
\<close>

definition rw_step :: "'w board \<Rightarrow> bool \<Rightarrow> int \<times> u32 \<Rightarrow> rw \<Rightarrow> 'w guest \<Rightarrow> (rw \<times> 'w guest) option" where
  "rw_step bd sig page t g =
     do { p \<leftarrow> gd_pipes g (rw_pipe t);
          let waiting = bit (qp_flags p) (wakeBit (rw_write t));
          let lock = set_pipe (rw_pipe t) (\<lambda>p. p\<lparr>qp_locked := True\<rparr>) g;
          case rw_pc t of
            RW_enter \<Rightarrow>
              if \<not> qp_locked p then do { g1 \<leftarrow> lock; Some (t\<lparr>rw_pc := RW_loop\<rparr>, g1) }
              else if sig then Some (t\<lparr>rw_pc := RW_done (- ERESTARTSYS)\<rparr>, g)
              else Some (t, g)
          | RW_loop \<Rightarrow> rw_iterate bd page t g
          | RW_mark \<Rightarrow>
              do { g1 \<leftarrow> set_pipe (rw_pipe t) (\<lambda>p. p\<lparr>qp_flags := set_bit (wakeBit (rw_write t)) (qp_flags p)\<rparr>) g;
                   Some (t\<lparr>rw_pc := RW_tell\<rparr>, g1) }
          | RW_tell \<Rightarrow>
              do { g1 \<leftarrow> channel_command bd (rw_pipe t) (PIPE_CMD_WAKE_ON_WRITE + cmd_offset (rw_write t)) g;
                   g2 \<leftarrow> set_pipe (rw_pipe t) (\<lambda>p. p\<lparr>qp_locked := False\<rparr>) g1;
                   Some (t\<lparr>rw_pc := RW_wait\<rparr>, g2) }
          | RW_wait \<Rightarrow> Some (t\<lparr>rw_pc := if waiting then RW_sleep else RW_relock\<rparr>, g)
          | RW_sleep \<Rightarrow>
              if waiting then Some (if sig then t\<lparr>rw_pc := RW_done (- ERESTARTSYS)\<rparr> else t, g)
              else if bit (qp_flags p) BIT_CLOSED_ON_HOST then Some (t\<lparr>rw_pc := RW_done (- EIO)\<rparr>, g)
              else Some (t\<lparr>rw_pc := RW_wait\<rparr>, g)
          | RW_relock \<Rightarrow>
              if \<not> qp_locked p then do { g1 \<leftarrow> lock; Some (t\<lparr>rw_pc := RW_loop\<rparr>, g1) }
              else if sig then rw_finish (- ERESTARTSYS) t g
              else Some (t, g)
          | RW_done r \<Rightarrow> Some (t, g) }"

subsection \<open>Polling\<close>

definition poll_mask :: "u32 \<Rightarrow> u32 \<Rightarrow> u32" where
  "poll_mask status flags =
     (if status AND PIPE_POLL_IN \<noteq> 0 then POLLIN OR POLLRDNORM else 0) OR
     (if status AND PIPE_POLL_OUT \<noteq> 0 then POLLOUT OR POLLWRNORM else 0) OR
     (if status AND PIPE_POLL_HUP \<noteq> 0 then POLLHUP else 0) OR
     (if bit flags BIT_CLOSED_ON_HOST then POLLERR else 0)"

text \<open>The mutex is free when the function goes on, and free again at its end.\<close>

definition qemu_pipe_poll :: "'w board \<Rightarrow> u32 \<Rightarrow> 'w guest \<Rightarrow> (u32 \<times> 'w guest) option" where
  "qemu_pipe_poll bd pipe g =
     do { g1 \<leftarrow> channel_command bd pipe PIPE_CMD_POLL g;
          (status, g2) \<leftarrow> readl PIPE_REG_STATUS g1;
          p \<leftarrow> gd_pipes g2 pipe;
          Some (poll_mask status (qp_flags p), g2) }"

subsection \<open>Interrupts\<close>

definition wake_pipe :: "u32 \<Rightarrow> qemu_pipe \<Rightarrow> qemu_pipe" where
  "wake_pipe wakes p =
     (let closed = (wakes AND PIPE_WAKE_CLOSED \<noteq> 0);
          f1 = (if closed then set_bit BIT_CLOSED_ON_HOST (qp_flags p) else qp_flags p);
          w1 = (if closed then wakes OR PIPE_WAKE_READ OR PIPE_WAKE_WRITE else wakes);
          f2 = (if w1 AND PIPE_WAKE_READ \<noteq> 0 then unset_bit BIT_WAKE_ON_READ f1 else f1);
          f3 = (if w1 AND PIPE_WAKE_WRITE \<noteq> 0 then unset_bit BIT_WAKE_ON_WRITE f2 else f2)
      in p\<lparr>qp_flags := f3\<rparr>)"

partial_function (option) interrupt_loop :: "nat \<Rightarrow> 'w guest \<Rightarrow> (nat \<times> 'w guest) option" where
  "interrupt_loop count g =
     do { (channel, g1) \<leftarrow> readl PIPE_REG_CHANNEL g;
          if channel = 0 then Some (count, g1)
          else do {
            (wakes, g2) \<leftarrow> readl PIPE_REG_WAKES g1;
            case gd_tree g2 channel of
              None \<Rightarrow> Some (count, g2)
            | Some pipe \<Rightarrow> do { g3 \<leftarrow> set_pipe pipe (wake_pipe wakes) g2; interrupt_loop (count + 1) g3 } } }"

declare interrupt_loop.simps [code]

text \<open>The result tells whether the interrupt was the device's.\<close>

definition qemu_pipe_interrupt :: "'w guest \<Rightarrow> (bool \<times> 'w guest) option" where
  "qemu_pipe_interrupt g = do { (count, g1) \<leftarrow> interrupt_loop 0 g; Some (count \<noteq> 0, g1) }"

subsection \<open>Opening and closing\<close>

text \<open>
  The radix tree is a map. \<open>new\<close> is what \<open>kzalloc\<close> returns and \<open>err\<close> the error of the tree when it
  has no memory, or 0; a key that is in the tree is refused.
\<close>

definition radix_tree_insert :: "int \<Rightarrow> u32 \<Rightarrow> u32 \<Rightarrow> 'w guest \<Rightarrow> int \<times> 'w guest" where
  "radix_tree_insert err k v g =
     (if gd_tree g k \<noteq> None then (- EEXIST, g)
      else if err \<noteq> 0 then (err, g)
      else (0, g\<lparr>gd_tree := (gd_tree g)(k \<mapsto> v)\<rparr>))"

definition qemu_pipe_open :: "'w board \<Rightarrow> u32 option \<Rightarrow> int \<Rightarrow> 'w guest \<Rightarrow> (int \<times> u32 option \<times> 'w guest) option" where
  "qemu_pipe_open bd new err g =
     (case new of
        None \<Rightarrow> Some (- ENOMEM, None, g)
      | Some pipe \<Rightarrow>
          let g1 = g\<lparr>gd_pipes := (gd_pipes g)(pipe \<mapsto> \<lparr>qp_locked = False, qp_flags = 0\<rparr>)\<rparr>;
              free = (\<lambda>g. g\<lparr>gd_pipes := (gd_pipes g)(pipe := None)\<rparr>) in
          (case radix_tree_insert err pipe pipe g1 of (ret, g2) \<Rightarrow>
             if ret \<noteq> 0 then Some (ret, None, free g2)
             else do {
               g3 \<leftarrow> channel_command bd pipe PIPE_CMD_OPEN g2;
               (status, g4) \<leftarrow> readl PIPE_REG_STATUS g3;
               if sint status < 0 then Some (sint status, None, free g4)
               else Some (0, Some pipe, g4) }))"

definition qemu_pipe_release :: "'w board \<Rightarrow> u32 \<Rightarrow> 'w guest \<Rightarrow> 'w guest option" where
  "qemu_pipe_release bd pipe g =
     do { p \<leftarrow> gd_pipes g pipe;
          g1 \<leftarrow> channel_command bd pipe PIPE_CMD_CLOSE g;
          Some (g1\<lparr>gd_tree := (gd_tree g1)(pipe := None), gd_pipes := (gd_pipes g1)(pipe := None)\<rparr>) }"

subsection \<open>The device\<close>

text \<open>
  \<open>mem\<close> and \<open>irq\<close> tell whether the platform has the two resources, \<open>irq_err\<close> and \<open>misc_err\<close> are
  the results of \<open>request_irq\<close> and \<open>misc_register\<close>. Freeing an interrupt with an identity it was
  not requested with does nothing.
\<close>

definition free_irq :: "irq_id \<Rightarrow> 'w guest \<Rightarrow> 'w guest" where
  "free_irq i g = g\<lparr>gd_irqs := remove1 i (gd_irqs g)\<rparr>"

definition qemu_pipe_probe :: "'w board \<Rightarrow> bool \<Rightarrow> bool \<Rightarrow> int \<Rightarrow> int \<Rightarrow> u32 option \<Rightarrow> 'w guest \<Rightarrow> (int \<times> 'w guest) option" where
  "qemu_pipe_probe bd mem irq irq_err misc_err new g =
     (let g1 = g\<lparr>gd_tree := Map.empty\<rparr> in
      if gd_mapped g then Some (- ENODEV, g1)
      else if \<not> mem then Some (- EINVAL, g1)
      else if \<not> irq then Some (- EINVAL, g1)
      else if irq_err \<noteq> 0 then Some (irq_err, g1)
      else let g2 = g1\<lparr>gd_mapped := True, gd_irqs := DevId # gd_irqs g1\<rparr> in
        if misc_err \<noteq> 0 then Some (misc_err, (free_irq PdevId g2)\<lparr>gd_mapped := False\<rparr>)
        else do {
          (r, g3) \<leftarrow> setup_access_params_addr bd new (g2\<lparr>gd_misc := True\<rparr>);
          (v, g4) \<leftarrow> readl PIPE_REG_VERSION g3;
          Some (0, g4\<lparr>gd_version := v\<rparr>) })"

definition qemu_pipe_remove :: "'w guest \<Rightarrow> 'w guest" where
  "qemu_pipe_remove g = (free_irq PdevId (g\<lparr>gd_misc := False\<rparr>))\<lparr>gd_mapped := False\<rparr>"

text \<open>
  Removing the device frees the interrupt with the platform device, not with the data it was
  requested with, so the handler stays registered while the registers are no longer mapped.
\<close>

lemma remove_keeps_handler:
  "DevId \<in> set (gd_irqs g) \<Longrightarrow> DevId \<in> set (gd_irqs (qemu_pipe_remove g)) \<and> \<not> gd_mapped (qemu_pipe_remove g)"
  by (simp add: qemu_pipe_remove_def free_irq_def)

lemma failed_probe_keeps_handler:
  assumes "\<not> gd_mapped g" and "misc_err \<noteq> 0"
  shows "\<exists>g'. qemu_pipe_probe bd True True 0 misc_err new g = Some (misc_err, g') \<and> DevId \<in> set (gd_irqs g') \<and> \<not> gd_mapped g'"
  using assms by (simp add: qemu_pipe_probe_def free_irq_def Let_def)

text \<open>A transfer of no bytes is an error, never a success.\<close>

lemma null_transfer_fails: "rw_begin pipe wr nb buffer 0 acc g = Some t \<Longrightarrow> rw_pc t = RW_done (- EIO) \<or> rw_pc t = RW_done (- EINVAL)"
  by (cases "gd_pipes g pipe") (auto simp: rw_begin_def split: if_splits)

end
