(* ===== verification/GuestBus.thy ===== *)
theory GuestBus
  imports GuestPipe
begin

text \<open>
  The interface between the driver and the device: what the driver relies on when it reads and
  writes registers, over the abstract device of \<open>PipeProtocol\<close>. The emulator offers it with every
  set of services that keeps its contract.
\<close>

subsection \<open>The channel register\<close>

text \<open>A 32-bit guest never writes the upper half of the channel register.\<close>

lemma connector_send_channel:
  assumes t: "pipeConnector_sendBuffers d bufs s = Some (t, r)"
  shows "pd_channel t = pd_channel s"
proof -
  from t obtain k where k: "ps_conn s d = Some k" by (auto simp: pipeConnector_sendBuffers_def bind_eq_Some_conv)
  obtain buf pos ret where c: "connector_copy (pc_buffer k) (pc_buffpos k) 0 bufs = (buf, pos, ret)"
    by (cases "connector_copy (pc_buffer k) (pc_buffpos k) 0 bufs")
  obtain name args colon where n: "connector_split (c_str (drop 5 buf)) = (name, args, colon)"
    by (cases "connector_split (c_str (drop 5 buf))")
  note eq = pipeConnector_sendBuffers_def k c n
  let ?i = "the (qemu_pipe_find_type name (ps_services s))"
  let ?f = "f_init (svc_funcs (ps_services s ! ?i)) (pc_pipe k) (svc_opaque (ps_services s ! ?i)) args (ps_world s)"
  show ?thesis using t
    by (cases ?f; cases "ps_pipe s (pc_pipe k)"; cases "qemu_pipe_find_type name (ps_services s)"; cases "0 \<in> set (take pos buf)";
        cases "take 5 buf = bytes ''pipe:''") (auto simp: eq Let_def split: if_splits)
qed

lemma send_channel: "call_sendBuffers p bufs s = Some (t, r) \<Longrightarrow> pd_channel t = pd_channel s"
  by (auto simp: call_sendBuffers_def bind_eq_Some_conv dest: connector_send_channel split: funcs_ptr.splits)

lemma recv_channel: "call_recvBuffers p n s = Some (t, out, r) \<Longrightarrow> pd_channel t = pd_channel s"
  by (auto simp: call_recvBuffers_def bind_eq_Some_conv split: funcs_ptr.splits)

lemma wakeOn_channel: "call_wakeOn p f s = Some t \<Longrightarrow> pd_channel t = pd_channel s"
  by (auto simp: call_wakeOn_def pipeConnector_wakeOn_def bind_eq_Some_conv split: funcs_ptr.splits)

lemma close_channel: "call_close p s = Some t \<Longrightarrow> pd_channel t = pd_channel s"
  by (auto simp: call_close_def pipeConnector_close_def bind_eq_Some_conv split: funcs_ptr.splits option.splits if_splits)

lemma remove_waked_channel: "pipe_list_remove_waked s a = Some t \<Longrightarrow> pd_channel t = pd_channel s"
  by (auto simp: pipe_list_remove_waked_def bind_eq_Some_conv split: if_splits)

lemma cmd_channel:
  "cmd_open a np nc s = Some t \<Longrightarrow> pd_channel t = pd_channel s" "cmd_close l a s = Some t \<Longrightarrow> pd_channel t = pd_channel s"
  "cmd_read_buffer pm a s = Some t \<Longrightarrow> pd_channel t = pd_channel s" "cmd_write_buffer pm a s = Some t \<Longrightarrow> pd_channel t = pd_channel s"
  "cmd_wake_on f a s = Some t \<Longrightarrow> pd_channel t = pd_channel s"
  by (auto simp: cmd_open_def cmd_close_def cmd_read_buffer_def cmd_write_buffer_def cmd_wake_on_def pipe_new_def pipe_free_def Let_def bind_eq_Some_conv
      dest!: send_channel recv_channel wakeOn_channel close_channel remove_waked_channel split: if_splits prod.splits)

lemma doCommand_channel: "pipeDevice_doCommand pm np nc cmd s = Some t \<Longrightarrow> pd_channel t = pd_channel s"
  by (auto simp: pipeDevice_doCommand_def bind_eq_Some_conv dest: cmd_channel split: if_splits)

lemma spec_buffer [simp]: "spec_command PIPE_CMD_READ_BUFFER ch A = A" "spec_command PIPE_CMD_WRITE_BUFFER ch A = A" "spec_command PIPE_CMD_POLL ch A = A"
  by (simp_all add: spec_command_def split: option.splits)

lemma access_params_sim:
  assumes sim: "pipe_sim s A" and new: "fresh_for np nc s" and t: "dev_access_params pm np nc s = Some t"
  shows "pipe_sim t A \<and> (t = s \<or> (\<exists>ch. pd_channel t = ucast (ch :: u32)))"
proof (cases "pd_params_addr s = 0")
  case True
  then show ?thesis using sim t by (simp add: dev_access_params_def)
next
  case False
  let ?a = "aps_decode (pm_read pm (pd_params_addr s) 24 (ps_ram s))"
  let ?s = "s\<lparr>pd_channel := ucast (ap_channel ?a), pd_size := ap_size ?a, pd_address := ucast (ap_address ?a)\<rparr>"
  have v: "pipe_sim ?s A" by (rule pipe_sim_view [OF sim]) (simp add: same_view_def)
  have n: "fresh_for np nc ?s" using new by (simp add: fresh_for_def)
  show ?thesis
  proof (cases "ap_cmd ?a = PIPE_CMD_READ_BUFFER \<or> ap_cmd ?a = PIPE_CMD_WRITE_BUFFER")
    case True
    then obtain u m where u: "pipeDevice_doCommand pm np nc (ap_cmd ?a) ?s = Some u" "t = u\<lparr>ps_ram := m\<rparr>"
      using False t by (auto simp: dev_access_params_def qemu_guest_is_64bit_def Let_def bind_eq_Some_conv)
    have "pipe_sim u A" using doCommand_sim [OF v n u(1)] True by (elim disjE) simp_all
    then have "pipe_sim t A" unfolding u(2) by (rule pipe_sim_view) (simp add: same_view_def)
    moreover have "pd_channel t = ucast (ap_channel ?a)" using doCommand_channel [OF u(1)] u(2) by simp
    ultimately show ?thesis by blast
  next
    case other: False
    then have "t = ?s" using False t by (simp add: dev_access_params_def qemu_guest_is_64bit_def Let_def)
    then show ?thesis using v by auto
  qed
qed

subsection \<open>The interface\<close>

text \<open>The channel register holds a 32-bit number.\<close>

definition low_channel :: "'w pipe_sys \<Rightarrow> bool" where
  "low_channel s \<longleftrightarrow> (\<exists>ch. pd_channel s = ucast (ch :: u32))"

lemma set_low_ucast: "uint64_set_low (ucast (a :: u32)) b = ucast b"
proof -
  have m: "(0xFFFFFFFF :: u64) = mask 32" by (simp add: mask_eq_exp_minus_1)
  show ?thesis unfolding uint64_set_low_def m by (rule bit_word_eqI) (auto simp: bit_simps dest: bit_imp_le_length)
qed

definition same_guest :: "'w guest \<Rightarrow> 'w guest \<Rightarrow> bool" where
  "same_guest g g' \<longleftrightarrow> g' = g\<lparr>gd_hw := gd_hw g'\<rparr>"

lemma same_guest_hw [simp]: "same_guest g (g\<lparr>gd_hw := s\<rparr>)"
  by (simp add: same_guest_def)

lemma same_guest_refl [simp]: "same_guest g g"
  by (simp add: same_guest_def)

lemma same_guest_trans [trans]: "same_guest a b \<Longrightarrow> same_guest b c \<Longrightarrow> same_guest a c"
  unfolding same_guest_def by (metis guest.surjective guest.update_convs(8))

lemma same_guest_fields:
  assumes "same_guest g g'"
  shows "gd_pipes g' = gd_pipes g" "gd_tree g' = gd_tree g" "gd_aps g' = gd_aps g" "gd_version g' = gd_version g" "gd_mapped g' = gd_mapped g"
    "gd_irqs g' = gd_irqs g" "gd_misc g' = gd_misc g"
  using assms unfolding same_guest_def by (metis guest.select_convs guest.surjective guest.update_convs(8))+

text \<open>The device behaves as the abstract device \<open>A\<close>.\<close>

definition bus_ok :: "('w pipe_sys \<Rightarrow> bool) \<Rightarrow> 'w guest \<Rightarrow> pipe_spec \<Rightarrow> bool" where
  "bus_ok ok g A \<longleftrightarrow> ok (gd_hw g) \<and> pipe_sim (gd_hw g) A \<and> low_channel (gd_hw g)"

locale guest_bus =
  fixes bd :: "'w board" and inv :: "'w pipe_sys \<Rightarrow> bool"
  assumes new_fresh: "inv s \<Longrightarrow> fresh_for (fst (bd_new bd s)) (snd (bd_new bd s)) s"
    and read_returns: "inv s \<Longrightarrow> \<exists>v t. pipe_dev_read off s = Some (v, t) \<and> inv t"
    and write_returns: "inv s \<Longrightarrow> \<exists>t. pipe_dev_write (bd_mem bd) (fst (bd_new bd s)) (snd (bd_new bd s)) off v s = Some t \<and> inv t"
    and wake_returns: "inv s \<Longrightarrow> ps_pipe s a \<noteq> None \<Longrightarrow> \<exists>t. qemu_pipe_wake a f s = Some t \<and> inv t"
    and close_returns: "inv s \<Longrightarrow> ps_pipe s a \<noteq> None \<Longrightarrow> \<exists>t. qemu_pipe_close a s = Some t \<and> inv t"
    and ram_irrelevant: "inv s \<Longrightarrow> inv (s\<lparr>ps_ram := m\<rparr>)"
begin

lemma write_hw:
  assumes ok: "bus_ok inv g A"
  obtains s where "writel bd v reg g = Some (g\<lparr>gd_hw := s\<rparr>)" "inv s"
    "pipe_dev_write (bd_mem bd) (fst (bd_new bd (gd_hw g))) (snd (bd_new bd (gd_hw g))) reg (ucast v) (gd_hw g) = Some s"
  using ok write_returns [of "gd_hw g" reg "ucast v"] by (cases "bd_new bd (gd_hw g)") (auto simp: bus_ok_def writel_def)

lemma write_register:
  assumes ok: "bus_ok inv g A" and reg: "reg \<in> {PIPE_REG_SIZE, PIPE_REG_ADDRESS, PIPE_REG_PARAMS_ADDR_LOW, PIPE_REG_PARAMS_ADDR_HIGH}"
  shows "\<exists>g'. writel bd v reg g = Some g' \<and> bus_ok inv g' A \<and> same_guest g g'"
proof -
  obtain s where s: "writel bd v reg g = Some (g\<lparr>gd_hw := s\<rparr>)" "inv s"
    "pipe_dev_write (bd_mem bd) (fst (bd_new bd (gd_hw g))) (snd (bd_new bd (gd_hw g))) reg (ucast v) (gd_hw g) = Some s"
    using ok by (rule write_hw)
  then have v: "same_view (gd_hw g) s" "pd_channel s = pd_channel (gd_hw g)" using reg by (auto simp: pipe_dev_write_def same_view_def)
  have "pipe_sim s A" using pipe_sim_view [OF _ v(1)] ok by (simp add: bus_ok_def)
  then show ?thesis using s ok v(2) by (simp add: bus_ok_def low_channel_def)
qed

lemma write_channel:
  assumes ok: "bus_ok inv g A"
  shows "\<exists>g'. writel bd h PIPE_REG_CHANNEL g = Some g' \<and> bus_ok inv g' A \<and> same_guest g g' \<and> pd_channel (gd_hw g') = ucast h"
proof -
  obtain s where s: "writel bd h PIPE_REG_CHANNEL g = Some (g\<lparr>gd_hw := s\<rparr>)" "inv s"
    "pipe_dev_write (bd_mem bd) (fst (bd_new bd (gd_hw g))) (snd (bd_new bd (gd_hw g))) PIPE_REG_CHANNEL (ucast h) (gd_hw g) = Some s"
    using ok by (rule write_hw)
  then have v: "same_view (gd_hw g) s" "pd_channel s = uint64_set_low (pd_channel (gd_hw g)) h"
    by (auto simp: pipe_dev_write_def same_view_def ucast_back)
  have c: "pd_channel s = ucast h" using v(2) ok by (auto simp: bus_ok_def low_channel_def set_low_ucast)
  have "pipe_sim s A" using pipe_sim_view [OF _ v(1)] ok by (simp add: bus_ok_def)
  then show ?thesis using s c by (auto simp: bus_ok_def low_channel_def)
qed

lemma write_command:
  assumes ok: "bus_ok inv g A"
  shows "\<exists>g'. writel bd cmd PIPE_REG_COMMAND g = Some g' \<and> bus_ok inv g' (spec_command cmd (pd_channel (gd_hw g)) A) \<and> same_guest g g'"
proof -
  obtain s where s: "writel bd cmd PIPE_REG_COMMAND g = Some (g\<lparr>gd_hw := s\<rparr>)" "inv s"
    "pipe_dev_write (bd_mem bd) (fst (bd_new bd (gd_hw g))) (snd (bd_new bd (gd_hw g))) PIPE_REG_COMMAND (ucast cmd) (gd_hw g) = Some s"
    using ok by (rule write_hw)
  then have c: "pipeDevice_doCommand (bd_mem bd) (fst (bd_new bd (gd_hw g))) (snd (bd_new bd (gd_hw g))) cmd (gd_hw g) = Some s"
    by (simp add: pipe_dev_write_def ucast_back)
  have "pipe_sim s (spec_command cmd (pd_channel (gd_hw g)) A)"
    using doCommand_sim [OF _ new_fresh c] ok by (simp add: bus_ok_def)
  then show ?thesis using s doCommand_channel [OF c] ok by (auto simp: bus_ok_def low_channel_def)
qed

lemma channel_command_ok:
  assumes ok: "bus_ok inv g A"
  shows "\<exists>g'. channel_command bd h cmd g = Some g' \<and> bus_ok inv g' (spec_command cmd (ucast h) A) \<and> same_guest g g'"
proof -
  obtain g1 where 1: "writel bd h PIPE_REG_CHANNEL g = Some g1" "bus_ok inv g1 A" "same_guest g g1" "pd_channel (gd_hw g1) = ucast h"
    using write_channel [OF ok] by blast
  obtain g2 where "writel bd cmd PIPE_REG_COMMAND g1 = Some g2" "bus_ok inv g2 (spec_command cmd (ucast h) A)" "same_guest g1 g2"
    using write_command [OF 1(2)] 1(4) by auto
  then show ?thesis using 1(1) same_guest_trans [OF 1(3)] by (auto simp: channel_command_def)
qed

lemma read_register:
  assumes ok: "bus_ok inv g A" and reg: "reg \<noteq> PIPE_REG_CHANNEL"
  shows "\<exists>v. readl reg g = Some (v, g)"
proof -
  obtain v where "pipe_dev_read reg (gd_hw g) = Some (v, gd_hw g)"
    using read_returns [of "gd_hw g" reg] ok reg by (auto simp: bus_ok_def pipe_dev_read_def Let_def bind_eq_Some_conv split: if_splits)
  then show ?thesis by (simp add: readl_def)
qed

lemma access_with_param_ok:
  assumes ok: "bus_ok inv g A"
  shows "\<exists>r g'. access_with_param bd cmd x n h g = Some (r, g') \<and> bus_ok inv g' A \<and> same_guest g g'"
proof -
  let ?a = "(aps_load bd g)\<lparr>ap_result := IMPOSSIBLE_BATCH_RESULT, ap_channel := h, ap_size := n, ap_address := x, ap_cmd := cmd\<rparr>"
  let ?g = "aps_save bd ?a g"
  have g: "bus_ok inv ?g A" "same_guest g ?g"
    using ok pipe_sim_view [of "gd_hw g" A "gd_hw ?g"]
    by (auto simp: bus_ok_def aps_save_def ram_irrelevant same_view_def low_channel_def)
  obtain s where s: "writel bd cmd PIPE_REG_ACCESS_PARAMS ?g = Some (?g\<lparr>gd_hw := s\<rparr>)" "inv s"
    "pipe_dev_write (bd_mem bd) (fst (bd_new bd (gd_hw ?g))) (snd (bd_new bd (gd_hw ?g))) PIPE_REG_ACCESS_PARAMS (ucast cmd) (gd_hw ?g) = Some s"
    using g(1) by (rule write_hw)
  then have d: "dev_access_params (bd_mem bd) (fst (bd_new bd (gd_hw ?g))) (snd (bd_new bd (gd_hw ?g))) (gd_hw ?g) = Some s"
    by (simp add: pipe_dev_write_def)
  have i: "inv (gd_hw ?g)" "pipe_sim (gd_hw ?g) A" using g(1) by (simp_all add: bus_ok_def)
  have "pipe_sim s A \<and> (s = gd_hw ?g \<or> (\<exists>ch. pd_channel s = ucast (ch :: u32)))"
    by (rule access_params_sim [OF i(2) new_fresh [OF i(1)] d])
  then have "bus_ok inv (?g\<lparr>gd_hw := s\<rparr>) A" using s(2) g(1) by (auto simp: bus_ok_def low_channel_def)
  moreover have "same_guest g (?g\<lparr>gd_hw := s\<rparr>)" by (rule same_guest_trans [OF g(2)]) simp
  ultimately show ?thesis using s(1) by (auto simp: access_with_param_def Let_def)
qed

lemma transfer_slow:
  assumes ok: "bus_ok inv g A" and cmd: "cmd \<in> {PIPE_CMD_READ_BUFFER, PIPE_CMD_WRITE_BUFFER}"
  shows "\<exists>status g'. do { g2 \<leftarrow> writel bd h PIPE_REG_CHANNEL g; g3 \<leftarrow> writel bd n PIPE_REG_SIZE g2; g4 \<leftarrow> writel bd x PIPE_REG_ADDRESS g3;
      g5 \<leftarrow> writel bd cmd PIPE_REG_COMMAND g4; readl PIPE_REG_STATUS g5 } = Some (status, g') \<and> bus_ok inv g' A \<and> same_guest g g'"
proof -
  obtain g2 where 2: "writel bd h PIPE_REG_CHANNEL g = Some g2" "bus_ok inv g2 A" "same_guest g g2" using write_channel [OF ok] by blast
  obtain g3 where 3: "writel bd n PIPE_REG_SIZE g2 = Some g3" "bus_ok inv g3 A" "same_guest g2 g3" using write_register [OF 2(2)] by blast
  obtain g4 where 4: "writel bd x PIPE_REG_ADDRESS g3 = Some g4" "bus_ok inv g4 A" "same_guest g3 g4" using write_register [OF 3(2)] by blast
  obtain g5 where 5: "writel bd cmd PIPE_REG_COMMAND g4 = Some g5" "bus_ok inv g5 A" "same_guest g4 g5"
    using write_command [OF 4(2), of cmd] cmd by auto
  obtain v where "readl PIPE_REG_STATUS g5 = Some (v, g5)" using read_register [OF 5(2)] by fastforce
  then show ?thesis using 2 3 4 5 same_guest_trans [OF 2(3) same_guest_trans [OF 3(3) same_guest_trans [OF 4(3) 5(3)]]] by simp
qed

lemma transfer_page_ok:
  assumes ok: "bus_ok inv g A" and cmd: "cmd \<in> {PIPE_CMD_READ_BUFFER, PIPE_CMD_WRITE_BUFFER}"
  shows "\<exists>status g'. transfer_page bd cmd x n h g = Some (status, g') \<and> bus_ok inv g' A \<and> same_guest g g'"
proof -
  obtain r g1 where 1: "(if gd_aps g = 0 then Some (None, g) else access_with_param bd cmd x n h g) = Some (r, g1)" "bus_ok inv g1 A" "same_guest g g1"
    using access_with_param_ok [OF ok, of cmd x n h] ok by (cases "gd_aps g = 0") auto
  show ?thesis
  proof (cases r)
    case None
    obtain status g' where "do { g2 \<leftarrow> writel bd h PIPE_REG_CHANNEL g1; g3 \<leftarrow> writel bd n PIPE_REG_SIZE g2; g4 \<leftarrow> writel bd x PIPE_REG_ADDRESS g3;
      g5 \<leftarrow> writel bd cmd PIPE_REG_COMMAND g4; readl PIPE_REG_STATUS g5 } = Some (status, g')" "bus_ok inv g' A" "same_guest g1 g'"
      using transfer_slow [OF 1(2) cmd] by blast
    then show ?thesis using 1(1) None same_guest_trans [OF 1(3)] by (auto simp: transfer_page_def)
  next
    case (Some status)
    then show ?thesis using 1 by (auto simp: transfer_page_def)
  qed
qed

end

subsection \<open>The emulator offers it\<close>

text \<open>Services that keep their contract, and an allocator that returns unused addresses.\<close>

locale guest_board = pipe_backend svcs peer dead winv
  for svcs :: "'w PipeService list" and peer dead winv +
  fixes bd :: "'w board"
  assumes alloc: "pipe_inv peer dead winv svcs s \<Longrightarrow> fresh_for (fst (bd_new bd s)) (snd (bd_new bd s)) s"

sublocale guest_board \<subseteq> bus: guest_bus bd "pipe_inv peer dead winv svcs"
proof
  fix s :: "'w pipe_sys" and off v a f m
  assume i: "pipe_inv peer dead winv svcs s"
  show "fresh_for (fst (bd_new bd s)) (snd (bd_new bd s)) s" by (rule alloc [OF i])
  then show "\<exists>t. pipe_dev_write (bd_mem bd) (fst (bd_new bd s)) (snd (bd_new bd s)) off v s = Some t \<and> pipe_inv peer dead winv svcs t"
    by (rule pipe_dev_write_ok [OF i])
  show "\<exists>v t. pipe_dev_read off s = Some (v, t) \<and> pipe_inv peer dead winv svcs t" using pipe_inv_read [OF i] by blast
  show "pipe_inv peer dead winv svcs (s\<lparr>ps_ram := m\<rparr>)" using i by (subst pipe_inv_core [of s]) (simp_all add: same_core_def)
  assume "ps_pipe s a \<noteq> None"
  then obtain p where p: "ps_pipe s a = Some p" by blast
  show "\<exists>t. qemu_pipe_wake a f s = Some t \<and> pipe_inv peer dead winv svcs t" using pipe_inv_wake [OF i p] by blast
  show "\<exists>t. qemu_pipe_close a s = Some t \<and> pipe_inv peer dead winv svcs t" using pipe_inv_close [OF i p] by blast
qed

context guest_board
begin

lemma board_is_bus: "guest_bus bd (pipe_inv peer dead winv svcs)"
  by (rule bus.guest_bus_axioms)

end

end
