(* ===== verification/GuestSystem.thy ===== *)
theory GuestSystem
  imports GuestBus
begin

text \<open>
  The guest's driver and the emulated device as one system: threads in the middle of transfers,
  calls of the other operations, interrupts, and what the host does meanwhile. The invariant says
  that the driver's tree, its pipe objects and the device's channels agree, and who is responsible
  for waking a pipe that is marked as waiting: the device has been told, or a thread is about to
  tell it, or the host has closed the channel.
\<close>

subsection \<open>Steps\<close>

type_synonym threads = "nat \<rightharpoonup> rw"

text \<open>
  The host wakes and closes pipes and changes the state of its services; \<open>ok\<close> is what these
  keep.
\<close>

inductive host_step :: "('w pipe_sys \<Rightarrow> bool) \<Rightarrow> 'w pipe_sys \<Rightarrow> 'w pipe_sys \<Rightarrow> bool" for ok where
  hs_wake: "ps_pipe s a \<noteq> None \<Longrightarrow> qemu_pipe_wake a f s = Some t \<Longrightarrow> host_step ok s t"
| hs_close: "ps_pipe s a \<noteq> None \<Longrightarrow> qemu_pipe_close a s = Some t \<Longrightarrow> host_step ok s t"
| hs_world: "ok (s\<lparr>ps_world := w\<rparr>) \<Longrightarrow> host_step ok s (s\<lparr>ps_world := w\<rparr>)"

text \<open>
  A file is released when no call on it is left; a new object has an address that is not in use;
  the handler runs while the line is raised.
\<close>

inductive guest_step :: "'w board \<Rightarrow> ('w pipe_sys \<Rightarrow> bool) \<Rightarrow> threads \<times> 'w guest \<Rightarrow> threads \<times> 'w guest \<Rightarrow> bool" for bd ok where
  gs_begin: "ts i = None \<Longrightarrow> gd_pipes g h \<noteq> None \<Longrightarrow> rw_begin h wr nb buf n acc g = Some t \<Longrightarrow> guest_step bd ok (ts, g) (ts(i \<mapsto> t), g)"
| gs_run: "ts i = Some t \<Longrightarrow> fst page \<noteq> 0 \<Longrightarrow> rw_step bd sig page t g = Some (t', g') \<Longrightarrow> guest_step bd ok (ts, g) (ts(i \<mapsto> t'), g')"
| gs_end: "ts i = Some t \<Longrightarrow> rw_pc t = RW_done r \<Longrightarrow> guest_step bd ok (ts, g) (ts(i := None), g)"
| gs_poll: "gd_pipes g h = Some p \<Longrightarrow> \<not> qp_locked p \<Longrightarrow> qemu_pipe_poll bd h g = Some (m, g') \<Longrightarrow> guest_step bd ok (ts, g) (ts, g')"
| gs_irq: "pd_irq (gd_hw g) \<Longrightarrow> qemu_pipe_interrupt g = Some (b, g') \<Longrightarrow> guest_step bd ok (ts, g) (ts, g')"
| gs_open: "(case new of None \<Rightarrow> True | Some h \<Rightarrow> h \<noteq> 0 \<and> gd_pipes g h = None) \<Longrightarrow> qemu_pipe_open bd new err g = Some (r, f, g') \<Longrightarrow>
    guest_step bd ok (ts, g) (ts, g')"
| gs_release: "gd_pipes g h \<noteq> None \<Longrightarrow> (\<And>i t. ts i = Some t \<Longrightarrow> rw_pipe t \<noteq> h) \<Longrightarrow> qemu_pipe_release bd h g = Some g' \<Longrightarrow>
    guest_step bd ok (ts, g) (ts, g')"
| gs_host: "host_step ok (gd_hw g) s \<Longrightarrow> guest_step bd ok (ts, g) (ts, g\<lparr>gd_hw := s\<rparr>)"

definition guest_off :: "'w pipe_sys \<Rightarrow> 'w guest" where
  "guest_off s = \<lparr>gd_pipes = Map.empty, gd_tree = Map.empty, gd_aps = 0, gd_version = 0, gd_mapped = False, gd_irqs = [],
     gd_misc = False, gd_hw = s\<rparr>"

inductive guest_reach :: "'w board \<Rightarrow> ('w pipe_sys \<Rightarrow> bool) \<Rightarrow> threads \<times> 'w guest \<Rightarrow> bool" for bd ok where
  gr_boot: "ok (qemu_pipe_initfn svcs ram w) \<Longrightarrow>
    qemu_pipe_probe bd True True 0 0 new (guest_off (qemu_pipe_initfn svcs ram w)) = Some (0, g) \<Longrightarrow> guest_reach bd ok (Map.empty, g)"
| gr_step: "guest_reach bd ok x \<Longrightarrow> guest_step bd ok x y \<Longrightarrow> guest_reach bd ok y"

subsection \<open>The invariant\<close>

text \<open>The device will wake the pipe in this direction, or cannot any more.\<close>

definition wake_flag :: "bool \<Rightarrow> nat" where
  "wake_flag wr = (if wr then 2 else 1)"

definition wants :: "pipe_spec \<Rightarrow> u32 \<Rightarrow> bool \<Rightarrow> bool" where
  "wants A h wr \<longleftrightarrow> (\<exists>c. sp_chans A (ucast h) = Some c \<and> (cs_closed c \<or> bit (cs_wanted c) (wake_flag wr)))"

definition telling :: "threads \<Rightarrow> u32 \<Rightarrow> bool \<Rightarrow> bool" where
  "telling ts h wr \<longleftrightarrow> (\<exists>i t. ts i = Some t \<and> rw_pipe t = h \<and> rw_write t = wr \<and> rw_pc t = RW_tell)"

definition wake_inv :: "threads \<Rightarrow> 'w guest \<Rightarrow> pipe_spec \<Rightarrow> bool" where
  "wake_inv ts g A \<longleftrightarrow> (\<forall>h p wr. gd_pipes g h = Some p \<longrightarrow> bit (qp_flags p) (wakeBit wr) \<longrightarrow> wants A h wr \<or> telling ts h wr)"

definition tree_inv :: "'w guest \<Rightarrow> pipe_spec \<Rightarrow> bool" where
  "tree_inv g A \<longleftrightarrow> (\<forall>h. gd_tree g h = (if gd_pipes g h = None then None else Some h)) \<and> gd_pipes g 0 = None \<and>
     dom (sp_chans A) = ucast ` dom (gd_pipes g)"

definition threads_inv :: "threads \<Rightarrow> 'w guest \<Rightarrow> bool" where
  "threads_inv ts g \<longleftrightarrow> (\<forall>i t. ts i = Some t \<longrightarrow> gd_pipes g (rw_pipe t) \<noteq> None)"

definition sys_ok :: "('w pipe_sys \<Rightarrow> bool) \<Rightarrow> threads \<Rightarrow> 'w guest \<Rightarrow> pipe_spec \<Rightarrow> bool" where
  "sys_ok ok ts g A \<longleftrightarrow> bus_ok ok g A \<and> tree_inv g A \<and> threads_inv ts g \<and> wake_inv ts g A"

definition guest_inv :: "('w pipe_sys \<Rightarrow> bool) \<Rightarrow> threads \<times> 'w guest \<Rightarrow> bool" where
  "guest_inv ok x \<longleftrightarrow> (\<exists>A. sys_ok ok (fst x) (snd x) A)"

lemma tree_channel: "tree_inv g A \<Longrightarrow> gd_pipes g h = Some p \<Longrightarrow> \<exists>c. sp_chans A (ucast h) = Some c"
  unfolding tree_inv_def by (metis domD domI imageI)

lemma ucast_inj32: "(ucast (a :: u32) :: u64) = ucast b \<longleftrightarrow> a = b"
  using ucast_back [of a] ucast_back [of b] by metis

lemma inj_ucast32: "inj (ucast :: u32 \<Rightarrow> u64)"
  by (rule injI) (simp add: ucast_inj32)

lemma tree_no_channel: "tree_inv g A \<Longrightarrow> gd_pipes g h = None \<Longrightarrow> gd_tree g h = None \<and> sp_chans A (ucast h) = None"
  unfolding tree_inv_def by (metis (mono_tags, lifting) domIff inj_image_mem_iff inj_ucast32)

text \<open>A step that changes neither the flags of a pipe nor the set of pipes, and grows what the device wants.\<close>

definition quiet :: "'w guest \<Rightarrow> 'w guest \<Rightarrow> bool" where
  "quiet g g' \<longleftrightarrow> gd_tree g' = gd_tree g \<and> (\<forall>h. map_option qp_flags (gd_pipes g' h) = map_option qp_flags (gd_pipes g h))"

definition grows :: "pipe_spec \<Rightarrow> pipe_spec \<Rightarrow> bool" where
  "grows A B \<longleftrightarrow> dom (sp_chans B) = dom (sp_chans A) \<and> (\<forall>h wr. wants A h wr \<longrightarrow> wants B h wr)"

lemma grows_refl [simp]: "grows A A"
  by (simp add: grows_def)

lemma quiet_pipes:
  assumes "quiet g g'"
  shows "(gd_pipes g' h = None) = (gd_pipes g h = None)" and "gd_pipes g' h = Some p \<Longrightarrow> \<exists>q. gd_pipes g h = Some q \<and> qp_flags q = qp_flags p"
proof -
  have "map_option qp_flags (gd_pipes g' h) = map_option qp_flags (gd_pipes g h)" using assms by (simp add: quiet_def)
  then show "(gd_pipes g' h = None) = (gd_pipes g h = None)" "gd_pipes g' h = Some p \<Longrightarrow> \<exists>q. gd_pipes g h = Some q \<and> qp_flags q = qp_flags p"
    by (cases "gd_pipes g h"; cases "gd_pipes g' h"; simp)+
qed

lemma same_quiet: "same_guest g g' \<Longrightarrow> quiet g g'"
  by (simp add: quiet_def same_guest_fields)

lemma quiet_trans: "quiet a b \<Longrightarrow> quiet b c \<Longrightarrow> quiet a c"
  by (simp add: quiet_def)

lemma sys_ok_quiet:
  assumes s: "sys_ok ok ts g A" and q: "quiet g g'" and b: "bus_ok ok g' B" and gr: "grows A B"
    and t: "\<And>h wr. telling ts h wr \<Longrightarrow> telling ts' h wr \<or> wants B h wr" and th: "threads_inv ts' g"
  shows "sys_ok ok ts' g' B"
proof -
  note p = quiet_pipes [OF q]
  have "dom (gd_pipes g') = dom (gd_pipes g)" using p(1) by (auto simp: dom_def)
  then have "tree_inv g' B" using s q gr p(1) by (simp add: sys_ok_def tree_inv_def grows_def quiet_def)
  moreover have "threads_inv ts' g'" using th p(1) by (simp add: threads_inv_def)
  moreover have "wake_inv ts' g' B" unfolding wake_inv_def
  proof (intro allI impI)
    fix h pp wr assume "gd_pipes g' h = Some pp" "bit (qp_flags pp) (wakeBit wr)"
    with p(2) [of h pp] obtain q where "gd_pipes g h = Some q" "bit (qp_flags q) (wakeBit wr)" by auto
    with s have "wants A h wr \<or> telling ts h wr" unfolding sys_ok_def wake_inv_def by blast
    then show "wants B h wr \<or> telling ts' h wr" using gr t by (auto simp: grows_def)
  qed
  ultimately show ?thesis using b by (simp add: sys_ok_def)
qed

lemma telling_upd:
  assumes "telling ts h wr" and "ts i = Some t" and "rw_pc t \<noteq> RW_tell"
  shows "telling (ts(i := x)) h wr"
proof -
  from assms(1) obtain j u where u: "ts j = Some u" "rw_pipe u = h" "rw_write u = wr" "rw_pc u = RW_tell" by (auto simp: telling_def)
  then have "j \<noteq> i" using assms(2,3) by auto
  then show ?thesis using u by (auto simp: telling_def intro!: exI [of _ j])
qed

lemma threads_upd: "threads_inv ts g \<Longrightarrow> gd_pipes g (rw_pipe t) \<noteq> None \<Longrightarrow> threads_inv (ts(i \<mapsto> t)) g"
  by (simp add: threads_inv_def)

text \<open>A thread that is not about to tell the device moves without a change to what others rely on.\<close>

lemma sys_ok_move:
  assumes s: "sys_ok ok ts g A" and i: "ts i = Some t" "rw_pc t \<noteq> RW_tell" and q: "quiet g g'" "bus_ok ok g' A"
    and t': "rw_pipe t' = rw_pipe t"
  shows "sys_ok ok (ts(i \<mapsto> t')) g' A"
proof (rule sys_ok_quiet [OF s q grows_refl])
  show "telling (ts(i \<mapsto> t')) h wr \<or> wants A h wr" if "telling ts h wr" for h wr using telling_upd [OF that i] by blast
  show "threads_inv (ts(i \<mapsto> t')) g" using s i(1) t' by (auto simp: sys_ok_def threads_inv_def)
qed

lemma tree_inv_dom:
  assumes "tree_inv g A" and "gd_tree g' = gd_tree g" and "\<And>h. (gd_pipes g' h = None) = (gd_pipes g h = None)"
    and "dom (sp_chans B) = dom (sp_chans A)"
  shows "tree_inv g' B"
proof -
  have "dom (gd_pipes g') = dom (gd_pipes g)" using assms(3) by (auto simp: dom_def)
  then show ?thesis using assms unfolding tree_inv_def by simp
qed

lemma set_pipe_quiet: "set_pipe h f g = Some g' \<Longrightarrow> (\<And>p. qp_flags (f p) = qp_flags p) \<Longrightarrow> quiet g g'"
  by (auto simp: set_pipe_def quiet_def bind_eq_Some_conv)

lemma set_pipe_bus: "set_pipe h f g = Some g' \<Longrightarrow> bus_ok ok g' A = bus_ok ok g A"
  by (auto simp: set_pipe_def bus_ok_def bind_eq_Some_conv)

lemma set_pipe_returns: "gd_pipes g h \<noteq> None \<Longrightarrow> \<exists>g'. set_pipe h f g = Some g'"
  by (auto simp: set_pipe_def)

subsection \<open>The abstract device\<close>

lemma wants_grow: "sp_chans A (ucast h) \<noteq> None \<Longrightarrow> bit fl (wake_flag wr) \<Longrightarrow> wants (spec_want (ucast h) fl A) h wr"
  by (auto simp: wants_def spec_want_def bit_simps)

lemma spec_want_grows: "grows A (spec_want ch fl A)"
  by (auto simp: grows_def wants_def spec_want_def dom_def bit_simps split: if_splits)

lemma spec_wake_grows: "grows A (spec_wake ch fl A)"
  using spec_want_grows [of A ch fl] by (simp add: spec_wake_def grows_def wants_def)

lemma grows_trans: "grows A B \<Longrightarrow> grows B C \<Longrightarrow> grows A C"
  by (simp add: grows_def)

lemma spec_shut_grows: "grows A (spec_shut ch A)"
proof (cases "sp_chans A ch")
  case (Some c)
  have "grows A (A\<lparr>sp_chans := (sp_chans A)(ch \<mapsto> c\<lparr>cs_closed := True\<rparr>)\<rparr>)"
    using Some by (auto simp: grows_def wants_def dom_def)
  then show ?thesis using Some grows_trans [OF _ spec_wake_grows] by (auto simp: spec_shut_def)
qed (simp add: spec_shut_def)

subsection \<open>Transfers\<close>

context guest_bus
begin

definition moved :: "'w guest \<Rightarrow> pipe_spec \<Rightarrow> rw \<Rightarrow> (rw \<times> 'w guest) option \<Rightarrow> bool" where
  "moved g A t x \<longleftrightarrow> (\<exists>t' g'. x = Some (t', g') \<and> quiet g g' \<and> bus_ok inv g' A \<and> rw_pipe t' = rw_pipe t)"

lemma movedI: "bus_ok inv g A \<Longrightarrow> rw_pipe t' = rw_pipe t \<Longrightarrow> moved g A t (Some (t', g))"
  by (auto simp: moved_def quiet_def)

lemma finish_moved:
  assumes "gd_pipes g (rw_pipe t) \<noteq> None" and "bus_ok inv g A"
  shows "moved g A t (rw_finish r t g)"
proof -
  obtain g' where g': "set_pipe (rw_pipe t) (\<lambda>p. p\<lparr>qp_locked := False\<rparr>) g = Some g'" using set_pipe_returns [OF assms(1)] by blast
  show ?thesis using set_pipe_quiet [OF g'] set_pipe_bus [OF g'] assms(2) g' by (simp add: moved_def rw_finish_def)
qed

lemma lock_moved:
  assumes "gd_pipes g (rw_pipe t) \<noteq> None" and "bus_ok inv g A" and "rw_pipe t' = rw_pipe t"
  shows "moved g A t (do { g1 \<leftarrow> set_pipe (rw_pipe t) (\<lambda>p. p\<lparr>qp_locked := True\<rparr>) g; Some (t', g1) })"
proof -
  obtain g' where g': "set_pipe (rw_pipe t) (\<lambda>p. p\<lparr>qp_locked := True\<rparr>) g = Some g'" using set_pipe_returns [OF assms(1)] by blast
  show ?thesis using set_pipe_quiet [OF g'] set_pipe_bus [OF g'] assms(2,3) g' by (simp add: moved_def)
qed

lemma moved_after: "quiet g g1 \<Longrightarrow> moved g1 A t x \<Longrightarrow> moved g A t x"
  using quiet_trans by (auto simp: moved_def)

lemma iterate_moved:
  assumes p: "gd_pipes g (rw_pipe t) \<noteq> None" and b: "bus_ok inv g A" and pg: "fst page \<noteq> 0"
  shows "moved g A t (rw_iterate bd page t g)"
proof (cases "\<not> rw_address t < rw_end t \<or> fst page < 0")
  case True
  then show ?thesis using finish_moved [OF p b] movedI [OF b] by (auto simp: rw_iterate_def)
next
  case False
  let ?cmd = "PIPE_CMD_WRITE_BUFFER + cmd_offset (rw_write t)"
  let ?x = "if gd_version g \<noteq> 0 then snd page OR (rw_address t AND NOT PAGE_MASK) else rw_address t"
  have c: "?cmd \<in> {PIPE_CMD_READ_BUFFER, PIPE_CMD_WRITE_BUFFER}" by (simp add: cmd_offset_def)
  from transfer_page_ok [OF b c, of ?x "rw_chunk (rw_address t) (rw_end t)" "rw_pipe t"] obtain status g1 where
    1: "transfer_page bd ?cmd ?x (rw_chunk (rw_address t) (rw_end t)) (rw_pipe t) g = Some (status, g1)" "bus_ok inv g1 A" "same_guest g g1" by blast
  have p1: "gd_pipes g1 (rw_pipe t) \<noteq> None" using p same_guest_fields [OF 1(3)] by simp
  have "moved g1 A t (rw_iterate bd page t g)"
    using False pg 1(1) finish_moved [OF p1 1(2)] movedI [OF 1(2)] by (simp add: rw_iterate_def Let_def)
  then show ?thesis by (rule moved_after [OF same_quiet [OF 1(3)]])
qed

text \<open>All places but two: marking the pipe and telling the device.\<close>

lemma step_moved:
  assumes p: "gd_pipes g (rw_pipe t) \<noteq> None" and b: "bus_ok inv g A" and pg: "fst page \<noteq> 0" and pc: "rw_pc t \<noteq> RW_mark" "rw_pc t \<noteq> RW_tell"
  shows "moved g A t (rw_step bd sig page t g)"
proof -
  obtain q where q: "gd_pipes g (rw_pipe t) = Some q" using p by blast
  show ?thesis using pc lock_moved [OF p b] finish_moved [OF p b] iterate_moved [OF p b pg] movedI [OF b] q
    by (cases "rw_pc t") (simp_all add: rw_step_def Let_def)
qed

lemma mark_ok:
  assumes s: "sys_ok inv ts g A" and i: "ts i = Some t" and pc: "rw_pc t = RW_mark"
  shows "\<exists>p g'. gd_pipes g (rw_pipe t) = Some p \<and> rw_step bd sig page t g = Some (t\<lparr>rw_pc := RW_tell\<rparr>, g') \<and>
    sys_ok inv (ts(i \<mapsto> t\<lparr>rw_pc := RW_tell\<rparr>)) g' A \<and>
    gd_pipes g' (rw_pipe t) = Some (p\<lparr>qp_flags := set_bit (wakeBit (rw_write t)) (qp_flags p)\<rparr>)"
proof -
  let ?h = "rw_pipe t" and ?t = "t\<lparr>rw_pc := RW_tell\<rparr>"
  obtain p where p: "gd_pipes g ?h = Some p" using s i unfolding sys_ok_def threads_inv_def by blast
  let ?g = "g\<lparr>gd_pipes := (gd_pipes g)(?h \<mapsto> p\<lparr>qp_flags := set_bit (wakeBit (rw_write t)) (qp_flags p)\<rparr>)\<rparr>"
  have step: "rw_step bd sig page t g = Some (?t, ?g)" using p pc by (simp add: rw_step_def set_pipe_def Let_def)
  have tell: "telling (ts(i \<mapsto> ?t)) ?h (rw_write t)" by (auto simp: telling_def intro!: exI [of _ i])
  have keep: "telling ts h wr \<Longrightarrow> telling (ts(i \<mapsto> ?t)) h wr" for h wr using telling_upd [of ts h wr i t "Some ?t"] i pc by simp
  have "wake_inv (ts(i \<mapsto> ?t)) ?g A" unfolding wake_inv_def
  proof (intro allI impI)
    fix h q wr assume q: "gd_pipes ?g h = Some q" "bit (qp_flags q) (wakeBit wr)"
    show "wants A h wr \<or> telling (ts(i \<mapsto> ?t)) h wr"
    proof (cases "h = ?h \<and> wr = rw_write t")
      case False
      then have "\<exists>q0. gd_pipes g h = Some q0 \<and> bit (qp_flags q0) (wakeBit wr)"
        using q p by (auto simp: bit_set_bit_iff wakeBit_def split: if_splits)
      then show ?thesis using s keep unfolding sys_ok_def wake_inv_def by blast
    qed (use tell in auto)
  qed
  moreover have "tree_inv ?g A" by (rule tree_inv_dom [of g A]) (use s p in \<open>auto simp: sys_ok_def\<close>)
  moreover have "threads_inv (ts(i \<mapsto> ?t)) ?g" "bus_ok inv ?g A" using s i p by (auto simp: sys_ok_def threads_inv_def bus_ok_def)
  ultimately show ?thesis using step p by (auto simp: sys_ok_def)
qed

lemma tell_ok:
  assumes s: "sys_ok inv ts g A" and i: "ts i = Some t" and pc: "rw_pc t = RW_tell"
  shows "\<exists>g'. rw_step bd sig page t g = Some (t\<lparr>rw_pc := RW_wait\<rparr>, g') \<and> quiet g g' \<and> sys_ok inv (ts(i \<mapsto> t\<lparr>rw_pc := RW_wait\<rparr>)) g'
    (spec_command (PIPE_CMD_WAKE_ON_WRITE + cmd_offset (rw_write t)) (ucast (rw_pipe t)) A)"
proof -
  let ?h = "rw_pipe t" and ?t = "t\<lparr>rw_pc := RW_wait\<rparr>" and ?cmd = "PIPE_CMD_WAKE_ON_WRITE + cmd_offset (rw_write t)"
  let ?B = "spec_command ?cmd (ucast ?h) A"
  obtain p where p: "gd_pipes g ?h = Some p" using s i unfolding sys_ok_def threads_inv_def by blast
  have b: "bus_ok inv g A" and tr: "tree_inv g A" using s by (simp_all add: sys_ok_def)
  obtain c where c: "sp_chans A (ucast ?h) = Some c" using tr p using tree_channel by blast
  obtain g1 where 1: "channel_command bd ?h ?cmd g = Some g1" "bus_ok inv g1 ?B" "same_guest g g1" using channel_command_ok [OF b] by blast
  obtain g2 where 2: "set_pipe ?h (\<lambda>p. p\<lparr>qp_locked := False\<rparr>) g1 = Some g2"
    using set_pipe_returns [of g1 ?h] p same_guest_fields [OF 1(3)] by fastforce
  have step: "rw_step bd sig page t g = Some (?t, g2)" using p pc 1(1) 2 by (simp add: rw_step_def Let_def)
  have q: "quiet g g2" using quiet_trans [OF same_quiet [OF 1(3)] set_pipe_quiet [OF 2]] by simp
  have B: "?B = (if cs_closed c then A else spec_want (ucast ?h) (if rw_write t then 4 else 2) A)"
    using c by (simp add: spec_command_def cmd_offset_def)
  have w: "wants ?B ?h (rw_write t)"
  proof (cases "cs_closed c")
    case False
    have "bit ((if rw_write t then 4 else 2) :: u8) (wake_flag (rw_write t))" by (simp add: wake_flag_def)
    then show ?thesis unfolding B using wants_grow [of A ?h] c False by simp
  qed (use c B in \<open>simp add: wants_def\<close>)
  have "sys_ok inv (ts(i \<mapsto> ?t)) g2 ?B"
  proof (rule sys_ok_quiet [OF s q])
    show "bus_ok inv g2 ?B" using 1(2) set_pipe_bus [OF 2] by simp
    show "grows A ?B" unfolding B using spec_want_grows by simp
    show "telling (ts(i \<mapsto> ?t)) h wr \<or> wants ?B h wr" if tl: "telling ts h wr" for h wr
    proof -
      from tl obtain j u where u: "ts j = Some u" "rw_pipe u = h" "rw_write u = wr" "rw_pc u = RW_tell" by (auto simp: telling_def)
      then show ?thesis using w i by (cases "j = i") (auto simp: telling_def intro!: exI [of _ j])
    qed
    show "threads_inv (ts(i \<mapsto> ?t)) g" using s p by (auto simp: sys_ok_def threads_inv_def)
  qed
  then show ?thesis using step q by blast
qed

lemma rw_step_ok:
  assumes s: "sys_ok inv ts g A" and i: "ts i = Some t" and pg: "fst page \<noteq> 0"
  shows "\<exists>t' g' B. rw_step bd sig page t g = Some (t', g') \<and> sys_ok inv (ts(i \<mapsto> t')) g' B"
proof -
  consider "rw_pc t = RW_mark" | "rw_pc t = RW_tell" | "rw_pc t \<noteq> RW_mark" "rw_pc t \<noteq> RW_tell" by blast
  then show ?thesis
  proof cases
    case 3
    have "gd_pipes g (rw_pipe t) \<noteq> None" "bus_ok inv g A" using s i unfolding sys_ok_def threads_inv_def by blast+
    from step_moved [OF this pg 3, of sig] obtain t' g' where
      m: "rw_step bd sig page t g = Some (t', g')" "quiet g g'" "bus_ok inv g' A" "rw_pipe t' = rw_pipe t" unfolding moved_def by blast
    then show ?thesis using sys_ok_move [OF s i 3(2) m(2-4)] by blast
  qed (use mark_ok [OF s i] tell_ok [OF s i] in blast)+
qed

subsection \<open>Interrupts\<close>

text \<open>Reading the channel register pops the first signaled channel.\<close>

lemma read_signaled:
  assumes b: "bus_ok inv g A" and q: "sp_signaled A = ucast (h :: u32) # hs"
  obtains g1 c where "readl PIPE_REG_CHANNEL g = Some (h, g1)" "sp_chans A (ucast h) = Some c"
    "readl PIPE_REG_WAKES g1 = Some (ucast (cs_wanted c), g1)" "bus_ok inv g1 (spec_read_channel A)" "same_guest g g1"
proof -
  have sim: "pipe_sim (gd_hw g) A" and i: "inv (gd_hw g)" and lc: "low_channel (gd_hw g)" using b by (simp_all add: bus_ok_def)
  obtain s c where s: "pipe_dev_read PIPE_REG_CHANNEL (gd_hw g) = Some (ucast h AND 0xFFFFFFFF, s)" "sp_chans A (ucast h) = Some c"
    "pd_wakes s = ucast (cs_wanted c)" "pipe_sim s (spec_read_channel A)" using sim q by (rule read_channel_sim)
  have m: "(0xFFFFFFFF :: u64) = mask 32" by (simp add: mask_eq_exp_minus_1)
  have h: "(ucast (ucast h AND (0xFFFFFFFF :: u64)) :: u32) = h" unfolding m by (rule bit_word_eqI) (auto simp: bit_simps)
  have "inv s" using read_returns [OF i, of PIPE_REG_CHANNEL] s(1) by auto
  moreover have "low_channel s" using s(1) lc by (auto simp: pipe_dev_read_def low_channel_def Let_def bind_eq_Some_conv split: if_splits)
  moreover have "readl PIPE_REG_CHANNEL g = Some (h, g\<lparr>gd_hw := s\<rparr>)" using s(1) h by (simp add: readl_def)
  moreover have "readl PIPE_REG_WAKES (g\<lparr>gd_hw := s\<rparr>) = Some (pd_wakes s, g\<lparr>gd_hw := s\<rparr>)" by (simp add: readl_def pipe_dev_read_def ucast_back)
  ultimately show ?thesis using s that [of "g\<lparr>gd_hw := s\<rparr>" c] by (simp add: bus_ok_def)
qed

lemma read_none:
  assumes b: "bus_ok inv g A" and q: "sp_signaled A = []"
  shows "readl PIPE_REG_CHANNEL g = Some (0, g)"
proof -
  obtain xs ws where l: "pipe_lists (gd_hw g) xs ws" "sp_signaled A = map (chan_of (gd_hw g)) ws" using b by (auto simp: bus_ok_def elim: pipe_simE)
  then have "pd_signaled_pipes (gd_hw g) = NULL" using q by (simp add: pipe_lists_def)
  then show ?thesis by (simp add: readl_def pipe_dev_read_def)
qed

end

text \<open>The device after all pending events were read, and the driver's objects after that.\<close>

definition drained :: "pipe_spec \<Rightarrow> pipe_spec" where
  "drained A = A\<lparr>sp_chans := \<lambda>ch. if ch \<in> set (sp_signaled A) then map_option (\<lambda>c. c\<lparr>cs_wanted := 0\<rparr>) (sp_chans A ch) else sp_chans A ch,
     sp_signaled := [], sp_irq := sp_signaled A = [] \<and> sp_irq A\<rparr>"

definition woken :: "pipe_spec \<Rightarrow> 'w guest \<Rightarrow> u32 \<Rightarrow> qemu_pipe option" where
  "woken A g h = (if ucast h \<in> set (sp_signaled A)
     then map_option (wake_pipe (case sp_chans A (ucast h) of None \<Rightarrow> 0 | Some c \<Rightarrow> ucast (cs_wanted c))) (gd_pipes g h)
     else gd_pipes g h)"

lemma drained_Nil: "sp_signaled A = [] \<Longrightarrow> drained A = A"
  by (cases A) (simp add: drained_def)

lemma drained_Cons:
  assumes "sp_signaled A = ch # q" and "ch \<notin> set q"
  shows "drained (spec_read_channel A) = drained A"
  using assms by (cases A) (auto simp: drained_def spec_read_channel_def fun_eq_iff option.map_comp comp_def)

context guest_bus
begin

lemma interrupt_ok:
  assumes "bus_ok inv g A" and "tree_inv g A"
  shows "\<exists>g'. interrupt_loop k g = Some (k + length (sp_signaled A), g') \<and> bus_ok inv g' (drained A) \<and>
    gd_tree g' = gd_tree g \<and> gd_pipes g' = woken A g"
  using assms
proof (induction "sp_signaled A" arbitrary: A g k)
  case Nil
  then have "interrupt_loop k g = Some (k, g)" using read_none [OF Nil.prems(1)] by (subst interrupt_loop.simps) simp
  then show ?case using Nil by (simp add: drained_Nil woken_def fun_eq_iff)
next
  case (Cons ch q)
  have "pipe_sim (gd_hw g) A" using Cons.prems(1) by (simp add: bus_ok_def)
  then obtain c0 where "sp_chans A ch = Some c0" using Cons(2) [symmetric] by (rule read_channel_sim)
  then have "ch \<in> ucast ` dom (gd_pipes g)" using Cons.prems(2) unfolding tree_inv_def by blast
  then obtain h p where h0: "ch = ucast h" "gd_pipes g h = Some p" by auto
  then have h: "ch = ucast h" "gd_pipes g h = Some p" "h \<noteq> 0" "gd_tree g h = Some h" using Cons.prems(2) by (auto simp: tree_inv_def)
  have sg: "sp_signaled A = ucast h # q" using Cons(2) h(1) by simp
  have d: "ch \<notin> set q" using pipe_sim_distinct [of "gd_hw g" A] Cons.prems(1) sg h(1) by (simp add: bus_ok_def)
  obtain g1 c where r: "readl PIPE_REG_CHANNEL g = Some (h, g1)" "sp_chans A (ucast h) = Some c"
    "readl PIPE_REG_WAKES g1 = Some (ucast (cs_wanted c), g1)" "bus_ok inv g1 (spec_read_channel A)" "same_guest g g1"
    using read_signaled [OF Cons.prems(1) sg] by blast
  note f = same_guest_fields [OF r(5)]
  let ?g2 = "g1\<lparr>gd_pipes := (gd_pipes g1)(h \<mapsto> wake_pipe (ucast (cs_wanted c)) p)\<rparr>"
  have sp: "set_pipe h (wake_pipe (ucast (cs_wanted c))) g1 = Some ?g2" using h(2) f by (simp add: set_pipe_def)
  have loop: "interrupt_loop k g = interrupt_loop (k + 1) ?g2"
    using h(3,4) r(1,3) sp f by (subst interrupt_loop.simps) simp
  let ?A = "spec_read_channel A"
  have A: "sp_signaled ?A = q" "sp_chans ?A = (sp_chans A)(ch \<mapsto> c\<lparr>cs_wanted := 0\<rparr>)"
    using sg r(2) h(1) by (simp_all add: spec_read_channel_def)
  have "tree_inv ?g2 ?A" by (rule tree_inv_dom [OF Cons.prems(2)]) (use f h A r(2) in auto)
  moreover have "bus_ok inv ?g2 ?A" using r(4) by (simp add: bus_ok_def)
  ultimately obtain g' where g': "interrupt_loop (k + 1) ?g2 = Some (k + 1 + length q, g')" "bus_ok inv g' (drained ?A)"
    "gd_tree g' = gd_tree ?g2" "gd_pipes g' = woken ?A ?g2" using Cons(1) [of ?A ?g2 "k + 1"] A(1) by auto
  have "woken ?A ?g2 = woken A g"
    using sg A d h f r(2) by (auto simp: woken_def fun_eq_iff ucast_inj32)
  then show ?case using loop g' drained_Cons [OF sg] d h(1) f sg by simp
qed

text \<open>What the handler takes from the device it gives to the pipe.\<close>

lemma and_bits: "w AND 1 \<noteq> 0 \<longleftrightarrow> bit w 0" "w AND 2 \<noteq> 0 \<longleftrightarrow> bit w 1" "w AND 4 \<noteq> 0 \<longleftrightarrow> bit w 2" for w :: "'l::len word"
  by (simp_all add: bit_iff_and_push_bit_not_eq_0)

lemma wake_pipe_bits:
  "bit (qp_flags (wake_pipe wakes p)) (wakeBit wr) \<longleftrightarrow> bit (qp_flags p) (wakeBit wr) \<and> \<not> bit wakes 0 \<and> \<not> bit wakes (wake_flag wr)"
  by (cases wr) (auto simp: wake_pipe_def Let_def wakeBit_def wake_flag_def bit_set_bit_iff bit_unset_bit_iff bit_or_iff and_bits split: if_splits)

lemma wake_pipe_closed: "bit (qp_flags (wake_pipe wakes p)) BIT_CLOSED_ON_HOST \<longleftrightarrow> bit (qp_flags p) BIT_CLOSED_ON_HOST \<or> bit wakes 0"
  by (auto simp: wake_pipe_def Let_def bit_set_bit_iff bit_unset_bit_iff and_bits)

lemma irq_ok:
  assumes s: "sys_ok inv ts g A"
  shows "\<exists>g'. qemu_pipe_interrupt g = Some (sp_signaled A \<noteq> [], g') \<and> sys_ok inv ts g' (drained A) \<and> gd_pipes g' = woken A g"
proof -
  have b: "bus_ok inv g A" "tree_inv g A" "threads_inv ts g" "wake_inv ts g A" using s by (simp_all add: sys_ok_def)
  obtain g' where g': "interrupt_loop 0 g = Some (length (sp_signaled A), g')" "bus_ok inv g' (drained A)" "gd_tree g' = gd_tree g"
    "gd_pipes g' = woken A g" using interrupt_ok [OF b(1,2), of 0] by auto
  have d: "(gd_pipes g' h = None) = (gd_pipes g h = None)" for h using g'(4) by (simp add: woken_def)
  have "tree_inv g' (drained A)" by (rule tree_inv_dom [OF b(2) g'(3) d]) (auto simp: drained_def dom_def split: if_splits)
  moreover have "threads_inv ts g'" using b(3) d by (simp add: threads_inv_def)
  moreover have "wake_inv ts g' (drained A)" unfolding wake_inv_def
  proof (intro allI impI)
    fix h q wr assume q: "gd_pipes g' h = Some q" "bit (qp_flags q) (wakeBit wr)"
    then obtain p where p: "gd_pipes g h = Some p" using d by (metis option.exhaust)
    obtain c where c: "sp_chans A (ucast h) = Some c" using tree_channel [OF b(2) p] by blast
    have w: "bit (qp_flags p) (wakeBit wr)" "ucast h \<in> set (sp_signaled A) \<Longrightarrow> \<not> bit (cs_wanted c) (wake_flag wr)"
      using q p c g'(4) by (auto simp: woken_def wake_pipe_bits wake_flag_def bit_ucast_iff split: if_splits)
    from b(4) p w(1) have "wants A h wr \<or> telling ts h wr" unfolding wake_inv_def by blast
    then show "wants (drained A) h wr \<or> telling ts h wr" using w(2) c by (auto simp: wants_def drained_def)
  qed
  ultimately show ?thesis using g' by (auto simp: qemu_pipe_interrupt_def sys_ok_def)
qed

subsection \<open>The other operations\<close>

lemma poll_ok:
  assumes s: "sys_ok inv ts g A" and p: "gd_pipes g h \<noteq> None"
  shows "\<exists>m g'. qemu_pipe_poll bd h g = Some (m, g') \<and> sys_ok inv ts g' A"
proof -
  have b: "bus_ok inv g A" using s by (simp add: sys_ok_def)
  obtain g1 where 1: "channel_command bd h PIPE_CMD_POLL g = Some g1" "bus_ok inv g1 A" "same_guest g g1"
    using channel_command_ok [OF b, of h PIPE_CMD_POLL] by auto
  obtain v where v: "readl PIPE_REG_STATUS g1 = Some (v, g1)" using read_register [OF 1(2)] by fastforce
  have "sys_ok inv ts g1 A" using s by (intro sys_ok_quiet [OF s same_quiet [OF 1(3)] 1(2) grows_refl]) (simp_all add: sys_ok_def)
  then show ?thesis using 1 v p same_guest_fields [OF 1(3)] by (auto simp: qemu_pipe_poll_def)
qed

lemma open_command:
  assumes b: "bus_ok inv g A" and c: "sp_chans A (ucast h) = None"
  shows "\<exists>g'. channel_command bd h PIPE_CMD_OPEN g = Some g' \<and> bus_ok inv g' (spec_open (ucast h) A) \<and> same_guest g g' \<and> pd_status (gd_hw g') = 0"
proof -
  obtain g1 where 1: "writel bd h PIPE_REG_CHANNEL g = Some g1" "bus_ok inv g1 A" "same_guest g g1" "pd_channel (gd_hw g1) = ucast h"
    using write_channel [OF b] by blast
  obtain g2 where 2: "writel bd PIPE_CMD_OPEN PIPE_REG_COMMAND g1 = Some g2" "bus_ok inv g2 (spec_open (ucast h) A)" "same_guest g1 g2"
    using write_command [OF 1(2), of PIPE_CMD_OPEN] 1(4) c by (auto simp: spec_command_def)
  have sim: "pipe_sim (gd_hw g1) A" "inv (gd_hw g1)" using 1(2) by (simp_all add: bus_ok_def)
  then obtain xs ws where l: "pipe_lists (gd_hw g1) xs ws" by (auto elim: pipe_simE)
  have "\<not> pipe_at (gd_hw g1) (pd_channel (gd_hw g1)) a p" for a p using pipe_sim_absent [OF sim(1)] c 1(4) by simp
  note d = doCommand_absent [OF l this]
  have n: "fst (bd_new bd (gd_hw g1)) \<noteq> NULL" "fst (bd_new bd (gd_hw g1)) \<notin> dom (ps_pipe (gd_hw g1))"
    using new_fresh [OF sim(2)] by (simp_all add: fresh_for_def)
  have "pd_status (gd_hw g2) = 0"
    using 2(1) d cmd_open_spec(1) [OF l n refl, of "snd (bd_new bd (gd_hw g1))"]
    by (cases "bd_new bd (gd_hw g1)") (auto simp: writel_def pipe_dev_write_def)
  then show ?thesis using 1(1) 2 same_guest_trans [OF 1(3) 2(3)] by (simp add: channel_command_def)
qed

lemma open_ok:
  assumes s: "sys_ok inv ts g A" and new: "case new of None \<Rightarrow> True | Some h \<Rightarrow> h \<noteq> 0 \<and> gd_pipes g h = None"
  shows "\<exists>r f g' B. qemu_pipe_open bd new err g = Some (r, f, g') \<and> sys_ok inv ts g' B \<and> (new \<noteq> None \<and> err = 0 \<longrightarrow> r = 0 \<and> f = new)"
proof (cases new)
  case None
  then show ?thesis using s by (auto simp: qemu_pipe_open_def)
next
  case (Some h)
  have h: "h \<noteq> 0" "gd_pipes g h = None" using new Some by auto
  have b: "bus_ok inv g A" "tree_inv g A" "threads_inv ts g" "wake_inv ts g A" using s by (simp_all add: sys_ok_def)
  have tr: "gd_tree g h = None" "sp_chans A (ucast h) = None" using tree_no_channel [OF b(2) h(2)] by simp_all
  show ?thesis
  proof (cases "err = 0")
    case False
    have "g\<lparr>gd_pipes := (gd_pipes g)(h := None)\<rparr> = g" using h(2) by (cases g) (simp add: fun_upd_idem)
    then show ?thesis using s tr(1) Some False by (auto simp: qemu_pipe_open_def radix_tree_insert_def Let_def)
  next
    case True
    let ?g = "g\<lparr>gd_pipes := (gd_pipes g)(h \<mapsto> \<lparr>qp_locked = False, qp_flags = 0\<rparr>), gd_tree := (gd_tree g)(h \<mapsto> h)\<rparr>"
    let ?B = "spec_open (ucast h) A"
    have "bus_ok inv ?g A" using b(1) by (simp add: bus_ok_def)
    from open_command [OF this tr(2)] obtain g' where
      g': "channel_command bd h PIPE_CMD_OPEN ?g = Some g'" "bus_ok inv g' ?B" "same_guest ?g g'" "pd_status (gd_hw g') = 0" by blast
    note f = same_guest_fields [OF g'(3)]
    have st: "readl PIPE_REG_STATUS g' = Some (0, g')" using g'(4) by (simp add: readl_def pipe_dev_read_def)
    have "tree_inv g' ?B" using b(2) h f unfolding tree_inv_def by (auto simp: spec_open_def)
    moreover have "threads_inv ts g'" using b(3) f by (simp add: threads_inv_def)
    moreover have "wake_inv ts g' ?B" unfolding wake_inv_def
    proof (intro allI impI)
      fix k q wr assume "gd_pipes g' k = Some q" "bit (qp_flags q) (wakeBit wr)"
      then have "k \<noteq> h" "gd_pipes g k = Some q" "bit (qp_flags q) (wakeBit wr)" using f by (auto split: if_splits)
      then have "k \<noteq> h" "wants A k wr \<or> telling ts k wr" using b(4) unfolding wake_inv_def by blast+
      then show "wants ?B k wr \<or> telling ts k wr" by (auto simp: wants_def spec_open_def ucast_inj32)
    qed
    ultimately have "sys_ok inv ts g' ?B" using g'(2) by (simp add: sys_ok_def)
    moreover have "qemu_pipe_open bd new err g = Some (0, Some h, g')"
      using Some True tr(1) g'(1) st by (simp add: qemu_pipe_open_def radix_tree_insert_def Let_def)
    ultimately show ?thesis using Some by blast
  qed
qed

lemma release_ok:
  assumes s: "sys_ok inv ts g A" and p: "gd_pipes g h \<noteq> None" and no: "\<And>i t. ts i = Some t \<Longrightarrow> rw_pipe t \<noteq> h"
  shows "\<exists>g' B. qemu_pipe_release bd h g = Some g' \<and> sys_ok inv ts g' B \<and> gd_pipes g' = (gd_pipes g)(h := None)"
proof -
  let ?B = "spec_close (ucast h) A"
  have b: "bus_ok inv g A" "tree_inv g A" "threads_inv ts g" "wake_inv ts g A" using s by (simp_all add: sys_ok_def)
  obtain c where "sp_chans A (ucast h) = Some c" using tree_channel [OF b(2)] p by blast
  then have B: "spec_command PIPE_CMD_CLOSE (ucast h) A = ?B" by (simp add: spec_command_def)
  obtain g1 where 1: "channel_command bd h PIPE_CMD_CLOSE g = Some g1" "bus_ok inv g1 ?B" "same_guest g g1"
    using channel_command_ok [OF b(1), of h PIPE_CMD_CLOSE] B by auto
  note f = same_guest_fields [OF 1(3)]
  let ?g = "g1\<lparr>gd_tree := (gd_tree g1)(h := None), gd_pipes := (gd_pipes g1)(h := None)\<rparr>"
  have "tree_inv ?g ?B" using b(2) f image_set_diff [OF inj_ucast32, of "dom (gd_pipes g)" "{h}"]
    unfolding tree_inv_def by (auto simp: spec_close_def)
  moreover have "threads_inv ts ?g" using b(3) f no by (auto simp: threads_inv_def)
  moreover have "wake_inv ts ?g ?B" using b(4) f unfolding wake_inv_def by (auto simp: wants_def spec_close_def ucast_inj32 split: if_splits)
  moreover have "bus_ok inv ?g ?B" using 1(2) by (simp add: bus_ok_def)
  ultimately have "sys_ok inv ts ?g ?B" by (simp add: sys_ok_def)
  moreover have "qemu_pipe_release bd h g = Some ?g" using p 1(1) by (auto simp: qemu_pipe_release_def)
  ultimately show ?thesis using f by auto
qed

subsection \<open>The host\<close>

lemma wake_channel: "qemu_pipe_wake a f s = Some t \<Longrightarrow> pd_channel t = pd_channel s"
  by (auto simp: qemu_pipe_wake_def Let_def bind_eq_Some_conv split: if_splits)

lemma shut_channel: "qemu_pipe_close a s = Some t \<Longrightarrow> pd_channel t = pd_channel s"
  by (auto simp: qemu_pipe_close_def bind_eq_Some_conv dest: wake_channel split: if_splits)

lemma sys_ok_hw:
  assumes s: "sys_ok inv ts g A" and b: "inv t" "pipe_sim t B" "pd_channel t = pd_channel (gd_hw g)" and gr: "grows A B"
  shows "sys_ok inv ts (g\<lparr>gd_hw := t\<rparr>) B"
proof (rule sys_ok_quiet [OF s same_quiet [OF same_guest_hw] _ gr])
  show "bus_ok inv (g\<lparr>gd_hw := t\<rparr>) B" using s b by (simp add: sys_ok_def bus_ok_def low_channel_def)
qed (use s in \<open>simp_all add: sys_ok_def\<close>)

lemma host_wake_ok:
  assumes s: "sys_ok inv ts g A" and a: "ps_pipe (gd_hw g) a = Some p"
  shows "\<exists>t. qemu_pipe_wake a f (gd_hw g) = Some t \<and> sys_ok inv ts (g\<lparr>gd_hw := t\<rparr>) (spec_wake (p_channel p) (ucast f) A)"
proof -
  have b: "pipe_sim (gd_hw g) A" "inv (gd_hw g)" using s by (simp_all add: sys_ok_def bus_ok_def)
  obtain t where t: "qemu_pipe_wake a f (gd_hw g) = Some t" "pipe_sim t (spec_wake (p_channel p) (ucast f) A)"
    using qemu_pipe_wake_sim [OF b(1) a] by blast
  have "inv t" using wake_returns [OF b(2), of a f] a t(1) by auto
  then show ?thesis using sys_ok_hw [OF s _ t(2) wake_channel [OF t(1)] spec_wake_grows] t(1) by blast
qed

lemma host_close_ok:
  assumes s: "sys_ok inv ts g A" and a: "ps_pipe (gd_hw g) a = Some p"
  shows "\<exists>t. qemu_pipe_close a (gd_hw g) = Some t \<and> sys_ok inv ts (g\<lparr>gd_hw := t\<rparr>) (spec_shut (p_channel p) A)"
proof -
  have b: "pipe_sim (gd_hw g) A" "inv (gd_hw g)" using s by (simp_all add: sys_ok_def bus_ok_def)
  obtain t where t: "qemu_pipe_close a (gd_hw g) = Some t" "pipe_sim t (spec_shut (p_channel p) A)"
    using qemu_pipe_close_sim [OF b(1) a] by blast
  have "inv t" using close_returns [OF b(2), of a] a t(1) by auto
  then show ?thesis using sys_ok_hw [OF s _ t(2) shut_channel [OF t(1)] spec_shut_grows] t(1) by blast
qed

lemma host_step_ok:
  assumes s: "sys_ok inv ts g A" and h: "host_step inv (gd_hw g) t"
  shows "\<exists>B. sys_ok inv ts (g\<lparr>gd_hw := t\<rparr>) B"
  using h
proof cases
  case (hs_wake a f)
  then show ?thesis using host_wake_ok [OF s, of a _ f] by fastforce
next
  case (hs_close a)
  then show ?thesis using host_close_ok [OF s, of a] by fastforce
next
  case (hs_world w)
  have "pipe_sim t A" by (rule pipe_sim_view [of "gd_hw g"]) (use s hs_world in \<open>simp_all add: sys_ok_def bus_ok_def same_view_def\<close>)
  then show ?thesis using sys_ok_hw [OF s _ _ _ grows_refl, of t] hs_world by auto
qed

subsection \<open>Reachable states\<close>

lemma setup_ok:
  assumes b: "bus_ok inv g A"
  shows "\<exists>r g'. setup_access_params_addr bd new g = Some (r, g') \<and> bus_ok inv g' A \<and> gd_pipes g' = gd_pipes g \<and> gd_tree g' = gd_tree g"
proof (cases new)
  case None
  then show ?thesis using b by (simp add: setup_access_params_addr_def)
next
  case (Some aps)
  obtain g1 where 1: "writel bd (ucast (drop_bit 32 (bd_pa bd aps))) PIPE_REG_PARAMS_ADDR_HIGH g = Some g1" "bus_ok inv g1 A" "same_guest g g1"
    using write_register [OF b] by blast
  obtain g2 where 2: "writel bd (ucast (bd_pa bd aps)) PIPE_REG_PARAMS_ADDR_LOW g1 = Some g2" "bus_ok inv g2 A" "same_guest g1 g2"
    using write_register [OF 1(2)] by blast
  obtain hi lo where "readl PIPE_REG_PARAMS_ADDR_HIGH g2 = Some (hi, g2)" "readl PIPE_REG_PARAMS_ADDR_LOW g2 = Some (lo, g2)"
    using read_register [OF 2(2), of PIPE_REG_PARAMS_ADDR_HIGH] read_register [OF 2(2), of PIPE_REG_PARAMS_ADDR_LOW] by auto
  then have "\<exists>ok. valid_batchbuffer_addr bd aps g2 = Some (ok, g2)" by (simp add: valid_batchbuffer_addr_def)
  then obtain ok where v: "valid_batchbuffer_addr bd aps g2 = Some (ok, g2)" by blast
  note f = same_guest_fields [OF same_guest_trans [OF 1(3) 2(3)]]
  have "bus_ok inv (g2\<lparr>gd_aps := aps\<rparr>) A" using 2(2) by (simp add: bus_ok_def)
  then show ?thesis using Some 1(1) 2(1,2) v f by (cases ok) (simp_all add: setup_access_params_addr_def)
qed

lemma boot_ok:
  assumes i: "inv (qemu_pipe_initfn svcs ram w)"
  shows "\<exists>g. qemu_pipe_probe bd True True 0 0 new (guest_off (qemu_pipe_initfn svcs ram w)) = Some (0, g) \<and>
    guest_inv inv (Map.empty, g) \<and> gd_pipes g = Map.empty"
proof -
  let ?s = "qemu_pipe_initfn svcs ram w"
  let ?A = "\<lparr>sp_chans = Map.empty, sp_signaled = [], sp_irq = False\<rparr>"
  let ?g = "(guest_off ?s)\<lparr>gd_mapped := True, gd_irqs := [DevId], gd_misc := True\<rparr>"
  have "pipe_sim ?s ?A" by (auto simp: pipe_sim_def qemu_pipe_initfn_def pipe_lists_def pipe_chans_def chans_sim_def)
  then have b: "bus_ok inv ?g ?A"
    using i by (auto simp: bus_ok_def guest_off_def low_channel_def qemu_pipe_initfn_def intro!: exI [of _ 0])
  from setup_ok [OF this, of new] obtain r g1 where
    1: "setup_access_params_addr bd new ?g = Some (r, g1)" "bus_ok inv g1 ?A" "gd_pipes g1 = Map.empty" "gd_tree g1 = Map.empty"
    by (auto simp: guest_off_def)
  obtain v where v: "readl PIPE_REG_VERSION g1 = Some (v, g1)" using read_register [OF 1(2)] by fastforce
  have "qemu_pipe_probe bd True True 0 0 new (guest_off ?s) = Some (0, g1\<lparr>gd_version := v\<rparr>)"
    using 1(1) v by (simp add: qemu_pipe_probe_def guest_off_def Let_def)
  moreover have "sys_ok inv Map.empty (g1\<lparr>gd_version := v\<rparr>) ?A"
    using 1 by (simp add: sys_ok_def bus_ok_def tree_inv_def threads_inv_def wake_inv_def)
  ultimately show ?thesis using 1(3) by (auto simp: guest_inv_def)
qed

lemma step_inv:
  assumes "guest_step bd inv x y" and "guest_inv inv x"
  shows "guest_inv inv y"
  using assms
proof (induction rule: guest_step.induct)
  case (gs_begin ts i g h wr nb buf n acc t)
  then obtain A where s: "sys_ok inv ts g A" by (auto simp: guest_inv_def)
  have t: "rw_pipe t = h" using gs_begin.hyps(3) by (auto simp: rw_begin_def bind_eq_Some_conv)
  have "sys_ok inv (ts(i \<mapsto> t)) g A"
  proof (rule sys_ok_quiet [OF s same_quiet [OF same_guest_refl] _ grows_refl])
    show "telling (ts(i \<mapsto> t)) k wr \<or> wants A k wr" if tl: "telling ts k wr" for k wr
    proof -
      from tl obtain j u where "ts j = Some u" "rw_pipe u = k" "rw_write u = wr" "rw_pc u = RW_tell" by (auto simp: telling_def)
      then show ?thesis using gs_begin.hyps(1) by (auto simp: telling_def intro!: exI [of _ j])
    qed
    show "threads_inv (ts(i \<mapsto> t)) g" using s t gs_begin.hyps(2) by (auto simp: sys_ok_def threads_inv_def)
  qed (use s in \<open>simp add: sys_ok_def\<close>)
  then show ?case by (auto simp: guest_inv_def)
next
  case (gs_run ts i t page sig g t' g')
  then obtain A where s: "sys_ok inv ts g A" by (auto simp: guest_inv_def)
  show ?case using rw_step_ok [OF s gs_run.hyps(1,2), of sig] gs_run.hyps(3) by (auto simp: guest_inv_def)
next
  case (gs_end ts i t r g)
  then obtain A where s: "sys_ok inv ts g A" by (auto simp: guest_inv_def)
  have "sys_ok inv (ts(i := None)) g A"
    using s telling_upd [of ts _ _ i t None] gs_end.hyps
    by (intro sys_ok_quiet [OF s same_quiet [OF same_guest_refl] _ grows_refl]) (auto simp: sys_ok_def threads_inv_def)
  then show ?case by (auto simp: guest_inv_def)
next
  case (gs_poll g h p m g' ts)
  then show ?case using poll_ok [of ts g _ h] by (fastforce simp: guest_inv_def)
next
  case (gs_irq g b g' ts)
  then show ?case using irq_ok [of ts g] by (fastforce simp: guest_inv_def)
next
  case (gs_open new g err r f g' ts)
  then show ?case using open_ok [of ts g _ new err] by (fastforce simp: guest_inv_def)
next
  case (gs_release g h ts g')
  then obtain A where s: "sys_ok inv ts g A" by (auto simp: guest_inv_def)
  show ?case using release_ok [OF s gs_release.hyps(1,2)] gs_release.hyps(3) by (auto simp: guest_inv_def)
next
  case (gs_host g s ts)
  then show ?case using host_step_ok [of ts g _ s] by (auto simp: guest_inv_def)
qed

lemma guest_reach_inv: "guest_reach bd inv x \<Longrightarrow> guest_inv inv x"
proof (induction rule: guest_reach.induct)
  case (gr_boot svcs ram w new g)
  then show ?case using boot_ok [OF gr_boot(1), of new] by auto
qed (rule step_inv)

end

end
