(* ===== verification/GuestSafe.thy ===== *)
theory GuestSafe
  imports GuestSystem NetSystem
begin

text \<open>
  The properties of the guest's driver on the emulated device, with the network pipes behind it as
  the instance.
\<close>

subsection \<open>The instance\<close>

definition net_board :: "(machine, unit) net_world board" where
  "net_board = \<lparr>bd_mem = flat_mem,
     bd_new = (\<lambda>s. (Suc (Max (insert 0 (dom (ps_pipe s)))), Suc (Max (insert 0 (dom (ps_conn s)))))), bd_pa = ucast\<rparr>"

lemma above_max: "finite (D :: nat set) \<Longrightarrow> Suc (Max (insert 0 D)) \<notin> D"
  by (metis Max_ge finite_insert insertCI not_less_eq_eq order_refl)

lemma pipe_inv_finite:
  assumes "pipe_inv peer dead winv svcs s"
  shows "finite (dom (ps_pipe s))" and "finite (dom (ps_conn s))"
proof -
  obtain xs ws where l: "pipe_lists s xs ws" and o: "pipe_owns peer dead s" using assms by (rule pipe_invE)
  then show f: "finite (dom (ps_pipe s))" by (simp add: pipe_lists_def)
  have "dom (ps_conn s) \<subseteq> (\<lambda>a. p_opaque (the (ps_pipe s a))) ` dom (ps_pipe s)"
  proof
    fix c assume "c \<in> dom (ps_conn s)"
    then obtain k p where "ps_conn s c = Some k" "ps_pipe s (pc_pipe k) = Some p" "p_opaque p = c"
      using o unfolding pipe_owns_def by blast
    then show "c \<in> (\<lambda>a. p_opaque (the (ps_pipe s a))) ` dom (ps_pipe s)" by (auto intro!: image_eqI [of _ _ "pc_pipe k"])
  qed
  then show "finite (dom (ps_conn s))" using f finite_subset by blast
qed

abbreviation net_inv :: "(machine, unit) net_world pipe_sys \<Rightarrow> bool" where
  "net_inv \<equiv> pipe_inv net_peer net_dead (net_os.winv (\<lambda>k. set (mk_fds k)) (\<lambda>k. set (mk_heap k)))
     (android_net_pipes_init (machine_env 0) 5 [])"

interpretation gnet: guest_board "android_net_pipes_init (machine_env 0) 5 []" net_peer net_dead
  "net_os.winv (\<lambda>k. set (mk_fds k)) (\<lambda>k. set (mk_heap k))" net_board
proof unfold_locales
  fix s assume i: "net_inv s"
  show "fresh_for (fst (bd_new net_board s)) (snd (bd_new net_board s)) s"
    using above_max [OF pipe_inv_finite(1) [OF i]] above_max [OF pipe_inv_finite(2) [OF i]] by (simp add: fresh_for_def net_board_def)
qed

text \<open>A guest with one open pipe, channel 77, and one thread writing to it.\<close>

definition hw77 :: "u8 \<Rightarrow> (machine, unit) net_world pipe_sys" where
  "hw77 wanted = (let s = sys1 0 STATE_CONNECTED in s\<lparr>ps_pipe := [9 \<mapsto> (the (ps_pipe s 9))\<lparr>p_wanted := wanted\<rparr>]\<rparr>)"

definition guest77 :: "u8 \<Rightarrow> u32 \<Rightarrow> (machine, unit) net_world guest" where
  "guest77 wanted flags = (guest_off (hw77 wanted))\<lparr>gd_pipes := [77 \<mapsto> \<lparr>qp_locked = False, qp_flags = flags\<rparr>], gd_tree := [77 \<mapsto> 77],
     gd_mapped := True, gd_irqs := [DevId], gd_misc := True\<rparr>"

definition thread77 :: "rw_pc \<Rightarrow> rw" where
  "thread77 pc = \<lparr>rw_pipe = 77, rw_write = True, rw_nonblock = False, rw_address = 0x1000, rw_end = 0x1004, rw_count = 0, rw_ret = 1,
     rw_pc = pc\<rparr>"

lemma hw77_inv: "net_inv (hw77 wanted)"
proof -
  have "machine.winv (ps_world (hw77 wanted))" using sys1_inv [of 0 STATE_CONNECTED] by (simp add: pipe_inv_def hw77_def Let_def)
  moreover have "pipe_owns net_peer net_dead (hw77 wanted)"
    using world1_props(3) [of STATE_CONNECTED]
    by (auto simp: hw77_def Let_def sys1_def qemu_pipe_initfn_def pipe_owns_def endpoint_ok_def service_pipe_def net_peer_def
        net_dead_def np1_def android_net_pipes_init_def qemu_pipe_add_type_def bytes_def split: if_splits)
  moreover have "pipe_lists (hw77 wanted) [9] []" "pipe_chans (hw77 wanted)"
    by (auto simp: hw77_def Let_def sys1_def qemu_pipe_initfn_def pipe_lists_def pipe_chans_def)
  ultimately show ?thesis by (auto simp: pipe_inv_def hw77_def Let_def sys1_def qemu_pipe_initfn_def)
qed

lemma guest77_inv:
  assumes "bit flags 1 \<Longrightarrow> bit wanted 2" and "\<not> bit flags 2"
  shows "guest_inv net_inv ([4 \<mapsto> thread77 pc], guest77 wanted flags)"
proof -
  let ?A = "\<lparr>sp_chans = [77 \<mapsto> chan_abs (the (ps_pipe (hw77 wanted) 9))], sp_signaled = [], sp_irq = False\<rparr>"
  have "pipe_sim (hw77 wanted) ?A"
    by (rule pipe_simI [of _ "[9]" "[]"])
      (auto simp: hw77_def Let_def sys1_def qemu_pipe_initfn_def pipe_lists_def pipe_chans_def chans_sim_def)
  moreover have "low_channel (hw77 wanted)"
    by (auto simp: low_channel_def hw77_def Let_def sys1_def qemu_pipe_initfn_def intro!: exI [of _ 0])
  ultimately have "sys_ok net_inv [4 \<mapsto> thread77 pc] (guest77 wanted flags) ?A"
    using assms hw77_inv [of wanted]
    by (auto simp: sys_ok_def bus_ok_def guest77_def guest_off_def tree_inv_def threads_inv_def thread77_def wake_inv_def wants_def
        wakeBit_def wake_flag_def hw77_def Let_def sys1_def chan_abs_def split: if_splits)
  then show ?thesis by (auto simp: guest_inv_def)
qed

subsection \<open>An interleaving\<close>

lemma spec_shut_signals:
  "sp_chans A ch = Some c \<Longrightarrow> \<not> cs_closed c \<Longrightarrow> ch \<in> set (sp_signaled (spec_shut ch A)) \<and> sp_irq (spec_shut ch A) \<and>
   (\<exists>d. sp_chans (spec_shut ch A) ch = Some d \<and> cs_closed d \<and> bit (cs_wanted d) 0)"
  by (auto simp: spec_shut_def spec_wake_def spec_want_def bit_simps)

lemma race_steps:
  assumes "qemu_pipe_close a (gd_hw g) = Some u" and "ps_pipe (gd_hw g) a = Some p" and "pd_irq u"
    and "qemu_pipe_interrupt (g\<lparr>gd_hw := u\<rparr>) = Some (b, g2)" and "ts i = Some t"
    and "rw_step bd False (1, 0) t g2 = Some (t1, g3)" and "rw_step bd False (1, 0) t1 g3 = Some (t2, g4)"
    and "rw_step bd False (1, 0) t2 g4 = Some (t3, g5)"
  shows "(guest_step bd ok)\<^sup>*\<^sup>* (ts, g) (ts(i \<mapsto> t3), g5)"
proof -
  have "guest_step bd ok (ts, g) (ts, g\<lparr>gd_hw := u\<rparr>)" by (rule gs_host, rule hs_close) (use assms(1,2) in simp_all)
  moreover have "guest_step bd ok (ts, g\<lparr>gd_hw := u\<rparr>) (ts, g2)" using assms(3,4) by (intro gs_irq) simp_all
  moreover have "guest_step bd ok (ts, g2) (ts(i \<mapsto> t1), g3)" using assms(5,6) by (intro gs_run) simp_all
  moreover have "guest_step bd ok (ts(i \<mapsto> t1), g3) (ts(i \<mapsto> t2), g4)"
    using gs_run [of "ts(i \<mapsto> t1)" i t1 "(1, 0)" bd False g3 t2 g4 ok] assms(7) by simp
  moreover have "guest_step bd ok (ts(i \<mapsto> t2), g4) (ts(i \<mapsto> t3), g5)"
    using gs_run [of "ts(i \<mapsto> t2)" i t2 "(1, 0)" bd False g4 t3 g5 ok] assms(8) by simp
  ultimately show ?thesis by (meson converse_rtranclp_into_rtranclp rtranclp.rtrancl_refl)
qed

subsection \<open>Properties\<close>



text \<open>C6: A sleeping transfer is woken. While a thread sleeps on its pipe's flag, the device has been told to wake
  that channel in that direction, or a thread using the pipe in that direction is about to tell it, or the
  host has closed the channel; and once the host wakes the channel for that direction, the
  interrupt handler recognises the interrupt and the thread leaves its sleep.\<close>

theorem guest_wakeup_delivered:
  assumes "guest_board svcs peer dead winv bd" and "guest_inv (pipe_inv peer dead winv svcs) (ts, g)"
    and "ts i = Some t" and "rw_pc t = RW_sleep" and "gd_pipes g (rw_pipe t) = Some q" and "bit (qp_flags q) (wakeBit (rw_write t))"
  shows "\<exists>a p. ps_pipe (gd_hw g) a = Some p \<and> p_channel p = ucast (rw_pipe t) \<and>
    (p_closed p \<or> bit (p_wanted p) (wake_flag (rw_write t)) \<or> telling ts (rw_pipe t) (rw_write t)) \<and>
    (\<forall>f. bit f (wake_flag (rw_write t)) \<longrightarrow>
       (\<exists>s g'. qemu_pipe_wake a f (gd_hw g) = Some s \<and> qemu_pipe_interrupt (g\<lparr>gd_hw := s\<rparr>) = Some (True, g') \<and>
          (\<forall>sig page. \<exists>t'. rw_step bd sig page t g' = Some (t', g') \<and> rw_pc t' \<noteq> RW_sleep)))"
proof -
  let ?h = "rw_pipe t" and ?wr = "rw_write t" and ?inv = "pipe_inv peer dead winv svcs"
  note bus = guest_board.board_is_bus [OF assms(1)]
  from assms(2) obtain A where s: "sys_ok ?inv ts g A" by (auto simp: guest_inv_def)
  then obtain c where c: "sp_chans A (ucast ?h) = Some c" using tree_channel [OF _ assms(5)] by (auto simp: sys_ok_def)
  have "chans_sim (ps_pipe (gd_hw g)) (sp_chans A)" using s by (simp add: sys_ok_def bus_ok_def pipe_sim_def)
  then obtain a p where p: "ps_pipe (gd_hw g) a = Some p" "p_channel p = ucast ?h" "c = chan_abs p" using c by (rule chans_simE)
  have "wants A ?h ?wr \<or> telling ts ?h ?wr" using s assms(5,6) unfolding sys_ok_def wake_inv_def by blast
  then have w: "p_closed p \<or> bit (p_wanted p) (wake_flag ?wr) \<or> telling ts ?h ?wr" using c p(3) by (auto simp: wants_def chan_abs_def)
  have "\<exists>u g'. qemu_pipe_wake a f (gd_hw g) = Some u \<and> qemu_pipe_interrupt (g\<lparr>gd_hw := u\<rparr>) = Some (True, g') \<and>
     (\<forall>sig page. \<exists>t'. rw_step bd sig page t g' = Some (t', g') \<and> rw_pc t' \<noteq> RW_sleep)" if f: "bit f (wake_flag ?wr)" for f
  proof -
    let ?B = "spec_wake (ucast ?h) (ucast f) A"
    obtain u where u: "qemu_pipe_wake a f (gd_hw g) = Some u" "sys_ok ?inv ts (g\<lparr>gd_hw := u\<rparr>) ?B"
      using guest_bus.host_wake_ok [OF bus s p(1), of f] p(2) by auto
    have B: "ucast ?h \<in> set (sp_signaled ?B)" "sp_chans ?B (ucast ?h) = Some (c\<lparr>cs_wanted := cs_wanted c OR ucast f\<rparr>)"
      using c by (auto simp: spec_wake_def spec_want_def)
    from guest_bus.irq_ok [OF bus u(2)] obtain g' where
      g': "qemu_pipe_interrupt (g\<lparr>gd_hw := u\<rparr>) = Some (True, g')" "gd_pipes g' = woken ?B (g\<lparr>gd_hw := u\<rparr>)" using B(1) by force
    have q: "gd_pipes g' ?h = Some (wake_pipe (ucast (cs_wanted c OR ucast f)) q)" using g'(2) B assms(5) by (simp add: woken_def)
    have "\<not> bit (qp_flags (wake_pipe (ucast (cs_wanted c OR ucast f)) q)) (wakeBit ?wr)"
      using f guest_bus.wake_pipe_bits [OF bus] by (simp add: bit_simps wake_flag_def split: if_splits)
    then show ?thesis using u(1) g'(1) q assms(4) by (auto simp: rw_step_def)
  qed
  then show ?thesis using p w by blast
qed

theorem guest_wakeup_delivered_witness:
  "\<exists>a s g'. qemu_pipe_wake a PIPE_WAKE_WRITE (gd_hw (guest77 4 2)) = Some s \<and>
     qemu_pipe_interrupt ((guest77 4 2)\<lparr>gd_hw := s\<rparr>) = Some (True, g') \<and>
     (\<exists>t'. rw_step net_board False (1, 0) (thread77 RW_sleep) g' = Some (t', g') \<and> rw_pc t' \<noteq> RW_sleep)"
proof -
  have "guest_inv net_inv ([4 \<mapsto> thread77 RW_sleep], guest77 4 2)" by (rule guest77_inv) simp_all
  from guest_wakeup_delivered [OF gnet.guest_board_axioms this, of 4 "thread77 RW_sleep" "\<lparr>qp_locked = False, qp_flags = 2\<rparr>"]
  obtain a where "\<forall>f. bit f 2 \<longrightarrow> (\<exists>s g'. qemu_pipe_wake a f (gd_hw (guest77 4 2)) = Some s \<and>
      qemu_pipe_interrupt ((guest77 4 2)\<lparr>gd_hw := s\<rparr>) = Some (True, g') \<and>
      (\<forall>sig page. \<exists>t'. rw_step net_board sig page (thread77 RW_sleep) g' = Some (t', g') \<and> rw_pc t' \<noteq> RW_sleep))"
    by (auto simp: thread77_def guest77_def wakeBit_def wake_flag_def)
  moreover have "bit (PIPE_WAKE_WRITE :: u32) 2" by simp
  ultimately show ?thesis by blast
qed

text \<open>C37: A transfer can sleep for ever on a pipe the host has closed. If the host closes the channel and the
  interrupt is handled after the device has answered that the transfer must wait and before the
  thread marks the pipe, the mark hides the event: the thread goes to sleep although the pipe is
  known to be closed, the device, which ignores requests on a closed channel, has nothing left to
  signal, and without a signal to the process every further step leaves the thread asleep.\<close>

theorem guest_close_race:
  assumes "guest_board svcs peer dead winv bd" and "guest_inv (pipe_inv peer dead winv svcs) (ts, g)"
    and "ts i = Some t" and "rw_pc t = RW_mark"
    and "ps_pipe (gd_hw g) a = Some p" and "p_channel p = ucast (rw_pipe t)" and "\<not> p_closed p"
  shows "\<exists>ts' g' q. (guest_step bd (pipe_inv peer dead winv svcs))\<^sup>*\<^sup>* (ts, g) (ts', g') \<and>
    ts' i = Some (t\<lparr>rw_pc := RW_sleep\<rparr>) \<and> gd_pipes g' (rw_pipe t) = Some q \<and>
    bit (qp_flags q) BIT_CLOSED_ON_HOST \<and> bit (qp_flags q) (wakeBit (rw_write t)) \<and> pd_signaled_pipes (gd_hw g') = NULL \<and>
    (\<forall>page. rw_step bd False page (t\<lparr>rw_pc := RW_sleep\<rparr>) g' = Some (t\<lparr>rw_pc := RW_sleep\<rparr>, g'))"
proof -
  let ?inv = "pipe_inv peer dead winv svcs" and ?h = "rw_pipe t"
  let ?wb = "wakeBit (rw_write t)" and ?pg = "(1, 0) :: int \<times> u32"
  let ?t1 = "t\<lparr>rw_pc := RW_tell\<rparr>" and ?t2 = "t\<lparr>rw_pc := RW_wait\<rparr>" and ?t3 = "t\<lparr>rw_pc := RW_sleep\<rparr>"
  note bus = guest_board.board_is_bus [OF assms(1)]
  from assms(2) obtain A where s: "sys_ok ?inv ts g A" by (auto simp: guest_inv_def)
  have c: "sp_chans A (ucast ?h) = Some (chan_abs p)"
    using s assms(5,6) by (auto simp: sys_ok_def bus_ok_def pipe_at_def intro: pipe_sim_at)
  let ?B = "spec_shut (ucast ?h) A" and ?C = "drained (spec_shut (ucast ?h) A)"
  obtain u where u: "qemu_pipe_close a (gd_hw g) = Some u" "sys_ok ?inv ts (g\<lparr>gd_hw := u\<rparr>) ?B"
    using guest_bus.host_close_ok [OF bus s assms(5)] assms(6) by auto
  obtain d where d: "sp_chans ?B (ucast ?h) = Some d" "cs_closed d" "bit (cs_wanted d) 0" and B: "ucast ?h \<in> set (sp_signaled ?B)" "sp_irq ?B"
    using spec_shut_signals [OF c] assms(7) by (auto simp: chan_abs_def)
  have irq: "pd_irq u" using u(2) B(2) by (auto simp: sys_ok_def bus_ok_def pipe_sim_def)
  obtain g2 where g2: "qemu_pipe_interrupt (g\<lparr>gd_hw := u\<rparr>) = Some (sp_signaled ?B \<noteq> [], g2)" "sys_ok ?inv ts g2 ?C"
    "gd_pipes g2 = woken ?B (g\<lparr>gd_hw := u\<rparr>)" using guest_bus.irq_ok [OF bus u(2)] by blast
  obtain q2 g3 where g3: "gd_pipes g2 ?h = Some q2" "rw_step bd False ?pg t g2 = Some (?t1, g3)" "sys_ok ?inv (ts(i \<mapsto> ?t1)) g3 ?C"
    "gd_pipes g3 ?h = Some (q2\<lparr>qp_flags := set_bit ?wb (qp_flags q2)\<rparr>)"
    using guest_bus.mark_ok [OF bus g2(2) assms(3,4), of False ?pg] by blast
  have q2: "bit (qp_flags q2) 0" using g3(1) g2(3) B(1) d guest_bus.wake_pipe_closed [OF bus]
    by (auto simp: woken_def bit_simps)
  have C: "\<exists>d. sp_chans ?C (ucast ?h) = Some d \<and> cs_closed d" "sp_signaled ?C = []" using B(1) d by (auto simp: drained_def)
  have cmd: "spec_command (PIPE_CMD_WAKE_ON_WRITE + cmd_offset (rw_write t)) (ucast ?h) ?C = ?C"
    using C(1) by (auto simp: spec_command_def cmd_offset_def)
  have t1: "(ts(i \<mapsto> ?t1)) i = Some ?t1" "rw_pc ?t1 = RW_tell" by simp_all
  obtain g4 where g4: "rw_step bd False ?pg ?t1 g3 = Some (?t2, g4)" "quiet g3 g4" "sys_ok ?inv (ts(i \<mapsto> ?t2)) g4 ?C"
    using guest_bus.tell_ok [OF bus g3(3) t1, of False ?pg, unfolded fun_upd_upd] cmd by auto
  have "bit (set_bit ?wb (qp_flags q2)) 0 \<and> bit (set_bit ?wb (qp_flags q2)) ?wb" using q2 by (simp add: bit_set_bit_iff wakeBit_def)
  then obtain q4 where q4: "gd_pipes g4 ?h = Some q4" "bit (qp_flags q4) 0" "bit (qp_flags q4) ?wb"
    using quiet_pipes [OF g4(2), of ?h] g3(4) by (cases "gd_pipes g4 ?h") auto
  have w: "rw_step bd False ?pg ?t2 g4 = Some (?t3, g4)" "rw_step bd False page ?t3 g4 = Some (?t3, g4)" for page
    using q4 by (simp_all add: rw_step_def)
  have "(guest_step bd ?inv)\<^sup>*\<^sup>* (ts, g) (ts(i \<mapsto> ?t3), g4)"
    by (rule race_steps [where ts = ts and i = i, OF u(1) assms(5) irq g2(1) assms(3) g3(2) g4(1) w(1)])
  moreover have "pd_signaled_pipes (gd_hw g4) = NULL"
    using g4(3) C(2) by (auto simp: sys_ok_def bus_ok_def pipe_sim_def pipe_lists_def)
  ultimately show ?thesis using q4 w(2) by (intro exI [of _ "ts(i \<mapsto> ?t3)"] exI [of _ g4] exI [of _ q4]) simp
qed

theorem guest_close_race_witness:
  "\<exists>ts g. (guest_step net_board net_inv)\<^sup>*\<^sup>* ([4 \<mapsto> thread77 RW_mark], guest77 0 0) (ts, g) \<and>
     ts 4 = Some (thread77 RW_sleep) \<and> pd_signaled_pipes (gd_hw g) = NULL"
proof -
  let ?p = "the (ps_pipe (hw77 0) 9)"
  have "guest_inv net_inv ([4 \<mapsto> thread77 RW_mark], guest77 0 0)" by (rule guest77_inv) simp_all
  moreover have "ps_pipe (gd_hw (guest77 0 0)) 9 = Some ?p" "p_channel ?p = 77" "\<not> p_closed ?p"
    by (simp_all add: guest77_def guest_off_def hw77_def Let_def sys1_def)
  ultimately show ?thesis
    using guest_close_race [OF gnet.guest_board_axioms, of "[4 \<mapsto> thread77 RW_mark]" "guest77 0 0" 4 "thread77 RW_mark" 9 ?p]
    by (simp add: thread77_def) blast
qed



end
