(* ===== verification/Spec2Isabelle.thy ===== *)
theory Spec2Isabelle
  imports PipeProtocol SockText NetSystem RenderSafe GuestSafe
begin

text \<open>
  A verification library for the Android emulator built on QEMU: the paravirtual pipe between the
  guest and the host, the services behind it, and the OpenGL renderer they lead to.

  \<^bold>\<open>The program.\<close> A process in the guest opens \<open>/dev/qemu_pipe\<close>. The driver
  (\<open>vm-kernel-qemupipe/qemu_pipe.c\<close>) turns its calls into register accesses of the pipe device
  (\<open>host-qemu/hw/android/pipe.c\<close>), which keeps one object per channel, connects it to a service by
  the name the guest writes first, and passes buffers on. The network services
  (\<open>host-qemu/android/hw-pipe-net.c\<close>) forward a pipe to a socket, watched through the event loop
  (\<open>looper-qemu.c\<close> over \<open>iohandler.c\<close> and the bottom halves of \<open>async.c\<close>); a ready socket wakes the
  pipe, the device raises its interrupt, and the driver's handler wakes the thread. One service leads
  to the renderer (\<open>host-opengl-render\<close>): each connection has a render thread, which decodes a
  stream of commands and performs them on the frame buffer shared by all threads.

  \<^bold>\<open>Conventions.\<close> State is explicit. C objects live in stores, maps from addresses to records, so a
  use after free, a null pointer and an access outside a buffer are the result \<open>None\<close>; a loop that
  may not end is a \<open>partial_function\<close> whose \<open>None\<close> is also not returning, and the theorems state
  that results are \<open>Some\<close>. There is no fuel. Machine integers are words of their width; sizes and
  positions bounded by a buffer are \<open>nat\<close>. Code outside the sources (system calls, \<open>getaddrinfo\<close>,
  EGL and GL, allocators, physical memory, the Linux kernel) is an argument of the definitions that
  use it, and what is relied on is a locale.

  \<^bold>\<open>Theories.\<close>
  \<^item> \<open>Prelude\<close>, \<open>LinkedList\<close>: types, the option monad, generic lemmas; the intrusive lists of the C
    code and the locale \<open>intrusive_list\<close>, interpreted for every link field.
  \<^item> \<open>PipeDevice\<close> models \<open>pipe.c\<close>: one definition per function, with \<open>pipe_dev_read\<close> and
    \<open>pipe_dev_write\<close> as entry points. \<open>PipeInv\<close> and \<open>PipeSafe\<close> hold the invariant of its lists and
    objects, the contract \<open>pipe_backend\<close> of a service, and that every register access returns and
    keeps the invariant. \<open>PipeConnect\<close> has the connector, the register halves and the parameter block;
    \<open>PipeProtocol\<close> the abstract device (channels, requests, a queue of signaled channels, the
    interrupt) and the refinement of every command to it.
  \<^item> \<open>GuestPipe\<close> models the driver; \<open>GuestBus\<close> is its view of the registers as the locale
    \<open>guest_bus\<close>, which every board with services keeping their contract provides; \<open>GuestSystem\<close> is
    driver, device, threads, interrupts and host as a step relation with its invariant; \<open>GuestSafe\<close>
    has the properties and the instance with the network services.
  \<^item> \<open>IoHandler\<close>, \<open>BottomHalf\<close>, \<open>LoopIo\<close>, \<open>QLooper\<close>, \<open>QLooperInv\<close>, \<open>QLooperRun\<close>: the main loop's
    descriptor handlers, bottom halves with the poll timeout, and the watchers over them, with the
    interface \<open>loop_io\<close> and the clients \<open>bh_client\<close> and \<open>io_client\<close>.
  \<^item> \<open>SockAddr\<close>, \<open>SockText\<close>, \<open>Sockets\<close>, \<open>SocketLaws\<close>: \<open>android/sockets.c\<close>; addresses, their text and
    layout, name resolution, and the socket calls under the laws \<open>kernel_fds\<close>.
  \<^item> \<open>OpenGLES\<close>, \<open>AsyncUtils\<close>: \<open>android/opengles.c\<close> and \<open>android/async-utils.c\<close>.
  \<^item> \<open>NetPipe\<close> models \<open>hw-pipe-net.c\<close>; \<open>NetOs\<close>, \<open>NetPipeInv\<close>, \<open>NetPipeSafe\<close>, \<open>NetPipeRun\<close> show that
    it is a \<open>pipe_backend\<close> and a client of the event loop; \<open>NetSystem\<close> has the composed system.
  \<^item> \<open>RenderStream\<close>, \<open>RenderDec\<close>, \<open>RenderThread\<close>: the stream, the renderControl decoder with every
    case, and the loop of the thread. \<open>RenderControl\<close> and \<open>RenderConfig\<close>: the functions behind the
    commands and the configuration table. \<open>RenderObjects\<close>, \<open>FrameBufferOps\<close>: reference-counted
    objects and \<open>FrameBuffer.cpp\<close>. \<open>FrameBufferInv\<close>, \<open>FrameBufferOwn\<close>, \<open>FrameBufferKeep\<close>,
    \<open>FrameBufferNew\<close>, \<open>FrameBufferSafe\<close>, \<open>FrameBufferReach\<close>: ownership as a multiset of references
    and its preservation. \<open>RenderCommands\<close>, \<open>RenderSystem\<close>, \<open>RenderSafe\<close>: commands of a client, their
    effect, and the thread that serves them.

  \<^bold>\<open>What is shown.\<close> Safety of the three systems in every reachable state: device with network pipes,
  event loop and kernel; guest driver on the device; frame buffer under any number of threads.
  Refinement of the device to its abstract protocol, of the descriptor list to a map, and of a
  decoded command to the operation it names. Delivery: an event of a socket reaches the guest's
  interrupt, the interrupt reaches the sleeping thread, pending watchers and due bottom halves are
  called exactly once. Transfers move exactly the bytes they report and end. Resources are not
  leaked: descriptors, watchers, renderer objects. Encodings are inverse to each other or bounded.
  Where the code does not do what it means to, a theorem shows the behaviour: an interrupt left
  raised, a transfer asleep for ever after a close, a mutex left locked, two crashes of the network
  pipes, a decoder that hangs, the text of IPv6 addresses, an image that is too small for a post.

  \<^bold>\<open>Bounds.\<close> The guest is a 32-bit one, as the driver and the 32-bit parameter block are; the device
  is modelled with both block layouts. The byte counter of a driver's transfer is a 32-bit word read
  as a signed number, which is exact below \<open>2\<^sup>3\<^sup>1\<close> bytes. The sections of the driver under
  its spin lock are single steps, and so are polling and loading the driver. The steps of the frame
  buffer are the operations under its mutex.

  \<^bold>\<open>Not modelled.\<close> The GLES decoders, generated switches of several hundred calls into GL, are
  parameters of the render thread. \<open>FrameBuffer::initialize\<close> and \<open>finalize\<close>, the dispatch tables, the
  server's sockets, process start and sub windows (\<open>render_api.cpp\<close>, \<open>RenderServer.cpp\<close>,
  \<open>TcpStream.cpp\<close>, \<open>UnixStream.cpp\<close>, \<open>NativeLinuxSubWindow.cpp\<close>) are calls of EGL, GL, X and the
  operating system. The timers of the event loop are thin wrappers over QEMU's timers. The
  select-based loop (\<open>looper-generic.c\<close>, \<open>iolooper-select.c\<close>, \<open>refset.c\<close>) serves programs outside
  QEMU, and \<open>qemu_pipe1.c\<close> is an older copy of the driver that is not built. The rest of the QEMU tree
  (CPU emulation, device models, block drivers, tools) is upstream code the pipe does not use.
\<close>

end
